(* ===== verification/Prelude.thy ===== *)
theory Prelude
  imports Main "HOL-Library.List_Lexorder" "HOL-Library.Char_ord"
    "HOL-Library.Product_Lexorder" "HOL-Library.Word"
begin

text \<open>
  Shared vocabulary of the development: results in the style of Rust, ordered maps
  (\<^verbatim>\<open>BTreeMap\<close>, and \<^verbatim>\<open>HashMap\<close> with one fixed iteration order), identifier supplies,
  list searches (\<^verbatim>\<open>position\<close>, \<^verbatim>\<open>rposition\<close>, \<^verbatim>\<open>find_map\<close>, \<^verbatim>\<open>max_by_key\<close>) and the
  number formats of \<^verbatim>\<open>format!\<close>. The lemmas here are about lists and maps only; the
  component theories use them through the collections \<open>result_simps\<close> and \<open>omap_simps\<close>.
\<close>

named_theorems result_simps "facts about the Result type"
named_theorems omap_simps "facts about ordered maps"

section \<open>Results\<close>

type_synonym u16 = "16 word"
type_synonym u32 = "32 word"
type_synonym u64 = "64 word"

text \<open>The \<open>?\<close> operator: leave with the error, or go on with the value.\<close>

definition result_bind :: "'e + 'a \<Rightarrow> ('a \<Rightarrow> 'e + 'b) \<Rightarrow> 'e + 'b" where
  "result_bind r f = (case r of Inl e \<Rightarrow> Inl e | Inr a \<Rightarrow> f a)"

definition map_err :: "('e \<Rightarrow> 'f) \<Rightarrow> 'e + 'a \<Rightarrow> 'f + 'a" where
  "map_err f r = (case r of Inl e \<Rightarrow> Inl (f e) | Inr a \<Rightarrow> Inr a)"

definition ok_or :: "'a option \<Rightarrow> 'e \<Rightarrow> 'e + 'a" where
  "ok_or x e = (case x of None \<Rightarrow> Inl e | Some a \<Rightarrow> Inr a)"

definition is_ok :: "'e + 'a \<Rightarrow> bool" where
  "is_ok r = (case r of Inl _ \<Rightarrow> False | Inr _ \<Rightarrow> True)"

lemma result_bind_simps [simp, result_simps]:
  "result_bind (Inl e) f = Inl e"
  "result_bind (Inr a) f = f a"
  by (simp_all add: result_bind_def)

lemma result_bind_Inr_iff [result_simps]:
  "result_bind r f = Inr b \<longleftrightarrow> (\<exists>a. r = Inr a \<and> f a = Inr b)"
  by (cases r) auto

lemma map_err_simps [simp, result_simps]:
  "map_err f (Inl e) = Inl (f e)"
  "map_err f (Inr a) = Inr a"
  by (simp_all add: map_err_def)

lemma map_err_Inr_iff [result_simps]: "map_err f r = Inr a \<longleftrightarrow> r = Inr a"
  by (cases r) auto

lemma ok_or_simps [simp, result_simps]:
  "ok_or None e = Inl e"
  "ok_or (Some a) e = Inr a"
  by (simp_all add: ok_or_def)

lemma is_ok_simps [simp, result_simps]:
  "is_ok (Inl e) = False"
  "is_ok (Inr a) = True"
  by (simp_all add: is_ok_def)

section \<open>List searches\<close>

text \<open>\<^verbatim>\<open>iter().position(p)\<close> and \<^verbatim>\<open>iter().rposition(p)\<close>, and \<^verbatim>\<open>Vec::remove(index)\<close>.\<close>

fun list_position :: "('a \<Rightarrow> bool) \<Rightarrow> 'a list \<Rightarrow> nat option" where
  "list_position p [] = None"
| "list_position p (x # xs) = (if p x then Some 0 else map_option Suc (list_position p xs))"

definition list_rposition :: "('a \<Rightarrow> bool) \<Rightarrow> 'a list \<Rightarrow> nat option" where
  "list_rposition p xs =
     map_option (\<lambda>i. length xs - 1 - i) (list_position p (rev xs))"

definition vec_remove :: "nat \<Rightarrow> 'a list \<Rightarrow> 'a list" where
  "vec_remove i xs = take i xs @ drop (Suc i) xs"

text \<open>\<^verbatim>\<open>iter().max_by_key(f)\<close>: of several maximal elements the last one.\<close>

definition max_by_key :: "('a \<Rightarrow> 'k::linorder) \<Rightarrow> 'a list \<Rightarrow> 'a option" where
  "max_by_key f xs =
     fold (\<lambda>x acc. case acc of None \<Rightarrow> Some x
                   | Some y \<Rightarrow> if f y \<le> f x then Some x else Some y) xs None"

lemma list_position_None [simp]: "list_position p xs = None \<longleftrightarrow> (\<forall>x \<in> set xs. \<not> p x)"
  by (induction xs) auto

lemma list_position_SomeD:
  "list_position p xs = Some i \<Longrightarrow> i < length xs \<and> p (xs ! i) \<and> (\<forall>j < i. \<not> p (xs ! j))"
proof (induction xs arbitrary: i)
  case Nil
  then show ?case by simp
next
  case (Cons x xs)
  then show ?case
    by (fastforce simp: nth_Cons' less_Suc_eq_0_disj split: if_splits)
qed

lemma list_rposition_snoc_hit [simp]: "p x \<Longrightarrow> list_rposition p (xs @ [x]) = Some (length xs)"
  by (simp add: list_rposition_def)

lemma list_rposition_None [simp]: "list_rposition p xs = None \<longleftrightarrow> (\<forall>x \<in> set xs. \<not> p x)"
  by (simp add: list_rposition_def)

lemma list_rposition_SomeD:
  assumes "list_rposition p xs = Some i"
  shows "i < length xs \<and> p (xs ! i) \<and> (\<forall>j. i < j \<and> j < length xs \<longrightarrow> \<not> p (xs ! j))"
proof -
  from assms obtain k where k: "list_position p (rev xs) = Some k" and i: "i = length xs - 1 - k"
    by (auto simp: list_rposition_def)
  from list_position_SomeD [OF k]
  have kl: "k < length xs" and hit: "p (rev xs ! k)" and before: "\<forall>j < k. \<not> p (rev xs ! j)"
    by auto
  have "\<not> p (xs ! j)" if "i < j" "j < length xs" for j
  proof -
    from that kl i have "length xs - Suc j < k" by arith
    with before have "\<not> p (rev xs ! (length xs - Suc j))" by blast
    with that show ?thesis by (simp add: rev_nth Suc_diff_Suc)
  qed
  with kl hit i show ?thesis by (auto simp: rev_nth)
qed

lemma vec_remove_length: "i < length xs \<Longrightarrow> length (vec_remove i xs) = length xs - 1"
  by (simp add: vec_remove_def)

lemma vec_remove_snoc_last [simp]: "vec_remove (length xs) (xs @ [x]) = xs"
  by (simp add: vec_remove_def)

lemma set_vec_remove_subset: "set (vec_remove i xs) \<subseteq> set xs"
  by (auto simp: vec_remove_def dest: in_set_takeD in_set_dropD)

lemma vec_remove_split:
  "i < length xs \<Longrightarrow> xs = take i xs @ xs ! i # drop (Suc i) xs"
  by (simp add: id_take_nth_drop)

lemma max_by_key_snoc:
  "max_by_key f (xs @ [x]) =
     (case max_by_key f xs of None \<Rightarrow> Some x | Some y \<Rightarrow> if f y \<le> f x then Some x else Some y)"
  by (simp add: max_by_key_def)

lemma max_by_key_Nil [simp]: "max_by_key f [] = None"
  by (simp add: max_by_key_def)

lemma max_by_key_None [simp]: "max_by_key f xs = None \<longleftrightarrow> xs = []"
  by (induction xs rule: rev_induct) (auto simp: max_by_key_snoc split: option.splits)

lemma max_by_key_SomeD:
  "max_by_key f xs = Some x \<Longrightarrow> x \<in> set xs \<and> (\<forall>y \<in> set xs. f y \<le> f x)"
proof (induction xs arbitrary: x rule: rev_induct)
  case Nil
  then show ?case by simp
next
  case (snoc a xs)
  then show ?case
    by (cases "max_by_key f xs") (force simp: max_by_key_snoc split: if_splits)+
qed

lemma max_by_key_unique:
  assumes "x \<in> set xs" and "\<forall>y \<in> set xs. y \<noteq> x \<longrightarrow> f y < f x"
  shows "max_by_key f xs = Some x"
proof (cases "max_by_key f xs")
  case None
  with assms(1) show ?thesis by simp
next
  case (Some y)
  from max_by_key_SomeD [OF this] assms have "y = x" by force
  with Some show ?thesis by simp
qed

lemma max_by_key_iff_newest:
  assumes "inj_on f (set xs)"
  shows "max_by_key f xs = Some x \<longleftrightarrow> x \<in> set xs \<and> (\<forall>y \<in> set xs. f y \<le> f x)"
    (is "?l \<longleftrightarrow> ?r")
proof
  assume ?l
  then show ?r by (rule max_by_key_SomeD)
next
  assume r: ?r
  then have "\<forall>y \<in> set xs. y \<noteq> x \<longrightarrow> f y < f x"
    using assms by (metis inj_onD order.not_eq_order_implies_strict)
  with r show ?l by (blast intro: max_by_key_unique)
qed

lemma map_filter_append:
  "List.map_filter f (xs @ ys) = List.map_filter f xs @ List.map_filter f ys"
  by (simp add: List.map_filter_def)

section \<open>Numbers as text\<close>

text \<open>
  The digits of a number in a base, most significant first, as \<^verbatim>\<open>{n}\<close>, \<^verbatim>\<open>{n:o}\<close> and
  \<^verbatim>\<open>{n:x}\<close> print them, and zero padding on the left as \<^verbatim>\<open>{n:04o}\<close> does.
\<close>

definition digit_char :: "nat \<Rightarrow> char" where
  "digit_char d = ''0123456789abcdef'' ! d"

function show_base :: "nat \<Rightarrow> nat \<Rightarrow> string" where
  "show_base b n =
     (if b < 2 \<or> n < b then [digit_char n] else show_base b (n div b) @ [digit_char (n mod b)])"
  by pat_completeness auto
termination
  by (relation "measure snd") auto

declare show_base.simps [simp del]

definition show_nat :: "nat \<Rightarrow> string" where
  "show_nat n = show_base 10 n"

definition show_oct :: "nat \<Rightarrow> string" where
  "show_oct n = show_base 8 n"

definition show_hex :: "nat \<Rightarrow> string" where
  "show_hex n = show_base 16 n"

definition pad_left :: "nat \<Rightarrow> string \<Rightarrow> string" where
  "pad_left w s = replicate (w - length s) CHR ''0'' @ s"

fun intercalate_str :: "string \<Rightarrow> string list \<Rightarrow> string" where
  "intercalate_str sep [] = []"
| "intercalate_str sep [x] = x"
| "intercalate_str sep (x # y # ys) = x @ sep @ intercalate_str sep (y # ys)"

lemma intercalate_str_Cons:
  "xs \<noteq> [] \<Longrightarrow> intercalate_str sep (x # xs) = x @ sep @ intercalate_str sep xs"
  by (cases xs) simp_all

text \<open>The decimal text of a number determines it.\<close>

definition digit_value :: "char \<Rightarrow> nat" where
  "digit_value c = of_char c - 48"

definition read_nat :: "string \<Rightarrow> nat" where
  "read_nat s = foldl (\<lambda>n c. 10 * n + digit_value c) 0 s"

lemma digit_value_digit_char: "d < 10 \<Longrightarrow> digit_value (digit_char d) = d"
  by (auto simp: digit_value_def digit_char_def less_Suc_eq numeral_eq_Suc)

lemma read_nat_show_nat: "read_nat (show_nat n) = n"
proof (induction n rule: less_induct)
  case (less n)
  show ?case
  proof (cases "n < 10")
    case True
    then show ?thesis
      by (simp add: show_nat_def show_base.simps [of 10 n] read_nat_def digit_value_digit_char)
  next
    case False
    then have "read_nat (show_nat (n div 10)) = n div 10" by (intro less) simp
    with False show ?thesis
      by (simp add: show_nat_def show_base.simps [of 10 n] read_nat_def digit_value_digit_char)
  qed
qed

lemma show_nat_inject [simp]: "show_nat m = show_nat n \<longleftrightarrow> m = n"
  by (metis read_nat_show_nat)

end
