(* ===== verification/Rust_Std.thy ===== *)
theory Rust_Std
  imports Prelude
begin

text \<open>
  What the code uses of the Rust standard library on byte strings: UTF-8 validity
  (\<^verbatim>\<open>OsStr::to_str\<close>), lossy decoding (\<^verbatim>\<open>to_string_lossy\<close>) and Unix paths
  (\<^verbatim>\<open>Path::components\<close>, \<^verbatim>\<open>PathBuf::push\<close>). A byte string is a \<^typ>\<open>string\<close>: a \<^typ>\<open>char\<close>
  is one byte. Paths in the host file system are raw byte strings, so that a trailing
  slash, which \<^verbatim>\<open>push("")\<close> adds, stays visible to the operating system calls.
\<close>

named_theorems path_simps "facts about paths"
named_theorems eval_simps "equations that evaluate closed byte strings and paths"

section \<open>UTF-8\<close>

definition byte :: "char \<Rightarrow> nat" where
  "byte c = of_char c"

definition in_range :: "nat \<Rightarrow> nat \<Rightarrow> string \<Rightarrow> bool" where
  "in_range lo hi s = (case s of [] \<Rightarrow> False | c # _ \<Rightarrow> lo \<le> byte c \<and> byte c \<le> hi)"

text \<open>
  One step of \<^verbatim>\<open>core::str::Utf8Chunks\<close> at a non-empty suffix: a complete scalar of some
  width, or the length of the maximal invalid prefix that is replaced as a whole.
\<close>

datatype utf8_step = Scalar nat | Invalid nat

definition utf8_second :: "nat \<Rightarrow> string \<Rightarrow> bool" where
  "utf8_second b rest =
     (if b = 0xE0 then in_range 0xA0 0xBF rest
      else if b = 0xED then in_range 0x80 0x9F rest
      else if b = 0xF0 then in_range 0x90 0xBF rest
      else if b = 0xF4 then in_range 0x80 0x8F rest
      else in_range 0x80 0xBF rest)"

definition utf8_next :: "char \<Rightarrow> string \<Rightarrow> utf8_step" where
  "utf8_next c rest =
     (let b = byte c; cont = in_range 0x80 0xBF in
      if b < 0x80 then Scalar 1
      else if 0xC2 \<le> b \<and> b \<le> 0xDF then
        (if cont rest then Scalar 2 else Invalid 1)
      else if 0xE0 \<le> b \<and> b \<le> 0xEF then
        (if \<not> utf8_second b rest then Invalid 1
         else if \<not> cont (drop 1 rest) then Invalid 2 else Scalar 3)
      else if 0xF0 \<le> b \<and> b \<le> 0xF4 then
        (if \<not> utf8_second b rest then Invalid 1
         else if \<not> cont (drop 1 rest) then Invalid 2
         else if \<not> cont (drop 2 rest) then Invalid 3 else Scalar 4)
      else Invalid 1)"

fun step_width :: "utf8_step \<Rightarrow> nat" where
  "step_width (Scalar n) = n"
| "step_width (Invalid n) = n"

lemma utf8_next_width_pos: "0 < step_width (utf8_next c rest)"
  by (simp add: utf8_next_def Let_def)

function utf8_valid :: "string \<Rightarrow> bool" where
  "utf8_valid [] = True"
| "utf8_valid (c # rest) =
     (case utf8_next c rest of
        Invalid n \<Rightarrow> False
      | Scalar n \<Rightarrow> utf8_valid (drop (n - 1) rest))"
  by pat_completeness auto
termination
  by (relation "measure length") auto

definition replacement_character :: string where
  "replacement_character = [CHR 0xEF, CHR 0xBF, CHR 0xBD]"

function to_string_lossy :: "string \<Rightarrow> string" where
  "to_string_lossy [] = []"
| "to_string_lossy (c # rest) =
     (case utf8_next c rest of
        Scalar n \<Rightarrow> take n (c # rest) @ to_string_lossy (drop (n - 1) rest)
      | Invalid n \<Rightarrow> replacement_character @ to_string_lossy (drop (n - 1) rest))"
  by pat_completeness auto
termination
  by (relation "measure length") auto

lemma take_drop_step: "0 < n \<Longrightarrow> take n (c # rest) @ drop (n - Suc 0) rest = c # rest"
  by (cases n) simp_all

declare utf8_valid.simps(2) [simp del] to_string_lossy.simps(2) [simp del]

lemma to_string_lossy_valid: "utf8_valid s \<Longrightarrow> to_string_lossy s = s"
proof (induction s rule: utf8_valid.induct)
  case 1
  then show ?case by simp
next
  case (2 c rest)
  show ?case
  proof (cases "utf8_next c rest")
    case (Scalar n)
    with 2 have "to_string_lossy (drop (n - 1) rest) = drop (n - 1) rest"
      by (simp add: utf8_valid.simps)
    moreover have "0 < n" using Scalar utf8_next_width_pos [of c rest] by simp
    ultimately show ?thesis
      using Scalar by (simp add: to_string_lossy.simps take_drop_step)
  next
    case (Invalid n)
    with 2 show ?thesis by (simp add: utf8_valid.simps)
  qed
qed

lemma utf8_next_ascii: "byte c < 128 \<Longrightarrow> utf8_next c rest = Scalar 1"
  by (simp add: utf8_next_def)

lemma utf8_valid_ascii_Cons [simp]: "byte c < 128 \<Longrightarrow> utf8_valid (c # s) = utf8_valid s"
  by (simp add: utf8_next_ascii utf8_valid.simps)

lemma to_string_lossy_ascii_Cons [simp]:
  "byte c < 128 \<Longrightarrow> to_string_lossy (c # s) = c # to_string_lossy s"
  by (simp add: utf8_next_ascii to_string_lossy.simps)

lemma utf8_valid_ascii: "\<forall>c \<in> set s. byte c < 128 \<Longrightarrow> utf8_valid s"
  by (induction s) simp_all

text \<open>An ASCII byte never is a continuation byte, so a string may be cut there.\<close>

lemma in_range_append:
  "128 \<le> lo \<Longrightarrow> byte c < 128 \<Longrightarrow> in_range lo hi (s @ c # t) = in_range lo hi s"
  by (cases s) (auto simp: in_range_def)

lemma utf8_second_append:
  "byte c < 128 \<Longrightarrow> utf8_second b (s @ c # t) = utf8_second b s"
  by (simp add: utf8_second_def in_range_append)

lemma in_range_length: "in_range lo hi s \<Longrightarrow> 0 < length s"
  by (cases s) (auto simp: in_range_def)

lemma utf8_second_length: "utf8_second b s \<Longrightarrow> 0 < length s"
  by (auto simp: utf8_second_def split: if_splits dest: in_range_length)

lemma in_range_drop_append:
  "128 \<le> lo \<Longrightarrow> byte c < 128 \<Longrightarrow> k \<le> length s \<Longrightarrow>
   in_range lo hi (drop k (s @ c # t)) = in_range lo hi (drop k s)"
  by (simp add: in_range_append)

lemma utf8_next_append:
  assumes "byte c < 128"
  shows "utf8_next x (s @ c # t) = utf8_next x s"
proof -
  have one: "in_range 128 191 (drop 1 (s @ c # t)) = in_range 128 191 (drop 1 s)"
    if "utf8_second b s" for b
    using that assms by (intro in_range_drop_append) (auto simp: Suc_le_eq dest: utf8_second_length)
  have two: "in_range 128 191 (drop 2 (s @ c # t)) = in_range 128 191 (drop 2 s)"
    if "in_range 128 191 (drop 1 s)"
    using that assms by (intro in_range_drop_append) (auto dest!: in_range_length)
  show ?thesis
    using assms one two
    by (simp add: utf8_next_def Let_def utf8_second_append in_range_append)
qed

lemma utf8_next_Scalar_length: "utf8_next x s = Scalar n \<Longrightarrow> n - 1 \<le> length s"
  by (auto simp: utf8_next_def Let_def Suc_le_eq split: if_splits
      dest!: in_range_length utf8_second_length)

lemma utf8_valid_append_ascii:
  "byte c < 128 \<Longrightarrow> utf8_valid (s @ c # t) \<longleftrightarrow> utf8_valid s \<and> utf8_valid t"
proof (induction s rule: utf8_valid.induct)
  case 1
  then show ?case by simp
next
  case (2 x s)
  show ?case
  proof (cases "utf8_next x s")
    case (Scalar n)
    moreover from Scalar have "drop (n - 1) (s @ c # t) = drop (n - 1) s @ c # t"
      using utf8_next_Scalar_length [of x s n] by simp
    ultimately show ?thesis using 2 by (simp add: utf8_next_append utf8_valid.simps)
  next
    case (Invalid n)
    with 2 show ?thesis by (simp add: utf8_next_append utf8_valid.simps)
  qed
qed

section \<open>Unix paths\<close>

abbreviation slash :: char where
  "slash \<equiv> CHR ''/''"

text \<open>\<^verbatim>\<open>std::path::Component\<close>; \<^verbatim>\<open>Prefix\<close> is produced on Windows only.\<close>

datatype component = Prefix string | RootDir | CurDir | ParentDir | Normal string

text \<open>The derived order of \<^verbatim>\<open>Component\<close>: the variant first, then the text.\<close>

fun component_key :: "component \<Rightarrow> nat \<times> string" where
  "component_key (Prefix s) = (0, s)"
| "component_key RootDir = (1, [])"
| "component_key CurDir = (2, [])"
| "component_key ParentDir = (3, [])"
| "component_key (Normal s) = (4, s)"

lemma component_key_inject: "component_key a = component_key b \<longleftrightarrow> a = b"
  by (cases a; cases b) simp_all

instantiation component :: linorder
begin

definition less_eq_component :: "component \<Rightarrow> component \<Rightarrow> bool" where
  "less_eq_component a b \<longleftrightarrow> component_key a \<le> component_key b"

definition less_component :: "component \<Rightarrow> component \<Rightarrow> bool" where
  "less_component a b \<longleftrightarrow> component_key a < component_key b"

instance
  by standard (auto simp: less_eq_component_def less_component_def simp flip: component_key_inject)

end

text \<open>The parts of a byte string between slashes, empty parts included.\<close>

fun split_slash :: "string \<Rightarrow> string list" where
  "split_slash [] = [[]]"
| "split_slash (c # cs) =
     (if c = slash then [] # split_slash cs
      else case split_slash cs of
             [] \<Rightarrow> [[c]]
           | p # ps \<Rightarrow> (c # p) # ps)"

definition is_absolute :: "string \<Rightarrow> bool" where
  "is_absolute s = (case s of [] \<Rightarrow> False | c # _ \<Rightarrow> c = slash)"

fun part_component :: "string \<Rightarrow> component option" where
  "part_component p =
     (if p = '''' \<or> p = ''.'' then None
      else if p = ''..'' then Some ParentDir
      else Some (Normal p))"

definition components :: "string \<Rightarrow> component list" where
  "components s =
     (if is_absolute s then [RootDir]
      else if take 1 (split_slash s) = [''.''] then [CurDir] else [])
     @ List.map_filter part_component (split_slash s)"

text \<open>\<^verbatim>\<open>Path::join\<close>: an absolute argument replaces the path, otherwise it is appended
  after exactly one separator, also when it is empty.\<close>

definition path_join :: "string \<Rightarrow> string \<Rightarrow> string" where
  "path_join base p =
     (if is_absolute p then p
      else if base \<noteq> [] \<and> last base \<noteq> slash then base @ [slash] @ p
      else base @ p)"

lemma split_slash_not_Nil [simp]: "split_slash s \<noteq> []"
  by (induction s) (auto split: list.splits)

lemma split_slash_no_slash: "slash \<notin> set s \<Longrightarrow> split_slash s = [s]"
  by (induction s) auto

lemma split_slash_append:
  "slash \<notin> set s \<Longrightarrow> split_slash (s @ slash # t) = s # split_slash t"
  by (induction s) auto

lemma split_slash_parts: "p \<in> set (split_slash s) \<Longrightarrow> slash \<notin> set p"
proof (induction s arbitrary: p)
  case Nil
  then show ?case by simp
next
  case (Cons c s)
  then show ?case by (cases "split_slash s") (auto split: if_splits)
qed

lemma components_no_prefix: "Prefix x \<notin> set (components s)"
  by (auto simp: components_def List.map_filter_def split: if_splits)

lemma components_Normal:
  "Normal x \<in> set (components s) \<Longrightarrow> x \<noteq> [] \<and> x \<noteq> ''.'' \<and> x \<noteq> ''..'' \<and> slash \<notin> set x"
  by (auto simp: components_def List.map_filter_def split: if_splits dest: split_slash_parts)

lemma byte_slash [simp]: "byte slash < 128"
  by (simp add: byte_def)

lemma split_slash_utf8: "utf8_valid s \<Longrightarrow> p \<in> set (split_slash s) \<Longrightarrow> utf8_valid p"
proof (induction "length s" arbitrary: s p rule: less_induct)
  case less
  show ?case
  proof (cases "slash \<in> set s")
    case False
    with less.prems show ?thesis by (simp add: split_slash_no_slash)
  next
    case True
    then obtain a b where s: "s = a @ slash # b" and a: "slash \<notin> set a"
      by (meson split_list_first)
    with less.prems(1) have "utf8_valid a" "utf8_valid b"
      by (simp_all add: utf8_valid_append_ascii)
    with less.hyps [of b p] less.prems(2) s a show ?thesis by (auto simp: split_slash_append)
  qed
qed

lemma intercalate_utf8:
  "\<forall>x \<in> set xs. utf8_valid x \<Longrightarrow> utf8_valid (intercalate_str ''/'' xs)"
proof (induction xs)
  case Nil
  then show ?case by simp
next
  case (Cons x xs)
  then show ?case
    by (cases "xs = []") (simp_all add: intercalate_str_Cons utf8_valid_append_ascii)
qed

lemmas [eval_simps] = byte_def components_def is_absolute_def path_join_def List.map_filter_simps

end
