(* ===== verification/Sandbox_Path.thy ===== *)
theory Sandbox_Path
  imports Rust_Std
begin

text \<open>
  \<^verbatim>\<open>src/path.rs\<close>: sandbox paths, their normalisation, and the rewriting of path arguments.
  A \<^verbatim>\<open>SandboxPath\<close> wraps a \<^verbatim>\<open>PathBuf\<close> that \<^verbatim>\<open>normalize_sandbox_path\<close> built: a slash and
  ordinary components. Rust compares, orders and prefixes paths by components, so the
  model is the list of components; \<open>path_string\<close> is the byte string the \<^verbatim>\<open>PathBuf\<close> holds.
  Shown here: normalisation always succeeds, gives well-formed paths, never leaves the
  root and is the inverse of printing; prefixes, joins and parents fit together; the
  rewriting of arguments keeps the path they denote.
\<close>

section \<open>Errors\<close>

text \<open>\<^verbatim>\<open>gatefs::Error\<close>. An operating system error is its raw number, when there is one.\<close>

type_synonym io_error = "int option"

datatype error = Message string | Io io_error | Serde string

type_synonym 'a res = "error + 'a"

section \<open>Definitions\<close>

type_synonym sandbox_path = "string list"

definition path_string :: "sandbox_path \<Rightarrow> string" where
  "path_string p = slash # intercalate_str ''/'' p"

text \<open>A relative \<^verbatim>\<open>PathBuf\<close> made of ordinary components.\<close>

definition relative_string :: "string list \<Rightarrow> string" where
  "relative_string rest = intercalate_str ''/'' rest"

definition root :: sandbox_path where
  "root = []"

fun normalize_components :: "component list \<Rightarrow> sandbox_path \<Rightarrow> sandbox_path res" where
  "normalize_components [] out = Inr out"
| "normalize_components (Prefix _ # cs) out =
     Inl (Message ''prefix paths are not valid sandbox paths'')"
| "normalize_components (RootDir # cs) out = normalize_components cs out"
| "normalize_components (CurDir # cs) out = normalize_components cs out"
| "normalize_components (ParentDir # cs) out =
     normalize_components cs (if out \<noteq> [] then butlast out else out)"
| "normalize_components (Normal part # cs) out = normalize_components cs (out @ [part])"

definition normalize_sandbox_path :: "string \<Rightarrow> sandbox_path res" where
  "normalize_sandbox_path path = normalize_components (components path) []"

definition new_path :: "string \<Rightarrow> sandbox_path res" where
  "new_path path = normalize_sandbox_path path"

definition as_str :: "sandbox_path \<Rightarrow> string" where
  "as_str p = (if utf8_valid (path_string p) then path_string p else ''/'')"

definition parent :: "sandbox_path \<Rightarrow> sandbox_path option" where
  "parent p =
     (if p = [] then None
      else case new_path (path_string (butlast p)) of Inl _ \<Rightarrow> None | Inr q \<Rightarrow> Some q)"

definition file_name :: "sandbox_path \<Rightarrow> string option" where
  "file_name p = (if p = [] then None else Some (to_string_lossy (last p)))"

definition join :: "sandbox_path \<Rightarrow> string \<Rightarrow> sandbox_path res" where
  "join p child =
     (if is_absolute child then new_path child
      else new_path (path_join (path_string p) child))"

definition starts_with :: "sandbox_path \<Rightarrow> sandbox_path \<Rightarrow> bool" where
  "starts_with p base = (take (length base) p = base)"

definition strip_prefix :: "sandbox_path \<Rightarrow> sandbox_path \<Rightarrow> string list res" where
  "strip_prefix p base =
     (if base = [] then Inr p
      else if starts_with p base then Inr (drop (length base) p)
      else Inl (Message (as_str p @ '' is not under '' @ as_str base)))"

text \<open>\<^verbatim>\<open>Display\<close> and \<^verbatim>\<open>Serialize\<close> print \<open>as_str\<close>; \<^verbatim>\<open>Deserialize\<close> normalises the text again.\<close>

definition display_path :: "sandbox_path \<Rightarrow> string" where
  "display_path p = as_str p"

definition serialize_path :: "sandbox_path \<Rightarrow> string" where
  "serialize_path p = as_str p"

definition deserialize_path :: "string \<Rightarrow> sandbox_path res" where
  "deserialize_path s = new_path s"

definition rewrite_sandbox_path_arg :: "string \<Rightarrow> string" where
  "rewrite_sandbox_path_arg arg =
     (if arg = ''/'' then ''.''
      else case arg of
             [] \<Rightarrow> arg
           | c # rest \<Rightarrow> if c = slash then ''./'' @ rest else arg)"

definition wf_component :: "string \<Rightarrow> bool" where
  "wf_component c \<longleftrightarrow> c \<noteq> [] \<and> c \<noteq> ''.'' \<and> c \<noteq> ''..'' \<and> slash \<notin> set c"

definition wf_path :: "sandbox_path \<Rightarrow> bool" where
  "wf_path p \<longleftrightarrow> (\<forall>c \<in> set p. wf_component c)"

section \<open>Normalisation\<close>

lemma wf_path_simps [simp, path_simps]:
  "wf_path []"
  "wf_path (c # p) \<longleftrightarrow> wf_component c \<and> wf_path p"
  "wf_path (p @ q) \<longleftrightarrow> wf_path p \<and> wf_path q"
  by (auto simp: wf_path_def)

lemma wf_path_parts [path_simps]:
  "wf_path p \<Longrightarrow> wf_path (butlast p)"
  "wf_path p \<Longrightarrow> wf_path (take n p)"
  "wf_path p \<Longrightarrow> wf_path (drop n p)"
  by (auto simp: wf_path_def dest: in_set_butlastD in_set_takeD in_set_dropD)

lemma normalize_components_total:
  "\<forall>x. Prefix x \<notin> set cs \<Longrightarrow> \<exists>p. normalize_components cs out = Inr p"
  by (induction cs out rule: normalize_components.induct) auto

lemma normalize_components_wf:
  "\<forall>x. Normal x \<in> set cs \<longrightarrow> wf_component x \<Longrightarrow> wf_path out \<Longrightarrow>
   normalize_components cs out = Inr p \<Longrightarrow> wf_path p"
  by (induction cs out rule: normalize_components.induct)
     (auto simp: wf_path_parts split: if_splits)

lemma components_wf: "Normal x \<in> set (components s) \<Longrightarrow> wf_component x"
  using components_Normal by (simp add: wf_component_def)

lemma split_slash_append_any: "split_slash (s @ slash # t) = split_slash s @ split_slash t"
proof (induction s)
  case (Cons c s)
  then show ?case by (cases "split_slash s") simp_all
qed simp

lemma normalize_total: "\<exists>p. normalize_sandbox_path s = Inr p"
  by (simp add: normalize_sandbox_path_def normalize_components_total components_no_prefix)

lemma normalize_wf: "normalize_sandbox_path s = Inr p \<Longrightarrow> wf_path p"
  unfolding normalize_sandbox_path_def
  by (rule normalize_components_wf) (auto simp: components_wf)

lemma normalize_components_Normal [simp]:
  "normalize_components (map Normal p) out = Inr (out @ p)"
  by (induction p arbitrary: out) auto

lemma normalize_components_append:
  "normalize_components (cs @ ds) out =
     result_bind (normalize_components cs out) (normalize_components ds)"
  by (induction cs out rule: normalize_components.induct) auto

lemma part_component_wf [simp]: "wf_component c \<Longrightarrow> part_component c = Some (Normal c)"
  by (simp add: wf_component_def)

lemma map_filter_part_wf: "wf_path p \<Longrightarrow> List.map_filter part_component p = map Normal p"
  by (induction p) (auto simp: List.map_filter_simps simp del: part_component.simps)

lemma split_slash_intercalate:
  "wf_path p \<Longrightarrow> p \<noteq> [] \<Longrightarrow> split_slash (intercalate_str ''/'' p) = p"
proof (induction p)
  case Nil
  then show ?case by simp
next
  case (Cons c p)
  show ?case
  proof (cases "p = []")
    case True
    with Cons.prems show ?thesis by (simp add: split_slash_no_slash wf_component_def)
  next
    case False
    with Cons show ?thesis
      by (simp add: intercalate_str_Cons split_slash_append wf_component_def)
  qed
qed

lemma components_path_string: "wf_path p \<Longrightarrow> components (path_string p) = RootDir # map Normal p"
  by (cases "p = []")
     (auto simp: components_def path_string_def is_absolute_def split_slash_intercalate
        map_filter_part_wf List.map_filter_simps)

lemma normalize_path_string [simp]: "wf_path p \<Longrightarrow> normalize_sandbox_path (path_string p) = Inr p"
  by (simp add: normalize_sandbox_path_def components_path_string)

lemma new_path_path_string [simp]: "wf_path p \<Longrightarrow> new_path (path_string p) = Inr p"
  by (simp add: new_path_def)

lemma path_string_inject: "wf_path p \<Longrightarrow> wf_path q \<Longrightarrow> path_string p = path_string q \<longleftrightarrow> p = q"
  by (metis normalize_path_string sum.inject(2))

text \<open>Text that is valid UTF-8 normalises to a path that prints as valid UTF-8.\<close>

lemma normalize_components_utf8:
  "\<forall>x. Normal x \<in> set cs \<longrightarrow> utf8_valid x \<Longrightarrow> \<forall>x \<in> set out. utf8_valid x \<Longrightarrow>
   normalize_components cs out = Inr p \<Longrightarrow> \<forall>x \<in> set p. utf8_valid x"
  by (induction cs out rule: normalize_components.induct)
     (auto split: if_splits dest: in_set_butlastD)

lemma path_string_utf8: "\<forall>x \<in> set p. utf8_valid x \<Longrightarrow> utf8_valid (path_string p)"
  by (simp add: path_string_def intercalate_utf8)

lemma normalize_utf8:
  assumes "utf8_valid s" and "normalize_sandbox_path s = Inr p"
  shows "utf8_valid (path_string p)"
proof -
  have "\<forall>x. Normal x \<in> set (components s) \<longrightarrow> utf8_valid x"
    using assms(1)
    by (auto simp: components_def List.map_filter_def split: if_splits dest: split_slash_utf8)
  with assms(2) have "\<forall>x \<in> set p. utf8_valid x"
    using normalize_components_utf8 [of "components s" "[]" p]
    by (simp add: normalize_sandbox_path_def)
  then show ?thesis by (rule path_string_utf8)
qed

text \<open>What leads a string, a slash or a dot, makes no difference; appended parts are walked in turn.\<close>

lemma normalize_split:
  "normalize_sandbox_path s = normalize_components (List.map_filter part_component (split_slash s)) []"
  by (simp add: normalize_sandbox_path_def components_def)

lemma normalize_append:
  "normalize_sandbox_path (s @ slash # t) =
     result_bind (normalize_sandbox_path s) (normalize_components (List.map_filter part_component (split_slash t)))"
  by (simp add: normalize_split split_slash_append_any map_filter_append normalize_components_append)

section \<open>Prefixes, parents and joins\<close>

lemma starts_with_iff: "starts_with p base \<longleftrightarrow> (\<exists>rest. p = base @ rest)"
  unfolding starts_with_def by (metis append_eq_conv_conj append_take_drop_id)

lemma starts_with_simps [simp, path_simps]:
  "starts_with p []"
  "starts_with p p"
  "starts_with (base @ rest) base"
  "starts_with [] base \<longleftrightarrow> base = []"
  by (auto simp: starts_with_def)

lemma starts_with_trans: "starts_with p q \<Longrightarrow> starts_with q r \<Longrightarrow> starts_with p r"
  by (auto simp: starts_with_iff)

lemma starts_with_antisym: "starts_with p q \<Longrightarrow> starts_with q p \<Longrightarrow> p = q"
  by (auto simp: starts_with_iff)

lemma starts_with_linear:
  "starts_with p q \<Longrightarrow> starts_with p r \<Longrightarrow> starts_with q r \<or> starts_with r q"
  unfolding starts_with_iff by (metis append_eq_append_conv2)

lemma strip_prefix_starts_with:
  "starts_with p base \<Longrightarrow> strip_prefix p base = Inr (drop (length base) p)"
  by (simp add: strip_prefix_def)

lemma strip_prefix_append [simp]: "strip_prefix (base @ rest) base = Inr rest"
  by (simp add: strip_prefix_def)

lemma strip_prefix_Inr_iff: "strip_prefix p base = Inr rest \<longleftrightarrow> p = base @ rest"
  by (auto simp: strip_prefix_def starts_with_iff)

lemma parent_wf: "wf_path p \<Longrightarrow> parent p = (if p = [] then None else Some (butlast p))"
  by (simp add: parent_def wf_path_parts)

lemma last_intercalate:
  "wf_path p \<Longrightarrow> p \<noteq> [] \<Longrightarrow> last (intercalate_str ''/'' p) \<noteq> slash \<and> intercalate_str ''/'' p \<noteq> []"
proof (induction p)
  case Nil
  then show ?case by simp
next
  case (Cons c p)
  then show ?case
    by (cases "p = []") (auto simp: intercalate_str_Cons wf_component_def dest: last_in_set)
qed

lemma split_slash_path_join:
  assumes "wf_path p" and "\<not> is_absolute child"
  shows "split_slash (path_join (path_string p) child) = [] # p @ split_slash child"
proof -
  have body: "split_slash (intercalate_str ''/'' p @ slash # child) = p @ split_slash child"
    if "wf_path p" "p \<noteq> []" for p
    using that
  proof (induction p)
    case Nil
    then show ?case by simp
  next
    case (Cons c p)
    then show ?case
      by (cases "p = []") (auto simp: intercalate_str_Cons split_slash_append wf_component_def)
  qed
  show ?thesis
    using assms body [of p] last_intercalate [of p]
    by (cases "p = []") (auto simp: path_join_def path_string_def)
qed

text \<open>Joining walks the child's components from the given path.\<close>

lemma join_relative:
  assumes "wf_path p" and "\<not> is_absolute child"
  shows "join p child = normalize_components (List.map_filter part_component (split_slash child)) p"
proof -
  have "is_absolute (path_join (path_string p) child)"
    using assms(2) by (auto simp: path_join_def path_string_def is_absolute_def)
  with assms show ?thesis
    by (simp add: join_def new_path_def normalize_sandbox_path_def components_def
        split_slash_path_join map_filter_append map_filter_part_wf normalize_components_append
        List.map_filter_simps)
qed

lemma wf_component_not_absolute: "wf_component c \<Longrightarrow> \<not> is_absolute c"
  by (cases c) (auto simp: wf_component_def is_absolute_def)

lemma join_component [simp, path_simps]:
  "wf_path p \<Longrightarrow> wf_component c \<Longrightarrow> join p c = Inr (p @ [c])"
  by (simp add: join_relative wf_component_not_absolute split_slash_no_slash
      List.map_filter_simps wf_component_def)

lemma join_total: "\<exists>q. join p c = Inr q"
  by (simp add: join_def new_path_def normalize_total)

lemma join_wf: "join p c = Inr q \<Longrightarrow> wf_path q"
  by (auto simp: join_def new_path_def split: if_splits dest: normalize_wf)

lemma normalize_components_descends:
  "ParentDir \<notin> set cs \<Longrightarrow> normalize_components cs out = Inr p \<Longrightarrow> starts_with p out"
proof (induction cs out rule: normalize_components.induct)
  case (6 part cs out)
  then have "starts_with p (out @ [part])" by simp
  then show ?case by (auto simp: starts_with_iff)
qed auto

lemmas [eval_simps] = path_string_def relative_string_def normalize_sandbox_path_def new_path_def
  join_def as_str_def display_path_def starts_with_def strip_prefix_def wf_component_def

section \<open>Properties\<close>

text \<open>
  C38: Normalisation walks the components. It accepts every byte string and gives a well-formed
  path, the empty string the root; one more component takes the path one step further: an empty
  one and a dot stay, dot-dot goes to the parent and stays at the root, and an ordinary one is
  appended. These equations determine the path of every string. The path prints as a string
  that normalises to itself.
\<close>

theorem normalize_walks_components:
  "normalize_sandbox_path [] = Inr root
   \<and> (\<exists>p. normalize_sandbox_path s = Inr p \<and> wf_path p \<and> normalize_sandbox_path (path_string p) = Inr p
        \<and> (slash \<notin> set c \<longrightarrow> normalize_sandbox_path (s @ slash # c) =
             Inr (if c = [] \<or> c = ''.'' then p
                  else if c = ''..'' then (case parent p of None \<Rightarrow> root | Some q \<Rightarrow> q)
                  else p @ [c])))
   \<and> (slash \<notin> set c \<longrightarrow> normalize_sandbox_path c = normalize_sandbox_path (slash # c))"
proof -
  obtain p where p: "normalize_sandbox_path s = Inr p" using normalize_total by blast
  have wf: "wf_path p" using p by (rule normalize_wf)
  have "normalize_sandbox_path (s @ slash # c) =
      Inr (if c = [] \<or> c = ''.'' then p else if c = ''..'' then (case parent p of None \<Rightarrow> root | Some q \<Rightarrow> q) else p @ [c])"
    if "slash \<notin> set c"
    using that p parent_wf [OF wf] by (simp add: normalize_append split_slash_no_slash List.map_filter_simps root_def)
  moreover have "normalize_sandbox_path c = normalize_sandbox_path (slash # c)"
    using normalize_append [of "[]" c] by (simp add: normalize_split List.map_filter_simps)
  moreover have "normalize_sandbox_path [] = Inr root" by (simp add: root_def normalize_split List.map_filter_simps)
  ultimately show ?thesis using p wf by simp
qed

theorem normalize_walks_components_witness:
  "normalize_sandbox_path ''/usr/../etc/.'' = Inr [''etc'']"
  using normalize_walks_components [of "''/usr/../etc''" "''.''"] normalize_walks_components [of "''/usr/..''" "''etc''"]
    normalize_walks_components [of "''/usr''" "''..''"] normalize_walks_components [of "[]" "''usr''"]
  by (auto simp: parent_def root_def new_path_def path_string_def)

text \<open>
  Reading back the printed form of a sandbox path gives the path itself when its bytes
  are valid UTF-8 (the JSON protocol sends paths this way).
\<close>

lemma path_serialization_roundtrip:
  assumes "wf_path p" and "utf8_valid (path_string p)"
  shows "deserialize_path (serialize_path p) = Inr p"
  using assms by (simp add: deserialize_path_def serialize_path_def as_str_def)

text \<open>
  Joining a relative name without dot-dot parts gives a path below the parent: FUSE
  names cannot climb out of the directory they are looked up in.
\<close>

lemma join_stays_below:
  assumes "wf_path p" and "\<not> is_absolute child" and "''..'' \<notin> set (split_slash child)"
    and "join p child = Inr q"
  shows "starts_with q p"
proof -
  have "ParentDir \<notin> set (List.map_filter part_component (split_slash child))"
    using assms(3) by (auto simp: List.map_filter_def split: if_splits)
  then show ?thesis
    using assms normalize_components_descends by (metis join_relative)
qed

text \<open>
  The rewriting of command line path arguments makes every argument relative to the
  working directory and keeps the sandbox path it denotes.
\<close>

lemma rewrite_keeps_path:
  "new_path (rewrite_sandbox_path_arg arg) = new_path arg
   \<and> \<not> is_absolute (rewrite_sandbox_path_arg arg)"
proof (cases arg)
  case Nil
  then show ?thesis by (simp add: rewrite_sandbox_path_arg_def is_absolute_def)
next
  case (Cons c rest)
  have dot: "split_slash (CHR ''.'' # slash # rest) = ''.'' # split_slash rest"
    using split_slash_append [of "''.''" rest] by simp
  from Cons show ?thesis
    by (cases "c = slash")
       (auto simp: rewrite_sandbox_path_arg_def is_absolute_def new_path_def
          normalize_sandbox_path_def components_def dot List.map_filter_simps)
qed

end
