(* ===== verification/Ordered_Map.thy ===== *)
theory Ordered_Map
  imports Prelude
begin

text \<open>
  The model of \<^verbatim>\<open>BTreeMap\<close>: an association list in strictly increasing key order, so that
  iteration is the list itself. \<^verbatim>\<open>HashMap\<close> is modelled by the same lists; its iteration
  order is unspecified in Rust and no property of the development depends on it. The
  interface \<open>ordered_map\<close> states what clients rely on; its lemmas (two maps with the same
  lookups are the same map, re-inserting a removed entry restores the map) are used by the
  registry through the interpretation \<open>omap\<close>.
\<close>

section \<open>The interface\<close>

locale ordered_map =
  fixes nothing :: "'m"
    and get :: "'m \<Rightarrow> 'k::linorder \<Rightarrow> 'v option"
    and put :: "'k \<Rightarrow> 'v \<Rightarrow> 'm \<Rightarrow> 'm"
    and drop_key :: "'k \<Rightarrow> 'm \<Rightarrow> 'm"
    and entries :: "'m \<Rightarrow> ('k \<times> 'v) list"
    and wf :: "'m \<Rightarrow> bool"
  assumes wf_nothing: "wf nothing"
    and wf_put: "wf m \<Longrightarrow> wf (put k v m)"
    and wf_drop: "wf m \<Longrightarrow> wf (drop_key k m)"
    and entries_nothing: "entries nothing = []"
    and get_put: "wf m \<Longrightarrow> get (put k v m) = (get m)(k := Some v)"
    and get_drop: "wf m \<Longrightarrow> get (drop_key k m) = (get m)(k := None)"
    and entries_sorted: "wf m \<Longrightarrow> sorted_wrt (<) (map fst (entries m))"
    and entries_get: "wf m \<Longrightarrow> get m = map_of (entries m)"
    and entries_inject: "entries m = entries m' \<Longrightarrow> m = m'"
begin

lemma entries_distinct: "wf m \<Longrightarrow> distinct (map fst (entries m))"
  using entries_sorted strict_sorted_iff by blast

lemma get_iff_entry: "wf m \<Longrightarrow> get m k = Some v \<longleftrightarrow> (k, v) \<in> set (entries m)"
  by (simp add: entries_get entries_distinct)

lemma maps_equal_if_lookups_equal:
  assumes "wf m" "wf m'" and same: "get m = get m'"
  shows "m = m'"
proof -
  have sets: "set (entries m) = set (entries m')"
    using assms get_iff_entry by (metis (no_types) prod.collapse subsetI subset_antisym)
  have "inj_on fst (set (entries m))"
    using assms(1) entries_distinct by (simp add: distinct_map)
  then have "entries m = entries m'"
    using sets assms(1,2) entries_sorted
    by (intro map_sorted_distinct_set_unique [where f = fst]) (simp_all add: strict_sorted_iff)
  then show ?thesis by (rule entries_inject)
qed

text \<open>Taking an entry out and putting it back gives the map one started from.\<close>

lemma put_after_drop:
  assumes "wf m" and "get m k = Some v"
  shows "put k v (drop_key k m) = m"
  using assms
  by (intro maps_equal_if_lookups_equal) (auto simp: wf_put wf_drop get_put get_drop)

lemma drop_after_put:
  assumes "wf m" and "get m k = None"
  shows "drop_key k (put k v m) = m"
  using assms
  by (intro maps_equal_if_lookups_equal) (auto simp: wf_put wf_drop get_put get_drop)

lemma drop_absent:
  assumes "wf m" and "get m k = None"
  shows "drop_key k m = m"
  using assms by (intro maps_equal_if_lookups_equal) (auto simp: wf_drop get_drop)

lemma put_present:
  assumes "wf m" and "get m k = Some v"
  shows "put k v m = m"
  using assms by (intro maps_equal_if_lookups_equal) (auto simp: wf_put get_put)

end

section \<open>Sorted association lists\<close>

type_synonym ('k, 'v) omap = "('k \<times> 'v) list"

fun om_insert :: "'k::linorder \<Rightarrow> 'v \<Rightarrow> ('k, 'v) omap \<Rightarrow> ('k, 'v) omap" where
  "om_insert k v [] = [(k, v)]"
| "om_insert k v (e # es) =
     (if fst e < k then e # om_insert k v es
      else if fst e = k then (k, v) # es
      else (k, v) # e # es)"

definition om_remove :: "'k::linorder \<Rightarrow> ('k, 'v) omap \<Rightarrow> ('k, 'v) omap" where
  "om_remove k m = filter (\<lambda>e. fst e \<noteq> k) m"

abbreviation om_get :: "('k, 'v) omap \<Rightarrow> 'k \<Rightarrow> 'v option" where
  "om_get m k \<equiv> map_of m k"

definition om_values :: "('k, 'v) omap \<Rightarrow> 'v list" where
  "om_values m = map snd m"

definition om_keys :: "('k, 'v) omap \<Rightarrow> 'k list" where
  "om_keys m = map fst m"

definition om_wf :: "('k::linorder, 'v) omap \<Rightarrow> bool" where
  "om_wf m = sorted_wrt (<) (map fst m)"

lemma set_fst_om_insert: "set (map fst (om_insert k v m)) = insert k (set (map fst m))"
  by (induction m) auto

lemma om_wf_Nil [simp, omap_simps]: "om_wf []"
  by (simp add: om_wf_def)

lemma om_wf_insert [simp, omap_simps]: "om_wf m \<Longrightarrow> om_wf (om_insert k v m)"
proof (induction m)
  case Nil
  then show ?case by (simp add: om_wf_def)
next
  case (Cons e m)
  then have "om_wf (om_insert k v m)" by (simp add: om_wf_def)
  with Cons.prems show ?case
    using set_fst_om_insert [of k v m] by (auto simp: om_wf_def)
qed

lemma om_wf_remove [simp, omap_simps]: "om_wf m \<Longrightarrow> om_wf (om_remove k m)"
  by (induction m) (auto simp: om_wf_def om_remove_def)

lemma om_get_insert [simp, omap_simps]: "om_get (om_insert k v m) = (om_get m)(k := Some v)"
  by (induction m) auto

lemma om_get_remove [simp, omap_simps]: "om_get (om_remove k m) = (om_get m)(k := None)"
  by (induction m) (auto simp: om_remove_def)

interpretation omap: ordered_map "[]" map_of om_insert om_remove "\<lambda>m. m" om_wf
  by unfold_locales (auto simp flip: om_wf_def)

lemma om_values_iff:
  "om_wf m \<Longrightarrow> v \<in> set (om_values m) \<longleftrightarrow> (\<exists>k. om_get m k = Some v)"
  using omap.get_iff_entry by (force simp: om_values_def)

lemma om_keys_iff [omap_simps]: "k \<in> set (om_keys m) \<longleftrightarrow> om_get m k \<noteq> None"
  by (simp add: om_keys_def map_of_eq_None_iff)

lemma om_wf_distinct: "om_wf m \<Longrightarrow> distinct (om_keys m)"
  using omap.entries_distinct by (simp add: om_keys_def)

lemma om_wf_sorted: "om_wf m \<Longrightarrow> sorted (om_keys m)"
  by (simp add: om_keys_def om_wf_def strict_sorted_iff)

lemma om_wf_filter: "om_wf m \<Longrightarrow> om_wf (filter p m)"
  by (induction m) (auto simp: om_wf_def)

section \<open>Identifier supplies\<close>

text \<open>
  Several components hand out identifiers from a counter they then increment: operation
  ids, overlay ids, file handles. As long as everything in use is below the counter, the
  identifier handed out is new, and the bound is kept.
\<close>

locale id_supply =
  fixes counter :: "'s \<Rightarrow> nat"
    and in_use :: "'s \<Rightarrow> nat set"
    and fresh :: "'s \<Rightarrow> nat \<times> 's"
  assumes fresh_id: "fst (fresh s) = counter s"
    and fresh_counter: "counter (snd (fresh s)) = Suc (counter s)"
    and fresh_in_use: "in_use (snd (fresh s)) = in_use s"
begin

definition bounded :: "'s \<Rightarrow> bool" where
  "bounded s \<longleftrightarrow> (\<forall>i \<in> in_use s. i < counter s)"

lemma fresh_not_in_use: "bounded s \<Longrightarrow> fst (fresh s) \<notin> in_use s"
  by (auto simp: bounded_def fresh_id)

lemma fresh_bounded: "bounded s \<Longrightarrow> bounded (snd (fresh s))"
  by (auto simp: bounded_def fresh_counter fresh_in_use less_Suc_eq)

lemma fresh_below: "fst (fresh s) < counter (snd (fresh s))"
  by (simp add: fresh_id fresh_counter)

lemma fresh_twice_distinct: "fst (fresh s) \<noteq> fst (fresh (snd (fresh s)))"
  by (simp add: fresh_id fresh_counter)

end

end
