(* ===== verification/Policy.thy ===== *)
theory Policy
  imports Sandbox_Path Ordered_Map
begin

text \<open>
  \<^verbatim>\<open>src/state.rs\<close>, policy part: protection kinds, policy patterns and the rules built from
  them. Globbing itself is the \<^verbatim>\<open>glob\<close> crate: \<open>glob_api\<close> holds its two calls (compiling a
  pattern, which may fail with a message, and matching a compiled pattern against the bytes
  of a path under the fixed match options of the code). Both rule tables of a sandbox follow
  one contract, the locale \<open>rule_book\<close>; the sandbox theory interprets it for protection and
  for bypass rules.
\<close>

section \<open>Kinds\<close>

datatype protection_kind = Read | Write | Metadata | Xattr

fun kind_log_name :: "protection_kind \<Rightarrow> string" where
  "kind_log_name Read = ''READ''"
| "kind_log_name Write = ''WRITE''"
| "kind_log_name Metadata = ''METADATA''"
| "kind_log_name Xattr = ''XATTR''"

text \<open>The derived order of \<^verbatim>\<open>ProtectionKind\<close>: declaration order.\<close>

fun kind_rank :: "protection_kind \<Rightarrow> nat" where
  "kind_rank Read = 0"
| "kind_rank Write = 1"
| "kind_rank Metadata = 2"
| "kind_rank Xattr = 3"

lemma kind_rank_inject: "kind_rank a = kind_rank b \<longleftrightarrow> a = b"
  by (cases a; cases b) simp_all

instantiation protection_kind :: linorder
begin

definition less_eq_protection_kind :: "protection_kind \<Rightarrow> protection_kind \<Rightarrow> bool" where
  "less_eq_protection_kind a b \<longleftrightarrow> kind_rank a \<le> kind_rank b"

definition less_protection_kind :: "protection_kind \<Rightarrow> protection_kind \<Rightarrow> bool" where
  "less_protection_kind a b \<longleftrightarrow> kind_rank a < kind_rank b"

instance
  by standard (auto simp: less_eq_protection_kind_def less_protection_kind_def
      simp flip: kind_rank_inject)

end

section \<open>Patterns\<close>

text \<open>
  The calls into the \<^verbatim>\<open>glob\<close> crate: \<^verbatim>\<open>glob::Pattern::new\<close> and \<^verbatim>\<open>matches_path_with\<close> under
  \<^verbatim>\<open>case_sensitive: true, require_literal_separator: true, require_literal_leading_dot: false\<close>.
\<close>

record glob_api =
  glob_new :: "string \<Rightarrow> string + unit"
  glob_matches :: "string \<Rightarrow> string \<Rightarrow> bool"

datatype policy_pattern = PolicyPattern (raw: string) (directory_only: bool)

definition ends_with_slash :: "string \<Rightarrow> bool" where
  "ends_with_slash s \<longleftrightarrow> s \<noteq> [] \<and> last s = slash"

definition trim_end_slashes :: "string \<Rightarrow> string" where
  "trim_end_slashes s = rev (dropWhile (\<lambda>c. c = slash) (rev s))"

definition normalize_policy_pattern :: "string \<Rightarrow> string res" where
  "normalize_policy_pattern pattern =
     (if pattern = [] then Inl (Message ''policy pattern cannot be empty'')
      else if CHR 0x00 \<in> set pattern then Inl (Message ''policy pattern cannot contain NUL'')
      else
        let dir_only = (pattern \<noteq> ''/'' \<and> ends_with_slash pattern) in
        result_bind (normalize_sandbox_path pattern) (\<lambda>normalized.
          let r = to_string_lossy (path_string normalized) in
          Inr (if dir_only \<and> r \<noteq> ''/'' then r @ ''/'' else r)))"

definition glob_pattern_for_match :: "string \<Rightarrow> string" where
  "glob_pattern_for_match pattern =
     (if pattern \<noteq> ''/'' \<and> ends_with_slash pattern then trim_end_slashes pattern else pattern)"

definition policy_pattern_new :: "glob_api \<Rightarrow> string \<Rightarrow> policy_pattern res" where
  "policy_pattern_new G pattern =
     result_bind (normalize_policy_pattern pattern) (\<lambda>r.
     result_bind (map_err (\<lambda>err. Message (''invalid glob pattern '' @ r @ '': '' @ err))
                    (glob_new G (glob_pattern_for_match r))) (\<lambda>_.
     Inr (PolicyPattern r (r \<noteq> ''/'' \<and> ends_with_slash r))))"

definition pattern_matches :: "glob_api \<Rightarrow> policy_pattern \<Rightarrow> sandbox_path \<Rightarrow> bool \<Rightarrow> bool" where
  "pattern_matches G p path target_is_dir =
     (if directory_only p \<and> \<not> target_is_dir then False
      else if directory_only p \<and> raw p \<noteq> ''/'' \<and> path = [] then False
      else case glob_new G (glob_pattern_for_match (raw p)) of
             Inl _ \<Rightarrow> False
           | Inr _ \<Rightarrow> glob_matches G (glob_pattern_for_match (raw p)) (path_string path))"

text \<open>\<^verbatim>\<open>From<PolicyPattern> for String\<close>, \<^verbatim>\<open>TryFrom<String>\<close> and \<^verbatim>\<open>From<SandboxPath>\<close>.\<close>

definition pattern_to_string :: "policy_pattern \<Rightarrow> string" where
  "pattern_to_string p = raw p"

definition pattern_try_from :: "glob_api \<Rightarrow> string \<Rightarrow> policy_pattern res" where
  "pattern_try_from G s = policy_pattern_new G s"

definition pattern_of_path :: "sandbox_path \<Rightarrow> policy_pattern" where
  "pattern_of_path path = PolicyPattern (display_path path) False"

definition grant_pattern_matches :: "glob_api \<Rightarrow> sandbox_path \<Rightarrow> sandbox_path \<Rightarrow> bool" where
  "grant_pattern_matches G pattern path = pattern_matches G (pattern_of_path pattern) path False"

text \<open>The derived order of \<^verbatim>\<open>PolicyPattern\<close>: first the text, then the flag.\<close>

instantiation policy_pattern :: linorder
begin

definition less_eq_policy_pattern :: "policy_pattern \<Rightarrow> policy_pattern \<Rightarrow> bool" where
  "less_eq_policy_pattern a b \<longleftrightarrow> (raw a, directory_only a) \<le> (raw b, directory_only b)"

definition less_policy_pattern :: "policy_pattern \<Rightarrow> policy_pattern \<Rightarrow> bool" where
  "less_policy_pattern a b \<longleftrightarrow> (raw a, directory_only a) < (raw b, directory_only b)"

instance
  by standard
     (auto simp: less_eq_policy_pattern_def less_policy_pattern_def intro: policy_pattern.expand)

end

section \<open>Rules\<close>

record protection_rule =
  prule_kind :: protection_kind
  prule_pattern :: policy_pattern

record bypass_rule =
  brule_kind :: protection_kind
  brule_pattern :: policy_pattern

definition protection_rule_matches :: "glob_api \<Rightarrow> protection_rule \<Rightarrow> sandbox_path \<Rightarrow> bool \<Rightarrow> bool" where
  "protection_rule_matches G rule path target_is_dir =
     pattern_matches G (prule_pattern rule) path target_is_dir"

definition bypass_rule_matches :: "glob_api \<Rightarrow> bypass_rule \<Rightarrow> sandbox_path \<Rightarrow> bool \<Rightarrow> bool" where
  "bypass_rule_matches G rule path target_is_dir =
     pattern_matches G (brule_pattern rule) path target_is_dir"

datatype protection_rule_result = Added | AlreadyPresent | Removed | NotPresent

fun result_log_name :: "protection_rule_result \<Rightarrow> string" where
  "result_log_name Added = ''added''"
| "result_log_name AlreadyPresent = ''already-present''"
| "result_log_name Removed = ''removed''"
| "result_log_name NotPresent = ''not-present''"

section \<open>The contract of a rule table\<close>

text \<open>
  A rule table holds at most one rule per kind and pattern. Adding reports whether the rule
  is new, removing reports whether it was there, and a path is covered when some rule of
  the kind matches it.
\<close>

locale rule_book =
  fixes rules :: "'s \<Rightarrow> 'r list"
    and key :: "'r \<Rightarrow> protection_kind \<times> policy_pattern"
    and add :: "protection_kind \<Rightarrow> policy_pattern \<Rightarrow> 's \<Rightarrow> protection_rule_result \<times> 's"
    and del :: "protection_kind \<Rightarrow> policy_pattern \<Rightarrow> 's \<Rightarrow> protection_rule_result \<times> 's"
    and covers :: "glob_api \<Rightarrow> 's \<Rightarrow> protection_kind \<Rightarrow> sandbox_path \<Rightarrow> bool \<Rightarrow> bool"
  assumes add_present: "(k, p) \<in> key ` set (rules s) \<Longrightarrow> add k p s = (AlreadyPresent, s)"
    and add_absent_result: "(k, p) \<notin> key ` set (rules s) \<Longrightarrow> fst (add k p s) = Added"
    and add_absent_keys: "(k, p) \<notin> key ` set (rules s) \<Longrightarrow>
          map key (rules (snd (add k p s))) = map key (rules s) @ [(k, p)]"
    and del_absent: "(k, p) \<notin> key ` set (rules s) \<Longrightarrow> del k p s = (NotPresent, s)"
    and del_present_result: "(k, p) \<in> key ` set (rules s) \<Longrightarrow> fst (del k p s) = Removed"
    and del_present_keys: "(k, p) \<in> key ` set (rules s) \<Longrightarrow>
          map key (rules (snd (del k p s))) = remove1 (k, p) (map key (rules s))"
    and covers_iff: "covers G s k path d \<longleftrightarrow>
          (\<exists>p. (k, p) \<in> key ` set (rules s) \<and> pattern_matches G p path d)"
begin

definition no_duplicates :: "'s \<Rightarrow> bool" where
  "no_duplicates s \<longleftrightarrow> distinct (map key (rules s))"

lemma keys_add: "key ` set (rules (snd (add k p s))) = insert (k, p) (key ` set (rules s))"
proof (cases "(k, p) \<in> key ` set (rules s)")
  case True
  then show ?thesis by (simp add: add_present insert_absorb)
next
  case False
  have "key ` set (rules (snd (add k p s))) = set (map key (rules s) @ [(k, p)])"
    using add_absent_keys [OF False] by (metis list.set_map)
  then show ?thesis by auto
qed

lemma keys_del:
  assumes "no_duplicates s"
  shows "key ` set (rules (snd (del k p s))) = key ` set (rules s) - {(k, p)}"
proof (cases "(k, p) \<in> key ` set (rules s)")
  case True
  have "key ` set (rules (snd (del k p s))) = set (remove1 (k, p) (map key (rules s)))"
    using del_present_keys [OF True] by (metis list.set_map)
  with assms show ?thesis by (simp add: no_duplicates_def)
next
  case False
  then show ?thesis by (simp add: del_absent)
qed

lemma no_duplicates_add: "no_duplicates s \<Longrightarrow> no_duplicates (snd (add k p s))"
proof (cases "(k, p) \<in> key ` set (rules s)")
  case True
  then show "no_duplicates s \<Longrightarrow> ?thesis" by (simp add: add_present)
next
  case False
  then show "no_duplicates s \<Longrightarrow> ?thesis"
    by (auto simp: no_duplicates_def add_absent_keys)
qed

lemma no_duplicates_del: "no_duplicates s \<Longrightarrow> no_duplicates (snd (del k p s))"
proof (cases "(k, p) \<in> key ` set (rules s)")
  case True
  then show "no_duplicates s \<Longrightarrow> ?thesis"
    by (simp add: no_duplicates_def del_present_keys distinct_remove1)
next
  case False
  then show "no_duplicates s \<Longrightarrow> ?thesis" by (simp add: del_absent)
qed

lemma add_idempotent: "add k p (snd (add k p s)) = (AlreadyPresent, snd (add k p s))"
  by (rule add_present) (simp add: keys_add)

lemma del_after_add_keys:
  assumes "(k, p) \<notin> key ` set (rules s)"
  shows "map key (rules (snd (del k p (snd (add k p s))))) = map key (rules s)"
proof -
  have "(k, p) \<in> key ` set (rules (snd (add k p s)))" by (simp add: keys_add)
  from del_present_keys [OF this] show ?thesis
    using assms by (auto simp: add_absent_keys remove1_append)
qed

lemma covers_add:
  "covers G (snd (add k p s)) k' path d \<longleftrightarrow>
     covers G s k' path d \<or> (k' = k \<and> pattern_matches G p path d)"
  by (auto simp: covers_iff keys_add)

lemma covers_del:
  assumes "no_duplicates s"
  shows "covers G (snd (del k p s)) k' path d \<longleftrightarrow>
     (\<exists>q. (k', q) \<in> key ` set (rules s) \<and> (k', q) \<noteq> (k, p) \<and> pattern_matches G q path d)"
  using assms by (auto simp: covers_iff keys_del)

end

section \<open>Facts about patterns\<close>

lemma split_slash_chars: "p \<in> set (split_slash s) \<Longrightarrow> set p \<subseteq> set s"
proof (induction s arbitrary: p)
  case Nil
  then show ?case by simp
next
  case (Cons c s)
  then show ?case by (cases "split_slash s") (force split: if_splits)+
qed

lemma normalize_components_chars:
  "normalize_components cs out = Inr p \<Longrightarrow> x \<in> set p \<Longrightarrow> x \<in> set out \<or> Normal x \<in> set cs"
  by (induction cs out rule: normalize_components.induct)
     (auto split: if_splits dest: in_set_butlastD)

lemma normalize_chars:
  assumes "normalize_sandbox_path s = Inr p" and "x \<in> set p"
  shows "set x \<subseteq> set s"
proof -
  from assms have "Normal x \<in> set (components s)"
    using normalize_components_chars [of "components s" "[]" p x]
    by (simp add: normalize_sandbox_path_def)
  then have "x \<in> set (split_slash s)"
    by (auto simp: components_def List.map_filter_def split: if_splits)
  then show ?thesis by (rule split_slash_chars)
qed

lemma set_intercalate: "c \<in> set (intercalate_str ''/'' p) \<Longrightarrow> c = slash \<or> (\<exists>x \<in> set p. c \<in> set x)"
  by (induction "''/''" p rule: intercalate_str.induct) auto

lemma ends_with_slash_path_string:
  "wf_path p \<Longrightarrow> ends_with_slash (path_string p) \<longleftrightarrow> p = []"
  using last_intercalate [of p] by (cases "p = []") (auto simp: ends_with_slash_def path_string_def)

lemma path_string_not_Nil [simp]: "path_string p \<noteq> []"
  by (simp add: path_string_def)

lemma path_string_root [simp]: "path_string p = ''/'' \<longleftrightarrow> p = [] \<or> p = [[]]"
  by (cases "(''/'', p)" rule: intercalate_str.cases) (auto simp: path_string_def)

lemma normalize_trailing_slash:
  assumes "wf_path p" "p \<noteq> []"
  shows "normalize_sandbox_path (path_string p @ ''/'') = Inr p"
proof -
  have "path_join (path_string p) [] = path_string p @ ''/''"
    using assms last_intercalate [of p]
    by (auto simp: path_join_def path_string_def is_absolute_def)
  moreover have "join p [] = Inr p"
    using assms by (simp add: join_relative is_absolute_def List.map_filter_simps)
  ultimately show ?thesis by (simp add: join_def new_path_def is_absolute_def)
qed

text \<open>The text of a pattern is the printed path, with the slash of a directory pattern.\<close>

lemma policy_pattern_newE:
  assumes "policy_pattern_new G s = Inr p" and "utf8_valid s"
  obtains q where "normalize_sandbox_path s = Inr q" "wf_path q"
    and "raw p = path_string q @ (if directory_only p then ''/'' else [])"
    and "directory_only p \<longleftrightarrow> s \<noteq> ''/'' \<and> ends_with_slash s \<and> q \<noteq> []"
    and "CHR 0x00 \<notin> set (raw p)"
    and "glob_new G (glob_pattern_for_match (raw p)) = Inr ()"
proof -
  obtain q where q: "normalize_sandbox_path s = Inr q" and wf: "wf_path q"
    using normalize_total normalize_wf by metis
  have nz: "CHR 0x00 \<notin> set s"
    using assms(1)
    by (auto simp: policy_pattern_new_def normalize_policy_pattern_def split: if_splits)
  have lossy: "to_string_lossy (path_string q) = path_string q"
    using normalize_utf8 [OF assms(2) q] by (rule to_string_lossy_valid)
  have clean: "CHR 0x00 \<notin> set (path_string q)"
    using nz normalize_chars [OF q] by (auto simp: path_string_def dest!: set_intercalate)
  have one: "q = [] \<or> q = [[]] \<longleftrightarrow> q = []"
    using wf by (auto simp: wf_component_def)
  show ?thesis
    using assms(1) q lossy clean nz one wf
    by (intro that [of q])
       (auto simp: policy_pattern_new_def normalize_policy_pattern_def Let_def result_simps
          ends_with_slash_path_string ends_with_slash_def [of "_ @ ''/''"] split: if_splits)
qed

section \<open>Properties\<close>

text \<open>
  A policy pattern survives its trip through the protocol: the text it prints as parses
  to the same pattern, directory flag included.
\<close>

lemma pattern_roundtrip:
  assumes "policy_pattern_new G s = Inr p" and "utf8_valid s"
  shows "pattern_try_from G (pattern_to_string p) = Inr p"
proof -
  obtain q where nq: "normalize_sandbox_path s = Inr q" and q: "wf_path q"
    and rawp: "raw p = path_string q @ (if directory_only p then ''/'' else [])"
    and dir': "directory_only p \<longleftrightarrow> s \<noteq> ''/'' \<and> ends_with_slash s \<and> q \<noteq> []"
    and clean: "CHR 0x00 \<notin> set (raw p)"
    and glob: "glob_new G (glob_pattern_for_match (raw p)) = Inr ()"
    by (rule policy_pattern_newE [OF assms])
  from dir' have dir: "directory_only p \<Longrightarrow> q \<noteq> []" by blast
  have qs: "utf8_valid (path_string q)"
    by (rule normalize_utf8 [OF assms(2) nq])
  have norm: "normalize_sandbox_path (raw p) = Inr q"
    using q dir by (auto simp: rawp normalize_trailing_slash)
  have one: "q = [] \<or> q = [[]] \<longleftrightarrow> q = []"
    using q by (auto simp: wf_component_def)
  have ends: "ends_with_slash (raw p) \<longleftrightarrow> directory_only p \<or> q = []"
    using q dir ends_with_slash_path_string [OF q] by (auto simp: rawp ends_with_slash_def)
  have self: "normalize_policy_pattern (raw p) = Inr (raw p)"
    using norm clean ends one dir to_string_lossy_valid [OF qs]
    by (auto simp: normalize_policy_pattern_def Let_def rawp)
  then show ?thesis
    using glob ends one dir rawp
    by (cases p) (auto simp: pattern_try_from_def pattern_to_string_def policy_pattern_new_def)
qed

lemmas [eval_simps] = policy_pattern_new_def normalize_policy_pattern_def ends_with_slash_def
  glob_pattern_for_match_def trim_end_slashes_def pattern_matches_def pattern_of_path_def
  grant_pattern_matches_def Let_def

text \<open>A matcher for the witnesses: literal patterns, and \<^verbatim>\<open>/**\<close> below a directory.\<close>

definition simple_glob :: glob_api where
  "simple_glob = \<lparr>glob_new = (\<lambda>p. if p = ''/***'' then Inl ''bad'' else Inr ()),
     glob_matches = (\<lambda>p s. p = s \<or>
       (take 3 (rev p) = ''**/'' \<and> take (length p - 2) s = take (length p - 2) p \<and> length p - 2 < length s))\<rparr>"

text \<open>
  A pattern is directory-only exactly when its text ended in a slash and it is not the
  root; such a pattern matches directories only and never the sandbox root.
\<close>

lemma directory_only_pattern:
  assumes "policy_pattern_new G s = Inr p" and "utf8_valid s"
  shows "(directory_only p \<longleftrightarrow> ends_with_slash s \<and> normalize_sandbox_path s \<noteq> Inr [])
    \<and> (directory_only p \<and> pattern_matches G p path d \<longrightarrow> d \<and> path \<noteq> [])"
proof -
  have root: "normalize_sandbox_path ''/'' = Inr []" by (simp add: eval_simps)
  obtain q where "normalize_sandbox_path s = Inr q"
    and rawp: "raw p = path_string q @ (if directory_only p then ''/'' else [])"
    and dir: "directory_only p \<longleftrightarrow> s \<noteq> ''/'' \<and> ends_with_slash s \<and> q \<noteq> []"
    by (rule policy_pattern_newE [OF assms])
  with root have "directory_only p \<longleftrightarrow> ends_with_slash s \<and> normalize_sandbox_path s \<noteq> Inr []"
    by auto
  moreover have "d \<and> path \<noteq> []" if "directory_only p" "pattern_matches G p path d"
    using that rawp by (auto simp: pattern_matches_def split: if_splits)
  ultimately show ?thesis by blast
qed

end
