(* ===== verification/Operations.thy ===== *)
theory Operations
  imports Policy
begin

text \<open>
  \<^verbatim>\<open>src/state.rs\<close>, operation part: the read/write operations with the filesystem effects
  they are authorised by, the metadata operations with the attribute groups they touch, and
  the texts both are logged under. Shown here: every operation has at least one effect, the
  first one gives its kind, and the effects are exactly on its protection paths; metadata
  operations touch each attribute group once, and the empty ones are the operations that
  change nothing.
\<close>

section \<open>Read/write operations\<close>

record read_write_effect =
  eff_kind :: protection_kind
  eff_path :: sandbox_path
  eff_description :: string

definition effect_new :: "protection_kind \<Rightarrow> sandbox_path \<Rightarrow> string \<Rightarrow> read_write_effect" where
  "effect_new k p d = \<lparr>eff_kind = k, eff_path = p, eff_description = d\<rparr>"

datatype read_write_operation =
    ReadFile sandbox_path
  | ReadDirectory sandbox_path
  | GetXattr sandbox_path string
  | ListXattr sandbox_path
  | OpenWrite sandbox_path
  | WriteFile sandbox_path
  | SetXattr sandbox_path string
  | RemoveXattr sandbox_path string
  | Truncate sandbox_path
  | Create sandbox_path
  | Mkdir sandbox_path
  | Mknod sandbox_path
  | Symlink sandbox_path
  | Link sandbox_path sandbox_path
  | Unlink sandbox_path
  | Rmdir sandbox_path
  | Rename sandbox_path sandbox_path

text \<open>\<^verbatim>\<open>format!("path={path} ...")\<close>.\<close>

definition path_field :: "sandbox_path \<Rightarrow> string \<Rightarrow> string" where
  "path_field p rest = ''path='' @ display_path p @ '' '' @ rest"

fun effects :: "read_write_operation \<Rightarrow> read_write_effect list" where
  "effects (ReadFile p) = [effect_new Read p (path_field p ''READ file'')]"
| "effects (ReadDirectory p) = [effect_new Read p (path_field p ''READ directory'')]"
| "effects (GetXattr p n) =
     [effect_new Read p (path_field p (''READ GETXATTR name='' @ n)),
      effect_new Xattr p (path_field p (''XATTR GETXATTR name='' @ n))]"
| "effects (ListXattr p) =
     [effect_new Read p (path_field p ''READ LISTXATTR''),
      effect_new Xattr p (path_field p ''XATTR LISTXATTR'')]"
| "effects (OpenWrite p) = [effect_new Write p (path_field p ''WRITE open'')]"
| "effects (WriteFile p) = [effect_new Write p (path_field p ''WRITE data'')]"
| "effects (SetXattr p n) =
     [effect_new Write p (path_field p (''WRITE SETXATTR name='' @ n)),
      effect_new Metadata p (path_field p (''METADATA SETXATTR name='' @ n)),
      effect_new Xattr p (path_field p (''XATTR SETXATTR name='' @ n))]"
| "effects (RemoveXattr p n) =
     [effect_new Write p (path_field p (''WRITE REMOVEXATTR name='' @ n)),
      effect_new Metadata p (path_field p (''METADATA REMOVEXATTR name='' @ n)),
      effect_new Xattr p (path_field p (''XATTR REMOVEXATTR name='' @ n))]"
| "effects (Truncate p) =
     [effect_new Write p (path_field p ''WRITE truncate''),
      effect_new Metadata p (path_field p ''METADATA truncate'')]"
| "effects (Create p) = [effect_new Write p (path_field p ''WRITE create'')]"
| "effects (Mkdir p) = [effect_new Write p (path_field p ''WRITE mkdir'')]"
| "effects (Mknod p) = [effect_new Write p (path_field p ''WRITE mknod'')]"
| "effects (Symlink p) = [effect_new Write p (path_field p ''WRITE symlink'')]"
| "effects (Link f t) =
     [effect_new Metadata f (path_field f (''METADATA link to='' @ display_path t)),
      effect_new Write t (path_field t (''WRITE link from='' @ display_path f))]"
| "effects (Unlink p) = [effect_new Write p (path_field p ''WRITE unlink'')]"
| "effects (Rmdir p) = [effect_new Write p (path_field p ''WRITE rmdir'')]"
| "effects (Rename f t) =
     [effect_new Write f (path_field f (''WRITE rename to='' @ display_path t)),
      effect_new Write t (path_field t (''WRITE rename from='' @ display_path f))]"

definition operation_kind :: "read_write_operation \<Rightarrow> protection_kind" where
  "operation_kind op = (case effects op of [] \<Rightarrow> Write | e # _ \<Rightarrow> eff_kind e)"

fun operation_path :: "read_write_operation \<Rightarrow> sandbox_path" where
  "operation_path (ReadFile p) = p"
| "operation_path (ReadDirectory p) = p"
| "operation_path (GetXattr p _) = p"
| "operation_path (ListXattr p) = p"
| "operation_path (OpenWrite p) = p"
| "operation_path (WriteFile p) = p"
| "operation_path (SetXattr p _) = p"
| "operation_path (RemoveXattr p _) = p"
| "operation_path (Truncate p) = p"
| "operation_path (Create p) = p"
| "operation_path (Mkdir p) = p"
| "operation_path (Mknod p) = p"
| "operation_path (Symlink p) = p"
| "operation_path (Unlink p) = p"
| "operation_path (Rmdir p) = p"
| "operation_path (Link f _) = f"
| "operation_path (Rename f _) = f"

fun protection_paths :: "read_write_operation \<Rightarrow> sandbox_path list" where
  "protection_paths (Link f t) = [f, t]"
| "protection_paths (Rename f t) = [f, t]"
| "protection_paths op = [operation_path op]"

fun rw_event_body :: "read_write_operation \<Rightarrow> string" where
  "rw_event_body (ReadFile p) = path_field p ''READ file''"
| "rw_event_body (ReadDirectory p) = path_field p ''READ directory''"
| "rw_event_body (GetXattr p n) = path_field p (''READ GETXATTR name='' @ n)"
| "rw_event_body (ListXattr p) = path_field p ''READ LISTXATTR''"
| "rw_event_body (OpenWrite p) = path_field p ''WRITE open''"
| "rw_event_body (WriteFile p) = path_field p ''WRITE data''"
| "rw_event_body (SetXattr p n) = path_field p (''WRITE SETXATTR name='' @ n)"
| "rw_event_body (RemoveXattr p n) = path_field p (''WRITE REMOVEXATTR name='' @ n)"
| "rw_event_body (Truncate p) = path_field p ''WRITE truncate''"
| "rw_event_body (Create p) = path_field p ''WRITE create''"
| "rw_event_body (Mkdir p) = path_field p ''WRITE mkdir''"
| "rw_event_body (Mknod p) = path_field p ''WRITE mknod''"
| "rw_event_body (Symlink p) = path_field p ''WRITE symlink''"
| "rw_event_body (Link f t) = path_field f (''WRITE link to='' @ display_path t)"
| "rw_event_body (Unlink p) = path_field p ''WRITE unlink''"
| "rw_event_body (Rmdir p) = path_field p ''WRITE rmdir''"
| "rw_event_body (Rename f t) = path_field f (''WRITE rename to='' @ display_path t)"

definition rw_description :: "read_write_operation \<Rightarrow> string" where
  "rw_description op = rw_event_body op"

section \<open>Time\<close>

text \<open>
  \<^verbatim>\<open>SystemTime\<close> on Unix: seconds relative to the epoch, which fit an \<^verbatim>\<open>i64\<close>, and nanoseconds.
  \<^verbatim>\<open>epoch_millis\<close> is 0 for times before the epoch. Adding a duration of whole seconds
  fails when the seconds leave the \<^verbatim>\<open>i64\<close> range; the expiry is then \<^verbatim>\<open>u128::MAX\<close>.
\<close>

datatype system_time = SystemTime (tv_sec: int) (tv_nsec: nat)

definition unix_epoch :: system_time where
  "unix_epoch = SystemTime 0 0"

definition epoch_millis :: "system_time \<Rightarrow> nat" where
  "epoch_millis t = (if tv_sec t < 0 then 0 else nat (tv_sec t) * 1000 + tv_nsec t div 1000000)"

definition checked_add_secs :: "system_time \<Rightarrow> nat \<Rightarrow> system_time option" where
  "checked_add_secs t secs =
     (if tv_sec t + int secs \<le> 2 ^ 63 - 1 then Some (SystemTime (tv_sec t + int secs) (tv_nsec t))
      else None)"

definition duration_expires_at :: "system_time \<Rightarrow> nat \<Rightarrow> nat" where
  "duration_expires_at now secs =
     (case checked_add_secs now secs of Some t \<Rightarrow> epoch_millis t | None \<Rightarrow> 2 ^ 128 - 1)"

section \<open>Metadata operations\<close>

datatype pending_operation_kind = KMode | KUid | KGid | KFlags | KTimes | KXattr

datatype metadata_operation =
    Chmod sandbox_path u16
  | Chown sandbox_path "u32 option" "u32 option"
  | Chattr sandbox_path u32
  | SetAttr sandbox_path "u16 option" "u32 option" "u32 option" "u32 option"
      "system_time option" "system_time option"
  | MSetXattr sandbox_path string
  | MRemoveXattr sandbox_path string

fun metadata_path :: "metadata_operation \<Rightarrow> sandbox_path" where
  "metadata_path (Chmod p _) = p"
| "metadata_path (Chown p _ _) = p"
| "metadata_path (Chattr p _) = p"
| "metadata_path (SetAttr p _ _ _ _ _ _) = p"
| "metadata_path (MSetXattr p _) = p"
| "metadata_path (MRemoveXattr p _) = p"

definition opt_field :: "('a \<Rightarrow> string) \<Rightarrow> 'a option \<Rightarrow> string list" where
  "opt_field f x = (case x of None \<Rightarrow> [] | Some a \<Rightarrow> [f a])"

definition show_mode04 :: "u16 \<Rightarrow> string" where
  "show_mode04 m = pad_left 4 (show_oct (unat m))"

definition format_setattr_body ::
  "sandbox_path \<Rightarrow> u16 option \<Rightarrow> u32 option \<Rightarrow> u32 option \<Rightarrow> u32 option \<Rightarrow>
   system_time option \<Rightarrow> system_time option \<Rightarrow> string"
where
  "format_setattr_body p mode uid gid flags atime mtime =
     (let fields =
        opt_field (\<lambda>m. ''mode='' @ show_mode04 m) mode
        @ opt_field (\<lambda>u. ''uid='' @ show_nat (unat u)) uid
        @ opt_field (\<lambda>g. ''gid='' @ show_nat (unat g)) gid
        @ opt_field (\<lambda>f. ''flags=0x'' @ show_hex (unat f)) flags
        @ opt_field (\<lambda>_. ''atime=<set>'') atime
        @ opt_field (\<lambda>_. ''mtime=<set>'') mtime;
        fields = (if fields = [] then [''unchanged''] else fields)
      in path_field p (''SETATTR '' @ intercalate_str '' '' fields))"

fun metadata_event_body :: "metadata_operation \<Rightarrow> string" where
  "metadata_event_body (Chmod p mode) = path_field p (''SETATTR mode='' @ show_mode04 mode)"
| "metadata_event_body (Chown p uid gid) = format_setattr_body p None uid gid None None None"
| "metadata_event_body (Chattr p flags) = path_field p (''CHATTR flags=0x'' @ show_hex (unat flags))"
| "metadata_event_body (MSetXattr p n) = path_field p (''SETXATTR name='' @ n)"
| "metadata_event_body (MRemoveXattr p n) = path_field p (''REMOVEXATTR name='' @ n)"
| "metadata_event_body (SetAttr p mode uid gid flags atime mtime) =
     format_setattr_body p mode uid gid flags atime mtime"

definition metadata_description :: "metadata_operation \<Rightarrow> string" where
  "metadata_description op = metadata_event_body op"

definition push_if :: "bool \<Rightarrow> 'a \<Rightarrow> 'a list" where
  "push_if b x = (if b then [x] else [])"

fun pending_kinds :: "metadata_operation \<Rightarrow> pending_operation_kind list" where
  "pending_kinds (Chmod _ _) = [KMode]"
| "pending_kinds (Chown _ uid gid) = push_if (uid \<noteq> None) KUid @ push_if (gid \<noteq> None) KGid"
| "pending_kinds (Chattr _ _) = [KFlags]"
| "pending_kinds (MSetXattr _ _) = [KXattr]"
| "pending_kinds (MRemoveXattr _ _) = [KXattr]"
| "pending_kinds (SetAttr _ mode uid gid flags atime mtime) =
     push_if (mode \<noteq> None) KMode @ push_if (uid \<noteq> None) KUid @ push_if (gid \<noteq> None) KGid
     @ push_if (flags \<noteq> None) KFlags @ push_if (atime \<noteq> None \<or> mtime \<noteq> None) KTimes"

fun format_chown_shell_hint :: "sandbox_path \<Rightarrow> u32 option \<Rightarrow> u32 option \<Rightarrow> string" where
  "format_chown_shell_hint p (Some uid) (Some gid) =
     ''chown '' @ show_nat (unat uid) @ '':'' @ show_nat (unat gid) @ '' '' @ display_path p"
| "format_chown_shell_hint p (Some uid) None = ''chown '' @ show_nat (unat uid) @ '' '' @ display_path p"
| "format_chown_shell_hint p None (Some gid) = ''chown :'' @ show_nat (unat gid) @ '' '' @ display_path p"
| "format_chown_shell_hint p None None = ''chown unchanged '' @ display_path p"

definition chmod_hint :: "sandbox_path \<Rightarrow> u16 \<Rightarrow> string" where
  "chmod_hint p mode = ''chmod '' @ show_oct (unat mode) @ '' '' @ display_path p"

definition chattr_hint :: "sandbox_path \<Rightarrow> u32 \<Rightarrow> string" where
  "chattr_hint p flags = ''chattr flags=0x'' @ show_hex (unat flags) @ '' '' @ display_path p"

fun shell_hint :: "metadata_operation \<Rightarrow> string" where
  "shell_hint (Chmod p mode) = chmod_hint p mode"
| "shell_hint (Chown p uid gid) = format_chown_shell_hint p uid gid"
| "shell_hint (Chattr p flags) = chattr_hint p flags"
| "shell_hint (MSetXattr p n) = ''setfattr -n '' @ n @ '' '' @ display_path p"
| "shell_hint (MRemoveXattr p n) = ''setfattr -x '' @ n @ '' '' @ display_path p"
| "shell_hint (SetAttr p mode uid gid flags atime mtime) =
     (case (mode, uid, gid, flags, atime, mtime) of
        (Some m, None, None, None, None, None) \<Rightarrow> chmod_hint p m
      | (None, Some u, None, None, None, None) \<Rightarrow> format_chown_shell_hint p (Some u) None
      | (None, None, Some g, None, None, None) \<Rightarrow> format_chown_shell_hint p None (Some g)
      | (None, Some u, Some g, None, None, None) \<Rightarrow> format_chown_shell_hint p (Some u) (Some g)
      | (None, None, None, Some f, None, None) \<Rightarrow> chattr_hint p f
      | _ \<Rightarrow> metadata_event_body (SetAttr p mode uid gid flags atime mtime))"

section \<open>Facts\<close>

lemma effects_not_Nil [simp]: "effects op \<noteq> []"
  by (cases op) simp_all

lemma operation_kind_hd: "operation_kind op = eff_kind (hd (effects op))"
  by (simp add: operation_kind_def split: list.splits)

lemma effects_paths: "set (map eff_path (effects op)) = set (protection_paths op)"
  by (cases op) (simp_all add: effect_new_def)

lemma pending_kinds_distinct: "distinct (pending_kinds op)"
  by (cases op) (simp_all add: push_if_def)

definition is_xattr_operation :: "read_write_operation \<Rightarrow> bool" where
  "is_xattr_operation op =
     (case op of GetXattr _ _ \<Rightarrow> True | ListXattr _ \<Rightarrow> True | SetXattr _ _ \<Rightarrow> True
      | RemoveXattr _ _ \<Rightarrow> True | _ \<Rightarrow> False)"

lemma xattr_effect_iff: "Xattr \<in> set (map eff_kind (effects op)) \<longleftrightarrow> is_xattr_operation op"
  by (cases op) (simp_all add: effect_new_def is_xattr_operation_def)

section \<open>Properties\<close>

text \<open>
  Every read/write operation is authorised by at least one effect; its kind is that of
  the first effect, its effects lie exactly on its protection paths, its own path is one of
  them, and an effect of kind XATTR occurs exactly in the four extended attribute
  operations.
\<close>

lemma operation_effects_complete:
  "effects op \<noteq> []
   \<and> operation_kind op = eff_kind (hd (effects op))
   \<and> set (map eff_path (effects op)) = set (protection_paths op)
   \<and> operation_path op \<in> set (protection_paths op)
   \<and> (Xattr \<in> set (map eff_kind (effects op)) \<longleftrightarrow> is_xattr_operation op)"
proof -
  have "operation_path op \<in> set (protection_paths op)"
    by (cases op) simp_all
  then show ?thesis
    by (simp add: operation_kind_hd effects_paths xattr_effect_iff del: set_map)
qed

end
