(* ===== verification/Requests.thy ===== *)
theory Requests
  imports Operations
begin

text \<open>
  \<^verbatim>\<open>src/state.rs\<close>, request part: metadata object keys and overrides, pending metadata and
  read/write requests, access grants with their subjects and lifetimes, and the wire form
  of a pending metadata request, which leaves the object key out.
\<close>

section \<open>Metadata objects and overrides\<close>

datatype metadata_object_key =
  MetadataObjectKey (object_layer: nat) (object_relative_path: "string list")

instantiation metadata_object_key :: linorder
begin

definition less_eq_metadata_object_key :: "metadata_object_key \<Rightarrow> metadata_object_key \<Rightarrow> bool" where
  "less_eq_metadata_object_key a b \<longleftrightarrow>
     (object_layer a, object_relative_path a) \<le> (object_layer b, object_relative_path b)"

definition less_metadata_object_key :: "metadata_object_key \<Rightarrow> metadata_object_key \<Rightarrow> bool" where
  "less_metadata_object_key a b \<longleftrightarrow>
     (object_layer a, object_relative_path a) < (object_layer b, object_relative_path b)"

instance
  by standard
     (auto simp: less_eq_metadata_object_key_def less_metadata_object_key_def
        intro: metadata_object_key.expand)

end

record metadata_override =
  ov_mode :: "u16 option"
  ov_uid :: "u32 option"
  ov_gid :: "u32 option"
  ov_flags :: "u32 option"
  ov_atime :: "system_time option"
  ov_mtime :: "system_time option"

definition default_override :: metadata_override where
  "default_override =
     \<lparr>ov_mode = None, ov_uid = None, ov_gid = None, ov_flags = None, ov_atime = None, ov_mtime = None\<rparr>"

definition override_is_empty :: "metadata_override \<Rightarrow> bool" where
  "override_is_empty ov \<longleftrightarrow>
     ov_mode ov = None \<and> ov_uid ov = None \<and> ov_gid ov = None \<and> ov_flags ov = None
     \<and> ov_atime ov = None \<and> ov_mtime ov = None"

record metadata_entry =
  entry_sandbox_path :: sandbox_path
  entry_override :: metadata_override

section \<open>Pending requests\<close>

fun pending_kind_rank :: "pending_operation_kind \<Rightarrow> nat" where
  "pending_kind_rank KMode = 0"
| "pending_kind_rank KUid = 1"
| "pending_kind_rank KGid = 2"
| "pending_kind_rank KFlags = 3"
| "pending_kind_rank KTimes = 4"
| "pending_kind_rank KXattr = 5"

lemma pending_kind_rank_inject: "pending_kind_rank a = pending_kind_rank b \<longleftrightarrow> a = b"
  by (cases a; cases b) simp_all

instantiation pending_operation_kind :: linorder
begin

definition less_eq_pending_operation_kind :: "pending_operation_kind \<Rightarrow> pending_operation_kind \<Rightarrow> bool" where
  "less_eq_pending_operation_kind a b \<longleftrightarrow> pending_kind_rank a \<le> pending_kind_rank b"

definition less_pending_operation_kind :: "pending_operation_kind \<Rightarrow> pending_operation_kind \<Rightarrow> bool" where
  "less_pending_operation_kind a b \<longleftrightarrow> pending_kind_rank a < pending_kind_rank b"

instance
  by standard
     (auto simp: less_eq_pending_operation_kind_def less_pending_operation_kind_def
        simp flip: pending_kind_rank_inject)

end

datatype pending_operation_key =
  PendingOperationKey (key_sandbox: string) (key_object: metadata_object_key)
    (key_kind: pending_operation_kind)

instantiation pending_operation_key :: linorder
begin

definition less_eq_pending_operation_key :: "pending_operation_key \<Rightarrow> pending_operation_key \<Rightarrow> bool" where
  "less_eq_pending_operation_key a b \<longleftrightarrow>
     (key_sandbox a, key_object a, key_kind a) \<le> (key_sandbox b, key_object b, key_kind b)"

definition less_pending_operation_key :: "pending_operation_key \<Rightarrow> pending_operation_key \<Rightarrow> bool" where
  "less_pending_operation_key a b \<longleftrightarrow>
     (key_sandbox a, key_object a, key_kind a) < (key_sandbox b, key_object b, key_kind b)"

instance
  by standard
     (auto simp: less_eq_pending_operation_key_def less_pending_operation_key_def
        intro: pending_operation_key.expand)

end

record pending_metadata_request =
  pm_id :: nat
  pm_sandbox :: string
  pm_attach_id :: "nat option"
  pm_operation :: metadata_operation
  pm_object :: metadata_object_key
  pm_kinds :: "pending_operation_kind list"
  pm_pid :: u32
  pm_uid :: u32
  pm_gid :: u32
  pm_description :: string

record serialized_pending_metadata_request =
  spm_id :: nat
  spm_sandbox :: string
  spm_attach_id :: "nat option"
  spm_operation :: metadata_operation
  spm_kinds :: "pending_operation_kind list"
  spm_pid :: u32
  spm_uid :: u32
  spm_gid :: u32
  spm_description :: string

definition serialize_pending :: "pending_metadata_request \<Rightarrow> serialized_pending_metadata_request" where
  "serialize_pending r =
     \<lparr>spm_id = pm_id r, spm_sandbox = pm_sandbox r, spm_attach_id = pm_attach_id r,
      spm_operation = pm_operation r, spm_kinds = pm_kinds r, spm_pid = pm_pid r,
      spm_uid = pm_uid r, spm_gid = pm_gid r, spm_description = pm_description r\<rparr>"

definition deserialize_pending :: "serialized_pending_metadata_request \<Rightarrow> pending_metadata_request" where
  "deserialize_pending r =
     \<lparr>pm_id = spm_id r, pm_sandbox = spm_sandbox r, pm_attach_id = spm_attach_id r,
      pm_operation = spm_operation r, pm_object = MetadataObjectKey 0 [], pm_kinds = spm_kinds r,
      pm_pid = spm_pid r, pm_uid = spm_uid r, pm_gid = spm_gid r,
      pm_description = spm_description r\<rparr>"

definition pending_metadata_keys ::
  "string \<Rightarrow> metadata_object_key \<Rightarrow> pending_operation_kind list \<Rightarrow> pending_operation_key list"
where
  "pending_metadata_keys sandbox object kinds = map (PendingOperationKey sandbox object) kinds"

definition request_keys :: "pending_metadata_request \<Rightarrow> pending_operation_key list" where
  "request_keys r = pending_metadata_keys (pm_sandbox r) (pm_object r) (pm_kinds r)"

text \<open>\<^verbatim>\<open>src/process_info.rs\<close>: what identifies a process over the reuse of its pid.\<close>

datatype process_identity = ProcessIdentity (identity_pid: u32) (identity_start_time: u64)

record requester_identity =
  req_pid :: u32
  req_uid :: u32
  req_gid :: u32

record pending_read_write_request =
  prw_id :: nat
  prw_sandbox :: string
  prw_attach_id :: "nat option"
  prw_operation :: read_write_operation
  prw_kind :: protection_kind
  prw_path :: sandbox_path
  prw_pid :: u32
  prw_uid :: u32
  prw_gid :: u32
  prw_process_identity :: "process_identity option"
  prw_description :: string

definition new_with_attach_path ::
  "nat \<Rightarrow> string \<Rightarrow> nat option \<Rightarrow> read_write_operation \<Rightarrow> sandbox_path \<Rightarrow> requester_identity \<Rightarrow>
   pending_read_write_request"
where
  "new_with_attach_path i sandbox attach_id operation path requester =
     \<lparr>prw_id = i, prw_sandbox = sandbox, prw_attach_id = attach_id, prw_operation = operation,
      prw_kind = operation_kind operation, prw_path = path,
      prw_pid = req_pid requester, prw_uid = req_uid requester, prw_gid = req_gid requester,
      prw_process_identity = None, prw_description = rw_description operation\<rparr>"

definition new_with_path ::
  "nat \<Rightarrow> string \<Rightarrow> read_write_operation \<Rightarrow> sandbox_path \<Rightarrow> u32 \<Rightarrow> u32 \<Rightarrow> u32 \<Rightarrow>
   pending_read_write_request"
where
  "new_with_path i sandbox operation path pid uid gid =
     new_with_attach_path i sandbox None operation path
       \<lparr>req_pid = pid, req_uid = uid, req_gid = gid\<rparr>"

definition new_read_write_request ::
  "nat \<Rightarrow> string \<Rightarrow> read_write_operation \<Rightarrow> u32 \<Rightarrow> u32 \<Rightarrow> u32 \<Rightarrow> pending_read_write_request"
where
  "new_read_write_request i sandbox operation pid uid gid =
     new_with_path i sandbox operation (operation_path operation) pid uid gid"

definition new_with_attach_effect ::
  "nat \<Rightarrow> string \<Rightarrow> nat option \<Rightarrow> read_write_operation \<Rightarrow> read_write_effect \<Rightarrow> requester_identity \<Rightarrow>
   pending_read_write_request"
where
  "new_with_attach_effect i sandbox attach_id operation effect requester =
     \<lparr>prw_id = i, prw_sandbox = sandbox, prw_attach_id = attach_id, prw_operation = operation,
      prw_kind = eff_kind effect, prw_path = eff_path effect,
      prw_pid = req_pid requester, prw_uid = req_uid requester, prw_gid = req_gid requester,
      prw_process_identity = None, prw_description = eff_description effect\<rparr>"

definition with_process_identity ::
  "process_identity option \<Rightarrow> pending_read_write_request \<Rightarrow> pending_read_write_request"
where
  "with_process_identity identity r = r\<lparr>prw_process_identity := identity\<rparr>"

datatype pending_request =
    PendingMetadata pending_metadata_request
  | PendingReadWrite pending_read_write_request

fun pending_id :: "pending_request \<Rightarrow> nat" where
  "pending_id (PendingMetadata r) = pm_id r"
| "pending_id (PendingReadWrite r) = prw_id r"

fun pending_sandbox :: "pending_request \<Rightarrow> string" where
  "pending_sandbox (PendingMetadata r) = pm_sandbox r"
| "pending_sandbox (PendingReadWrite r) = prw_sandbox r"

fun pending_attach_id :: "pending_request \<Rightarrow> nat option" where
  "pending_attach_id (PendingMetadata r) = pm_attach_id r"
| "pending_attach_id (PendingReadWrite r) = prw_attach_id r"

fun pending_path :: "pending_request \<Rightarrow> sandbox_path" where
  "pending_path (PendingMetadata r) = metadata_path (pm_operation r)"
| "pending_path (PendingReadWrite r) = prw_path r"

fun pending_description :: "pending_request \<Rightarrow> string" where
  "pending_description (PendingMetadata r) = pm_description r"
| "pending_description (PendingReadWrite r) = prw_description r"

fun metadata_shell_hint :: "pending_request \<Rightarrow> string option" where
  "metadata_shell_hint (PendingMetadata r) = Some (shell_hint (pm_operation r))"
| "metadata_shell_hint (PendingReadWrite _) = None"

datatype pending_decision = Apply | DoNothing | Deny | Cancel

section \<open>Grants\<close>

definition default_read_write_grant_duration :: nat where
  "default_read_write_grant_duration = 30 * 60"

datatype grant_lifetime_request = OneShotRequest | DurationRequest nat

record read_write_grant_options =
  opt_path :: "sandbox_path option"
  opt_lifetime :: grant_lifetime_request
  opt_tree :: bool

datatype grant_lifetime = OneShot | Duration nat

fun lifetime_log_name :: "grant_lifetime \<Rightarrow> string" where
  "lifetime_log_name OneShot = ''one-shot''"
| "lifetime_log_name (Duration _) = ''duration''"

fun lifetime_is_expired :: "grant_lifetime \<Rightarrow> system_time \<Rightarrow> bool" where
  "lifetime_is_expired OneShot now = False"
| "lifetime_is_expired (Duration expires_at) now = (epoch_millis now \<ge> expires_at)"

datatype grant_subject = Exact process_identity | ProcessTree "process_identity list"

fun subject_log_name :: "grant_subject \<Rightarrow> string" where
  "subject_log_name (Exact _) = ''exact''"
| "subject_log_name (ProcessTree _) = ''process-tree''"

fun subject_matches :: "grant_subject \<Rightarrow> process_identity option \<Rightarrow> bool" where
  "subject_matches _ None = False"
| "subject_matches (Exact expected) (Some identity) = (expected = identity)"
| "subject_matches (ProcessTree identities) (Some identity) = (identity \<in> set identities)"

fun subject_len :: "grant_subject \<Rightarrow> nat" where
  "subject_len (Exact _) = 1"
| "subject_len (ProcessTree identities) = length identities"

definition subject_is_empty :: "grant_subject \<Rightarrow> bool" where
  "subject_is_empty s = (subject_len s = 0)"

record read_write_access_grant =
  grant_id :: nat
  grant_sandbox :: string
  grant_kind :: protection_kind
  grant_path_pattern :: sandbox_path
  grant_subject_of :: grant_subject
  grant_lifetime_of :: grant_lifetime
  grant_created_at :: nat

definition matches_intent ::
  "glob_api \<Rightarrow> read_write_access_grant \<Rightarrow> string \<Rightarrow> protection_kind \<Rightarrow> sandbox_path \<Rightarrow>
   process_identity option \<Rightarrow> system_time \<Rightarrow> bool"
where
  "matches_intent G g sandbox kind path identity now \<longleftrightarrow>
     grant_sandbox g = sandbox \<and> grant_kind g = kind
     \<and> \<not> lifetime_is_expired (grant_lifetime_of g) now
     \<and> grant_pattern_matches G (grant_path_pattern g) path
     \<and> subject_matches (grant_subject_of g) identity"

definition matches_request ::
  "glob_api \<Rightarrow> read_write_access_grant \<Rightarrow> pending_read_write_request \<Rightarrow> system_time \<Rightarrow> bool"
where
  "matches_request G g r now \<longleftrightarrow>
     grant_sandbox g = prw_sandbox r \<and> grant_kind g = prw_kind r
     \<and> \<not> lifetime_is_expired (grant_lifetime_of g) now
     \<and> grant_pattern_matches G (grant_path_pattern g) (prw_path r)
     \<and> subject_matches (grant_subject_of g) (prw_process_identity r)"

datatype grant_match_outcome = Matched nat bool | NotMatched

record trusted_path_scope =
  scope_path :: sandbox_path
  scope_recursive :: bool

record trusted_operation =
  tr_id :: nat
  tr_sandbox :: string
  tr_token :: string
  tr_pid :: "u32 option"
  tr_uid :: "u32 option"
  tr_mountpoint :: string
  tr_command :: string
  tr_paths :: "trusted_path_scope list"

record attach_mount =
  at_id :: nat
  at_mountpoint :: string
  at_temporary :: bool
  at_active :: bool

end
