(* ===== verification/Overlay.thy ===== *)
theory Overlay
  imports Prelude
begin

text \<open>
  \<^verbatim>\<open>src/overlay.rs\<close>: ordered overlay effects and their collapse to one effective value.
  \<open>collapse_latest\<close> sorts by order and folds; the theory shows that this is the effect of
  the entry with the greatest order (the last of them among equals), which is also what
  \<^verbatim>\<open>max_by_key\<close> computes. The interface \<open>newest_wins\<close> is what the sandbox's path resolution
  relies on; both selections are interpreted as instances of it.
\<close>

section \<open>Definitions\<close>

datatype 'a overlay_effect = Value 'a | Tombstone

definition collapse ::
  "(nat \<times> 'a overlay_effect) list \<Rightarrow> ('a option \<Rightarrow> 'a overlay_effect \<Rightarrow> 'a option) \<Rightarrow> 'a option"
where
  "collapse entries merge = fold (\<lambda>e st. merge st (snd e)) (sort_key fst entries) None"

fun latest_merge :: "'a option \<Rightarrow> 'a overlay_effect \<Rightarrow> 'a option" where
  "latest_merge _ (Value v) = Some v"
| "latest_merge _ Tombstone = None"

definition collapse_latest :: "(nat \<times> 'a overlay_effect) list \<Rightarrow> 'a option" where
  "collapse_latest entries = collapse entries latest_merge"

section \<open>The newest entry wins\<close>

lemma newest_exists:
  assumes "es \<noteq> []"
  shows "\<exists>e \<in> set es. \<forall>e' \<in> set es. fst e' \<le> (fst e :: nat)"
proof -
  from assms have "max_by_key fst es \<noteq> None" by simp
  then show ?thesis using max_by_key_SomeD by fast
qed

locale newest_wins =
  fixes pick :: "(nat \<times> 'a) list \<Rightarrow> 'a option"
  assumes pick_empty: "pick [] = None"
    and pick_newest:
      "distinct (map fst es) \<Longrightarrow> (n, v) \<in> set es \<Longrightarrow> (\<forall>e \<in> set es. fst e \<le> n) \<Longrightarrow> pick es = Some v"
begin

lemma pick_SomeE:
  assumes "distinct (map fst es)" and "pick es = Some v"
  obtains n where "(n, v) \<in> set es" and "\<forall>e \<in> set es. fst e \<le> n"
proof -
  from assms(2) pick_empty have "es \<noteq> []" by auto
  then obtain n w where w: "(n, w) \<in> set es" and le: "\<forall>e \<in> set es. fst e \<le> n"
    using newest_exists by (metis prod.collapse)
  with assms have "w = v" using pick_newest by fastforce
  with w le that show ?thesis by blast
qed

lemma pick_None_iff: "distinct (map fst es) \<Longrightarrow> pick es = None \<longleftrightarrow> es = []"
  using pick_empty pick_newest newest_exists by (metis option.distinct(1) prod.collapse)

lemma pick_iff:
  assumes "distinct (map fst es)"
  shows "pick es = Some v \<longleftrightarrow> (\<exists>n. (n, v) \<in> set es \<and> (\<forall>e \<in> set es. fst e \<le> n))"
  using assms pick_SomeE pick_newest by metis

text \<open>Only the set of entries matters, not the order in which they are listed.\<close>

lemma pick_cong:
  assumes "distinct (map fst es)" "distinct (map fst es')" "set es = set es'"
  shows "pick es = pick es'"
  using assms by (metis (no_types, lifting) option.exhaust pick_iff)

lemma pick_add_newest:
  assumes "distinct (map fst es)" and "\<forall>e \<in> set es. fst e < n"
  shows "pick (es @ [(n, v)]) = Some v"
  using assms by (intro pick_newest [of _ n]) (auto intro: less_imp_le)

end

section \<open>Both selections are the newest entry\<close>

lemma max_by_key_Cons:
  "max_by_key f (x # xs) =
     (case max_by_key f xs of None \<Rightarrow> Some x | Some y \<Rightarrow> if f x \<le> f y then Some y else Some x)"
proof (induction xs rule: rev_induct)
  case Nil
  then show ?case by (simp add: max_by_key_def)
next
  case (snoc a xs)
  then show ?case
    using max_by_key_snoc [of f "x # xs" a] max_by_key_snoc [of f xs a]
    by (auto split: option.splits)
qed

lemma last_insort_key:
  "sorted (map f ys) \<Longrightarrow> ys \<noteq> [] \<Longrightarrow>
   last (insort_key f x ys) = (if f x \<le> f (last ys) then last ys else x)"
  by (induction ys) (auto, metis last_in_set order_trans)

lemma sort_key_Nil_iff [simp]: "sort_key f xs = [] \<longleftrightarrow> xs = []"
  by (metis length_0_conv length_sort)

lemma max_by_key_is_last_sorted:
  "max_by_key f xs = (if xs = [] then None else Some (last (sort_key f xs)))"
proof (induction xs)
  case Nil
  then show ?case by simp
next
  case (Cons x xs)
  then show ?case
    by (cases "xs = []") (auto simp: max_by_key_Cons last_insort_key sorted_sort_key)
qed

lemma fold_latest_merge:
  "es \<noteq> [] \<Longrightarrow> fold (\<lambda>e st. latest_merge st (snd e)) es st = latest_merge None (snd (last es))"
proof (induction es arbitrary: st)
  case Nil
  then show ?case by simp
next
  case (Cons e es)
  then show ?case by (cases "es = []"; cases "snd e") auto
qed

lemma max_by_key_map:
  "max_by_key f (map g xs) = map_option g (max_by_key (\<lambda>x. f (g x)) xs)"
  by (induction xs) (auto simp: max_by_key_Cons split: option.splits)

lemma max_by_key_pairs:
  "max_by_key f xs = map_option snd (max_by_key fst (map (\<lambda>x. (f x, x)) xs))"
  by (simp add: max_by_key_map option.map_comp comp_def option.map_ident)

lemma max_by_key_newest:
  assumes "distinct (map fst es)" "(n, v) \<in> set es" "\<forall>e \<in> set es. fst e \<le> (n::nat)"
  shows "max_by_key fst es = Some (n, v)"
proof (rule max_by_key_unique)
  show "(n, v) \<in> set es" by (rule assms(2))
  have "fst e \<noteq> n" if "e \<in> set es" "e \<noteq> (n, v)" for e
    using that assms(1,2) by (metis eq_key_imp_eq_value prod.collapse)
  with assms(3) show "\<forall>y \<in> set es. y \<noteq> (n, v) \<longrightarrow> fst y < fst (n, v)"
    by (metis fst_conv le_neq_implies_less)
qed

interpretation by_max: newest_wins "\<lambda>es. map_option snd (max_by_key fst es)"
  by unfold_locales (auto dest: max_by_key_newest)

lemma collapse_latest_newest:
  "collapse_latest entries =
     (case max_by_key fst entries of None \<Rightarrow> None | Some e \<Rightarrow> latest_merge None (snd e))"
  by (cases "entries = []")
     (auto simp: collapse_latest_def collapse_def max_by_key_is_last_sorted fold_latest_merge)

lemma collapse_latest_values:
  "collapse_latest (map (\<lambda>e. (fst e, Value (snd e))) es) = map_option snd (max_by_key fst es)"
  by (simp add: collapse_latest_newest max_by_key_map split: option.splits)

interpretation by_collapse: newest_wins
  "\<lambda>es. collapse_latest (map (\<lambda>e. (fst e, Value (snd e))) es)"
  unfolding collapse_latest_values by (rule by_max.newest_wins_axioms)

text \<open>
  Collapsing overlay entries to the latest one gives the value of the entry with the
  greatest order, or nothing when that entry is a tombstone or there is no entry.
\<close>

lemma collapse_latest_is_newest:
  "collapse_latest entries =
     (case max_by_key fst entries of None \<Rightarrow> None | Some e \<Rightarrow> latest_merge None (snd e))"
  by (rule collapse_latest_newest)

end
