(* ===== verification/Hostfs.thy ===== *)
theory Hostfs
  imports Operations
begin

text \<open>
  \<^verbatim>\<open>src/hostfs.rs\<close>: the calls into the operating system. The operating system itself is a
  parameter: \<open>'h\<close> is its state and the record \<open>os\<close> holds what the code calls, the
  mutating calls returning the new state. The wrappers modelled here are the repository's
  own: the NUL check of every C string, the two-step reading of extended attributes, and
  the completion and clamping of timestamps. Error numbers are those of Linux.
\<close>

section \<open>Error numbers\<close>

type_synonym errno = int

abbreviation EPERM :: errno where "EPERM \<equiv> 1"
abbreviation ENOENT :: errno where "ENOENT \<equiv> 2"
abbreviation EIO :: errno where "EIO \<equiv> 5"
abbreviation EBADF :: errno where "EBADF \<equiv> 9"
abbreviation EACCES :: errno where "EACCES \<equiv> 13"
abbreviation EISDIR :: errno where "EISDIR \<equiv> 21"
abbreviation EINVAL :: errno where "EINVAL \<equiv> 22"
abbreviation EROFS :: errno where "EROFS \<equiv> 30"
abbreviation ERANGE :: errno where "ERANGE \<equiv> 34"
abbreviation ENOTSUP :: errno where "ENOTSUP \<equiv> 95"
abbreviation ECANCELED :: errno where "ECANCELED \<equiv> 125"

text \<open>\<^verbatim>\<open>io_to_errno\<close> of \<^verbatim>\<open>src/fs.rs\<close>: the raw number, EIO when there is none.\<close>

definition io_to_errno :: "io_error \<Rightarrow> errno" where
  "io_to_errno err = (case err of None \<Rightarrow> EIO | Some n \<Rightarrow> n)"

section \<open>The operating system\<close>

record host_metadata =
  hm_mode :: u32
  hm_is_dir :: bool
  hm_is_symlink :: bool
  hm_is_file :: bool
  hm_size :: u64
  hm_blocks :: u64
  hm_atime :: int
  hm_atime_nsec :: int
  hm_mtime :: int
  hm_mtime_nsec :: int
  hm_ctime :: int
  hm_ctime_nsec :: int
  hm_nlink :: u64
  hm_uid :: u32
  hm_gid :: u32
  hm_rdev :: u64
  hm_blksize :: u64

record statvfs =
  f_blocks :: u64
  f_bfree :: u64
  f_bavail :: u64
  f_files :: u64
  f_ffree :: u64
  f_bsize :: u64
  f_namemax :: u64
  f_frsize :: u64

record stat_fs =
  st_blocks :: u64
  st_bfree :: u64
  st_bavail :: u64
  st_files :: u64
  st_ffree :: u64
  st_bsize :: u32
  st_namelen :: u32
  st_frsize :: u32

text \<open>\<^verbatim>\<open>std::fs::OpenOptions\<close> as the create handler fills it in.\<close>

record open_options =
  oo_write :: bool
  oo_read :: bool
  oo_append :: bool
  oo_mode :: u32
  oo_create_new :: bool
  oo_create :: bool
  oo_truncate :: bool

record 'h os =
  os_now :: "'h \<Rightarrow> system_time"
  os_geteuid :: u32
  os_getegid :: u32
  os_process_id :: u32
  os_pids :: "'h \<Rightarrow> u32 list"
  os_process :: "'h \<Rightarrow> u32 \<Rightarrow> (u32 option \<times> u64) option"
  os_is_dir :: "'h \<Rightarrow> string \<Rightarrow> bool"
  os_is_file :: "'h \<Rightarrow> string \<Rightarrow> bool"
  os_exists :: "'h \<Rightarrow> string \<Rightarrow> bool"
  os_canonicalize :: "'h \<Rightarrow> string \<Rightarrow> io_error + string"
  os_current_dir :: "'h \<Rightarrow> io_error + string"
  os_symlink_metadata :: "'h \<Rightarrow> string \<Rightarrow> io_error + host_metadata"
  os_read_dir :: "'h \<Rightarrow> string \<Rightarrow> io_error + (io_error + string) list"
  os_read_link :: "'h \<Rightarrow> string \<Rightarrow> io_error + string"
  os_statvfs :: "'h \<Rightarrow> string \<Rightarrow> io_error + statvfs"
  os_lgetxattr_size :: "'h \<Rightarrow> string \<Rightarrow> string \<Rightarrow> io_error + nat"
  os_lgetxattr :: "'h \<Rightarrow> string \<Rightarrow> string \<Rightarrow> nat \<Rightarrow> io_error + string"
  os_llistxattr_size :: "'h \<Rightarrow> string \<Rightarrow> io_error + nat"
  os_llistxattr :: "'h \<Rightarrow> string \<Rightarrow> nat \<Rightarrow> io_error + string"
  os_read_at :: "'h \<Rightarrow> string \<Rightarrow> u64 \<Rightarrow> u32 \<Rightarrow> io_error + string"
  os_lsetxattr :: "'h \<Rightarrow> string \<Rightarrow> string \<Rightarrow> string \<Rightarrow> int \<Rightarrow> (io_error + unit) \<times> 'h"
  os_lremovexattr :: "'h \<Rightarrow> string \<Rightarrow> string \<Rightarrow> (io_error + unit) \<times> 'h"
  os_mkdir :: "'h \<Rightarrow> string \<Rightarrow> u32 \<Rightarrow> (io_error + unit) \<times> 'h"
  os_mknod :: "'h \<Rightarrow> string \<Rightarrow> u32 \<Rightarrow> u32 \<Rightarrow> (io_error + unit) \<times> 'h"
  os_symlink :: "'h \<Rightarrow> string \<Rightarrow> string \<Rightarrow> (io_error + unit) \<times> 'h"
  os_hard_link :: "'h \<Rightarrow> string \<Rightarrow> string \<Rightarrow> (io_error + unit) \<times> 'h"
  os_remove_file :: "'h \<Rightarrow> string \<Rightarrow> (io_error + unit) \<times> 'h"
  os_remove_dir :: "'h \<Rightarrow> string \<Rightarrow> (io_error + unit) \<times> 'h"
  os_rename :: "'h \<Rightarrow> string \<Rightarrow> string \<Rightarrow> (io_error + unit) \<times> 'h"
  os_open_set_len :: "'h \<Rightarrow> string \<Rightarrow> u64 \<Rightarrow> (io_error + unit) \<times> 'h"
  os_utimensat :: "'h \<Rightarrow> string \<Rightarrow> int \<times> nat \<Rightarrow> int \<times> nat \<Rightarrow> (io_error + unit) \<times> 'h"
  os_open_with :: "'h \<Rightarrow> string \<Rightarrow> open_options \<Rightarrow> (io_error + unit) \<times> 'h"
  os_write_at :: "'h \<Rightarrow> string \<Rightarrow> bool \<Rightarrow> u64 \<Rightarrow> string \<Rightarrow> (io_error + nat) \<times> 'h"
  os_create_dir_all :: "'h \<Rightarrow> string \<Rightarrow> (io_error + unit) \<times> 'h"
  os_append_line :: "'h \<Rightarrow> string \<Rightarrow> string \<Rightarrow> (io_error + unit) \<times> 'h"
  os_truncate_file :: "'h \<Rightarrow> string \<Rightarrow> (io_error + unit) \<times> 'h"
  os_spawn_mount :: "'h \<Rightarrow> string \<Rightarrow> string \<Rightarrow> (io_error + unit) \<times> 'h"
  os_umount_and_join :: "'h \<Rightarrow> string \<Rightarrow> (io_error + unit) \<times> 'h"

text \<open>Calls that change the host, run after a guard that does not.\<close>

definition host_bind :: "io_error + 'a \<Rightarrow> 'h \<Rightarrow> ('a \<Rightarrow> (io_error + 'b) \<times> 'h) \<Rightarrow> (io_error + 'b) \<times> 'h" where
  "host_bind r h f = (case r of Inl e \<Rightarrow> (Inl e, h) | Inr a \<Rightarrow> f a)"

lemma host_bind_simps [simp, result_simps]:
  "host_bind (Inl e) h f = (Inl e, h)"
  "host_bind (Inr a) h f = f a"
  by (simp_all add: host_bind_def)

section \<open>The wrappers\<close>

text \<open>\<^verbatim>\<open>CString::new\<close> refuses interior NUL bytes; that error has no raw number.\<close>

definition cstring :: "string \<Rightarrow> io_error + string" where
  "cstring s = (if CHR 0x00 \<in> set s then Inl None else Inr s)"

definition hostfs_read_link :: "'h os \<Rightarrow> 'h \<Rightarrow> string \<Rightarrow> io_error + string" where
  "hostfs_read_link S h path = os_read_link S h path"

definition hostfs_statfs :: "'h os \<Rightarrow> 'h \<Rightarrow> string \<Rightarrow> io_error + stat_fs" where
  "hostfs_statfs S h path =
     result_bind (cstring path) (\<lambda>p. result_bind (os_statvfs S h p) (\<lambda>st.
       Inr \<lparr>st_blocks = f_blocks st, st_bfree = f_bfree st, st_bavail = f_bavail st,
            st_files = f_files st, st_ffree = f_ffree st, st_bsize = ucast (f_bsize st),
            st_namelen = ucast (f_namemax st), st_frsize = ucast (f_frsize st)\<rparr>))"

definition hostfs_getxattr :: "'h os \<Rightarrow> 'h \<Rightarrow> string \<Rightarrow> string \<Rightarrow> io_error + string" where
  "hostfs_getxattr S h path name =
     result_bind (cstring path) (\<lambda>p. result_bind (cstring name) (\<lambda>n.
     result_bind (os_lgetxattr_size S h p n) (\<lambda>size.
     os_lgetxattr S h p n size)))"

definition hostfs_listxattr :: "'h os \<Rightarrow> 'h \<Rightarrow> string \<Rightarrow> io_error + string" where
  "hostfs_listxattr S h path =
     result_bind (cstring path) (\<lambda>p.
     result_bind (os_llistxattr_size S h p) (\<lambda>size.
     os_llistxattr S h p size))"

definition hostfs_setxattr ::
  "'h os \<Rightarrow> 'h \<Rightarrow> string \<Rightarrow> string \<Rightarrow> string \<Rightarrow> int \<Rightarrow> (io_error + unit) \<times> 'h"
where
  "hostfs_setxattr S h path name data flags =
     host_bind (cstring path) h (\<lambda>p. host_bind (cstring name) h (\<lambda>n. os_lsetxattr S h p n data flags))"

definition hostfs_removexattr :: "'h os \<Rightarrow> 'h \<Rightarrow> string \<Rightarrow> string \<Rightarrow> (io_error + unit) \<times> 'h" where
  "hostfs_removexattr S h path name =
     host_bind (cstring path) h (\<lambda>p. host_bind (cstring name) h (\<lambda>n. os_lremovexattr S h p n))"

definition hostfs_mkdir :: "'h os \<Rightarrow> 'h \<Rightarrow> string \<Rightarrow> u32 \<Rightarrow> (io_error + unit) \<times> 'h" where
  "hostfs_mkdir S h path mode = host_bind (cstring path) h (\<lambda>p. os_mkdir S h p mode)"

definition hostfs_mknod :: "'h os \<Rightarrow> 'h \<Rightarrow> string \<Rightarrow> u32 \<Rightarrow> u32 \<Rightarrow> (io_error + unit) \<times> 'h" where
  "hostfs_mknod S h path mode rdev = host_bind (cstring path) h (\<lambda>p. os_mknod S h p mode rdev)"

definition hostfs_symlink :: "'h os \<Rightarrow> 'h \<Rightarrow> string \<Rightarrow> string \<Rightarrow> (io_error + unit) \<times> 'h" where
  "hostfs_symlink S h target link_path = os_symlink S h target link_path"

definition hostfs_hard_link :: "'h os \<Rightarrow> 'h \<Rightarrow> string \<Rightarrow> string \<Rightarrow> (io_error + unit) \<times> 'h" where
  "hostfs_hard_link S h src dst = os_hard_link S h src dst"

definition hostfs_unlink :: "'h os \<Rightarrow> 'h \<Rightarrow> string \<Rightarrow> (io_error + unit) \<times> 'h" where
  "hostfs_unlink S h path = os_remove_file S h path"

definition hostfs_rmdir :: "'h os \<Rightarrow> 'h \<Rightarrow> string \<Rightarrow> (io_error + unit) \<times> 'h" where
  "hostfs_rmdir S h path = os_remove_dir S h path"

definition hostfs_rename :: "'h os \<Rightarrow> 'h \<Rightarrow> string \<Rightarrow> string \<Rightarrow> (io_error + unit) \<times> 'h" where
  "hostfs_rename S h src dst = os_rename S h src dst"

definition hostfs_truncate :: "'h os \<Rightarrow> 'h \<Rightarrow> string \<Rightarrow> u64 \<Rightarrow> (io_error + unit) \<times> 'h" where
  "hostfs_truncate S h path len = os_open_set_len S h path len"

text \<open>\<^verbatim>\<open>timespec\<close> clamps times before the epoch to the epoch; \<^verbatim>\<open>system_time\<close> does the same.\<close>

definition timespec :: "system_time \<Rightarrow> int \<times> nat" where
  "timespec t = (if tv_sec t < 0 then (0, 0) else (tv_sec t, tv_nsec t))"

definition system_time_of :: "int \<Rightarrow> int \<Rightarrow> system_time" where
  "system_time_of sec nsec = (if sec \<ge> 0 then SystemTime sec (nat nsec) else unix_epoch)"

definition hostfs_set_times ::
  "'h os \<Rightarrow> 'h \<Rightarrow> string \<Rightarrow> system_time option \<Rightarrow> system_time option \<Rightarrow> (io_error + unit) \<times> 'h"
where
  "hostfs_set_times S h path atime mtime =
     host_bind (os_symlink_metadata S h path) h (\<lambda>current.
       let atime = (case atime of Some t \<Rightarrow> t
                    | None \<Rightarrow> system_time_of (hm_atime current) (hm_atime_nsec current));
           mtime = (case mtime of Some t \<Rightarrow> t
                    | None \<Rightarrow> system_time_of (hm_mtime current) (hm_mtime_nsec current))
       in host_bind (cstring path) h (\<lambda>p. os_utimensat S h p (timespec atime) (timespec mtime)))"

text \<open>
  A concrete operating system for evaluation: no file exists (\<^verbatim>\<open>ENOENT\<close>, 2), nothing can be
  changed (\<^verbatim>\<open>EROFS\<close>, 30), no process is known and the clock stands at the epoch.
\<close>

definition empty_host :: "'h os" where
  "empty_host =
     \<lparr>os_now = (\<lambda>_. unix_epoch),
      os_geteuid = 0,
      os_getegid = 0,
      os_process_id = 0,
      os_pids = (\<lambda>_. []),
      os_process = (\<lambda>_ _. None),
      os_is_dir = (\<lambda>_ _. False),
      os_is_file = (\<lambda>_ _. False),
      os_exists = (\<lambda>_ _. False),
      os_canonicalize = (\<lambda>_ _. Inl (Some 2)),
      os_current_dir = (\<lambda>_. Inl (Some 2)),
      os_symlink_metadata = (\<lambda>_ _. Inl (Some 2)),
      os_read_dir = (\<lambda>_ _. Inl (Some 2)),
      os_read_link = (\<lambda>_ _. Inl (Some 2)),
      os_statvfs = (\<lambda>_ _. Inl (Some 2)),
      os_lgetxattr_size = (\<lambda>_ _ _. Inl (Some 2)),
      os_lgetxattr = (\<lambda>_ _ _ _. Inl (Some 2)),
      os_llistxattr_size = (\<lambda>_ _. Inl (Some 2)),
      os_llistxattr = (\<lambda>_ _ _. Inl (Some 2)),
      os_read_at = (\<lambda>_ _ _ _. Inl (Some 2)),
      os_lsetxattr = (\<lambda>h _ _ _ _. (Inl (Some 30), h)),
      os_lremovexattr = (\<lambda>h _ _. (Inl (Some 30), h)),
      os_mkdir = (\<lambda>h _ _. (Inl (Some 30), h)),
      os_mknod = (\<lambda>h _ _ _. (Inl (Some 30), h)),
      os_symlink = (\<lambda>h _ _. (Inl (Some 30), h)),
      os_hard_link = (\<lambda>h _ _. (Inl (Some 30), h)),
      os_remove_file = (\<lambda>h _. (Inl (Some 30), h)),
      os_remove_dir = (\<lambda>h _. (Inl (Some 30), h)),
      os_rename = (\<lambda>h _ _. (Inl (Some 30), h)),
      os_open_set_len = (\<lambda>h _ _. (Inl (Some 30), h)),
      os_utimensat = (\<lambda>h _ _ _. (Inl (Some 30), h)),
      os_open_with = (\<lambda>h _ _. (Inl (Some 30), h)),
      os_write_at = (\<lambda>h _ _ _ _. (Inl (Some 30), h)),
      os_create_dir_all = (\<lambda>h _. (Inl (Some 30), h)),
      os_append_line = (\<lambda>h _ _. (Inl (Some 30), h)),
      os_truncate_file = (\<lambda>h _. (Inl (Some 30), h)),
      os_spawn_mount = (\<lambda>h _ _. (Inl (Some 30), h)),
      os_umount_and_join = (\<lambda>h _. (Inl (Some 30), h))\<rparr>"

section \<open>Facts\<close>

lemma cstring_Inr_iff [result_simps]: "cstring s = Inr t \<longleftrightarrow> t = s \<and> CHR 0x00 \<notin> set s"
  by (auto simp: cstring_def)

lemma cstring_Inl_iff [result_simps]: "cstring s = Inl e \<longleftrightarrow> e = None \<and> CHR 0x00 \<in> set s"
  by (auto simp: cstring_def)

lemma timespec_nonneg: "fst (timespec t) \<ge> 0"
  by (simp add: timespec_def)

lemma timespec_system_time_of:
  "0 \<le> sec \<Longrightarrow> 0 \<le> nsec \<Longrightarrow> timespec (system_time_of sec nsec) = (sec, nat nsec)"
  by (simp add: timespec_def system_time_of_def)

end
