(* ===== verification/Sandbox.thy ===== *)
theory Sandbox
  imports Requests Overlay Hostfs
begin

text \<open>
  \<^verbatim>\<open>src/state.rs\<close>, \<^verbatim>\<open>Sandbox\<close>: mount layers and hide rules with one shared order, path
  resolution through them, directory listing, metadata overrides keyed by the layer object,
  and the two rule tables. Shown here: how each operation changes what a path resolves to
  (the newest covering entry wins), that removing a layer undoes adding it, that listings
  show exactly visible paths, that overrides read back what was applied and touch no other
  object, and that the rule tables meet the contract \<open>rule_book\<close>.
\<close>

section \<open>State\<close>

record mount_layer =
  ml_id :: nat
  ml_local :: string
  ml_on_fs :: sandbox_path

record hide_rule =
  hr_id :: nat
  hr_path :: sandbox_path

datatype resolved_path =
    RealPath (local_path: string) (layer_id: nat) (real_path: sandbox_path)
  | VirtualDirPath (virtual_path: sandbox_path)

datatype overlay_entry = LayerEntry mount_layer | HideEntry hide_rule

datatype overlay_resolution =
    ResReal string nat sandbox_path
  | ResVirtualDir sandbox_path
  | ResHidden
  | ResMissing

record sandbox =
  sb_name :: string
  sb_layers :: "mount_layer list"
  sb_hides :: "hide_rule list"
  sb_metadata :: "(metadata_object_key, metadata_entry) omap"
  sb_protection_rules :: "protection_rule list"
  sb_bypass_rules :: "bypass_rule list"
  sb_attaches :: "(component list, attach_mount) omap"
  sb_next_layer_id :: nat
  sb_next_hide_id :: nat
  sb_log_path :: string

definition new_sandbox :: "string \<Rightarrow> string \<Rightarrow> sandbox" where
  "new_sandbox name log_path =
     \<lparr>sb_name = name, sb_layers = [], sb_hides = [], sb_metadata = [], sb_protection_rules = [],
      sb_bypass_rules = [], sb_attaches = [], sb_next_layer_id = 1, sb_next_hide_id = 1,
      sb_log_path = log_path\<rparr>"

section \<open>Layers and hides\<close>

definition next_overlay_order :: "sandbox \<Rightarrow> nat \<times> sandbox" where
  "next_overlay_order s =
     (let i = max (sb_next_layer_id s) (sb_next_hide_id s)
      in (i, s\<lparr>sb_next_layer_id := i + 1, sb_next_hide_id := i + 1\<rparr>))"

definition add_layer :: "string \<Rightarrow> sandbox_path \<Rightarrow> sandbox \<Rightarrow> nat \<times> sandbox" where
  "add_layer local on_fs s =
     (let (i, s) = next_overlay_order s
      in (i, s\<lparr>sb_layers := sb_layers s @ [\<lparr>ml_id = i, ml_local = local, ml_on_fs = on_fs\<rparr>]\<rparr>))"

definition remove_layer :: "sandbox_path \<Rightarrow> sandbox \<Rightarrow> bool \<times> sandbox" where
  "remove_layer on_fs s =
     (case list_rposition (\<lambda>layer. ml_on_fs layer = on_fs) (sb_layers s) of
        Some index \<Rightarrow> (True, s\<lparr>sb_layers := vec_remove index (sb_layers s)\<rparr>)
      | None \<Rightarrow> (False, s))"

definition add_hide :: "sandbox_path \<Rightarrow> sandbox \<Rightarrow> nat \<times> sandbox" where
  "add_hide path s =
     (let (i, s) = next_overlay_order s
      in (i, s\<lparr>sb_hides := sb_hides s @ [\<lparr>hr_id = i, hr_path = path\<rparr>]\<rparr>))"

section \<open>Rules\<close>

definition protect :: "protection_kind \<Rightarrow> policy_pattern \<Rightarrow> sandbox \<Rightarrow> protection_rule_result \<times> sandbox" where
  "protect kind pattern s =
     (if list_ex (\<lambda>rule. prule_kind rule = kind \<and> prule_pattern rule = pattern) (sb_protection_rules s)
      then (AlreadyPresent, s)
      else (Added, s\<lparr>sb_protection_rules :=
              sb_protection_rules s @ [\<lparr>prule_kind = kind, prule_pattern = pattern\<rparr>]\<rparr>))"

definition unprotect :: "protection_kind \<Rightarrow> policy_pattern \<Rightarrow> sandbox \<Rightarrow> protection_rule_result \<times> sandbox" where
  "unprotect kind pattern s =
     (case list_position (\<lambda>rule. prule_kind rule = kind \<and> prule_pattern rule = pattern)
             (sb_protection_rules s) of
        None \<Rightarrow> (NotPresent, s)
      | Some index \<Rightarrow>
          (Removed, s\<lparr>sb_protection_rules := vec_remove index (sb_protection_rules s)\<rparr>))"

definition add_bypass :: "protection_kind \<Rightarrow> policy_pattern \<Rightarrow> sandbox \<Rightarrow> protection_rule_result \<times> sandbox" where
  "add_bypass kind pattern s =
     (if list_ex (\<lambda>rule. brule_kind rule = kind \<and> brule_pattern rule = pattern) (sb_bypass_rules s)
      then (AlreadyPresent, s)
      else (Added, s\<lparr>sb_bypass_rules :=
              sb_bypass_rules s @ [\<lparr>brule_kind = kind, brule_pattern = pattern\<rparr>]\<rparr>))"

definition remove_bypass :: "protection_kind \<Rightarrow> policy_pattern \<Rightarrow> sandbox \<Rightarrow> protection_rule_result \<times> sandbox" where
  "remove_bypass kind pattern s =
     (case list_position (\<lambda>rule. brule_kind rule = kind \<and> brule_pattern rule = pattern)
             (sb_bypass_rules s) of
        None \<Rightarrow> (NotPresent, s)
      | Some index \<Rightarrow> (Removed, s\<lparr>sb_bypass_rules := vec_remove index (sb_bypass_rules s)\<rparr>))"

text \<open>The listing filter of \<^verbatim>\<open>protection_rules\<close> and \<^verbatim>\<open>bypass_rules\<close>: no flag means every kind.\<close>

fun kind_included :: "bool \<Rightarrow> bool \<Rightarrow> bool \<Rightarrow> bool \<Rightarrow> protection_kind \<Rightarrow> bool" where
  "kind_included r w m x Read = (r \<or> (\<not> r \<and> \<not> w \<and> \<not> m \<and> \<not> x))"
| "kind_included r w m x Write = (w \<or> (\<not> r \<and> \<not> w \<and> \<not> m \<and> \<not> x))"
| "kind_included r w m x Metadata = (m \<or> (\<not> r \<and> \<not> w \<and> \<not> m \<and> \<not> x))"
| "kind_included r w m x Xattr = (x \<or> (\<not> r \<and> \<not> w \<and> \<not> m \<and> \<not> x))"

definition protection_rules :: "bool \<Rightarrow> bool \<Rightarrow> bool \<Rightarrow> bool \<Rightarrow> sandbox \<Rightarrow> protection_rule list" where
  "protection_rules include_read include_write include_metadata include_xattr s =
     sort_key (\<lambda>rule. (prule_pattern rule, prule_kind rule))
       (filter (\<lambda>rule. kind_included include_read include_write include_metadata include_xattr
                         (prule_kind rule))
          (sb_protection_rules s))"

definition bypass_rules :: "bool \<Rightarrow> bool \<Rightarrow> bool \<Rightarrow> bool \<Rightarrow> sandbox \<Rightarrow> bypass_rule list" where
  "bypass_rules include_read include_write include_metadata include_xattr s =
     sort_key (\<lambda>rule. (brule_pattern rule, brule_kind rule))
       (filter (\<lambda>rule. kind_included include_read include_write include_metadata include_xattr
                         (brule_kind rule))
          (sb_bypass_rules s))"

definition is_protected :: "glob_api \<Rightarrow> sandbox \<Rightarrow> protection_kind \<Rightarrow> sandbox_path \<Rightarrow> bool \<Rightarrow> bool" where
  "is_protected G s kind path target_is_dir =
     list_ex (\<lambda>rule. prule_kind rule = kind \<and> protection_rule_matches G rule path target_is_dir)
       (sb_protection_rules s)"

definition is_bypass :: "glob_api \<Rightarrow> sandbox \<Rightarrow> protection_kind \<Rightarrow> sandbox_path \<Rightarrow> bool \<Rightarrow> bool" where
  "is_bypass G s kind path target_is_dir =
     list_ex (\<lambda>rule. brule_kind rule = kind \<and> bypass_rule_matches G rule path target_is_dir)
       (sb_bypass_rules s)"

section \<open>Resolution\<close>

definition newest_covering_entry :: "sandbox \<Rightarrow> sandbox_path \<Rightarrow> overlay_entry option" where
  "newest_covering_entry s path =
     collapse_latest
       (map (\<lambda>layer. (ml_id layer, Value (LayerEntry layer)))
          (filter (\<lambda>layer. starts_with path (ml_on_fs layer)) (sb_layers s))
        @ map (\<lambda>hide. (hr_id hide, Value (HideEntry hide)))
          (filter (\<lambda>hide. starts_with path (hr_path hide)) (sb_hides s)))"

definition newest_covering_layer :: "sandbox \<Rightarrow> sandbox_path \<Rightarrow> mount_layer option" where
  "newest_covering_layer s path =
     max_by_key ml_id (filter (\<lambda>layer. starts_with path (ml_on_fs layer)) (sb_layers s))"

definition newest_descendant_layer :: "sandbox \<Rightarrow> sandbox_path \<Rightarrow> mount_layer option" where
  "newest_descendant_layer s path =
     max_by_key ml_id
       (filter (\<lambda>layer. starts_with (ml_on_fs layer) path \<and> ml_on_fs layer \<noteq> path) (sb_layers s))"

definition real_resolution :: "sandbox_path \<Rightarrow> mount_layer \<Rightarrow> overlay_resolution" where
  "real_resolution path layer =
     (case strip_prefix path (ml_on_fs layer) of
        Inl _ \<Rightarrow> ResMissing
      | Inr rest \<Rightarrow>
          ResReal (path_join (ml_local layer) (relative_string rest)) (ml_id layer) path)"

definition resolve_overlay :: "sandbox \<Rightarrow> sandbox_path \<Rightarrow> overlay_resolution" where
  "resolve_overlay s path =
     (if path = [] then
        (case newest_covering_layer s path of
           Some layer \<Rightarrow> real_resolution path layer
         | None \<Rightarrow> ResVirtualDir path)
      else
        (case newest_covering_entry s path of
           Some (LayerEntry layer) \<Rightarrow> real_resolution path layer
         | Some (HideEntry hide) \<Rightarrow>
             (case newest_descendant_layer s path of
                Some layer \<Rightarrow> if ml_id layer > hr_id hide then ResVirtualDir path else ResHidden
              | None \<Rightarrow> ResHidden)
         | None \<Rightarrow>
             (case newest_descendant_layer s path of
                Some _ \<Rightarrow> ResVirtualDir path
              | None \<Rightarrow> ResMissing)))"

fun visible :: "overlay_resolution \<Rightarrow> resolved_path option" where
  "visible (ResReal local i path) = Some (RealPath local i path)"
| "visible (ResVirtualDir path) = Some (VirtualDirPath path)"
| "visible ResHidden = None"
| "visible ResMissing = None"

definition resolve :: "sandbox \<Rightarrow> sandbox_path \<Rightarrow> resolved_path option" where
  "resolve s path = visible (resolve_overlay s path)"

definition is_hidden :: "sandbox \<Rightarrow> sandbox_path \<Rightarrow> bool" where
  "is_hidden s path = (case resolve_overlay s path of ResHidden \<Rightarrow> True | _ \<Rightarrow> False)"

definition is_virtual_dir :: "sandbox \<Rightarrow> sandbox_path \<Rightarrow> bool" where
  "is_virtual_dir s path = (case resolve_overlay s path of ResVirtualDir _ \<Rightarrow> True | _ \<Rightarrow> False)"

text \<open>\<^verbatim>\<open>children\<close>: the loop over the layers, the loop over the host directory, and the whole.\<close>

fun children_of_layers ::
  "sandbox \<Rightarrow> sandbox_path \<Rightarrow> mount_layer list \<Rightarrow> (string, resolved_path) omap \<Rightarrow> bool \<Rightarrow>
   ((string, resolved_path) omap \<times> bool) res"
where
  "children_of_layers s dir [] acc covered = Inr (acc, covered)"
| "children_of_layers s dir (layer # layers) acc covered =
     (let covered = (covered \<or> ml_on_fs layer = dir \<or> starts_with dir (ml_on_fs layer)) in
      if starts_with (ml_on_fs layer) dir \<and> ml_on_fs layer \<noteq> dir then
        result_bind (strip_prefix (ml_on_fs layer) dir) (\<lambda>rest.
          case rest of
            [] \<Rightarrow> children_of_layers s dir layers acc covered
          | first # _ \<Rightarrow>
              let name = to_string_lossy first in
              result_bind (join dir name) (\<lambda>child.
                children_of_layers s dir layers
                  (if is_hidden s child then acc else om_insert name (VirtualDirPath child) acc)
                  covered))
      else children_of_layers s dir layers acc covered)"

fun children_of_entries ::
  "sandbox \<Rightarrow> sandbox_path \<Rightarrow> (io_error + string) list \<Rightarrow> (string, resolved_path) omap \<Rightarrow>
   (string, resolved_path) omap res"
where
  "children_of_entries s dir [] acc = Inr acc"
| "children_of_entries s dir (Inl e # entries) acc = Inl (Io e)"
| "children_of_entries s dir (Inr fname # entries) acc =
     (let name = to_string_lossy fname in
      result_bind (join dir name) (\<lambda>child.
        children_of_entries s dir entries
          (if is_hidden s child then acc
           else case resolve s child of
                  Some resolved \<Rightarrow> om_insert name resolved acc
                | None \<Rightarrow> acc)))"

definition children ::
  "'h os \<Rightarrow> 'h \<Rightarrow> sandbox \<Rightarrow> sandbox_path \<Rightarrow> (string, resolved_path) omap res"
where
  "children S h s dir =
     (if is_hidden s dir then Inl (Message (display_path dir @ '' is hidden''))
      else result_bind (children_of_layers s dir (sb_layers s) [] False) (\<lambda>(acc, covered_by_layer).
        case resolve s dir of
          Some (RealPath local _ _) \<Rightarrow>
            if os_is_dir S h local
            then (case os_read_dir S h local of
                    Inl e \<Rightarrow> Inl (Io e)
                  | Inr entries \<Rightarrow> children_of_entries s dir entries acc)
            else Inr acc
        | _ \<Rightarrow>
            if \<not> covered_by_layer \<and> \<not> is_virtual_dir s dir
            then Inl (Message (display_path dir @ '' does not exist''))
            else Inr acc))"

section \<open>Metadata overrides\<close>

definition metadata_object_key :: "sandbox \<Rightarrow> sandbox_path \<Rightarrow> metadata_object_key option" where
  "metadata_object_key s path =
     (case resolve s path of
        None \<Rightarrow> None
      | Some (VirtualDirPath _) \<Rightarrow> None
      | Some (RealPath _ i _) \<Rightarrow>
          (case find (\<lambda>layer. ml_id layer = i) (sb_layers s) of
             None \<Rightarrow> None
           | Some layer \<Rightarrow>
               (case strip_prefix path (ml_on_fs layer) of
                  Inl _ \<Rightarrow> None
                | Inr relative \<Rightarrow> Some (MetadataObjectKey i relative))))"

definition path_is_directory :: "'h os \<Rightarrow> 'h \<Rightarrow> sandbox \<Rightarrow> sandbox_path \<Rightarrow> bool" where
  "path_is_directory S h s path =
     (case resolve s path of
        Some (VirtualDirPath _) \<Rightarrow> True
      | Some (RealPath local _ _) \<Rightarrow> os_is_dir S h local
      | None \<Rightarrow> False)"

definition metadata_override_for_path :: "sandbox \<Rightarrow> sandbox_path \<Rightarrow> metadata_override option" where
  "metadata_override_for_path s path =
     (case metadata_object_key s path of
        None \<Rightarrow> None
      | Some key \<Rightarrow>
          collapse_latest
            (map (\<lambda>(entry_key, entry). (object_layer entry_key, Value (entry_override entry)))
               (filter (\<lambda>(entry_key, _). entry_key = key) (sb_metadata s))))"

definition or_keep :: "'a option \<Rightarrow> 'a option \<Rightarrow> 'a option" where
  "or_keep new old = (case new of Some x \<Rightarrow> Some x | None \<Rightarrow> old)"

fun apply_to_override :: "metadata_operation \<Rightarrow> metadata_override \<Rightarrow> metadata_override" where
  "apply_to_override (Chmod _ mode) ov = ov\<lparr>ov_mode := Some mode\<rparr>"
| "apply_to_override (Chown _ uid gid) ov =
     ov\<lparr>ov_uid := or_keep uid (ov_uid ov), ov_gid := or_keep gid (ov_gid ov)\<rparr>"
| "apply_to_override (Chattr _ flags) ov = ov\<lparr>ov_flags := Some flags\<rparr>"
| "apply_to_override (MSetXattr _ _) ov = ov"
| "apply_to_override (MRemoveXattr _ _) ov = ov"
| "apply_to_override (SetAttr _ mode uid gid flags atime mtime) ov =
     ov\<lparr>ov_mode := or_keep mode (ov_mode ov), ov_uid := or_keep uid (ov_uid ov),
        ov_gid := or_keep gid (ov_gid ov), ov_flags := or_keep flags (ov_flags ov),
        ov_atime := or_keep atime (ov_atime ov), ov_mtime := or_keep mtime (ov_mtime ov)\<rparr>"

definition apply_metadata_override_to_object ::
  "metadata_object_key \<Rightarrow> sandbox_path \<Rightarrow> metadata_operation \<Rightarrow> sandbox \<Rightarrow> sandbox res"
where
  "apply_metadata_override_to_object key path oper s =
     (if \<not> list_ex (\<lambda>layer. ml_id layer = object_layer key) (sb_layers s)
      then Inl (Message (''metadata layer not found for path: '' @ display_path path))
      else
        let entry = (case om_get (sb_metadata s) key of
                       Some entry \<Rightarrow> entry
                     | None \<Rightarrow> \<lparr>entry_sandbox_path = path, entry_override = default_override\<rparr>);
            entry = entry\<lparr>entry_sandbox_path := metadata_path oper\<rparr>;
            entry = entry\<lparr>entry_override := apply_to_override oper (entry_override entry)\<rparr>
        in Inr (s\<lparr>sb_metadata := om_insert key entry (sb_metadata s)\<rparr>))"

definition apply_metadata_override :: "metadata_operation \<Rightarrow> sandbox \<Rightarrow> sandbox res" where
  "apply_metadata_override oper s =
     (let path = metadata_path oper in
      result_bind (ok_or (metadata_object_key s path)
                    (Message (''path not found or not real: '' @ display_path path))) (\<lambda>key.
      apply_metadata_override_to_object key path oper s))"

definition metadata_differences :: "sandbox \<Rightarrow> sandbox_path list" where
  "metadata_differences s =
     List.map_filter (\<lambda>(key, entry).
       if override_is_empty (entry_override entry)
          \<or> metadata_object_key s (entry_sandbox_path entry) \<noteq> Some key
       then None else Some (entry_sandbox_path entry)) (sb_metadata s)"

section \<open>Well-formed sandboxes\<close>

text \<open>
  Layer and hide ids are handed out by one counter, so the ids of layers and of hides grow
  along their lists, are all different and lie below the counter; mount points come from
  JSON text, so they are well-formed paths in valid UTF-8; the maps are sorted and no rule
  is listed twice.
\<close>

definition wf_layer :: "mount_layer \<Rightarrow> bool" where
  "wf_layer l \<longleftrightarrow> wf_path (ml_on_fs l) \<and> (\<forall>c \<in> set (ml_on_fs l). utf8_valid c)"

definition overlay_bound :: "sandbox \<Rightarrow> nat" where
  "overlay_bound s = max (sb_next_layer_id s) (sb_next_hide_id s)"

definition overlay_ids :: "sandbox \<Rightarrow> nat set" where
  "overlay_ids s = ml_id ` set (sb_layers s) \<union> hr_id ` set (sb_hides s)"

definition wf_overlay :: "sandbox \<Rightarrow> bool" where
  "wf_overlay s \<longleftrightarrow>
     sorted_wrt (<) (map ml_id (sb_layers s)) \<and> sorted_wrt (<) (map hr_id (sb_hides s))
     \<and> ml_id ` set (sb_layers s) \<inter> hr_id ` set (sb_hides s) = {}
     \<and> (\<forall>i \<in> overlay_ids s. i < overlay_bound s)"

definition rule_key :: "protection_rule \<Rightarrow> protection_kind \<times> policy_pattern" where
  "rule_key r = (prule_kind r, prule_pattern r)"

definition bypass_key :: "bypass_rule \<Rightarrow> protection_kind \<times> policy_pattern" where
  "bypass_key r = (brule_kind r, brule_pattern r)"

definition wf_sandbox :: "sandbox \<Rightarrow> bool" where
  "wf_sandbox s \<longleftrightarrow>
     wf_overlay s \<and> (\<forall>l \<in> set (sb_layers s). wf_layer l) \<and> (\<forall>h \<in> set (sb_hides s). wf_path (hr_path h))
     \<and> om_wf (sb_metadata s) \<and> om_wf (sb_attaches s)
     \<and> distinct (map rule_key (sb_protection_rules s))
     \<and> distinct (map bypass_key (sb_bypass_rules s))"

interpretation overlay_counter: id_supply overlay_bound overlay_ids next_overlay_order
  by unfold_locales
     (auto simp: overlay_bound_def overlay_ids_def next_overlay_order_def Let_def)

lemma overlay_counter_bounded: "wf_overlay s \<Longrightarrow> overlay_counter.bounded s"
  by (simp add: wf_overlay_def overlay_counter.bounded_def)

lemma add_layer_simps:
  "fst (add_layer local on_fs s) = overlay_bound s"
  "sb_layers (snd (add_layer local on_fs s)) =
     sb_layers s @ [\<lparr>ml_id = overlay_bound s, ml_local = local, ml_on_fs = on_fs\<rparr>]"
  "sb_hides (snd (add_layer local on_fs s)) = sb_hides s"
  "sb_metadata (snd (add_layer local on_fs s)) = sb_metadata s"
  "sb_attaches (snd (add_layer local on_fs s)) = sb_attaches s"
  "sb_protection_rules (snd (add_layer local on_fs s)) = sb_protection_rules s"
  "sb_bypass_rules (snd (add_layer local on_fs s)) = sb_bypass_rules s"
  "sb_name (snd (add_layer local on_fs s)) = sb_name s"
  "overlay_bound (snd (add_layer local on_fs s)) = Suc (overlay_bound s)"
  by (simp_all add: add_layer_def next_overlay_order_def overlay_bound_def Let_def)

lemma add_hide_simps:
  "fst (add_hide path s) = overlay_bound s"
  "sb_hides (snd (add_hide path s)) = sb_hides s @ [\<lparr>hr_id = overlay_bound s, hr_path = path\<rparr>]"
  "sb_layers (snd (add_hide path s)) = sb_layers s"
  "sb_metadata (snd (add_hide path s)) = sb_metadata s"
  "sb_attaches (snd (add_hide path s)) = sb_attaches s"
  "sb_protection_rules (snd (add_hide path s)) = sb_protection_rules s"
  "sb_bypass_rules (snd (add_hide path s)) = sb_bypass_rules s"
  "sb_name (snd (add_hide path s)) = sb_name s"
  "overlay_bound (snd (add_hide path s)) = Suc (overlay_bound s)"
  by (simp_all add: add_hide_def next_overlay_order_def overlay_bound_def Let_def)

lemma wf_new_sandbox: "wf_sandbox (new_sandbox name log)"
  by (simp add: wf_sandbox_def wf_overlay_def new_sandbox_def overlay_ids_def)

lemma wf_overlay_add_layer:
  assumes "wf_overlay s"
  shows "wf_overlay (snd (add_layer local on_fs s))"
proof -
  have "overlay_bound s \<notin> overlay_ids s" using assms by (auto simp: wf_overlay_def)
  with assms show ?thesis
    by (auto simp: wf_overlay_def add_layer_simps overlay_ids_def sorted_wrt_append less_Suc_eq)
qed

lemma wf_overlay_add_hide:
  assumes "wf_overlay s"
  shows "wf_overlay (snd (add_hide path s))"
proof -
  have "overlay_bound s \<notin> overlay_ids s" using assms by (auto simp: wf_overlay_def)
  with assms show ?thesis
    by (auto simp: wf_overlay_def add_hide_simps overlay_ids_def sorted_wrt_append less_Suc_eq)
qed

lemma map_vec_remove: "map f (vec_remove i xs) = vec_remove i (map f xs)"
  by (simp add: vec_remove_def take_map drop_map)

lemma sorted_wrt_vec_remove: "sorted_wrt P xs \<Longrightarrow> sorted_wrt P (vec_remove i xs)"
proof (cases "i < length xs")
  case True
  assume "sorted_wrt P xs"
  then have "sorted_wrt P (take i xs @ xs ! i # drop (Suc i) xs)"
    using True by (simp add: id_take_nth_drop [symmetric])
  then show ?thesis by (auto simp: vec_remove_def sorted_wrt_append)
next
  case False
  assume "sorted_wrt P xs"
  with False show ?thesis by (simp add: vec_remove_def)
qed

lemma remove_layer_layers:
  "sb_layers (snd (remove_layer on_fs s)) =
     (case list_rposition (\<lambda>l. ml_on_fs l = on_fs) (sb_layers s) of
        Some i \<Rightarrow> vec_remove i (sb_layers s) | None \<Rightarrow> sb_layers s)"
  by (simp add: remove_layer_def del: list_rposition_None split: option.splits)

lemma remove_layer_simps [simp]:
  "sb_hides (snd (remove_layer on_fs s)) = sb_hides s"
  "sb_metadata (snd (remove_layer on_fs s)) = sb_metadata s"
  "sb_attaches (snd (remove_layer on_fs s)) = sb_attaches s"
  "sb_protection_rules (snd (remove_layer on_fs s)) = sb_protection_rules s"
  "sb_bypass_rules (snd (remove_layer on_fs s)) = sb_bypass_rules s"
  "overlay_bound (snd (remove_layer on_fs s)) = overlay_bound s"
  by (simp_all add: remove_layer_def overlay_bound_def split: option.splits)

lemma remove_layer_subset: "set (sb_layers (snd (remove_layer on_fs s))) \<subseteq> set (sb_layers s)"
  using set_vec_remove_subset by (fastforce simp: remove_layer_layers split: option.splits)

lemma wf_overlay_remove_layer:
  assumes "wf_overlay s"
  shows "wf_overlay (snd (remove_layer on_fs s))"
proof -
  have "sorted_wrt (<) (map ml_id (sb_layers (snd (remove_layer on_fs s))))"
    using assms
    by (auto simp: wf_overlay_def remove_layer_layers map_vec_remove sorted_wrt_vec_remove
        split: option.splits)
  with assms remove_layer_subset [of on_fs s] show ?thesis
    unfolding wf_overlay_def overlay_ids_def by simp blast
qed

lemma wf_sandbox_add_layer:
  "wf_sandbox s \<Longrightarrow> wf_path on_fs \<Longrightarrow> \<forall>c \<in> set on_fs. utf8_valid c \<Longrightarrow>
   wf_sandbox (snd (add_layer local on_fs s))"
  by (auto simp: wf_sandbox_def wf_overlay_add_layer add_layer_simps wf_layer_def)

lemma wf_sandbox_add_hide:
  "wf_sandbox s \<Longrightarrow> wf_path path \<Longrightarrow> wf_sandbox (snd (add_hide path s))"
  by (auto simp: wf_sandbox_def wf_overlay_add_hide add_hide_simps)

lemma wf_sandbox_remove_layer: "wf_sandbox s \<Longrightarrow> wf_sandbox (snd (remove_layer on_fs s))"
  using remove_layer_subset [of on_fs s] by (auto simp: wf_sandbox_def wf_overlay_remove_layer)

section \<open>The rule tables meet their contract\<close>

lemma vec_remove_position:
  assumes "list_position p xs = Some i" and "\<And>x. p x \<longleftrightarrow> f x = y"
  shows "map f (vec_remove i xs) = remove1 y (map f xs)"
  using assms(1)
proof (induction xs arbitrary: i)
  case Nil
  then show ?case by simp
next
  case (Cons x xs)
  then show ?case by (auto simp: assms(2) vec_remove_def split: if_splits)
qed

lemma rule_key_iff: "rule_key r = (k, p) \<longleftrightarrow> prule_kind r = k \<and> prule_pattern r = p"
  by (simp add: rule_key_def)

lemma bypass_key_iff: "bypass_key r = (k, p) \<longleftrightarrow> brule_kind r = k \<and> brule_pattern r = p"
  by (simp add: bypass_key_def)

lemma list_ex_key:
  "list_ex (\<lambda>r. prule_kind r = k \<and> prule_pattern r = p) rs \<longleftrightarrow> (k, p) \<in> rule_key ` set rs"
  "list_ex (\<lambda>r. brule_kind r = k \<and> brule_pattern r = p) bs \<longleftrightarrow> (k, p) \<in> bypass_key ` set bs"
  by (force simp: list_ex_iff rule_key_def bypass_key_def)+

lemma position_key:
  "list_position (\<lambda>r. prule_kind r = k \<and> prule_pattern r = p) rs = None \<longleftrightarrow> (k, p) \<notin> rule_key ` set rs"
  "list_position (\<lambda>r. brule_kind r = k \<and> brule_pattern r = p) bs = None \<longleftrightarrow> (k, p) \<notin> bypass_key ` set bs"
  by (force simp: rule_key_def bypass_key_def)+

lemma unprotect_cases:
  "(k, p) \<notin> rule_key ` set (sb_protection_rules s) \<Longrightarrow> unprotect k p s = (NotPresent, s)"
  "(k, p) \<in> rule_key ` set (sb_protection_rules s) \<Longrightarrow>
     fst (unprotect k p s) = Removed
     \<and> map rule_key (sb_protection_rules (snd (unprotect k p s))) =
         remove1 (k, p) (map rule_key (sb_protection_rules s))"
  using position_key(1) [of k p "sb_protection_rules s"]
  by (auto simp: unprotect_def vec_remove_position [where y = "(k, p)"] rule_key_iff
      simp del: list_position_None split: option.splits)

lemma remove_bypass_cases:
  "(k, p) \<notin> bypass_key ` set (sb_bypass_rules s) \<Longrightarrow> remove_bypass k p s = (NotPresent, s)"
  "(k, p) \<in> bypass_key ` set (sb_bypass_rules s) \<Longrightarrow>
     fst (remove_bypass k p s) = Removed
     \<and> map bypass_key (sb_bypass_rules (snd (remove_bypass k p s))) =
         remove1 (k, p) (map bypass_key (sb_bypass_rules s))"
  using position_key(2) [of k p "sb_bypass_rules s"]
  by (auto simp: remove_bypass_def vec_remove_position [where y = "(k, p)"] bypass_key_iff
      simp del: list_position_None split: option.splits)

interpretation protection: rule_book sb_protection_rules rule_key protect unprotect is_protected
  by unfold_locales
     (auto simp: protect_def list_ex_key unprotect_cases rule_key_def is_protected_def list_ex_iff
        protection_rule_matches_def image_iff)

interpretation bypass: rule_book sb_bypass_rules bypass_key add_bypass remove_bypass is_bypass
  by unfold_locales
     (auto simp: add_bypass_def list_ex_key remove_bypass_cases bypass_key_def is_bypass_def list_ex_iff
        bypass_rule_matches_def image_iff)

lemma protect_other [simp]:
  "sb_layers (snd (protect k p s)) = sb_layers s" "sb_hides (snd (protect k p s)) = sb_hides s"
  "sb_metadata (snd (protect k p s)) = sb_metadata s"
  "sb_attaches (snd (protect k p s)) = sb_attaches s"
  "sb_bypass_rules (snd (protect k p s)) = sb_bypass_rules s"
  "overlay_bound (snd (protect k p s)) = overlay_bound s"
  by (simp_all add: protect_def overlay_bound_def)

lemma unprotect_other [simp]:
  "sb_layers (snd (unprotect k p s)) = sb_layers s" "sb_hides (snd (unprotect k p s)) = sb_hides s"
  "sb_metadata (snd (unprotect k p s)) = sb_metadata s"
  "sb_attaches (snd (unprotect k p s)) = sb_attaches s"
  "sb_bypass_rules (snd (unprotect k p s)) = sb_bypass_rules s"
  "overlay_bound (snd (unprotect k p s)) = overlay_bound s"
  by (simp_all add: unprotect_def overlay_bound_def split: option.splits)

lemma add_bypass_other [simp]:
  "sb_layers (snd (add_bypass k p s)) = sb_layers s" "sb_hides (snd (add_bypass k p s)) = sb_hides s"
  "sb_metadata (snd (add_bypass k p s)) = sb_metadata s"
  "sb_attaches (snd (add_bypass k p s)) = sb_attaches s"
  "sb_protection_rules (snd (add_bypass k p s)) = sb_protection_rules s"
  "overlay_bound (snd (add_bypass k p s)) = overlay_bound s"
  by (simp_all add: add_bypass_def overlay_bound_def)

lemma remove_bypass_other [simp]:
  "sb_layers (snd (remove_bypass k p s)) = sb_layers s"
  "sb_hides (snd (remove_bypass k p s)) = sb_hides s"
  "sb_metadata (snd (remove_bypass k p s)) = sb_metadata s"
  "sb_attaches (snd (remove_bypass k p s)) = sb_attaches s"
  "sb_protection_rules (snd (remove_bypass k p s)) = sb_protection_rules s"
  "overlay_bound (snd (remove_bypass k p s)) = overlay_bound s"
  by (simp_all add: remove_bypass_def overlay_bound_def split: option.splits)

lemma wf_sandbox_rules:
  assumes "wf_sandbox s"
  shows "wf_sandbox (snd (protect k p s))" "wf_sandbox (snd (unprotect k p s))"
    "wf_sandbox (snd (add_bypass k p s))" "wf_sandbox (snd (remove_bypass k p s))"
  using assms protection.no_duplicates_add [of s k p] protection.no_duplicates_del [of s k p]
    bypass.no_duplicates_add [of s k p] bypass.no_duplicates_del [of s k p]
  by (simp_all add: wf_sandbox_def wf_overlay_def overlay_ids_def protection.no_duplicates_def
      bypass.no_duplicates_def)

section \<open>What the overlay shows\<close>

definition covering :: "sandbox \<Rightarrow> sandbox_path \<Rightarrow> (nat \<times> overlay_entry) list" where
  "covering s path =
     map (\<lambda>l. (ml_id l, LayerEntry l)) (filter (\<lambda>l. starts_with path (ml_on_fs l)) (sb_layers s))
     @ map (\<lambda>h. (hr_id h, HideEntry h)) (filter (\<lambda>h. starts_with path (hr_path h)) (sb_hides s))"

lemma newest_covering_entry_eq:
  "newest_covering_entry s path = map_option snd (max_by_key fst (covering s path))"
proof -
  have "newest_covering_entry s path =
    collapse_latest (map (\<lambda>e. (fst e, Value (snd e))) (covering s path))"
    by (simp add: newest_covering_entry_def covering_def comp_def)
  then show ?thesis by (simp only: collapse_latest_values)
qed

lemma set_covering:
  "(n, e) \<in> set (covering s path) \<longleftrightarrow>
     (\<exists>l. e = LayerEntry l \<and> n = ml_id l \<and> l \<in> set (sb_layers s) \<and> starts_with path (ml_on_fs l))
     \<or> (\<exists>h. e = HideEntry h \<and> n = hr_id h \<and> h \<in> set (sb_hides s) \<and> starts_with path (hr_path h))"
  by (auto simp: covering_def)

lemma layer_ids_distinct: "wf_overlay s \<Longrightarrow> distinct (map ml_id (sb_layers s))"
  by (simp add: wf_overlay_def strict_sorted_iff)

lemma hide_ids_distinct: "wf_overlay s \<Longrightarrow> distinct (map hr_id (sb_hides s))"
  by (simp add: wf_overlay_def strict_sorted_iff)

lemma covering_distinct: "wf_overlay s \<Longrightarrow> distinct (map fst (covering s path))"
  using layer_ids_distinct [of s] hide_ids_distinct [of s]
  by (auto simp: covering_def wf_overlay_def comp_def distinct_map_filter)

lemma covering_bounded: "wf_overlay s \<Longrightarrow> e \<in> set (covering s path) \<Longrightarrow> fst e < overlay_bound s"
  by (auto simp: covering_def wf_overlay_def overlay_ids_def)

lemma layer_bounded: "wf_overlay s \<Longrightarrow> l \<in> set (sb_layers s) \<Longrightarrow> ml_id l < overlay_bound s"
  by (auto simp: wf_overlay_def overlay_ids_def)

lemma real_resolution_starts:
  "starts_with path (ml_on_fs l) \<Longrightarrow>
   real_resolution path l =
     ResReal (path_join (ml_local l) (relative_string (drop (length (ml_on_fs l)) path))) (ml_id l) path"
  by (simp add: real_resolution_def strip_prefix_starts_with)

lemma newest_covering_layer_mem:
  "newest_covering_layer s path = Some l \<Longrightarrow> l \<in> set (sb_layers s) \<and> starts_with path (ml_on_fs l)"
  by (auto simp: newest_covering_layer_def dest!: max_by_key_SomeD)

lemma newest_covering_entry_mem:
  "newest_covering_entry s path = Some e \<Longrightarrow> \<exists>n. (n, e) \<in> set (covering s path)"
  by (auto simp: newest_covering_entry_eq dest!: max_by_key_SomeD)

lemma newest_descendant_layer_mem:
  "newest_descendant_layer s path = Some l \<Longrightarrow>
   l \<in> set (sb_layers s) \<and> starts_with (ml_on_fs l) path \<and> ml_on_fs l \<noteq> path"
  by (auto simp: newest_descendant_layer_def dest!: max_by_key_SomeD)

lemma resolve_overlay_cong:
  assumes "sb_layers s' = sb_layers s" and "sb_hides s' = sb_hides s"
  shows "resolve_overlay s' = resolve_overlay s"
proof -
  have "newest_covering_layer s' = newest_covering_layer s"
    "newest_covering_entry s' = newest_covering_entry s"
    "newest_descendant_layer s' = newest_descendant_layer s"
    using assms
    by (simp_all add: fun_eq_iff newest_covering_layer_def newest_covering_entry_def
        newest_descendant_layer_def)
  then show ?thesis by (intro ext) (simp only: resolve_overlay_def)
qed

text \<open>A path that resolves to a real file is served by a layer that covers it.\<close>

lemma resolve_overlay_root:
  "resolve_overlay s [] =
     (case newest_covering_layer s [] of Some l \<Rightarrow> real_resolution [] l | None \<Rightarrow> ResVirtualDir [])"
  by (simp add: resolve_overlay_def)

lemma resolve_overlay_below:
  "path \<noteq> [] \<Longrightarrow> newest_covering_entry s path = Some (LayerEntry l) \<Longrightarrow>
     resolve_overlay s path = real_resolution path l"
  "path \<noteq> [] \<Longrightarrow> newest_covering_entry s path = Some (HideEntry h) \<Longrightarrow>
     resolve_overlay s path =
       (if \<exists>l. newest_descendant_layer s path = Some l \<and> ml_id l > hr_id h
        then ResVirtualDir path else ResHidden)"
  "path \<noteq> [] \<Longrightarrow> newest_covering_entry s path = None \<Longrightarrow>
     resolve_overlay s path =
       (if newest_descendant_layer s path = None then ResMissing else ResVirtualDir path)"
  by (auto simp: resolve_overlay_def split: option.splits)

lemma resolve_overlay_realE:
  assumes "resolve_overlay s path = ResReal local i p"
  obtains l where "l \<in> set (sb_layers s)" "starts_with path (ml_on_fs l)" "i = ml_id l" "p = path"
    "local = path_join (ml_local l) (relative_string (drop (length (ml_on_fs l)) path))"
proof -
  have "\<exists>l. l \<in> set (sb_layers s) \<and> starts_with path (ml_on_fs l)
    \<and> real_resolution path l = ResReal local i p"
  proof (cases "path = []")
    case True
    with assms obtain l where "newest_covering_layer s path = Some l"
      and "real_resolution path l = ResReal local i p"
      by (auto simp: resolve_overlay_root split: option.splits)
    then show ?thesis using newest_covering_layer_mem by blast
  next
    case False
    obtain e where e: "newest_covering_entry s path = Some e"
      using assms False
      by (cases "newest_covering_entry s path") (auto simp: resolve_overlay_below split: if_splits)
    with assms False obtain l where "e = LayerEntry l" and "real_resolution path l = ResReal local i p"
      by (cases e) (auto simp: resolve_overlay_below split: if_splits)
    with newest_covering_entry_mem [OF e] show ?thesis by (auto simp: set_covering)
  qed
  then obtain l where "l \<in> set (sb_layers s)" "starts_with path (ml_on_fs l)"
    "real_resolution path l = ResReal local i p" by blast
  then show ?thesis by (intro that [of l]) (auto simp: real_resolution_starts)
qed

text \<open>Mounting: the new layer serves its whole subtree; its ancestors become visible.\<close>

definition spec_mount ::
  "string \<Rightarrow> sandbox_path \<Rightarrow> nat \<Rightarrow> (sandbox_path \<Rightarrow> overlay_resolution) \<Rightarrow> sandbox_path \<Rightarrow> overlay_resolution"
where
  "spec_mount local on_fs i view path =
     (if starts_with path on_fs
      then ResReal (path_join local (relative_string (drop (length on_fs) path))) i path
      else if starts_with on_fs path
      then (case view path of ResReal l j p \<Rightarrow> ResReal l j p | _ \<Rightarrow> ResVirtualDir path)
      else view path)"

text \<open>Hiding: the whole subtree disappears, except the root directory itself.\<close>

definition spec_hide ::
  "sandbox_path \<Rightarrow> (sandbox_path \<Rightarrow> overlay_resolution) \<Rightarrow> sandbox_path \<Rightarrow> overlay_resolution"
where
  "spec_hide hidden view path =
     (if path \<noteq> [] \<and> starts_with path hidden then ResHidden else view path)"

lemma newest_covering_layer_add:
  assumes "wf_overlay s"
  shows "newest_covering_layer (snd (add_layer local on_fs s)) path =
    (if starts_with path on_fs
     then Some \<lparr>ml_id = overlay_bound s, ml_local = local, ml_on_fs = on_fs\<rparr>
     else newest_covering_layer s path)"
  using layer_bounded [OF assms]
  by (auto simp: newest_covering_layer_def add_layer_simps intro!: max_by_key_unique)

lemma newest_descendant_layer_add:
  assumes "wf_overlay s"
  shows "newest_descendant_layer (snd (add_layer local on_fs s)) path =
    (if starts_with on_fs path \<and> on_fs \<noteq> path
     then Some \<lparr>ml_id = overlay_bound s, ml_local = local, ml_on_fs = on_fs\<rparr>
     else newest_descendant_layer s path)"
  using layer_bounded [OF assms]
  by (auto simp: newest_descendant_layer_def add_layer_simps intro!: max_by_key_unique)

lemma newest_covering_entry_add_layer:
  assumes "wf_overlay s"
  shows "newest_covering_entry (snd (add_layer local on_fs s)) path =
    (if starts_with path on_fs
     then Some (LayerEntry \<lparr>ml_id = overlay_bound s, ml_local = local, ml_on_fs = on_fs\<rparr>)
     else newest_covering_entry s path)"
proof (cases "starts_with path on_fs")
  case True
  let ?new = "\<lparr>ml_id = overlay_bound s, ml_local = local, ml_on_fs = on_fs\<rparr>"
  have "set (covering (snd (add_layer local on_fs s)) path) =
    insert (overlay_bound s, LayerEntry ?new) (set (covering s path))"
    using True by (auto simp: covering_def add_layer_simps)
  with covering_bounded [OF assms] covering_distinct [OF wf_overlay_add_layer [OF assms]]
  have "map_option snd (max_by_key fst (covering (snd (add_layer local on_fs s)) path)) =
    Some (LayerEntry ?new)"
    by (intro by_max.pick_newest) (auto intro: less_imp_le)
  with True show ?thesis by (simp add: newest_covering_entry_eq)
next
  case False
  then show ?thesis by (simp add: newest_covering_entry_eq covering_def add_layer_simps)
qed

lemma newest_covering_entry_add_hide:
  assumes "wf_overlay s"
  shows "newest_covering_entry (snd (add_hide hidden s)) path =
    (if starts_with path hidden then Some (HideEntry \<lparr>hr_id = overlay_bound s, hr_path = hidden\<rparr>)
     else newest_covering_entry s path)"
proof (cases "starts_with path hidden")
  case True
  let ?new = "(overlay_bound s, HideEntry \<lparr>hr_id = overlay_bound s, hr_path = hidden\<rparr>)"
  have "covering (snd (add_hide hidden s)) path = covering s path @ [?new]"
    using True by (simp add: covering_def add_hide_simps)
  then have "map_option snd (max_by_key fst (covering (snd (add_hide hidden s)) path)) = Some (snd ?new)"
    using covering_bounded [OF assms] covering_distinct [OF assms]
    by (simp only: snd_conv) (intro by_max.pick_add_newest, auto)
  with True show ?thesis by (simp add: newest_covering_entry_eq)
next
  case False
  then show ?thesis by (simp add: newest_covering_entry_eq covering_def add_hide_simps)
qed

lemma newest_layer_hide_add [simp]:
  "newest_covering_layer (snd (add_hide hidden s)) path = newest_covering_layer s path"
  "newest_descendant_layer (snd (add_hide hidden s)) path = newest_descendant_layer s path"
  by (simp_all add: newest_covering_layer_def newest_descendant_layer_def add_hide_simps)

lemma newest_descendant_bounded:
  "wf_overlay s \<Longrightarrow> newest_descendant_layer s path = Some l \<Longrightarrow> ml_id l < overlay_bound s"
  using newest_descendant_layer_mem layer_bounded by blast

lemma hide_bounded:
  "wf_overlay s \<Longrightarrow> newest_covering_entry s path = Some (HideEntry h) \<Longrightarrow> hr_id h < overlay_bound s"
  using newest_covering_entry_mem [of s path "HideEntry h"] covering_bounded [of s _ path]
  by (force simp: set_covering)

lemma resolve_overlay_same:
  assumes "newest_covering_layer s' path = newest_covering_layer s path"
    and "newest_covering_entry s' path = newest_covering_entry s path"
    and "newest_descendant_layer s' path = newest_descendant_layer s path"
  shows "resolve_overlay s' path = resolve_overlay s path"
  using assms by (simp only: resolve_overlay_def)

lemma resolve_overlay_add_hide:
  assumes "wf_overlay s"
  shows "resolve_overlay (snd (add_hide hidden s)) path = spec_hide hidden (resolve_overlay s) path"
proof (cases "path = []")
  case True
  then show ?thesis by (simp add: resolve_overlay_root spec_hide_def)
next
  case ne: False
  show ?thesis
  proof (cases "starts_with path hidden")
    case True
    with ne assms show ?thesis
      by (auto simp: resolve_overlay_below(2) newest_covering_entry_add_hide spec_hide_def
          dest: newest_descendant_bounded)
  next
    case False
    with assms have "resolve_overlay (snd (add_hide hidden s)) path = resolve_overlay s path"
      by (intro resolve_overlay_same) (simp_all add: newest_covering_entry_add_hide)
    with False show ?thesis by (simp add: spec_hide_def)
  qed
qed

lemma resolve_overlay_add_layer:
  assumes "wf_overlay s"
  shows "resolve_overlay (snd (add_layer local on_fs s)) path =
    spec_mount local on_fs (overlay_bound s) (resolve_overlay s) path"
proof -
  consider "starts_with path on_fs" | "\<not> starts_with path on_fs" "\<not> starts_with on_fs path"
    | "\<not> starts_with path on_fs" "starts_with on_fs path" "path = []"
    | "\<not> starts_with path on_fs" "starts_with on_fs path" "path \<noteq> []" by blast
  then show ?thesis
  proof cases
    case 1
    then show ?thesis
      using assms
      by (cases "path = []")
         (simp_all add: resolve_overlay_root resolve_overlay_below(1) newest_covering_layer_add
            newest_covering_entry_add_layer real_resolution_starts spec_mount_def)
  next
    case 2
    then have "resolve_overlay (snd (add_layer local on_fs s)) path = resolve_overlay s path"
      using assms
      by (intro resolve_overlay_same)
         (simp_all add: newest_covering_layer_add newest_covering_entry_add_layer
            newest_descendant_layer_add)
    with 2 show ?thesis by (simp add: spec_mount_def)
  next
    case 3
    then show ?thesis
      using assms newest_covering_layer_mem [of s "[]"]
      by (auto simp: resolve_overlay_root newest_covering_layer_add spec_mount_def
          real_resolution_starts split: option.splits)
  next
    case 4
    then have "on_fs \<noteq> path" by auto
    note adds = newest_covering_entry_add_layer [OF assms] newest_descendant_layer_add [OF assms]
    show ?thesis
    proof (cases "newest_covering_entry s path")
      case None
      with 4 \<open>on_fs \<noteq> path\<close> show ?thesis
        by (simp add: resolve_overlay_below(3) adds spec_mount_def)
    next
      case (Some e)
      show ?thesis
      proof (cases e)
        case (LayerEntry l)
        with Some have "starts_with path (ml_on_fs l)"
          using newest_covering_entry_mem by (fastforce simp: set_covering)
        with Some LayerEntry 4 show ?thesis
          by (simp add: resolve_overlay_below(1) adds spec_mount_def real_resolution_starts)
      next
        case (HideEntry h)
        with Some 4 \<open>on_fs \<noteq> path\<close> assms show ?thesis
          by (auto simp: resolve_overlay_below(2) adds spec_mount_def dest: hide_bounded)
      qed
    qed
  qed
qed

text \<open>Removing the layer that was added last at a mount point restores the view.\<close>

lemma remove_after_add_layer:
  "remove_layer on_fs (snd (add_layer local on_fs s)) =
     (True, s\<lparr>sb_next_layer_id := Suc (overlay_bound s), sb_next_hide_id := Suc (overlay_bound s)\<rparr>)"
  by (simp add: remove_layer_def add_layer_def next_overlay_order_def overlay_bound_def Let_def)

text \<open>Of the layers at a mount point the one removed is the newest.\<close>

lemma remove_layer_newest:
  assumes "wf_overlay s" and "fst (remove_layer on_fs s)"
  shows "\<exists>l \<in> set (sb_layers s). ml_on_fs l = on_fs
    \<and> set (sb_layers (snd (remove_layer on_fs s))) = set (sb_layers s) - {l}
    \<and> (\<forall>l' \<in> set (sb_layers s). ml_on_fs l' = on_fs \<longrightarrow> ml_id l' \<le> ml_id l)"
proof -
  let ?ls = "sb_layers s"
  from assms(2) obtain i where i: "list_rposition (\<lambda>l. ml_on_fs l = on_fs) ?ls = Some i"
    by (auto simp: remove_layer_def simp del: list_rposition_None split: option.splits)
  note hit = list_rposition_SomeD [OF i]
  have sorted: "sorted_wrt (\<lambda>l l'. ml_id l < ml_id l') ?ls"
    using assms(1) by (simp add: wf_overlay_def sorted_wrt_map)
  have le: "ml_id (?ls ! j) \<le> ml_id (?ls ! i)" if "j < length ?ls" "ml_on_fs (?ls ! j) = on_fs" for j
    using that hit sorted_wrt_nth_less [OF sorted, of j i] by (metis less_imp_le linorder_neqE_nat order_refl)
  have "distinct ?ls" using layer_ids_distinct [OF assms(1)] by (simp add: distinct_map)
  moreover have "?ls = take i ?ls @ ?ls ! i # drop (Suc i) ?ls" using hit by (simp add: vec_remove_split)
  ultimately have "set (vec_remove i ?ls) = set ?ls - {?ls ! i}"
    unfolding vec_remove_def
    by (metis (no_types, lifting) Diff_insert_absorb Un_iff distinct_append distinct.simps(2)
        Un_insert_right list.simps(15) set_append not_distinct_conv_prefix)
  with hit le i show ?thesis
    by (intro bexI [of _ "?ls ! i"]) (auto simp: remove_layer_layers in_set_conv_nth)
qed

section \<open>Listings\<close>

lemma is_hidden_resolve: "is_hidden s path \<Longrightarrow> resolve s path = None"
  by (auto simp: is_hidden_def resolve_def split: overlay_resolution.splits)

lemma resolve_root: "resolve s [] \<noteq> None"
  by (auto simp: resolve_def resolve_overlay_root real_resolution_starts
      dest: newest_covering_layer_mem split: option.splits)

lemma resolve_overlay_missing:
  assumes "resolve_overlay s path = ResMissing"
  shows "path \<noteq> [] \<and> newest_covering_entry s path = None \<and> newest_descendant_layer s path = None"
proof -
  have ne: "path \<noteq> []" using assms resolve_root [of s] by (auto simp: resolve_def)
  have "newest_covering_entry s path = None"
  proof (rule ccontr)
    assume "newest_covering_entry s path \<noteq> None"
    then obtain e where e: "newest_covering_entry s path = Some e" by blast
    with newest_covering_entry_mem [OF e] ne assms show False
      by (cases e) (auto simp: resolve_overlay_below set_covering real_resolution_starts split: if_splits)
  qed
  with ne assms show ?thesis by (auto simp: resolve_overlay_below split: if_splits)
qed

text \<open>A path on the way to a mount point is visible unless it is hidden.\<close>

lemma visible_above_layer:
  assumes "l \<in> set (sb_layers s)" and "starts_with (ml_on_fs l) path" and "\<not> is_hidden s path"
  shows "resolve s path \<noteq> None"
proof
  assume "resolve s path = None"
  with assms(3) have "resolve_overlay s path = ResMissing"
    by (auto simp: resolve_def is_hidden_def split: overlay_resolution.splits)
  from resolve_overlay_missing [OF this]
  have "covering s path = []" and "newest_descendant_layer s path = None"
    by (simp_all add: newest_covering_entry_eq)
  with assms(1,2) show False
    by (cases "ml_on_fs l = path")
       (auto simp: covering_def newest_descendant_layer_def filter_empty_conv)
qed

lemma wf_layer_first:
  assumes "wf_layer l" "ml_on_fs l = dir @ first # rest"
  shows "to_string_lossy first = first" "wf_component first"
  using assms by (auto simp: wf_layer_def to_string_lossy_valid)

lemma children_of_layers_step:
  assumes "wf_layer l" and "wf_path dir"
  shows "children_of_layers s dir (l # ls) acc cov =
    children_of_layers s dir ls
      (if starts_with (ml_on_fs l) dir \<and> ml_on_fs l \<noteq> dir
          \<and> \<not> is_hidden s (dir @ [ml_on_fs l ! length dir])
       then om_insert (ml_on_fs l ! length dir)
              (VirtualDirPath (dir @ [ml_on_fs l ! length dir])) acc
       else acc)
      (cov \<or> ml_on_fs l = dir \<or> starts_with dir (ml_on_fs l))"
proof (cases "starts_with (ml_on_fs l) dir \<and> ml_on_fs l \<noteq> dir")
  case True
  then obtain first rest where split: "ml_on_fs l = dir @ first # rest"
    by (metis starts_with_iff append_Nil2 neq_Nil_conv)
  with wf_layer_first [OF assms(1) split] assms(2) show ?thesis
    by (simp add: Let_def)
next
  case False
  then show ?thesis by (cases "starts_with (ml_on_fs l) dir") (simp_all add: Let_def)
qed

lemma starts_with_snoc:
  "starts_with p (dir @ [c]) \<longleftrightarrow> starts_with p dir \<and> p \<noteq> dir \<and> p ! length dir = c"
proof (cases "starts_with p dir")
  case True
  then obtain rest where "p = dir @ rest" by (auto simp: starts_with_iff)
  then show ?thesis by (cases rest) (auto simp: starts_with_def)
next
  case False
  then show ?thesis using starts_with_trans by fastforce
qed

lemma children_of_layers_total:
  assumes "\<forall>l \<in> set ls. wf_layer l" and "wf_path dir"
  shows "\<exists>m cov'. children_of_layers s dir ls acc cov = Inr (m, cov')"
  using assms
proof (induction ls arbitrary: acc cov)
  case (Cons l ls)
  then show ?case by (simp only: children_of_layers_step list.set_intros) auto
qed simp

lemma children_of_layers_get:
  assumes "\<forall>l \<in> set ls. wf_layer l" and "wf_path dir"
    and "children_of_layers s dir ls acc cov = Inr (m, cov')"
  shows "om_get m c \<noteq> None \<longleftrightarrow> om_get acc c \<noteq> None
    \<or> (\<not> is_hidden s (dir @ [c]) \<and> (\<exists>l \<in> set ls. starts_with (ml_on_fs l) (dir @ [c])))"
  using assms
proof (induction ls arbitrary: acc cov)
  case (Cons l ls)
  let ?n = "ml_on_fs l ! length dir"
  let ?acc = "if starts_with (ml_on_fs l) dir \<and> ml_on_fs l \<noteq> dir \<and> \<not> is_hidden s (dir @ [?n])
    then om_insert ?n (VirtualDirPath (dir @ [?n])) acc else acc"
  have "om_get ?acc c \<noteq> None \<longleftrightarrow> om_get acc c \<noteq> None
    \<or> (\<not> is_hidden s (dir @ [c]) \<and> starts_with (ml_on_fs l) (dir @ [c]))"
    by (auto simp: starts_with_snoc)
  moreover have "om_get m c \<noteq> None \<longleftrightarrow> om_get ?acc c \<noteq> None
    \<or> (\<not> is_hidden s (dir @ [c]) \<and> (\<exists>l \<in> set ls. starts_with (ml_on_fs l) (dir @ [c])))"
    using Cons.prems
    by (intro Cons.IH)
       (simp_all only: children_of_layers_step list.set_intros ball_simps list.set, blast)
  ultimately show ?case by (simp only: list.set bex_simps) blast
qed simp

lemma children_of_entries_get:
  assumes "children_of_entries s dir es acc = Inr m"
  shows "om_get m c \<noteq> None \<longleftrightarrow> om_get acc c \<noteq> None
    \<or> ((\<exists>f. Inr f \<in> set es \<and> to_string_lossy f = c) \<and> (\<exists>q. join dir c = Inr q \<and> resolve s q \<noteq> None))"
  using assms
proof (induction s dir es acc rule: children_of_entries.induct)
  case (3 s dir fname entries acc)
  obtain q where q: "join dir (to_string_lossy fname) = Inr q" using join_total by blast
  let ?acc = "if is_hidden s q then acc
    else case resolve s q of Some r \<Rightarrow> om_insert (to_string_lossy fname) r acc | None \<Rightarrow> acc"
  from 3 q have "om_get m c \<noteq> None \<longleftrightarrow> om_get ?acc c \<noteq> None
    \<or> ((\<exists>f. Inr f \<in> set entries \<and> to_string_lossy f = c)
       \<and> (\<exists>q. join dir c = Inr q \<and> resolve s q \<noteq> None))"
    by (simp add: Let_def)
  with q show ?case
    by (auto simp: is_hidden_resolve split: if_splits option.splits)
qed simp_all

lemma children_get:
  assumes wf: "wf_sandbox s" and dir: "wf_path dir" and m: "children S h s dir = Inr m"
    and c: "wf_component c"
  shows "om_get m c \<noteq> None \<longleftrightarrow> resolve s (dir @ [c]) \<noteq> None \<and>
    ((\<exists>l \<in> set (sb_layers s). starts_with (ml_on_fs l) (dir @ [c])) \<or>
     (\<exists>local i p es f. resolve s dir = Some (RealPath local i p) \<and> os_is_dir S h local
        \<and> os_read_dir S h local = Inr es \<and> Inr f \<in> set es \<and> to_string_lossy f = c))"
proof -
  have layers: "\<forall>l \<in> set (sb_layers s). wf_layer l" using wf by (simp add: wf_sandbox_def)
  obtain acc cov where acc: "children_of_layers s dir (sb_layers s) [] False = Inr (acc, cov)"
    using children_of_layers_total [OF layers dir] by blast
  have accget: "om_get acc c \<noteq> None \<longleftrightarrow> resolve s (dir @ [c]) \<noteq> None
    \<and> (\<exists>l \<in> set (sb_layers s). starts_with (ml_on_fs l) (dir @ [c]))"
    using children_of_layers_get [OF layers dir acc, of c] visible_above_layer is_hidden_resolve
    by fastforce
  consider (list) local i p es where "resolve s dir = Some (RealPath local i p)" "os_is_dir S h local"
      "os_read_dir S h local = Inr es" "children_of_entries s dir es acc = Inr m"
    | (flat) "m = acc" "\<nexists>local i p. resolve s dir = Some (RealPath local i p) \<and> os_is_dir S h local"
    using m acc
    by (auto simp: children_def split: if_splits option.splits resolved_path.splits sum.splits)
  then show ?thesis
  proof cases
    case list
    from children_of_entries_get [OF list(4), of c] list(1-3) accget dir c show ?thesis by auto
  next
    case flat
    with accget show ?thesis by blast
  qed
qed

section \<open>Overrides\<close>

lemma metadata_object_key_cong:
  assumes "sb_layers s' = sb_layers s" and "sb_hides s' = sb_hides s"
  shows "metadata_object_key s' = metadata_object_key s"
  using resolve_overlay_cong [OF assms]
  by (intro ext) (simp only: metadata_object_key_def resolve_def assms)

text \<open>Real paths have an object: the layer that serves them and the path within it.\<close>

lemma find_layer_by_id:
  assumes "wf_overlay s" and "l \<in> set (sb_layers s)"
  shows "find (\<lambda>l'. ml_id l' = ml_id l) (sb_layers s) = Some l"
proof -
  have inj: "inj_on ml_id (set (sb_layers s))"
    using layer_ids_distinct [OF assms(1)] by (simp add: distinct_map)
  obtain l' where l': "find (\<lambda>l'. ml_id l' = ml_id l) (sb_layers s) = Some l'"
    using assms(2) by (cases "find (\<lambda>l'. ml_id l' = ml_id l) (sb_layers s)") (auto simp: find_None_iff)
  then have "l' \<in> set (sb_layers s)" "ml_id l' = ml_id l"
    by (auto simp: find_Some_iff)
  with inj assms(2) have "l' = l" by (auto dest: inj_onD)
  with l' show ?thesis by simp
qed

lemma metadata_object_key_real:
  assumes "wf_overlay s" and "resolve s path = Some (RealPath local i p)"
  shows "\<exists>l \<in> set (sb_layers s). ml_id l = i \<and> starts_with path (ml_on_fs l)
    \<and> metadata_object_key s path = Some (MetadataObjectKey i (drop (length (ml_on_fs l)) path))"
proof -
  from assms(2) have "resolve_overlay s path = ResReal local i p"
    by (cases "resolve_overlay s path") (auto simp: resolve_def)
  then obtain l where "l \<in> set (sb_layers s)" "starts_with path (ml_on_fs l)" "i = ml_id l"
    by (rule resolve_overlay_realE)
  with assms find_layer_by_id [OF assms(1)] show ?thesis
    by (auto simp: metadata_object_key_def strip_prefix_starts_with)
qed

lemma metadata_object_key_SomeE:
  assumes "wf_overlay s" and "metadata_object_key s path = Some key"
  obtains local l where "resolve s path = Some (RealPath local (object_layer key) path)"
    "l \<in> set (sb_layers s)" "ml_id l = object_layer key" "path = ml_on_fs l @ object_relative_path key"
proof -
  from assms(2) obtain local i p where r: "resolve s path = Some (RealPath local i p)"
    by (auto simp: metadata_object_key_def split: option.splits resolved_path.splits)
  then have "p = path"
    by (cases "resolve_overlay s path") (auto simp: resolve_def elim: resolve_overlay_realE)
  from metadata_object_key_real [OF assms(1) r] assms(2)
  obtain l where "l \<in> set (sb_layers s)" "ml_id l = i" "starts_with path (ml_on_fs l)"
    "key = MetadataObjectKey i (drop (length (ml_on_fs l)) path)" by auto
  with r \<open>p = path\<close> that show ?thesis
    by (metis metadata_object_key.sel append_take_drop_id starts_with_def)
qed

lemma metadata_override_lookup:
  assumes "om_wf (sb_metadata s)"
  shows "metadata_override_for_path s path =
    (case metadata_object_key s path of None \<Rightarrow> None
     | Some key \<Rightarrow> map_option entry_override (om_get (sb_metadata s) key))"
proof (cases "metadata_object_key s path")
  case (Some key)
  have "filter (\<lambda>(k, _). k = key) m = (case om_get m key of None \<Rightarrow> [] | Some e \<Rightarrow> [(key, e)])"
    if "om_wf m" for m :: "(metadata_object_key, metadata_entry) omap"
    using that
  proof (induction m)
    case (Cons e m)
    then have "om_wf m" "om_get m (fst e) = None" by (auto simp: om_wf_def map_of_eq_None_iff)
    with Cons.IH show ?case by (auto split: option.splits)
  qed simp
  with assms Some show ?thesis
    by (simp add: metadata_override_for_path_def collapse_latest_newest max_by_key_def
        split: option.splits)
qed (simp add: metadata_override_for_path_def)

lemma apply_to_object_keeps:
  assumes "apply_metadata_override_to_object key path oper s = Inr s'"
  shows "sb_layers s' = sb_layers s" "sb_hides s' = sb_hides s"
    "sb_attaches s' = sb_attaches s" "sb_protection_rules s' = sb_protection_rules s"
    "sb_bypass_rules s' = sb_bypass_rules s" "overlay_bound s' = overlay_bound s"
    "sb_name s' = sb_name s" "sb_log_path s' = sb_log_path s"
  using assms
  by (auto simp: apply_metadata_override_to_object_def overlay_bound_def Let_def split: if_splits)

lemma apply_to_object_metadata:
  assumes "apply_metadata_override_to_object key path oper s = Inr s'"
  shows "\<exists>entry. om_get (sb_metadata s') = (om_get (sb_metadata s))(key \<mapsto> entry)
    \<and> entry_sandbox_path entry = metadata_path oper
    \<and> entry_override entry = apply_to_override oper
        (case om_get (sb_metadata s) key of Some e \<Rightarrow> entry_override e | None \<Rightarrow> default_override)"
  using assms
  by (auto simp: apply_metadata_override_to_object_def Let_def split: if_splits option.splits)

lemma wf_sandbox_apply_to_object:
  assumes "wf_sandbox s" and "apply_metadata_override_to_object key path oper s = Inr s'"
  shows "wf_sandbox s'"
proof -
  have "om_wf (sb_metadata s')"
    using assms
    by (auto simp: wf_sandbox_def apply_metadata_override_to_object_def Let_def split: if_splits)
  with assms(1) apply_to_object_keeps [OF assms(2)] show ?thesis
    by (simp add: wf_sandbox_def wf_overlay_def overlay_ids_def)
qed

section \<open>A small sandbox for evaluation\<close>

definition demo_sandbox :: sandbox where
  "demo_sandbox = snd (add_layer ''/srv'' [''data''] (new_sandbox ''box'' ''box.log''))"

lemma wf_demo_sandbox: "wf_sandbox demo_sandbox"
  unfolding demo_sandbox_def
  by (rule wf_sandbox_add_layer) (simp_all add: wf_new_sandbox eval_simps)

lemma demo_view:
  "resolve_overlay demo_sandbox path =
     (if starts_with path [''data'']
      then ResReal (path_join ''/srv'' (relative_string (drop 1 path))) 1 path
      else if path = [] then ResVirtualDir [] else ResMissing)"
proof -
  have base: "resolve_overlay (new_sandbox ''box'' ''box.log'') q =
    (if q = [] then ResVirtualDir [] else ResMissing)" for q
    by (simp add: resolve_overlay_def newest_covering_layer_def newest_covering_entry_eq covering_def
        newest_descendant_layer_def new_sandbox_def)
  have "starts_with [''data''] path \<longleftrightarrow> path = [] \<or> path = [''data'']"
    by (cases path) (auto simp: starts_with_iff)
  moreover have "wf_overlay (new_sandbox ''box'' ''box.log'')"
    using wf_new_sandbox by (simp add: wf_sandbox_def)
  moreover have "overlay_bound (new_sandbox ''box'' ''box.log'') = 1"
    by (simp add: new_sandbox_def overlay_bound_def)
  ultimately show ?thesis
    unfolding demo_sandbox_def by (auto simp: resolve_overlay_add_layer spec_mount_def base)
qed

definition demo_host :: "unit os" where
  "demo_host = empty_host\<lparr>os_is_dir := (\<lambda>_ _. True),
     os_read_dir := (\<lambda>_ _. Inr [Inr ''doc'', Inr ''key''])\<rparr>"

section \<open>Properties\<close>

text \<open>
  C30: Refinement of mounting and hiding. Mounting gives the new layer its whole subtree and
  makes its ancestors visible directories, hiding removes a whole subtree (the root
  directory itself stays), and no other path changes what it resolves to.
\<close>

theorem overlay_view_refinement:
  assumes "wf_sandbox s"
  shows "resolve_overlay (snd (add_layer local on_fs s)) =
      spec_mount local on_fs (fst (add_layer local on_fs s)) (resolve_overlay s)
    \<and> resolve_overlay (snd (add_hide hidden s)) = spec_hide hidden (resolve_overlay s)"
  using assms
  by (simp add: fun_eq_iff wf_sandbox_def resolve_overlay_add_layer resolve_overlay_add_hide
      add_layer_simps)

theorem overlay_view_refinement_witness:
  "resolve_overlay (snd (add_hide [''data'', ''key''] demo_sandbox)) [''data'', ''key'', ''a''] = ResHidden
   \<and> resolve_overlay (snd (add_hide [''data'', ''key''] demo_sandbox)) [''data'', ''doc''] =
       ResReal ''/srv/doc'' 1 [''data'', ''doc'']"
  using overlay_view_refinement [OF wf_demo_sandbox, of _ _ "[''data'', ''key'']"]
  by (simp add: spec_hide_def demo_view eval_simps)

text \<open>
  C36: Unmounting removes the newest of the layers at the mount point, and unmounting right
  after mounting gives back exactly the view (and the metadata objects) from before.
\<close>

theorem unmount_restores_view:
  assumes "wf_sandbox s"
  shows "resolve_overlay (snd (remove_layer on_fs (snd (add_layer local on_fs s)))) = resolve_overlay s
    \<and> metadata_object_key (snd (remove_layer on_fs (snd (add_layer local on_fs s)))) = metadata_object_key s
    \<and> (fst (remove_layer on_fs s) \<longrightarrow>
        (\<exists>l \<in> set (sb_layers s). ml_on_fs l = on_fs
           \<and> set (sb_layers (snd (remove_layer on_fs s))) = set (sb_layers s) - {l}
           \<and> (\<forall>l' \<in> set (sb_layers s). ml_on_fs l' = on_fs \<longrightarrow> ml_id l' \<le> ml_id l)))"
proof -
  have "wf_overlay s" using assms by (simp add: wf_sandbox_def)
  then show ?thesis
    by (intro conjI impI resolve_overlay_cong metadata_object_key_cong remove_layer_newest)
       (simp_all add: remove_after_add_layer)
qed

theorem unmount_restores_view_witness:
  "resolve_overlay (snd (remove_layer [''data''] (snd (add_layer ''/new'' [''data''] demo_sandbox))))
     [''data'', ''doc''] = ResReal ''/srv/doc'' 1 [''data'', ''doc'']"
  using unmount_restores_view [OF wf_demo_sandbox, of "[''data'']" "''/new''"]
  by (simp add: demo_view eval_simps)

text \<open>
  C37: A directory listing shows a name exactly when the path is visible (not hidden, not
  missing) and the name comes from a mount point below the directory or from the host
  directory that serves it.
\<close>

theorem children_exact:
  assumes "wf_sandbox s" and "wf_path dir" and "children S h s dir = Inr m" and "wf_component c"
  shows "om_get m c \<noteq> None \<longleftrightarrow> resolve s (dir @ [c]) \<noteq> None \<and>
    ((\<exists>l \<in> set (sb_layers s). starts_with (ml_on_fs l) (dir @ [c])) \<or>
     (\<exists>local i p es f. resolve s dir = Some (RealPath local i p) \<and> os_is_dir S h local
        \<and> os_read_dir S h local = Inr es \<and> Inr f \<in> set es \<and> to_string_lossy f = c))"
  using assms by (rule children_get)

theorem children_exact_witness:
  "\<exists>m. children demo_host () demo_sandbox [''data''] = Inr m
     \<and> om_get m ''doc'' \<noteq> None \<and> om_get m ''tmp'' = None"
proof -
  have layers: "sb_layers demo_sandbox = [\<lparr>ml_id = 1, ml_local = ''/srv'', ml_on_fs = [''data'']\<rparr>]"
    by (simp add: demo_sandbox_def add_layer_simps new_sandbox_def overlay_bound_def)
  have host: "os_is_dir demo_host () l" "os_read_dir demo_host () l = Inr [Inr ''doc'', Inr ''key'']" for l
    by (simp_all add: demo_host_def)
  obtain m where m: "children demo_host () demo_sandbox [''data''] = Inr m"
    by (simp add: children_def is_hidden_def resolve_def demo_view layers host is_virtual_dir_def
        eval_simps)
  have wf: "wf_path [''data'']" "wf_component ''doc''" "wf_component ''tmp''" by (simp_all add: eval_simps)
  note at = children_exact [OF wf_demo_sandbox wf(1) m]
  have "om_get m ''doc'' \<noteq> None" "om_get m ''tmp'' = None"
    using at [OF wf(2)] at [OF wf(3)]
    by (auto simp: resolve_def demo_view layers host eval_simps)
  with m show ?thesis by blast
qed

text \<open>
  An applied metadata operation is read back for its path on top of the earlier
  override; overrides of other objects and what paths resolve to do not change.
\<close>

lemma override_read_back:
  assumes "wf_sandbox s" and "apply_metadata_override oper s = Inr s'"
  shows "metadata_override_for_path s' (metadata_path oper) =
      Some (apply_to_override oper
        (case metadata_override_for_path s (metadata_path oper) of Some ov \<Rightarrow> ov | None \<Rightarrow> default_override))
    \<and> (\<forall>q. metadata_object_key s q \<noteq> metadata_object_key s (metadata_path oper) \<longrightarrow>
          metadata_override_for_path s' q = metadata_override_for_path s q)
    \<and> resolve_overlay s' = resolve_overlay s \<and> wf_sandbox s'"
proof -
  from assms(2) obtain key where key: "metadata_object_key s (metadata_path oper) = Some key"
    and app: "apply_metadata_override_to_object key (metadata_path oper) oper s = Inr s'"
    by (cases "metadata_object_key s (metadata_path oper)") (auto simp: apply_metadata_override_def)
  note keeps = apply_to_object_keeps(1,2) [OF app]
  have wf': "wf_sandbox s'" using assms(1) app by (rule wf_sandbox_apply_to_object)
  have lookup: "metadata_override_for_path s' q =
      (case metadata_object_key s q of None \<Rightarrow> None
       | Some k \<Rightarrow> map_option entry_override (om_get (sb_metadata s') k))" for q
    using wf' by (simp add: wf_sandbox_def metadata_override_lookup metadata_object_key_cong [OF keeps])
  have lookup0: "metadata_override_for_path s q =
      (case metadata_object_key s q of None \<Rightarrow> None
       | Some k \<Rightarrow> map_option entry_override (om_get (sb_metadata s) k))" for q
    using assms(1) by (simp add: wf_sandbox_def metadata_override_lookup)
  from apply_to_object_metadata [OF app] wf' key resolve_overlay_cong [OF keeps]
  show ?thesis
    by (auto simp: lookup lookup0 split: option.splits)
qed

text \<open>
  Adding a protection or bypass rule covers exactly the paths its pattern matches in
  addition to those covered before; removing it again leaves what the other rules cover;
  a rule is listed once, and removing a rule just added gives back the table.
\<close>

lemma rule_tables_cover:
  assumes "wf_sandbox s"
  shows "(is_protected G (snd (protect k p s)) k' path d \<longleftrightarrow>
      is_protected G s k' path d \<or> (k' = k \<and> pattern_matches G p path d))
    \<and> (is_protected G (snd (unprotect k p s)) k' path d \<longleftrightarrow>
      (\<exists>q. (k', q) \<in> rule_key ` set (sb_protection_rules s) \<and> (k', q) \<noteq> (k, p) \<and> pattern_matches G q path d))
    \<and> (is_bypass G (snd (add_bypass k p s)) k' path d \<longleftrightarrow>
      is_bypass G s k' path d \<or> (k' = k \<and> pattern_matches G p path d))
    \<and> (is_bypass G (snd (remove_bypass k p s)) k' path d \<longleftrightarrow>
      (\<exists>q. (k', q) \<in> bypass_key ` set (sb_bypass_rules s) \<and> (k', q) \<noteq> (k, p) \<and> pattern_matches G q path d))
    \<and> wf_sandbox (snd (protect k p s)) \<and> wf_sandbox (snd (unprotect k p s))
    \<and> wf_sandbox (snd (add_bypass k p s)) \<and> wf_sandbox (snd (remove_bypass k p s))"
proof -
  have "protection.no_duplicates s" "bypass.no_duplicates s"
    using assms
    by (simp_all add: wf_sandbox_def protection.no_duplicates_def bypass.no_duplicates_def)
  with assms show ?thesis
    by (simp add: protection.covers_add protection.covers_del bypass.covers_add bypass.covers_del
        wf_sandbox_rules)
qed

end
