(* ===== verification/Registry.thy ===== *)
theory Registry
  imports Sandbox
begin

text \<open>
  \<^verbatim>\<open>src/state.rs\<close>, \<^verbatim>\<open>SandboxRegistry\<close>: the sandboxes of a session, the pending metadata and
  read/write requests, the index of the pending metadata keys, the waiters of blocked
  callers, trusted operations and access grants. Shown here: the registry invariant (ids
  are fresh and never shared, the index lists exactly the keys of pending metadata
  requests) is kept by every operation, inserting and removing a request are inverse, and
  grants are pruned, matched and consumed as promised.
\<close>

section \<open>State and operations\<close>

text \<open>A waiter (\<^verbatim>\<open>Arc<(Mutex<Option<PendingDecision>>, Condvar)>\<close>) is the address of its cell.\<close>

type_synonym pending_waiter = nat

record registry =
  rg_sandboxes :: "(string, sandbox) omap"
  rg_pending :: "(nat, pending_metadata_request) omap"
  rg_pending_read_write :: "(nat, pending_read_write_request) omap"
  rg_pending_waiters :: "(nat, pending_waiter) omap"
  rg_pending_index :: "(pending_operation_key, nat) omap"
  rg_trusted :: "(string, trusted_operation) omap"
  rg_read_write_grants :: "(nat, read_write_access_grant) omap"
  rg_next_operation_id :: nat

definition new_registry :: registry where
  "new_registry =
     \<lparr>rg_sandboxes = [], rg_pending = [], rg_pending_read_write = [], rg_pending_waiters = [],
      rg_pending_index = [], rg_trusted = [], rg_read_write_grants = [], rg_next_operation_id = 1\<rparr>"

definition next_operation_id :: "registry \<Rightarrow> nat \<times> registry" where
  "next_operation_id r =
     (rg_next_operation_id r, r\<lparr>rg_next_operation_id := rg_next_operation_id r + 1\<rparr>)"

definition attach_index :: "registry \<Rightarrow> component list set" where
  "attach_index r = set (concat (map (\<lambda>s. om_keys (sb_attaches s)) (om_values (rg_sandboxes r))))"

definition insert_pending_request :: "pending_metadata_request \<Rightarrow> registry \<Rightarrow> registry" where
  "insert_pending_request request r =
     r\<lparr>rg_pending_index := fold (\<lambda>key m. om_insert key (pm_id request) m) (request_keys request) (rg_pending_index r),
       rg_pending := om_insert (pm_id request) request (rg_pending r)\<rparr>"

definition insert_pending_read_write_request :: "pending_read_write_request \<Rightarrow> registry \<Rightarrow> registry" where
  "insert_pending_read_write_request request r =
     r\<lparr>rg_pending_read_write := om_insert (prw_id request) request (rg_pending_read_write r)\<rparr>"

definition drop_index_key :: "nat \<Rightarrow> pending_operation_key \<Rightarrow> (pending_operation_key, nat) omap \<Rightarrow> (pending_operation_key, nat) omap" where
  "drop_index_key i key m = (if om_get m key = Some i then om_remove key m else m)"

definition remove_pending_request :: "nat \<Rightarrow> registry \<Rightarrow> pending_metadata_request option \<times> registry" where
  "remove_pending_request i r =
     (case om_get (rg_pending r) i of
        None \<Rightarrow> (None, r)
      | Some request \<Rightarrow>
          (Some request,
           r\<lparr>rg_pending := om_remove i (rg_pending r),
             rg_pending_index := fold (drop_index_key i) (request_keys request) (rg_pending_index r)\<rparr>))"

definition remove_pending_read_write_request ::
  "nat \<Rightarrow> registry \<Rightarrow> pending_read_write_request option \<times> registry"
where
  "remove_pending_read_write_request i r =
     (om_get (rg_pending_read_write r) i,
      r\<lparr>rg_pending_read_write := om_remove i (rg_pending_read_write r)\<rparr>)"

definition remove_any_pending_request :: "nat \<Rightarrow> registry \<Rightarrow> pending_request option \<times> registry" where
  "remove_any_pending_request i r =
     (case remove_pending_request i r of
        (Some request, r') \<Rightarrow> (Some (PendingMetadata request), r')
      | (None, r') \<Rightarrow>
          (case remove_pending_read_write_request i r' of
             (request, r'') \<Rightarrow> (map_option PendingReadWrite request, r'')))"

fun insert_any_pending_request :: "pending_request \<Rightarrow> registry \<Rightarrow> registry" where
  "insert_any_pending_request (PendingMetadata request) r = insert_pending_request request r"
| "insert_any_pending_request (PendingReadWrite request) r = insert_pending_read_write_request request r"

definition pending_requests_for_sandbox :: "string \<Rightarrow> registry \<Rightarrow> pending_request list" where
  "pending_requests_for_sandbox name r =
     sort_key pending_id
       (map PendingMetadata (filter (\<lambda>q. pm_sandbox q = name) (om_values (rg_pending r)))
        @ map PendingReadWrite (filter (\<lambda>q. prw_sandbox q = name) (om_values (rg_pending_read_write r))))"

definition insert_read_write_grant :: "read_write_access_grant \<Rightarrow> registry \<Rightarrow> registry" where
  "insert_read_write_grant g r =
     r\<lparr>rg_read_write_grants := om_insert (grant_id g) g (rg_read_write_grants r)\<rparr>"

text \<open>Removing a list of grant ids in turn, keeping the grants that were there.\<close>

fun remove_grants :: "nat list \<Rightarrow> registry \<Rightarrow> read_write_access_grant list \<times> registry" where
  "remove_grants [] r = ([], r)"
| "remove_grants (i # ids) r =
     (let found = om_get (rg_read_write_grants r) i;
          (rest, r') = remove_grants ids (r\<lparr>rg_read_write_grants := om_remove i (rg_read_write_grants r)\<rparr>)
      in ((case found of Some g \<Rightarrow> [g] | None \<Rightarrow> []) @ rest, r'))"

definition prune_expired_read_write_grants_for_sandbox ::
  "string \<Rightarrow> system_time \<Rightarrow> registry \<Rightarrow> read_write_access_grant list \<times> registry"
where
  "prune_expired_read_write_grants_for_sandbox sandbox now r =
     remove_grants
       (List.map_filter (\<lambda>(i, g).
          if grant_sandbox g = sandbox \<and> lifetime_is_expired (grant_lifetime_of g) now
          then Some i else None) (rg_read_write_grants r)) r"

definition match_read_write_grant_for_intent ::
  "glob_api \<Rightarrow> string \<Rightarrow> protection_kind \<Rightarrow> sandbox_path \<Rightarrow> process_identity option \<Rightarrow> system_time \<Rightarrow>
   registry \<Rightarrow> grant_match_outcome \<times> registry"
where
  "match_read_write_grant_for_intent G sandbox kind path identity now r =
     (case find (\<lambda>(i, g). matches_intent G g sandbox kind path identity now) (rg_read_write_grants r) of
        None \<Rightarrow> (NotMatched, r)
      | Some (gid, _) \<Rightarrow>
          let consumed = (case map_option grant_lifetime_of (om_get (rg_read_write_grants r) gid) of
                            Some OneShot \<Rightarrow> True | _ \<Rightarrow> False)
          in (Matched gid consumed,
              if consumed then r\<lparr>rg_read_write_grants := om_remove gid (rg_read_write_grants r)\<rparr> else r))"

definition matching_pending_read_write_ids_for_grant ::
  "glob_api \<Rightarrow> read_write_access_grant \<Rightarrow> system_time \<Rightarrow> registry \<Rightarrow> nat list"
where
  "matching_pending_read_write_ids_for_grant G g now r =
     map prw_id (filter (\<lambda>q. matches_request G g q now) (om_values (rg_pending_read_write r)))"

section \<open>The invariant\<close>

definition request_ids :: "registry \<Rightarrow> nat set" where
  "request_ids r = set (om_keys (rg_pending r)) \<union> set (om_keys (rg_pending_read_write r))"

definition used_ids :: "registry \<Rightarrow> nat set" where
  "used_ids r = request_ids r \<union> set (om_keys (rg_read_write_grants r)) \<union> tr_id ` set (om_values (rg_trusted r))"

definition index_exact :: "registry \<Rightarrow> bool" where
  "index_exact r \<longleftrightarrow>
     (\<forall>key i. om_get (rg_pending_index r) key = Some i \<longleftrightarrow>
        (\<exists>q. om_get (rg_pending r) i = Some q \<and> key \<in> set (request_keys q)))"

definition wf_maps :: "registry \<Rightarrow> bool" where
  "wf_maps r \<longleftrightarrow>
     om_wf (rg_sandboxes r) \<and> om_wf (rg_pending r) \<and> om_wf (rg_pending_read_write r)
     \<and> om_wf (rg_pending_waiters r) \<and> om_wf (rg_pending_index r) \<and> om_wf (rg_trusted r)
     \<and> om_wf (rg_read_write_grants r)"

definition wf_registry :: "registry \<Rightarrow> bool" where
  "wf_registry r \<longleftrightarrow>
     wf_maps r \<and> index_exact r
     \<and> (\<forall>i q. om_get (rg_pending r) i = Some q \<longrightarrow> pm_id q = i)
     \<and> (\<forall>i q. om_get (rg_pending_read_write r) i = Some q \<longrightarrow> prw_id q = i)
     \<and> (\<forall>i g. om_get (rg_read_write_grants r) i = Some g \<longrightarrow> grant_id g = i)
     \<and> (\<forall>i. om_get (rg_pending r) i = None \<or> om_get (rg_pending_read_write r) i = None)
     \<and> (\<forall>i \<in> used_ids r. i < rg_next_operation_id r)
     \<and> (\<forall>n s. om_get (rg_sandboxes r) n = Some s \<longrightarrow> wf_sandbox s)"

interpretation operation_ids: id_supply rg_next_operation_id used_ids next_operation_id
  by unfold_locales (auto simp: next_operation_id_def used_ids_def request_ids_def)

section \<open>The request store contract\<close>

text \<open>
  Clients take a request out, and put it back when they cannot go on. The contract says
  that taking an absent request changes nothing, that a taken request is gone and all
  others stay, and that putting it back restores the store.
\<close>

locale request_store =
  fixes ok :: "'s \<Rightarrow> bool"
    and get :: "'s \<Rightarrow> nat \<Rightarrow> 'q option"
    and take_out :: "nat \<Rightarrow> 's \<Rightarrow> 'q option \<times> 's"
    and put_in :: "'q \<Rightarrow> 's \<Rightarrow> 's"
  assumes take_absent: "ok s \<Longrightarrow> get s i = None \<Longrightarrow> take_out i s = (None, s)"
    and take_present: "ok s \<Longrightarrow> fst (take_out i s) = get s i"
    and take_get: "ok s \<Longrightarrow> get (snd (take_out i s)) = (get s)(i := None)"
    and take_ok: "ok s \<Longrightarrow> ok (snd (take_out i s))"
    and put_back: "ok s \<Longrightarrow> get s i = Some q \<Longrightarrow> put_in q (snd (take_out i s)) = s"
begin

lemma take_twice: "ok s \<Longrightarrow> take_out i (snd (take_out i s)) = (None, snd (take_out i s))"
  by (rule take_absent) (simp_all add: take_ok take_get)

lemma take_other: "ok s \<Longrightarrow> i \<noteq> j \<Longrightarrow> fst (take_out j (snd (take_out i s))) = get s j"
  by (simp add: take_present take_ok take_get)

text \<open>A failed step that put the request back has not changed the store.\<close>

lemma take_put_back: "ok s \<Longrightarrow> take_out i s = (Some q, s') \<Longrightarrow> put_in q s' = s"
  by (metis fst_conv put_back snd_conv take_present)

end

section \<open>Index lookups\<close>

lemma fold_insert_get [omap_simps]:
  "om_get (fold (\<lambda>key m. om_insert key i m) ks m) key = (if key \<in> set ks then Some i else om_get m key)"
  by (induction ks arbitrary: m) auto

lemma fold_insert_wf [omap_simps]: "om_wf m \<Longrightarrow> om_wf (fold (\<lambda>key m. om_insert key i m) ks m)"
  by (induction ks arbitrary: m) auto

lemma fold_drop_get [omap_simps]:
  "om_get (fold (drop_index_key i) ks m) key =
     (if key \<in> set ks \<and> om_get m key = Some i then None else om_get m key)"
  by (induction ks arbitrary: m) (auto simp: drop_index_key_def)

lemma fold_drop_wf [omap_simps]: "om_wf m \<Longrightarrow> om_wf (fold (drop_index_key i) ks m)"
  by (induction ks arbitrary: m) (auto simp: drop_index_key_def)

lemma om_keys_dom: "set (om_keys m) = {k. om_get m k \<noteq> None}"
  by (auto simp: om_keys_iff)

lemmas registry_defs = insert_pending_request_def insert_pending_read_write_request_def
  remove_pending_request_def remove_pending_read_write_request_def remove_any_pending_request_def

section \<open>Preservation\<close>

lemma wf_registryD:
  assumes "wf_registry r"
  shows "wf_maps r" "index_exact r"
    "om_get (rg_pending r) i = Some q \<Longrightarrow> pm_id q = i"
    "om_get (rg_pending_read_write r) i = Some q' \<Longrightarrow> prw_id q' = i"
    "om_get (rg_pending r) i = None \<or> om_get (rg_pending_read_write r) i = None"
    "i \<in> used_ids r \<Longrightarrow> i < rg_next_operation_id r"
    "om_get (rg_sandboxes r) n = Some s \<Longrightarrow> wf_sandbox s"
  using assms by (auto simp: wf_registry_def)

lemma wf_new_registry: "wf_registry new_registry"
  by (simp add: wf_registry_def wf_maps_def index_exact_def used_ids_def request_ids_def
      new_registry_def om_keys_def om_values_def)

lemma wf_next_operation_id: "wf_registry r \<Longrightarrow> wf_registry (snd (next_operation_id r))"
  by (auto simp: wf_registry_def wf_maps_def index_exact_def next_operation_id_def used_ids_def
      request_ids_def less_Suc_eq)

text \<open>A request may enter the store when its id is new but already handed out, and no
  pending request holds one of its keys.\<close>

fun admissible :: "pending_request \<Rightarrow> registry \<Rightarrow> bool" where
  "admissible (PendingMetadata q) r \<longleftrightarrow>
     pm_id q \<notin> request_ids r \<and> pm_id q < rg_next_operation_id r
     \<and> (\<forall>key \<in> set (request_keys q). om_get (rg_pending_index r) key = None)"
| "admissible (PendingReadWrite q) r \<longleftrightarrow>
     prw_id q \<notin> request_ids r \<and> prw_id q < rg_next_operation_id r"

lemma index_exact_insert:
  assumes "index_exact r" and "admissible (PendingMetadata q) r"
  shows "index_exact (insert_pending_request q r)"
proof -
  have none: "om_get (rg_pending r) (pm_id q) = None"
    using assms(2) by (auto simp: request_ids_def om_keys_dom)
  have free: "om_get (rg_pending_index r) key = None" if "key \<in> set (request_keys q)" for key
    using assms(2) that by simp
  have old: "om_get (rg_pending_index r) key = Some i \<longleftrightarrow>
      (\<exists>p. om_get (rg_pending r) i = Some p \<and> key \<in> set (request_keys p))" for key i
    using assms(1) by (simp add: index_exact_def)
  show ?thesis
    unfolding index_exact_def insert_pending_request_def
    using none free old by (auto simp: omap_simps) (metis option.distinct(1))+
qed

lemma index_exact_remove:
  assumes "index_exact r"
  shows "index_exact (snd (remove_pending_request i r))"
proof (cases "om_get (rg_pending r) i")
  case None
  then show ?thesis using assms by (simp add: remove_pending_request_def)
next
  case (Some q)
  have old: "om_get (rg_pending_index r) key = Some j \<longleftrightarrow>
      (\<exists>p. om_get (rg_pending r) j = Some p \<and> key \<in> set (request_keys p))" for key j
    using assms by (simp add: index_exact_def)
  show ?thesis
    unfolding index_exact_def remove_pending_request_def
    using Some old by (auto simp: omap_simps) (metis option.inject)
qed

lemma wf_insert_any:
  assumes "wf_registry r" and "admissible q r"
  shows "wf_registry (insert_any_pending_request q r)"
proof (cases q)
  case (PendingMetadata p)
  with assms have "index_exact (insert_pending_request p r)"
    by (intro index_exact_insert) (simp_all add: wf_registry_def)
  with assms PendingMetadata show ?thesis
    by (auto simp: wf_registry_def wf_maps_def insert_pending_request_def omap_simps used_ids_def
        request_ids_def om_keys_dom)
next
  case (PendingReadWrite p)
  with assms show ?thesis
    by (auto simp: wf_registry_def wf_maps_def insert_pending_read_write_request_def omap_simps
        used_ids_def request_ids_def om_keys_dom index_exact_def)
qed

lemma wf_remove_pending_request:
  assumes "wf_registry r"
  shows "wf_registry (snd (remove_pending_request i r))"
proof -
  have "index_exact (snd (remove_pending_request i r))"
    using assms by (simp add: index_exact_remove wf_registry_def)
  with assms show ?thesis
    by (auto simp: wf_registry_def wf_maps_def remove_pending_request_def omap_simps used_ids_def
        request_ids_def om_keys_dom split: option.splits)
qed

lemma wf_remove_pending_read_write_request:
  "wf_registry r \<Longrightarrow> wf_registry (snd (remove_pending_read_write_request i r))"
  by (auto simp: wf_registry_def wf_maps_def remove_pending_read_write_request_def omap_simps
      used_ids_def request_ids_def om_keys_dom index_exact_def)

text \<open>Putting a removed metadata request back restores the index.\<close>

lemma insert_after_remove_pending:
  assumes "wf_registry r" and q: "om_get (rg_pending r) i = Some q"
  shows "insert_pending_request q (snd (remove_pending_request i r)) = r"
proof -
  have wf: "om_wf (rg_pending r)" "om_wf (rg_pending_index r)"
    and id: "pm_id q = i" and ix: "\<And>key. key \<in> set (request_keys q) \<Longrightarrow> om_get (rg_pending_index r) key = Some i"
    using assms by (auto simp: wf_registry_def wf_maps_def index_exact_def)
  have "fold (\<lambda>key m. om_insert key i m) (request_keys q)
      (fold (drop_index_key i) (request_keys q) (rg_pending_index r)) = rg_pending_index r"
    by (rule omap.maps_equal_if_lookups_equal) (auto simp: omap_simps wf ix)
  with wf q id show ?thesis
    by (simp add: insert_pending_request_def remove_pending_request_def omap.put_after_drop)
qed

lemma insert_after_remove_read_write:
  assumes "wf_registry r" and "om_get (rg_pending_read_write r) i = Some q"
  shows "insert_pending_read_write_request q (snd (remove_pending_read_write_request i r)) = r"
  using assms
  by (auto simp: wf_registry_def wf_maps_def insert_pending_read_write_request_def
      remove_pending_read_write_request_def omap.put_after_drop)

definition get_any_pending :: "registry \<Rightarrow> nat \<Rightarrow> pending_request option" where
  "get_any_pending r i =
     (case om_get (rg_pending r) i of
        Some q \<Rightarrow> Some (PendingMetadata q)
      | None \<Rightarrow> map_option PendingReadWrite (om_get (rg_pending_read_write r) i))"

lemma remove_pending_request_absent:
  "om_get (rg_pending r) i = None \<Longrightarrow> remove_pending_request i r = (None, r)"
  by (simp add: remove_pending_request_def)

lemma remove_read_write_absent:
  "wf_registry r \<Longrightarrow> om_get (rg_pending_read_write r) i = None \<Longrightarrow>
   remove_pending_read_write_request i r = (None, r)"
  by (simp add: remove_pending_read_write_request_def omap.drop_absent wf_registry_def wf_maps_def)

lemma remove_any_cases:
  assumes "wf_registry r"
  shows "remove_any_pending_request i r =
    (case om_get (rg_pending r) i of
       Some q \<Rightarrow> (Some (PendingMetadata q), snd (remove_pending_request i r))
     | None \<Rightarrow> (map_option PendingReadWrite (om_get (rg_pending_read_write r) i),
                snd (remove_pending_read_write_request i r)))"
  by (auto simp: remove_any_pending_request_def remove_pending_request_def
      remove_pending_read_write_request_def split: option.splits)

interpretation metadata_store: request_store wf_registry "\<lambda>r. om_get (rg_pending r)"
  remove_pending_request insert_pending_request
proof unfold_locales
  fix r i
  show "fst (remove_pending_request i r) = om_get (rg_pending r) i"
    by (simp add: remove_pending_request_def split: option.splits)
  show "om_get (rg_pending (snd (remove_pending_request i r))) = (om_get (rg_pending r))(i := None)"
    by (auto simp: remove_pending_request_def split: option.splits)
qed (simp_all add: remove_pending_request_absent wf_remove_pending_request insert_after_remove_pending)

interpretation read_write_store: request_store wf_registry "\<lambda>r. om_get (rg_pending_read_write r)"
  remove_pending_read_write_request insert_pending_read_write_request
  by unfold_locales
     (simp_all add: remove_read_write_absent wf_remove_pending_read_write_request
        insert_after_remove_read_write,
      auto simp: remove_pending_read_write_request_def fun_eq_iff)

lemma get_any_remove:
  assumes "wf_registry r"
  shows "get_any_pending (snd (remove_any_pending_request i r)) = (get_any_pending r)(i := None)"
proof -
  have "om_get (rg_pending r) i = None \<or> om_get (rg_pending_read_write r) i = None"
    using assms by (rule wf_registryD)
  with assms show ?thesis
    by (auto simp: fun_eq_iff remove_any_cases get_any_pending_def remove_pending_request_def
        remove_pending_read_write_request_def split: option.splits)
qed

lemma get_any_pending_id: "wf_registry r \<Longrightarrow> get_any_pending r i = Some q \<Longrightarrow> pending_id q = i"
  by (cases "om_get (rg_pending r) i"; cases "om_get (rg_pending_read_write r) i")
     (auto simp: get_any_pending_def wf_registryD)

interpretation any_store: request_store wf_registry get_any_pending
  remove_any_pending_request insert_any_pending_request
proof unfold_locales
  fix r i q
  assume wf: "wf_registry r"
  show "fst (remove_any_pending_request i r) = get_any_pending r i"
    using wf by (auto simp: remove_any_cases get_any_pending_def split: option.splits)
  show "get_any_pending (snd (remove_any_pending_request i r)) = (get_any_pending r)(i := None)"
    using wf by (rule get_any_remove)
  show "wf_registry (snd (remove_any_pending_request i r))"
    using wf wf_remove_pending_request wf_remove_pending_read_write_request
    by (auto simp: remove_any_cases split: option.splits)
  show "remove_any_pending_request i r = (None, r)" if "get_any_pending r i = None"
    using wf that
    by (auto simp: remove_any_cases get_any_pending_def read_write_store.take_absent split: option.splits)
  show "insert_any_pending_request q (snd (remove_any_pending_request i r)) = r"
    if "get_any_pending r i = Some q"
    using wf that metadata_store.put_back read_write_store.put_back
    by (auto simp: remove_any_cases get_any_pending_def split: option.splits)
qed

section \<open>Grants\<close>

lemma remove_grants_state:
  "snd (remove_grants ids r) =
     r\<lparr>rg_read_write_grants := filter (\<lambda>e. fst e \<notin> set ids) (rg_read_write_grants r)\<rparr>"
proof (induction ids arbitrary: r)
  case Nil
  then show ?case by simp
next
  case (Cons i ids)
  then show ?case
    by (auto simp: split_beta om_remove_def conj_commute intro!: registry.equality filter_cong)
qed

lemma remove_grants_list:
  "set (fst (remove_grants ids r)) = {g. \<exists>i \<in> set ids. om_get (rg_read_write_grants r) i = Some g}"
proof (induction ids arbitrary: r)
  case Nil
  then show ?case by simp
next
  case (Cons i ids)
  show ?case
    by (cases "om_get (rg_read_write_grants r) i")
       (auto simp: split_beta Cons.IH split: if_splits, (metis option.inject option.distinct(1))+)
qed

lemma om_get_filter:
  "om_wf m \<Longrightarrow> om_get (filter p m) k =
     (case om_get m k of Some v \<Rightarrow> if p (k, v) then Some v else None | None \<Rightarrow> None)"
proof (induction m)
  case Nil
  then show ?case by simp
next
  case (Cons e m)
  then have "om_wf m" "om_get m (fst e) = None" by (auto simp: om_wf_def map_of_eq_None_iff)
  with Cons.IH show ?case by (cases e) auto
qed

definition grant_expired :: "string \<Rightarrow> system_time \<Rightarrow> read_write_access_grant \<Rightarrow> bool" where
  "grant_expired sandbox now g \<longleftrightarrow>
     grant_sandbox g = sandbox \<and> lifetime_is_expired (grant_lifetime_of g) now"

lemma expired_ids:
  "set (List.map_filter (\<lambda>(i, g).
      if grant_sandbox g = sandbox \<and> lifetime_is_expired (grant_lifetime_of g) now then Some i else None) m) =
   fst ` {x \<in> set m. grant_expired sandbox now (snd x)}"
  by (induction m) (auto simp: List.map_filter_simps grant_expired_def image_iff split: if_splits)

lemma expired_grants:
  assumes "om_wf m"
  shows "{g. \<exists>i \<in> fst ` {x \<in> set m. grant_expired sandbox now (snd x)}. om_get m i = Some g} =
    {g \<in> set (om_values m). grant_expired sandbox now g}"
proof -
  have "g = g'" if "(i, g) \<in> set m" "om_get m i = Some g'" for i g g'
    using that omap.get_iff_entry [OF assms, of i g] by simp
  moreover have "om_get m i = Some g" if "(i, g) \<in> set m" for i g
    using that omap.get_iff_entry [OF assms] by simp
  ultimately show ?thesis by (auto simp: om_values_def) (force, blast)
qed

lemma prune_list:
  "fst (prune_expired_read_write_grants_for_sandbox sandbox now r) =
     fst (remove_grants (List.map_filter (\<lambda>(i, g).
      if grant_sandbox g = sandbox \<and> lifetime_is_expired (grant_lifetime_of g) now then Some i else None)
      (rg_read_write_grants r)) r)"
  by (simp only: prune_expired_read_write_grants_for_sandbox_def)

lemma prune_state:
  assumes "om_wf (rg_read_write_grants r)"
  shows "snd (prune_expired_read_write_grants_for_sandbox sandbox now r) =
    r\<lparr>rg_read_write_grants := filter (\<lambda>e. \<not> grant_expired sandbox now (snd e)) (rg_read_write_grants r)\<rparr>"
proof -
  let ?m = "rg_read_write_grants r"
  have "fst e \<notin> fst ` {x \<in> set ?m. grant_expired sandbox now (snd x)} \<longleftrightarrow> \<not> grant_expired sandbox now (snd e)"
    if "e \<in> set ?m" for e
    using that omap.entries_distinct [OF assms]
      inj_on_image_mem_iff [of fst "set ?m" e "{x \<in> set ?m. grant_expired sandbox now (snd x)}"]
    by (auto simp: distinct_map)
  then have "filter (\<lambda>e. fst e \<notin> fst ` {x \<in> set ?m. grant_expired sandbox now (snd x)}) ?m =
      filter (\<lambda>e. \<not> grant_expired sandbox now (snd e)) ?m"
    by (intro filter_cong) (rule refl)
  then show ?thesis
    unfolding prune_expired_read_write_grants_for_sandbox_def remove_grants_state expired_ids by simp
qed

lemma match_grant_cases:
  assumes "om_wf (rg_read_write_grants r)"
  shows "(\<exists>gid g. om_get (rg_read_write_grants r) gid = Some g
       \<and> matches_intent G g sandbox kind path identity now
       \<and> (\<forall>j g'. om_get (rg_read_write_grants r) j = Some g' \<longrightarrow>
              matches_intent G g' sandbox kind path identity now \<longrightarrow> gid \<le> j)
       \<and> match_read_write_grant_for_intent G sandbox kind path identity now r =
           (Matched gid (grant_lifetime_of g = OneShot),
            if grant_lifetime_of g = OneShot
            then r\<lparr>rg_read_write_grants := om_remove gid (rg_read_write_grants r)\<rparr> else r))
     \<or> ((\<forall>j g'. om_get (rg_read_write_grants r) j = Some g' \<longrightarrow>
              \<not> matches_intent G g' sandbox kind path identity now)
       \<and> match_read_write_grant_for_intent G sandbox kind path identity now r = (NotMatched, r))"
proof -
  let ?m = "rg_read_write_grants r"
  let ?P = "\<lambda>(i, g). matches_intent G g sandbox kind path identity now"
  show ?thesis
  proof (cases "find ?P ?m")
    case None
    then have "\<forall>j g'. om_get ?m j = Some g' \<longrightarrow> \<not> matches_intent G g' sandbox kind path identity now"
      by (auto simp: find_None_iff dest: map_of_SomeD)
    with None show ?thesis by (simp add: match_read_write_grant_for_intent_def)
  next
    case (Some e)
    obtain gid g where e: "e = (gid, g)" by fastforce
    from Some obtain n where n: "n < length ?m" "?m ! n = (gid, g)" "?P (gid, g)"
      and before: "\<forall>k < n. \<not> ?P (?m ! k)" by (auto simp: find_Some_iff e)
    then have get: "om_get ?m gid = Some g"
      using omap.get_iff_entry [OF assms] by (metis nth_mem)
    have "gid \<le> j" if "om_get ?m j = Some g'" "matches_intent G g' sandbox kind path identity now" for j g'
    proof -
      from that(1) obtain k where k: "k < length ?m" "?m ! k = (j, g')"
        by (metis in_set_conv_nth map_of_SomeD)
      with before that(2) have "n \<le> k" by (metis case_prod_conv not_le)
      with k n assms show ?thesis
        using sorted_wrt_nth_less [of "(<)" "map fst ?m" n k] by (cases "n = k") (auto simp: om_wf_def)
    qed
    with Some e get n show ?thesis
      by (intro disjI1 exI [of _ gid] exI [of _ g])
         (auto simp: match_read_write_grant_for_intent_def split: grant_lifetime.splits)
  qed
qed

section \<open>A small registry for evaluation\<close>

definition demo_requester :: requester_identity where
  "demo_requester = \<lparr>req_pid = 42, req_uid = 1000, req_gid = 1000\<rparr>"

definition demo_request :: pending_read_write_request where
  "demo_request = new_with_attach_path 3 ''box'' None (WriteFile [''data'', ''doc'']) [''data'', ''doc''] demo_requester"

definition demo_grant :: read_write_access_grant where
  "demo_grant = \<lparr>grant_id = 2, grant_sandbox = ''box'', grant_kind = Write,
     grant_path_pattern = [''data'', ''doc''], grant_subject_of = Exact (ProcessIdentity 42 7),
     grant_lifetime_of = OneShot, grant_created_at = 0\<rparr>"

definition demo_registry :: registry where
  "demo_registry = new_registry\<lparr>rg_next_operation_id := 5, rg_sandboxes := [(''box'', demo_sandbox)],
     rg_pending_read_write := [(3, demo_request)], rg_read_write_grants := [(2, demo_grant)]\<rparr>"

lemma wf_demo_registry: "wf_registry demo_registry"
  by (simp add: wf_registry_def wf_maps_def index_exact_def used_ids_def request_ids_def om_wf_def
      demo_registry_def new_registry_def om_keys_def om_values_def demo_request_def demo_grant_def
      new_with_attach_path_def wf_demo_sandbox)

section \<open>Properties\<close>

text \<open>
  The registry invariant is kept when a request with a fresh id and free keys is
  inserted and when any request is removed; the index then names the request for exactly
  its own keys.
\<close>

lemma registry_requests_invariant:
  assumes "wf_registry r" and "admissible q r"
  shows "wf_registry (insert_any_pending_request q r)
    \<and> wf_registry (snd (remove_any_pending_request i r))
    \<and> get_any_pending (insert_any_pending_request q r) (pending_id q) = Some q
    \<and> (\<forall>p key. q = PendingMetadata p \<longrightarrow>
         (om_get (rg_pending_index (insert_any_pending_request q r)) key = Some (pm_id p)
            \<longleftrightarrow> key \<in> set (request_keys p)))"
proof -
  have wf': "wf_registry (insert_any_pending_request q r)" using assms by (rule wf_insert_any)
  have get: "get_any_pending (insert_any_pending_request q r) (pending_id q) = Some q"
    using assms(2)
    by (cases q) (auto simp: get_any_pending_def registry_defs request_ids_def om_keys_dom)
  have "om_get (rg_pending_index (insert_any_pending_request q r)) key = Some (pm_id p)
      \<longleftrightarrow> key \<in> set (request_keys p)" if "q = PendingMetadata p" for p key
    using wf_registryD(2) [OF wf'] that
    by (auto simp: index_exact_def insert_pending_request_def)
  with wf' get any_store.take_ok [OF assms(1)] show ?thesis by blast
qed

text \<open>
  Taking a pending request out removes it and no other request, taking it again finds
  nothing, and putting it back restores the registry exactly.
\<close>

lemma take_request_and_put_back:
  assumes "wf_registry r" and "remove_any_pending_request i r = (Some q, r')"
  shows "insert_any_pending_request q r' = r
    \<and> get_any_pending r' = (get_any_pending r)(i := None)
    \<and> remove_any_pending_request i r' = (None, r') \<and> pending_id q = i"
proof -
  have "pending_id q = i"
    using assms any_store.take_present [OF assms(1), of i] by (intro get_any_pending_id) auto
  with any_store.take_put_back [OF assms] any_store.take_get [OF assms(1), of i]
    any_store.take_twice [OF assms(1), of i] assms(2)
  show ?thesis by simp
qed

text \<open>
  C29: A grant is used for an intent exactly when one matches it; the oldest matching grant
  is taken, a one-shot grant is removed by the use and so can not be used again, and a
  reusable grant and every other grant stay.
\<close>

theorem grant_match_consumes_one_shot:
  assumes "wf_registry r"
    and "match_read_write_grant_for_intent G sandbox kind path identity now r = (outcome, r')"
  shows "case outcome of
      NotMatched \<Rightarrow> r' = r \<and> (\<forall>i g. om_get (rg_read_write_grants r) i = Some g \<longrightarrow>
        \<not> matches_intent G g sandbox kind path identity now)
    | Matched gid consumed \<Rightarrow> (\<exists>g. om_get (rg_read_write_grants r) gid = Some g
        \<and> matches_intent G g sandbox kind path identity now
        \<and> (\<forall>i g'. om_get (rg_read_write_grants r) i = Some g' \<longrightarrow>
             matches_intent G g' sandbox kind path identity now \<longrightarrow> gid \<le> i)
        \<and> consumed = (grant_lifetime_of g = OneShot)
        \<and> om_get (rg_read_write_grants r') =
            (if consumed then (om_get (rg_read_write_grants r))(gid := None) else om_get (rg_read_write_grants r)))"
proof -
  have "om_wf (rg_read_write_grants r)" using assms(1) by (simp add: wf_registry_def wf_maps_def)
  from match_grant_cases [OF this, of G sandbox kind path identity now] assms(2) show ?thesis
    by (elim disjE exE conjE) (auto split: if_splits)
qed

theorem grant_match_consumes_one_shot_witness:
  "\<exists>r'. match_read_write_grant_for_intent simple_glob ''box'' Write [''data'', ''doc'']
      (Some (ProcessIdentity 42 7)) unix_epoch demo_registry = (Matched 2 True, r')
     \<and> om_get (rg_read_write_grants r') 2 = None"
proof -
  have "matches_intent simple_glob demo_grant ''box'' Write [''data'', ''doc'']
      (Some (ProcessIdentity 42 7)) unix_epoch"
    by (simp add: matches_intent_def demo_grant_def grant_pattern_matches_def pattern_of_path_def
        simple_glob_def eval_simps)
  then obtain r' where r': "match_read_write_grant_for_intent simple_glob ''box'' Write [''data'', ''doc'']
      (Some (ProcessIdentity 42 7)) unix_epoch demo_registry = (Matched 2 True, r')"
    by (simp add: match_read_write_grant_for_intent_def demo_registry_def)
       (simp add: demo_grant_def)
  from grant_match_consumes_one_shot [OF wf_demo_registry r'] r' show ?thesis by auto
qed

text \<open>
  Pruning removes and reports exactly the grants of the sandbox that have expired.
\<close>

lemma prune_removes_expired:
  assumes "wf_registry r"
    and "prune_expired_read_write_grants_for_sandbox sandbox now r = (pruned, r')"
  shows "om_get (rg_read_write_grants r') i =
      (case om_get (rg_read_write_grants r) i of
         Some g \<Rightarrow> if grant_expired sandbox now g then None else Some g | None \<Rightarrow> None)
    \<and> set pruned = {g \<in> set (om_values (rg_read_write_grants r)). grant_expired sandbox now g}
    \<and> rg_pending r' = rg_pending r \<and> rg_pending_read_write r' = rg_pending_read_write r"
proof -
  have wf: "om_wf (rg_read_write_grants r)" using assms(1) by (simp add: wf_registry_def wf_maps_def)
  from prune_state [OF wf, of sandbox now] assms(2)
  have r': "r' = r\<lparr>rg_read_write_grants :=
      filter (\<lambda>e. \<not> grant_expired sandbox now (snd e)) (rg_read_write_grants r)\<rparr>" by simp
  have "set pruned = {g \<in> set (om_values (rg_read_write_grants r)). grant_expired sandbox now g}"
    using prune_list [of sandbox now r] assms(2)
    by (simp only: fst_conv remove_grants_list expired_ids expired_grants [OF wf])
  then show ?thesis
    using wf by (auto simp: r' om_get_filter split: option.splits)
qed

end
