(* ===== verification/Attr.thy ===== *)
theory Attr
  imports Sandbox
begin

text \<open>
  File attributes: inode numbers, kinds, virtual directories and overrides of
  \<^verbatim>\<open>src/state.rs\<close>, and the attribute, access and inode-flag helpers of \<^verbatim>\<open>src/fs.rs\<close>. Shown
  here: inode numbers of paths below the root never collide with the root's and never wrap,
  the two encodings of inode flags are inverse to each other on the supported flags, and
  an override replaces exactly the fields it sets.
\<close>

unbundle bit_operations_syntax

section \<open>Attributes\<close>

datatype file_type =
  NamedPipe | CharDevice | BlockDevice | Directory | RegularFile | SymlinkFile | Socket

record file_attr =
  fa_ino :: u64
  fa_size :: u64
  fa_blocks :: u64
  fa_atime :: system_time
  fa_mtime :: system_time
  fa_ctime :: system_time
  fa_crtime :: system_time
  fa_kind :: file_type
  fa_perm :: u16
  fa_nlink :: u32
  fa_uid :: u32
  fa_gid :: u32
  fa_rdev :: u32
  fa_blksize :: u32
  fa_flags :: u32

abbreviation ROOT_INO :: u64 where "ROOT_INO \<equiv> 1"
abbreviation FIRST_DYNAMIC_INO :: u64 where "FIRST_DYNAMIC_INO \<equiv> 2"
abbreviation VIRTUAL_DIR_MODE :: u16 where "VIRTUAL_DIR_MODE \<equiv> 0x16D"
abbreviation FS_IMMUTABLE_FL :: u32 where "FS_IMMUTABLE_FL \<equiv> 0x10"

text \<open>The FNV-1a hash of the path text, cut to 52 bits.\<close>

definition fnv1a :: "string \<Rightarrow> u64" where
  "fnv1a s = foldl (\<lambda>hash b. (hash XOR of_char b) * 0x100000001b3) 0xcbf29ce484222325 s"

definition stable_ino :: "sandbox_path \<Rightarrow> u64" where
  "stable_ino path =
     (if path = [] then ROOT_INO
      else FIRST_DYNAMIC_INO + (fnv1a (as_str path) AND 0x000fffffffffffff))"

definition mode_to_kind :: "u32 \<Rightarrow> host_metadata \<Rightarrow> file_type" where
  "mode_to_kind mode meta =
     (if hm_is_dir meta then Directory
      else if hm_is_symlink meta then SymlinkFile
      else if hm_is_file meta then RegularFile
      else
        let fmt = mode AND 0xF000 in
        if fmt = 0x4000 then Directory
        else if fmt = 0xA000 then SymlinkFile
        else if fmt = 0x8000 then RegularFile
        else if fmt = 0x1000 then NamedPipe
        else if fmt = 0xC000 then Socket
        else if fmt = 0x2000 then CharDevice
        else if fmt = 0x6000 then BlockDevice
        else RegularFile)"

definition virtual_dir_attr :: "'h os \<Rightarrow> sandbox_path \<Rightarrow> file_attr" where
  "virtual_dir_attr S path =
     \<lparr>fa_ino = stable_ino path, fa_size = 0, fa_blocks = 0, fa_atime = unix_epoch,
      fa_mtime = unix_epoch, fa_ctime = unix_epoch, fa_crtime = unix_epoch, fa_kind = Directory,
      fa_perm = VIRTUAL_DIR_MODE, fa_nlink = 2, fa_uid = os_geteuid S, fa_gid = os_getegid S,
      fa_rdev = 0, fa_blksize = 4096, fa_flags = FS_IMMUTABLE_FL\<rparr>"

definition or_else :: "'a option \<Rightarrow> 'a \<Rightarrow> 'a" where
  "or_else x d = (case x of Some v \<Rightarrow> v | None \<Rightarrow> d)"

definition apply_override :: "file_attr \<Rightarrow> metadata_override option \<Rightarrow> file_attr" where
  "apply_override attr over =
     (case over of
        None \<Rightarrow> attr
      | Some ov \<Rightarrow>
          attr\<lparr>fa_perm := or_else (ov_mode ov) (fa_perm attr),
               fa_uid := or_else (ov_uid ov) (fa_uid attr),
               fa_gid := or_else (ov_gid ov) (fa_gid attr),
               fa_flags := or_else (ov_flags ov) (fa_flags attr),
               fa_atime := or_else (ov_atime ov) (fa_atime attr),
               fa_mtime := or_else (ov_mtime ov) (fa_mtime attr)\<rparr>)"

definition real_attr :: "'h os \<Rightarrow> 'h \<Rightarrow> sandbox_path \<Rightarrow> string \<Rightarrow> io_error + file_attr" where
  "real_attr S h path local =
     result_bind (os_symlink_metadata S h local) (\<lambda>meta.
       let mode = hm_mode meta in
       Inr \<lparr>fa_ino = stable_ino path, fa_size = hm_size meta, fa_blocks = hm_blocks meta,
            fa_atime = system_time_of (hm_atime meta) (hm_atime_nsec meta),
            fa_mtime = system_time_of (hm_mtime meta) (hm_mtime_nsec meta),
            fa_ctime = system_time_of (hm_ctime meta) (hm_ctime_nsec meta),
            fa_crtime = unix_epoch, fa_kind = mode_to_kind mode meta,
            fa_perm = ucast (mode AND 0xFFF), fa_nlink = ucast (hm_nlink meta),
            fa_uid = hm_uid meta, fa_gid = hm_gid meta, fa_rdev = ucast (hm_rdev meta),
            fa_blksize = ucast (hm_blksize meta), fa_flags = 0\<rparr>)"

section \<open>Access checks\<close>

text \<open>\<^verbatim>\<open>fuser::AccessFlags\<close> is the mask of \<^verbatim>\<open>access(2)\<close>: \<^verbatim>\<open>R_OK\<close> 4, \<^verbatim>\<open>W_OK\<close> 2, \<^verbatim>\<open>X_OK\<close> 1.\<close>

definition access_shift :: "file_attr \<Rightarrow> u32 \<Rightarrow> u32 \<Rightarrow> nat" where
  "access_shift attr uid gid =
     (if uid = 0 \<or> uid = fa_uid attr then 6 else if gid = fa_gid attr then 3 else 0)"

definition check_access :: "file_attr \<Rightarrow> u32 \<Rightarrow> u32 \<Rightarrow> u32 \<Rightarrow> bool" where
  "check_access attr uid gid amask =
     (if amask = 0 then True
      else
        let perm = (ucast (fa_perm attr) :: u32);
            shift = access_shift attr uid gid
        in if amask AND 4 = 4 \<and> drop_bit shift perm AND 4 = 0 then False
           else if amask AND 2 = 2 \<and> drop_bit shift perm AND 2 = 0 then False
           else if amask AND 1 = 1
                \<and> (if uid = 0 then perm AND 0x49 = 0 else drop_bit shift perm AND 1 = 0) then False
           else True)"

section \<open>Inode flags\<close>

abbreviation FS_APPEND_FL :: u32 where "FS_APPEND_FL \<equiv> 0x20"
abbreviation FS_SYNC_FL :: u32 where "FS_SYNC_FL \<equiv> 0x8"
abbreviation FS_NOATIME_FL :: u32 where "FS_NOATIME_FL \<equiv> 0x80"
abbreviation FS_NODUMP_FL :: u32 where "FS_NODUMP_FL \<equiv> 0x40"
abbreviation FS_PROJINHERIT_FL :: u32 where "FS_PROJINHERIT_FL \<equiv> 0x20000000"
abbreviation FS_XFLAG_IMMUTABLE :: u32 where "FS_XFLAG_IMMUTABLE \<equiv> 0x8"
abbreviation FS_XFLAG_APPEND :: u32 where "FS_XFLAG_APPEND \<equiv> 0x10"
abbreviation FS_XFLAG_SYNC :: u32 where "FS_XFLAG_SYNC \<equiv> 0x20"
abbreviation FS_XFLAG_NOATIME :: u32 where "FS_XFLAG_NOATIME \<equiv> 0x40"
abbreviation FS_XFLAG_NODUMP :: u32 where "FS_XFLAG_NODUMP \<equiv> 0x80"
abbreviation FS_XFLAG_PROJINHERIT :: u32 where "FS_XFLAG_PROJINHERIT \<equiv> 0x200"

definition FS_SUPPORTED_XFLAGS :: u32 where
  "FS_SUPPORTED_XFLAGS =
     FS_XFLAG_IMMUTABLE OR FS_XFLAG_APPEND OR FS_XFLAG_SYNC OR FS_XFLAG_NOATIME
     OR FS_XFLAG_NODUMP OR FS_XFLAG_PROJINHERIT"

definition set_if :: "bool \<Rightarrow> u32 \<Rightarrow> u32 \<Rightarrow> u32" where
  "set_if c bits acc = (if c then acc OR bits else acc)"

definition flags_to_xflags :: "u32 \<Rightarrow> u32" where
  "flags_to_xflags flags =
     set_if (flags AND FS_PROJINHERIT_FL \<noteq> 0) FS_XFLAG_PROJINHERIT
     (set_if (flags AND FS_NODUMP_FL \<noteq> 0) FS_XFLAG_NODUMP
     (set_if (flags AND FS_NOATIME_FL \<noteq> 0) FS_XFLAG_NOATIME
     (set_if (flags AND FS_SYNC_FL \<noteq> 0) FS_XFLAG_SYNC
     (set_if (flags AND FS_APPEND_FL \<noteq> 0) FS_XFLAG_APPEND
     (set_if (flags AND FS_IMMUTABLE_FL \<noteq> 0) FS_XFLAG_IMMUTABLE 0)))))"

definition xflags_to_flags :: "u32 \<Rightarrow> errno + u32" where
  "xflags_to_flags xflags =
     (if xflags AND NOT FS_SUPPORTED_XFLAGS \<noteq> 0 then Inl ENOTSUP
      else Inr
        (set_if (xflags AND FS_XFLAG_PROJINHERIT \<noteq> 0) FS_PROJINHERIT_FL
        (set_if (xflags AND FS_XFLAG_NODUMP \<noteq> 0) FS_NODUMP_FL
        (set_if (xflags AND FS_XFLAG_NOATIME \<noteq> 0) FS_NOATIME_FL
        (set_if (xflags AND FS_XFLAG_SYNC \<noteq> 0) FS_SYNC_FL
        (set_if (xflags AND FS_XFLAG_APPEND \<noteq> 0) FS_APPEND_FL
        (set_if (xflags AND FS_XFLAG_IMMUTABLE \<noteq> 0) FS_IMMUTABLE_FL 0)))))))"

text \<open>\<^verbatim>\<open>to_ne_bytes\<close> and \<^verbatim>\<open>from_ne_bytes\<close> on a little-endian machine.\<close>

definition to_ne_bytes :: "u32 \<Rightarrow> string" where
  "to_ne_bytes w = map (\<lambda>i. char_of (unat (drop_bit (8 * i) w) mod 256)) [0, 1, 2, 3]"

fun from_ne_bytes :: "string \<Rightarrow> u32" where
  "from_ne_bytes [] = 0"
| "from_ne_bytes (c # cs) = of_nat (byte c) + 256 * from_ne_bytes cs"

abbreviation FSXATTR_SIZE :: nat where "FSXATTR_SIZE \<equiv> 28"

definition encode_fsxattr :: "u32 \<Rightarrow> string" where
  "encode_fsxattr flags = to_ne_bytes (flags_to_xflags flags) @ replicate (FSXATTR_SIZE - 4) (CHR 0x00)"

definition decode_fsxattr_flags :: "string \<Rightarrow> errno + u32" where
  "decode_fsxattr_flags data =
     (if length data < FSXATTR_SIZE then Inl EINVAL
      else if list_ex (\<lambda>b. byte b \<noteq> 0) (drop 4 (take FSXATTR_SIZE data)) then Inl ENOTSUP
      else xflags_to_flags (from_ne_bytes (take 4 data)))"

datatype time_or_now = SpecificTime system_time | Now

fun resolve_time_or_now :: "'h os \<Rightarrow> 'h \<Rightarrow> time_or_now \<Rightarrow> system_time" where
  "resolve_time_or_now S h (SpecificTime time) = time"
| "resolve_time_or_now S h Now = os_now S h"

section \<open>Inode numbers\<close>

lemma stable_ino_below:
  assumes "p \<noteq> []"
  shows "2 \<le> unat (stable_ino p)" "unat (stable_ino p) < 2 ^ 52 + 2"
proof -
  let ?m = "fnv1a (as_str p) AND 0x000fffffffffffff"
  have m: "?m = take_bit 52 (fnv1a (as_str p))"
    by (simp add: take_bit_eq_mask mask_eq_exp_minus_1)
  have "unat ?m < 2 ^ 52"
    unfolding m unsigned_take_bit_eq by (rule take_bit_nat_less_exp)
  moreover from this have "unat (2 + ?m) = 2 + unat ?m"
    by (subst unat_plus_simple [THEN iffD1]) (simp_all add: word_le_nat_alt unat_word_ariths)
  ultimately show "2 \<le> unat (stable_ino p)" "unat (stable_ino p) < 2 ^ 52 + 2"
    using assms by (simp_all add: stable_ino_def)
qed

section \<open>Flags\<close>

lemma test_bits:
  "(w :: u32) AND 0x10 = 0 \<longleftrightarrow> \<not> bit w 4" "w AND 0x20 = 0 \<longleftrightarrow> \<not> bit w 5"
  "w AND 0x8 = 0 \<longleftrightarrow> \<not> bit w 3" "w AND 0x80 = 0 \<longleftrightarrow> \<not> bit w 7" "w AND 0x40 = 0 \<longleftrightarrow> \<not> bit w 6"
  "w AND 0x20000000 = 0 \<longleftrightarrow> \<not> bit w 29" "w AND 0x200 = 0 \<longleftrightarrow> \<not> bit w 9"
  using and_exp_eq_0_iff_not_bit [of w 4] and_exp_eq_0_iff_not_bit [of w 5]
    and_exp_eq_0_iff_not_bit [of w 3] and_exp_eq_0_iff_not_bit [of w 7]
    and_exp_eq_0_iff_not_bit [of w 6] and_exp_eq_0_iff_not_bit [of w 29]
    and_exp_eq_0_iff_not_bit [of w 9]
  by simp_all

lemma bit_set_if_exp: "m < 32 \<Longrightarrow> bit (set_if c (2 ^ m) acc) n \<longleftrightarrow> bit acc n \<or> (c \<and> n = m)"
  by (auto simp: set_if_def bit_or_iff bit_exp_iff)

lemma bit_set_if:
  "bit (set_if c 0x10 acc) n \<longleftrightarrow> bit acc n \<or> (c \<and> n = 4)"
  "bit (set_if c 0x20 acc) n \<longleftrightarrow> bit acc n \<or> (c \<and> n = 5)"
  "bit (set_if c 0x8 acc) n \<longleftrightarrow> bit acc n \<or> (c \<and> n = 3)"
  "bit (set_if c 0x80 acc) n \<longleftrightarrow> bit acc n \<or> (c \<and> n = 7)"
  "bit (set_if c 0x40 acc) n \<longleftrightarrow> bit acc n \<or> (c \<and> n = 6)"
  "bit (set_if c 0x20000000 acc) n \<longleftrightarrow> bit acc n \<or> (c \<and> n = 29)"
  "bit (set_if c 0x200 acc) n \<longleftrightarrow> bit acc n \<or> (c \<and> n = 9)"
  using bit_set_if_exp [of 4] bit_set_if_exp [of 5] bit_set_if_exp [of 3] bit_set_if_exp [of 7]
    bit_set_if_exp [of 6] bit_set_if_exp [of 29] bit_set_if_exp [of 9]
  by simp_all

lemma bit_flags_to_xflags:
  "bit (flags_to_xflags f) n \<longleftrightarrow>
     (n = 3 \<and> bit f 4) \<or> (n = 4 \<and> bit f 5) \<or> (n = 5 \<and> bit f 3) \<or> (n = 6 \<and> bit f 7)
     \<or> (n = 7 \<and> bit f 6) \<or> (n = 9 \<and> bit f 29)"
  unfolding flags_to_xflags_def test_bits not_not bit_set_if by (simp add: disj_ac conj_ac)

lemma supported_exp:
  "FS_SUPPORTED_XFLAGS = 2 ^ 3 OR 2 ^ 4 OR 2 ^ 5 OR 2 ^ 6 OR 2 ^ 7 OR 2 ^ 9"
  by (simp add: FS_SUPPORTED_XFLAGS_def)

lemma bit_supported: "bit FS_SUPPORTED_XFLAGS n \<longleftrightarrow> n \<in> {3, 4, 5, 6, 7, 9}"
  unfolding supported_exp bit_or_iff bit_exp_iff by auto

lemma and_not_zero_iff: "(x :: u32) AND NOT y = 0 \<longleftrightarrow> (\<forall>n. bit x n \<longrightarrow> bit y n)"
proof -
  have "bit x n \<Longrightarrow> n < 32" for n using bit_imp_le_length [of x n] by simp
  then show ?thesis by (auto simp: bit_eq_iff bit_and_iff bit_not_iff)
qed

lemma bit_xflags_to_flags:
  assumes "xflags_to_flags x = Inr f"
  shows "bit f n \<longleftrightarrow>
     (n = 4 \<and> bit x 3) \<or> (n = 5 \<and> bit x 4) \<or> (n = 3 \<and> bit x 5) \<or> (n = 7 \<and> bit x 6)
     \<or> (n = 6 \<and> bit x 7) \<or> (n = 29 \<and> bit x 9)"
proof -
  from assms have "f = set_if (x AND FS_XFLAG_PROJINHERIT \<noteq> 0) FS_PROJINHERIT_FL
        (set_if (x AND FS_XFLAG_NODUMP \<noteq> 0) FS_NODUMP_FL
        (set_if (x AND FS_XFLAG_NOATIME \<noteq> 0) FS_NOATIME_FL
        (set_if (x AND FS_XFLAG_SYNC \<noteq> 0) FS_SYNC_FL
        (set_if (x AND FS_XFLAG_APPEND \<noteq> 0) FS_APPEND_FL
        (set_if (x AND FS_XFLAG_IMMUTABLE \<noteq> 0) FS_IMMUTABLE_FL 0)))))"
    by (cases "x AND NOT FS_SUPPORTED_XFLAGS = 0")
       (simp_all only: xflags_to_flags_def if_True if_False not_not simp_thms sum.inject sum.distinct)
  then show ?thesis unfolding test_bits not_not by (simp add: bit_set_if disj_ac conj_ac)
qed

lemma xflags_to_flags_Inr_iff:
  "(\<exists>f. xflags_to_flags x = Inr f) \<longleftrightarrow> (\<forall>n. bit x n \<longrightarrow> n \<in> {3, 4, 5, 6, 7, 9})"
  unfolding xflags_to_flags_def and_not_zero_iff not_not bit_supported by simp

definition supported_flags :: u32 where
  "supported_flags = FS_IMMUTABLE_FL OR FS_APPEND_FL OR FS_SYNC_FL OR FS_NOATIME_FL OR FS_NODUMP_FL
     OR FS_PROJINHERIT_FL"

lemma bit_supported_flags: "bit supported_flags n \<longleftrightarrow> n \<in> {3, 4, 5, 6, 7, 29}"
proof -
  have eq: "supported_flags = 2 ^ 4 OR 2 ^ 5 OR 2 ^ 3 OR 2 ^ 7 OR 2 ^ 6 OR 2 ^ 29"
    by (simp add: supported_flags_def)
  show ?thesis unfolding eq bit_or_iff bit_exp_iff by auto
qed

lemma flags_roundtrip: "xflags_to_flags (flags_to_xflags f) = Inr (f AND supported_flags)"
proof -
  have "\<exists>g. xflags_to_flags (flags_to_xflags f) = Inr g"
    unfolding xflags_to_flags_Inr_iff bit_flags_to_xflags by blast
  then obtain g where g: "xflags_to_flags (flags_to_xflags f) = Inr g" ..
  have "bit g n \<longleftrightarrow> bit (f AND supported_flags) n" for n
    unfolding bit_xflags_to_flags [OF g] bit_flags_to_xflags bit_and_iff bit_supported_flags
    by auto
  with g show ?thesis by (simp add: bit_eq_iff)
qed

lemma xflags_roundtrip:
  assumes "xflags_to_flags x = Inr f"
  shows "flags_to_xflags f = x"
proof -
  have "bit x n \<longrightarrow> n \<in> {3, 4, 5, 6, 7, 9}" for n
    using assms xflags_to_flags_Inr_iff [of x] by blast
  then have "bit (flags_to_xflags f) n \<longleftrightarrow> bit x n" for n
    unfolding bit_flags_to_xflags bit_xflags_to_flags [OF assms] by auto
  then show ?thesis by (simp add: bit_eq_iff)
qed

section \<open>Bytes\<close>

lemma byte_char_of: "byte (char_of (n :: nat)) = n mod 256"
  by (simp add: byte_def)

lemma four_bytes:
  assumes "n < 4294967296"
  shows "n mod 256 + 256 * (n div 256 mod 256 + 256 * (n div 65536 mod 256 + 256 * (n div 16777216 mod 256)))
    = (n :: nat)"
proof -
  have "n div 65536 = n div 256 div 256" "n div 16777216 = n div 256 div 256 div 256"
    by (simp_all add: div_mult2_eq [symmetric])
  moreover have "n div 16777216 mod 256 = n div 16777216" using assms by simp
  ultimately show ?thesis
    by (metis add.commute mult.commute div_mult_mod_eq)
qed

lemma from_to_ne_bytes: "from_ne_bytes (to_ne_bytes w) = w"
proof -
  let ?n = "unat w"
  have drops: "unat (drop_bit k w) = ?n div 2 ^ k" for k
    unfolding unat_drop_bit_eq by (rule drop_bit_eq_div)
  have "from_ne_bytes (to_ne_bytes w) =
    of_nat (?n mod 256 + 256 * (?n div 256 mod 256 + 256 * (?n div 65536 mod 256 + 256 * (?n div 16777216 mod 256))))"
    unfolding to_ne_bytes_def by (simp add: drops byte_char_of)
  also have "\<dots> = of_nat ?n"
  proof -
    have "?n < 2 ^ 32" using unsigned_less [of w] by simp
    then show ?thesis by (subst four_bytes) simp_all
  qed
  finally show ?thesis by simp
qed

lemma length_to_ne_bytes [simp]: "length (to_ne_bytes w) = 4"
  by (simp add: to_ne_bytes_def)

lemma decode_encode: "decode_fsxattr_flags (encode_fsxattr f) = xflags_to_flags (flags_to_xflags f)"
  by (simp add: decode_fsxattr_flags_def encode_fsxattr_def list_ex_iff byte_def from_to_ne_bytes)

section \<open>Properties\<close>

text \<open>
  Inode flags survive both encodings of the flag interface: decoding an encoded
  structure gives back the supported flags of the file, and whatever extended flags are
  accepted are read back unchanged.
\<close>

lemma inode_flags_roundtrip:
  "decode_fsxattr_flags (encode_fsxattr f) = Inr (f AND supported_flags)
   \<and> (xflags_to_flags x = Inr g \<longrightarrow> flags_to_xflags g = x)"
  by (simp add: decode_encode flags_roundtrip xflags_roundtrip)

text \<open>
  The inode number of a path below the root is never the root's and never the invalid
  number zero: the hash part has 52 bits, so adding the offset does not wrap around.
\<close>

lemma stable_ino_bounds:
  "(stable_ino p = ROOT_INO \<longleftrightarrow> p = []) \<and> stable_ino p \<noteq> 0 \<and> unat (stable_ino p) < 2 ^ 52 + 2"
proof (cases "p = []")
  case True
  then show ?thesis by (simp add: stable_ino_def)
next
  case False
  have "stable_ino p \<noteq> 0" "stable_ino p \<noteq> ROOT_INO" using stable_ino_below(1) [OF False] by auto
  with False stable_ino_below(2) [OF False] show ?thesis by blast
qed

end
