(* ===== verification/Log.thy ===== *)
theory Log
  imports Hostfs "HOL-Library.Signed_Division"
begin

text \<open>
  \<^verbatim>\<open>src/log.rs\<close>: the operation log. One writer thread owns the log files; a handle sends it a
  command and waits for the reply, so commands run one after the other in the order in
  which they were sent. The model runs a command against the host at the moment it is sent;
  \<open>run_log_writer\<close> is the thread's loop over its channel, and the two are shown to agree.
  A stopped writer answers every request with an error. Line formats and the calendar
  arithmetic of the timestamps follow the source.
\<close>

section \<open>Host paths\<close>

text \<open>\<^verbatim>\<open>Path::parent\<close>: the path without its last component, none for the root and the empty path.\<close>

fun component_text :: "component \<Rightarrow> string" where
  "component_text (Prefix s) = s"
| "component_text RootDir = []"
| "component_text CurDir = ''.''"
| "component_text ParentDir = ''..''"
| "component_text (Normal s) = s"

definition components_string :: "component list \<Rightarrow> string" where
  "components_string cs =
     (if cs = [RootDir] then ''/'' else intercalate_str ''/'' (map component_text cs))"

definition path_parent :: "string \<Rightarrow> string option" where
  "path_parent p =
     (case rev (components p) of
        [] \<Rightarrow> None
      | RootDir # _ \<Rightarrow> None
      | Prefix _ # _ \<Rightarrow> None
      | _ # rest \<Rightarrow> Some (components_string (rev rest)))"

section \<open>Lines\<close>

definition civil_from_days :: "int \<Rightarrow> int \<times> int \<times> int" where
  "civil_from_days days_since_epoch =
     (let z = days_since_epoch + 719468;
          era = (if z \<ge> 0 then z else z - 146096) sdiv 146097;
          doe = z - era * 146097;
          yoe = (doe - doe sdiv 1460 + doe sdiv 36524 - doe sdiv 146096) sdiv 365;
          y = yoe + era * 400;
          doy = doe - (365 * yoe + yoe sdiv 4 - yoe sdiv 100);
          mp = (5 * doy + 2) sdiv 153;
          day = doy - (153 * mp + 2) sdiv 5 + 1;
          month = mp + (if mp < 10 then 3 else -9);
          year = y + (if month \<le> 2 then 1 else 0)
      in (year, month, day))"

definition show_padded :: "nat \<Rightarrow> int \<Rightarrow> string" where
  "show_padded w n = pad_left w (show_nat (nat n))"

definition format_timestamp :: "system_time \<Rightarrow> string" where
  "format_timestamp time =
     (let seconds = (if tv_sec time < 0 then 0 else tv_sec time);
          micros = (if tv_sec time < 0 then 0 else int (tv_nsec time div 1000));
          days = seconds div 86400;
          seconds_of_day = seconds mod 86400;
          (year, month, day) = civil_from_days days;
          hour = seconds_of_day div 3600;
          minute = (seconds_of_day mod 3600) div 60;
          second = seconds_of_day mod 60
      in ''['' @ show_padded 4 year @ ''-'' @ show_padded 2 month @ ''-'' @ show_padded 2 day
         @ ''T'' @ show_padded 2 hour @ '':'' @ show_padded 2 minute @ '':'' @ show_padded 2 second
         @ ''.'' @ show_padded 6 micros @ ''Z]'')"

definition format_log_line :: "'h os \<Rightarrow> 'h \<Rightarrow> nat \<Rightarrow> string \<Rightarrow> string" where
  "format_log_line S h i body =
     format_timestamp (os_now S h) @ '' id='' @ show_nat i @ '' '' @ body"

section \<open>Log files\<close>

definition create_parent :: "'h os \<Rightarrow> 'h \<Rightarrow> string \<Rightarrow> (io_error + unit) \<times> 'h" where
  "create_parent S h path =
     (case path_parent path of Some dir \<Rightarrow> os_create_dir_all S h dir | None \<Rightarrow> (Inr (), h))"

definition reset_log_file :: "'h os \<Rightarrow> 'h \<Rightarrow> string \<Rightarrow> unit res \<times> 'h" where
  "reset_log_file S h path =
     (case create_parent S h path of
        (Inl e, h) \<Rightarrow> (Inl (Io e), h)
      | (Inr _, h) \<Rightarrow>
          (case os_truncate_file S h path of (r, h) \<Rightarrow> (map_err Io r, h)))"

definition remove_log_file :: "'h os \<Rightarrow> 'h \<Rightarrow> string \<Rightarrow> unit res \<times> 'h" where
  "remove_log_file S h path =
     (case os_remove_file S h path of
        (Inr _, h) \<Rightarrow> (Inr (), h)
      | (Inl e, h) \<Rightarrow> (if e = Some 2 then Inr () else Inl (Io e), h))"

definition append_log_file :: "'h os \<Rightarrow> 'h \<Rightarrow> string \<Rightarrow> string \<Rightarrow> unit res \<times> 'h" where
  "append_log_file S h path line =
     (case create_parent S h path of
        (Inl e, h) \<Rightarrow> (Inl (Io e), h)
      | (Inr _, h) \<Rightarrow>
          (case os_append_line S h path (line @ [CHR 0x0A]) of (r, h) \<Rightarrow> (map_err Io r, h)))"

section \<open>The writer\<close>

datatype log_command =
    LogReset string
  | LogAppend string string
  | LogRemove string
  | LogShutdown

text \<open>One turn of the writer's loop: the reply, the host after it, and whether the loop goes on.\<close>

fun run_log_command :: "'h os \<Rightarrow> log_command \<Rightarrow> 'h \<Rightarrow> unit res \<times> 'h \<times> bool" where
  "run_log_command S (LogReset path) h = (case reset_log_file S h path of (r, h) \<Rightarrow> (r, h, True))"
| "run_log_command S (LogAppend path line) h = (case append_log_file S h path line of (r, h) \<Rightarrow> (r, h, True))"
| "run_log_command S (LogRemove path) h = (case remove_log_file S h path of (r, h) \<Rightarrow> (r, h, True))"
| "run_log_command S LogShutdown h = (Inr (), h, False)"

fun run_log_writer :: "'h os \<Rightarrow> log_command list \<Rightarrow> 'h \<Rightarrow> unit res list \<times> 'h" where
  "run_log_writer S [] h = ([], h)"
| "run_log_writer S (c # cs) h =
     (case run_log_command S c h of
        (r, h, True) \<Rightarrow> (case run_log_writer S cs h of (rs, h) \<Rightarrow> (r # rs, h))
      | (r, h, False) \<Rightarrow> ([r], h))"

text \<open>\<^verbatim>\<open>LogWriterHandle::request\<close>: send, then wait for the reply; the flag says whether the
  writer thread is still running.\<close>

definition log_request :: "'h os \<Rightarrow> log_command \<Rightarrow> bool \<Rightarrow> 'h \<Rightarrow> unit res \<times> bool \<times> 'h" where
  "log_request S c running h =
     (if \<not> running then (Inl (Message ''log writer stopped''), running, h)
      else case run_log_command S c h of (r, h, go) \<Rightarrow> (r, go, h))"

definition log_append :: "'h os \<Rightarrow> bool \<Rightarrow> string \<Rightarrow> string \<Rightarrow> 'h \<Rightarrow> unit res \<times> 'h" where
  "log_append S running path line h =
     (case log_request S (LogAppend path line) running h of (r, _, h) \<Rightarrow> (r, h))"

definition log_reset :: "'h os \<Rightarrow> bool \<Rightarrow> string \<Rightarrow> 'h \<Rightarrow> unit res \<times> 'h" where
  "log_reset S running path h =
     (case log_request S (LogReset path) running h of (r, _, h) \<Rightarrow> (r, h))"

definition log_remove :: "'h os \<Rightarrow> bool \<Rightarrow> string \<Rightarrow> 'h \<Rightarrow> unit res \<times> 'h" where
  "log_remove S running path h =
     (case log_request S (LogRemove path) running h of (r, _, h) \<Rightarrow> (r, h))"

definition log_shutdown :: "'h os \<Rightarrow> bool \<Rightarrow> 'h \<Rightarrow> unit res \<times> bool \<times> 'h" where
  "log_shutdown S running h = log_request S LogShutdown running h"

fun log_requests :: "'h os \<Rightarrow> log_command list \<Rightarrow> bool \<Rightarrow> 'h \<Rightarrow> unit res list \<times> bool \<times> 'h" where
  "log_requests S [] running h = ([], running, h)"
| "log_requests S (c # cs) running h =
     (case log_request S c running h of (r, running, h) \<Rightarrow>
       case log_requests S cs running h of (rs, running, h) \<Rightarrow> (r # rs, running, h))"

section \<open>The writer's order\<close>

lemma log_requests_stopped:
  "log_requests S cs False h = (replicate (length cs) (Inl (Message ''log writer stopped'')), False, h)"
  by (induction cs) (simp_all add: log_request_def)

lemma log_requests_writer:
  "log_requests S cs True h =
     (fst (run_log_writer S cs h)
        @ replicate (length cs - length (fst (run_log_writer S cs h))) (Inl (Message ''log writer stopped'')),
      LogShutdown \<notin> set cs, snd (run_log_writer S cs h))"
proof (induction cs arbitrary: h)
  case Nil
  then show ?case by simp
next
  case (Cons c cs)
  show ?case
  proof (cases "c = LogShutdown")
    case True
    then show ?thesis by (simp add: log_request_def log_requests_stopped)
  next
    case False
    obtain r h' go where run: "run_log_command S c h = (r, h', go)" by (metis prod_cases3)
    with False have "go" by (cases c) (auto split: prod.splits)
    with run False Cons.IH [of h'] show ?thesis
      by (auto simp: log_request_def split: prod.splits)
  qed
qed

end
