(* ===== verification/Process_Info.thy ===== *)
theory Process_Info
  imports Requests Hostfs
begin

text \<open>
  \<^verbatim>\<open>src/process_info.rs\<close>: process identities and process trees. The \<^verbatim>\<open>sysinfo\<close> snapshot is
  the operating system parameter (the pids it knows, and the parent and start time of a
  pid). The walk up the parents is a loop that ends only when the snapshot has no cycle of
  parents, so it is a partial function; it is shown to return, with the right answer,
  whenever some measure decreases from child to parent.
\<close>

section \<open>Definitions\<close>

instantiation process_identity :: linorder
begin

definition less_eq_process_identity :: "process_identity \<Rightarrow> process_identity \<Rightarrow> bool" where
  "less_eq_process_identity a b \<longleftrightarrow>
     (identity_pid a, identity_start_time a) \<le> (identity_pid b, identity_start_time b)"

definition less_process_identity :: "process_identity \<Rightarrow> process_identity \<Rightarrow> bool" where
  "less_process_identity a b \<longleftrightarrow>
     (identity_pid a, identity_start_time a) < (identity_pid b, identity_start_time b)"

instance
  by standard
     (auto simp: less_eq_process_identity_def less_process_identity_def intro: process_identity.expand)

end

definition process_identity_of :: "'h os \<Rightarrow> 'h \<Rightarrow> u32 \<Rightarrow> process_identity option" where
  "process_identity_of S h pid =
     map_option (\<lambda>(_, start_time). ProcessIdentity pid start_time) (os_process S h pid)"

definition parent_pid :: "'h os \<Rightarrow> 'h \<Rightarrow> u32 \<Rightarrow> u32 option" where
  "parent_pid S h pid = (case os_process S h pid of None \<Rightarrow> None | Some (p, _) \<Rightarrow> p)"

definition identity_for_pid :: "'h os \<Rightarrow> 'h \<Rightarrow> u32 \<Rightarrow> process_identity option" where
  "identity_for_pid S h pid = process_identity_of S h pid"

partial_function (option) is_process_in_tree :: "(u32 \<Rightarrow> u32 option) \<Rightarrow> u32 \<Rightarrow> u32 \<Rightarrow> bool option" where
  [code]: "is_process_in_tree up anc pid =
     (if pid = anc then Some True
      else case up pid of
             None \<Rightarrow> Some False
           | Some p \<Rightarrow> is_process_in_tree up anc p)"

text \<open>The loop over the pids of the snapshot: the identities of the members of the tree.\<close>

fun tree_members :: "'h os \<Rightarrow> 'h \<Rightarrow> u32 \<Rightarrow> u32 list \<Rightarrow> process_identity list option" where
  "tree_members S h anc [] = Some []"
| "tree_members S h anc (pid # pids) =
     (case is_process_in_tree (parent_pid S h) anc pid of
        None \<Rightarrow> None
      | Some inside \<Rightarrow>
          map_option
            (\<lambda>rest. (case process_identity_of S h pid of
                       Some i \<Rightarrow> if inside then i # rest else rest
                     | None \<Rightarrow> rest))
            (tree_members S h anc pids))"

text \<open>The outer option is \<open>None\<close> when the walk does not end.\<close>

definition process_tree_for_pid :: "'h os \<Rightarrow> 'h \<Rightarrow> u32 \<Rightarrow> process_identity list option option" where
  "process_tree_for_pid S h anc_pid =
     (case process_identity_of S h anc_pid of
        None \<Rightarrow> Some None
      | Some _ \<Rightarrow>
          map_option (\<lambda>identities. Some (remdups_adj (sort identities)))
            (tree_members S h anc_pid (os_pids S h)))"

section \<open>Trees\<close>

inductive ancestor :: "(u32 \<Rightarrow> u32 option) \<Rightarrow> u32 \<Rightarrow> u32 \<Rightarrow> bool" for up where
  ancestor_self: "ancestor up p p"
| ancestor_step: "up p = Some q \<Longrightarrow> ancestor up q r \<Longrightarrow> ancestor up p r"

inductive_cases ancestorE: "ancestor up p r"

definition parents_decrease :: "(u32 \<Rightarrow> u32 option) \<Rightarrow> (u32 \<Rightarrow> nat) \<Rightarrow> bool" where
  "parents_decrease up rank \<longleftrightarrow> (\<forall>p q. up p = Some q \<longrightarrow> rank q < rank p)"

lemma is_process_in_tree_returns:
  assumes "parents_decrease up rank"
  shows "is_process_in_tree up anc pid = Some (ancestor up pid anc)"
proof (induction "rank pid" arbitrary: pid rule: less_induct)
  case less
  show ?case
  proof (cases "pid = anc")
    case True
    then show ?thesis by (simp add: is_process_in_tree.simps ancestor_self)
  next
    case ne: False
    show ?thesis
    proof (cases "up pid")
      case None
      with ne show ?thesis by (auto simp: is_process_in_tree.simps elim: ancestorE)
    next
      case (Some q)
      with assms have "rank q < rank pid" by (simp add: parents_decrease_def)
      from less [OF this] ne Some show ?thesis
        by (auto simp: is_process_in_tree.simps [of up anc pid] intro: ancestor_step elim: ancestorE)
    qed
  qed
qed

lemma tree_members_returns:
  assumes "parents_decrease (parent_pid S h) rank"
  shows "\<exists>is. tree_members S h anc pids = Some is
    \<and> set is = {i. \<exists>pid \<in> set pids. ancestor (parent_pid S h) pid anc \<and> process_identity_of S h pid = Some i}"
proof (induction pids)
  case Nil
  then show ?case by simp
next
  case (Cons pid pids)
  then show ?case
    by (cases "process_identity_of S h pid"; cases "ancestor (parent_pid S h) pid anc")
       (auto simp: is_process_in_tree_returns [OF assms])
qed

lemma sorted_remdups_adj_distinct: "sorted (xs :: 'a::linorder list) \<Longrightarrow> distinct (remdups_adj xs)"
  by (induction xs rule: remdups_adj.induct) (auto simp: less_le)

section \<open>Properties\<close>

text \<open>
  C40: The process tree of a known process is computed, without repetition, and holds the
  identities of exactly the known processes that descend from it, whenever the parents of
  the snapshot have no cycle.
\<close>

theorem process_tree_exact:
  assumes "parents_decrease (parent_pid S h) rank" and "process_identity_of S h anc \<noteq> None"
  shows "\<exists>is. process_tree_for_pid S h anc = Some (Some is) \<and> distinct is \<and> sorted is
    \<and> set is = {i. \<exists>pid \<in> set (os_pids S h). ancestor (parent_pid S h) pid anc
                 \<and> process_identity_of S h pid = Some i}"
  using tree_members_returns [OF assms(1), of anc "os_pids S h"] assms(2)
  by (auto simp: process_tree_for_pid_def sorted_remdups_adj_distinct sorted_remdups_adj)

text \<open>A shell 7 with the child 42.\<close>

definition demo_processes :: "unit os" where
  "demo_processes = empty_host\<lparr>os_pids := (\<lambda>_. [42, 7, 1]),
     os_process := (\<lambda>_ pid. if pid = 42 then Some (Some 7, 100)
        else if pid = 7 then Some (Some 1, 50) else if pid = 1 then Some (None, 0) else None)\<rparr>"

lemma demo_parents: "parent_pid demo_processes () pid =
    (if pid = 42 then Some 7 else if pid = 7 then Some 1 else None)"
  by (simp add: parent_pid_def demo_processes_def)

theorem process_tree_exact_witness:
  "\<exists>is. process_tree_for_pid demo_processes () 7 = Some (Some is) \<and> ProcessIdentity 42 100 \<in> set is
     \<and> ProcessIdentity 1 0 \<notin> set is"
proof -
  have dec: "parents_decrease (parent_pid demo_processes ()) (\<lambda>p. if p = 42 then 2 else if p = 7 then 1 else 0)"
    by (simp add: parents_decrease_def demo_parents)
  have known: "process_identity_of demo_processes () 7 \<noteq> None"
    by (simp add: process_identity_of_def demo_processes_def)
  have "ancestor (parent_pid demo_processes ()) 42 7" 
    by (rule ancestor_step [where q = 7]) (simp_all add: demo_parents ancestor_self)
  moreover have "\<not> ancestor (parent_pid demo_processes ()) 1 7"
    by (auto elim: ancestorE simp: demo_parents)
  ultimately show ?thesis
    using process_tree_exact [OF dec known]
    by (auto simp: process_identity_of_def demo_processes_def)
qed

end
