(* ===== verification/World.thy ===== *)
theory World
  imports Registry Attr Log Process_Info
begin

text \<open>
  The shared state of a running session and the primitives every component uses on it: the
  registry behind its lock, the decision cells of blocked callers, the log writer, the
  tables of one mounted file system and the host. Rust's locks make each critical section
  atomic, so an operation is a function from the state before to the state after; a wait
  for a decision hands the state to the other threads and takes it back changed
  (\<open>env_sched\<close>, a parameter). A waiter is the address of a cell that holds at most one
  decision at a time.
\<close>

section \<open>State\<close>

record handle_info =
  hi_local_path :: string
  hi_sandbox_path :: sandbox_path
  hi_writable :: bool
  hi_append :: bool

record 'h world =
  w_registry :: registry
  w_cells :: "nat \<Rightarrow> pending_decision option"
  w_next_cell :: nat
  w_log_running :: bool
  w_inodes :: "(u64, sandbox_path) omap"
  w_handles :: "(nat, handle_info) omap"
  w_next_handle :: nat
  w_host :: 'h

text \<open>
  What the code runs in: the operating system, the glob crate, and the other threads of the
  process. \<open>env_sched w c\<close> is the state in which a caller blocked on the cell \<open>c\<close> in the
  state \<open>w\<close> goes on, or nothing when it is never woken.
\<close>

record 'h env =
  env_os :: "'h os"
  env_glob :: glob_api
  env_sched :: "'h world \<Rightarrow> nat \<Rightarrow> 'h world option"

text \<open>One mount: the fields of \<^verbatim>\<open>SandboxFs\<close> that never change.\<close>

record mount =
  mt_sandbox_name :: string
  mt_attach_id :: "nat option"

section \<open>Primitives\<close>

definition with_registry :: "(registry \<Rightarrow> registry) \<Rightarrow> 'h world \<Rightarrow> 'h world" where
  "with_registry f w = w\<lparr>w_registry := f (w_registry w)\<rparr>"

text \<open>\<^verbatim>\<open>Arc::new((Mutex::new(None), Condvar::new()))\<close>.\<close>

definition new_waiter :: "'h world \<Rightarrow> nat \<times> 'h world" where
  "new_waiter w =
     (w_next_cell w, w\<lparr>w_next_cell := w_next_cell w + 1, w_cells := (w_cells w)(w_next_cell w := None)\<rparr>)"

definition notify_waiter :: "pending_waiter option \<Rightarrow> pending_decision \<Rightarrow> 'h world \<Rightarrow> 'h world" where
  "notify_waiter waiter decision w =
     (case waiter of
        None \<Rightarrow> w
      | Some c \<Rightarrow> w\<lparr>w_cells := (w_cells w)(c := Some decision)\<rparr>)"

definition wait_for_decision :: "'h env \<Rightarrow> pending_waiter \<Rightarrow> 'h world \<Rightarrow> (pending_decision \<times> 'h world) option" where
  "wait_for_decision E c w =
     (case w_cells w c of
        Some decision \<Rightarrow> Some (decision, w)
      | None \<Rightarrow>
          (case env_sched E w c of
             None \<Rightarrow> None
           | Some w' \<Rightarrow> (case w_cells w' c of None \<Rightarrow> None | Some decision \<Rightarrow> Some (decision, w'))))"

definition fresh_operation_id :: "'h world \<Rightarrow> nat \<times> 'h world" where
  "fresh_operation_id w =
     (case next_operation_id (w_registry w) of (i, r) \<Rightarrow> (i, w\<lparr>w_registry := r\<rparr>))"

text \<open>\<^verbatim>\<open>log_writer.append(path, format_log_line(id, body))\<close>.\<close>

definition append_event :: "'h env \<Rightarrow> string \<Rightarrow> nat \<Rightarrow> string \<Rightarrow> 'h world \<Rightarrow> unit res \<times> 'h world" where
  "append_event E log_path i body w =
     (case log_append (env_os E) (w_log_running w) log_path
             (format_log_line (env_os E) (w_host w) i body) (w_host w) of
        (r, h) \<Rightarrow> (r, w\<lparr>w_host := h\<rparr>))"

text \<open>Events whose failure is ignored (\<^verbatim>\<open>let _ = \<dots>append(\<dots>)\<close>).\<close>

fun append_events :: "'h env \<Rightarrow> string \<Rightarrow> (nat \<times> string) list \<Rightarrow> 'h world \<Rightarrow> 'h world" where
  "append_events E log_path [] w = w"
| "append_events E log_path ((i, body) # es) w =
     append_events E log_path es (snd (append_event E log_path i body w))"

definition format_attach_field :: "nat option \<Rightarrow> string" where
  "format_attach_field attach_id =
     (case attach_id of None \<Rightarrow> [] | Some i \<Rightarrow> '' attach='' @ show_nat i)"

section \<open>Facts\<close>

text \<open>Logging changes the host only, and handing out an id the counter only.\<close>

lemma append_event_frame:
  "snd (append_event E p i b w) = w\<lparr>w_host := w_host (snd (append_event E p i b w))\<rparr>"
  by (simp add: append_event_def split: prod.splits)

lemma append_event_simps [simp]:
  "w_registry (snd (append_event E p i b w)) = w_registry w"
  "w_cells (snd (append_event E p i b w)) = w_cells w"
  "w_next_cell (snd (append_event E p i b w)) = w_next_cell w"
  "w_inodes (snd (append_event E p i b w)) = w_inodes w"
  "w_handles (snd (append_event E p i b w)) = w_handles w"
  "w_next_handle (snd (append_event E p i b w)) = w_next_handle w"
  "w_log_running (snd (append_event E p i b w)) = w_log_running w"
  by (simp_all add: append_event_def split: prod.splits)

lemma append_events_simps [simp]:
  "w_registry (append_events E p es w) = w_registry w"
  "w_cells (append_events E p es w) = w_cells w"
  "w_next_cell (append_events E p es w) = w_next_cell w"
  "w_inodes (append_events E p es w) = w_inodes w"
  "w_handles (append_events E p es w) = w_handles w"
  by (induction E p es w rule: append_events.induct) simp_all

lemma fresh_operation_id_simps [simp]:
  "fst (fresh_operation_id w) = rg_next_operation_id (w_registry w)"
  "w_registry (snd (fresh_operation_id w)) = snd (next_operation_id (w_registry w))"
  "w_cells (snd (fresh_operation_id w)) = w_cells w"
  "w_next_cell (snd (fresh_operation_id w)) = w_next_cell w"
  "w_inodes (snd (fresh_operation_id w)) = w_inodes w"
  "w_handles (snd (fresh_operation_id w)) = w_handles w"
  "w_host (snd (fresh_operation_id w)) = w_host w"
  by (simp_all add: fresh_operation_id_def next_operation_id_def)

lemma new_waiter_simps [simp]:
  "fst (new_waiter w) = w_next_cell w"
  "w_registry (snd (new_waiter w)) = w_registry w"
  "w_cells (snd (new_waiter w)) = (w_cells w)(w_next_cell w := None)"
  "w_next_cell (snd (new_waiter w)) = Suc (w_next_cell w)"
  "w_host (snd (new_waiter w)) = w_host w"
  "w_inodes (snd (new_waiter w)) = w_inodes w"
  by (simp_all add: new_waiter_def)

lemma with_registry_simps [simp]:
  "w_registry (with_registry f w) = f (w_registry w)"
  "w_cells (with_registry f w) = w_cells w"
  "w_next_cell (with_registry f w) = w_next_cell w"
  "w_host (with_registry f w) = w_host w"
  "w_inodes (with_registry f w) = w_inodes w"
  by (simp_all add: with_registry_def)

lemma notify_waiter_simps [simp]:
  "w_registry (notify_waiter c d w) = w_registry w"
  "w_next_cell (notify_waiter c d w) = w_next_cell w"
  "w_host (notify_waiter c d w) = w_host w"
  "w_inodes (notify_waiter c d w) = w_inodes w"
  "notify_waiter None d w = w"
  "w_cells (notify_waiter (Some a) d w) = (w_cells w)(a := Some d)"
  by (simp_all add: notify_waiter_def split: option.splits)

lemma wait_for_decision_SomeD:
  "wait_for_decision E c w = Some (d, w') \<Longrightarrow> w_cells w' c = Some d"
  by (auto simp: wait_for_decision_def split: option.splits)

text \<open>The hosts reached from a host by nothing but log lines.\<close>

inductive host_logged :: "'h env \<Rightarrow> 'h \<Rightarrow> 'h \<Rightarrow> bool" for E :: "'h env" where
  logged_refl [simp, intro]: "host_logged E h h"
| logged_line: "host_logged E h h' \<Longrightarrow> host_logged E h (snd (log_append (env_os E) running log_path line h'))"

lemma host_logged_trans: "host_logged E h1 h2 \<Longrightarrow> host_logged E h h1 \<Longrightarrow> host_logged E h h2"
  by (induction rule: host_logged.induct) (auto intro: logged_line)

lemma host_logged_append_event: "host_logged E (w_host w) (w_host (snd (append_event E p i b w)))"
  using logged_line [OF logged_refl, of E "w_host w" "w_log_running w" p
      "format_log_line (env_os E) (w_host w) i b"]
  by (simp add: append_event_def split_beta)

text \<open>What a handler may change once it runs: the host and the tables of its own mount.\<close>

definition own_step :: "'h world \<Rightarrow> 'h world \<Rightarrow> bool" where
  "own_step w w' \<longleftrightarrow> w_registry w' = w_registry w \<and> w_cells w' = w_cells w \<and> w_next_cell w' = w_next_cell w
     \<and> w_log_running w' = w_log_running w"

lemma own_step_refl [simp]: "own_step w w"
  by (simp add: own_step_def)

section \<open>The invariant of the shared state\<close>

text \<open>
  Every pending request has a waiter of its own, and nothing else has one; the cell of a
  waiter in the table is undecided. So a caller is blocked exactly as long as its request
  is pending.
\<close>

definition waiters_exact :: "'h world \<Rightarrow> bool" where
  "waiters_exact w \<longleftrightarrow>
     (\<forall>i. om_get (rg_pending_waiters (w_registry w)) i \<noteq> None \<longleftrightarrow> i \<in> request_ids (w_registry w))
     \<and> (\<forall>i c. om_get (rg_pending_waiters (w_registry w)) i = Some c \<longrightarrow>
          c < w_next_cell w \<and> w_cells w c = None)
     \<and> (\<forall>i j c. om_get (rg_pending_waiters (w_registry w)) i = Some c \<longrightarrow>
          om_get (rg_pending_waiters (w_registry w)) j = Some c \<longrightarrow> i = j)"

definition wf_world :: "'h world \<Rightarrow> bool" where
  "wf_world w \<longleftrightarrow> wf_registry (w_registry w) \<and> waiters_exact w"

lemma wf_world_cong:
  assumes "w_registry w' = w_registry w" "w_cells w' = w_cells w" "w_next_cell w' = w_next_cell w"
  shows "wf_world w' = wf_world w"
  using assms by (simp add: wf_world_def waiters_exact_def)

lemma wf_world_host [simp]: "wf_world (w\<lparr>w_host := h\<rparr>) = wf_world w"
  by (rule wf_world_cong) simp_all

lemma wf_world_inodes [simp]: "wf_world (w\<lparr>w_inodes := m\<rparr>) = wf_world w"
  by (rule wf_world_cong) simp_all

lemma wf_world_append_event [simp]: "wf_world (snd (append_event E p i b w)) = wf_world w"
  by (rule wf_world_cong) simp_all

lemma wf_world_append_events [simp]: "wf_world (append_events E p es w) = wf_world w"
  by (rule wf_world_cong) simp_all

lemma wf_world_fresh_id: "wf_world w \<Longrightarrow> wf_world (snd (fresh_operation_id w))"
  using wf_next_operation_id [of "w_registry w"]
  by (simp add: wf_world_def waiters_exact_def next_operation_id_def request_ids_def)

lemma wf_world_new_waiter: "wf_world w \<Longrightarrow> wf_world (snd (new_waiter w))"
  by (auto simp: wf_world_def waiters_exact_def less_Suc_eq)

text \<open>Replacing the grants by some of them.\<close>

lemma wf_registry_grants:
  assumes "wf_registry r" and "om_wf m"
    and "\<And>i g. om_get m i = Some g \<Longrightarrow> om_get (rg_read_write_grants r) i = Some g"
  shows "wf_registry (r\<lparr>rg_read_write_grants := m\<rparr>)"
proof -
  have "\<forall>i \<in> used_ids (r\<lparr>rg_read_write_grants := m\<rparr>). i \<in> used_ids r"
    using assms(3) by (auto simp: used_ids_def request_ids_def om_keys_dom)
  then show ?thesis
    using assms unfolding wf_registry_def wf_maps_def index_exact_def by auto
qed

lemma wf_world_registry:
  assumes "wf_world w" and "wf_registry r"
    and "rg_pending r = rg_pending (w_registry w)"
    and "rg_pending_read_write r = rg_pending_read_write (w_registry w)"
    and "rg_pending_waiters r = rg_pending_waiters (w_registry w)"
  shows "wf_world (w\<lparr>w_registry := r\<rparr>)"
  using assms by (simp add: wf_world_def waiters_exact_def request_ids_def)

text \<open>A new request enters with a fresh id and a fresh, undecided cell.\<close>

lemma wf_world_enqueue:
  assumes w: "wf_world w" and adm: "admissible q (w_registry w)" and c: "c < w_next_cell w"
    and undecided: "w_cells w c = None"
    and fresh: "\<forall>i. om_get (rg_pending_waiters (w_registry w)) i \<noteq> Some c"
  shows "wf_world (with_registry (\<lambda>r. r\<lparr>rg_pending_waiters := om_insert (pending_id q) c (rg_pending_waiters r)\<rparr>)
      (with_registry (insert_any_pending_request q) w))" (is "wf_world ?w")
proof -
  have ids: "request_ids (w_registry ?w) = insert (pending_id q) (request_ids (w_registry w))"
    by (cases q) (auto simp: request_ids_def om_keys_dom registry_defs)
  have waiters: "om_get (rg_pending_waiters (w_registry ?w)) =
      (om_get (rg_pending_waiters (w_registry w)))(pending_id q \<mapsto> c)"
    by (cases q) (auto simp: registry_defs fun_eq_iff)
  have "wf_registry (insert_any_pending_request q (w_registry w))"
    using w adm by (intro wf_insert_any) (simp_all add: wf_world_def)
  then have "wf_registry (w_registry ?w)"
    by (auto simp: wf_registry_def wf_maps_def index_exact_def used_ids_def request_ids_def)
  moreover have "waiters_exact ?w"
    using w c undecided fresh unfolding waiters_exact_def wf_world_def ids waiters by simp metis
  ultimately show ?thesis by (simp add: wf_world_def)
qed

end
