(* ===== verification/Fs.thy ===== *)
theory Fs
  imports World
begin

text \<open>
  \<^verbatim>\<open>src/fs.rs\<close>, the part behind the FUSE handlers: inode bookkeeping, attributes, trusted
  operations, metadata requests and the authorisation of reads and writes. An operation is
  authorised effect by effect: effects that are bypassed or not protected pass, effects a
  grant covers pass and consume a one-shot grant, every other effect becomes a pending
  request whose decision the caller waits for.
\<close>

section \<open>Inodes and attributes\<close>

definition new_fs :: "'h world \<Rightarrow> 'h world" where
  "new_fs w = w\<lparr>w_inodes := om_insert 1 [] [], w_handles := [], w_next_handle := 1\<rparr>"

definition remember :: "sandbox_path \<Rightarrow> 'h world \<Rightarrow> u64 \<times> 'h world" where
  "remember path w =
     (let ino = stable_ino path in (ino, w\<lparr>w_inodes := om_insert ino path (w_inodes w)\<rparr>))"

definition path_for_ino :: "u64 \<Rightarrow> 'h world \<Rightarrow> sandbox_path option" where
  "path_for_ino ino w = om_get (w_inodes w) ino"

definition fs_sandbox :: "mount \<Rightarrow> 'h world \<Rightarrow> sandbox option" where
  "fs_sandbox F w = om_get (rg_sandboxes (w_registry w)) (mt_sandbox_name F)"

definition attr_for_path :: "'h env \<Rightarrow> mount \<Rightarrow> sandbox_path \<Rightarrow> 'h world \<Rightarrow> (errno + file_attr) \<times> 'h world" where
  "attr_for_path E F path w =
     (case fs_sandbox F w of
        None \<Rightarrow> (Inl ENOENT, w)
      | Some s \<Rightarrow>
          (case resolve s path of
             None \<Rightarrow> (Inl ENOENT, w)
           | Some resolved \<Rightarrow>
               (case (case resolved of
                        VirtualDirPath _ \<Rightarrow> Inr (virtual_dir_attr (env_os E) path)
                      | RealPath local _ _ \<Rightarrow>
                          map_err io_to_errno (real_attr (env_os E) (w_host w) path local)) of
                  Inl e \<Rightarrow> (Inl e, w)
                | Inr attr \<Rightarrow>
                    (case remember path w of
                       (ino, w) \<Rightarrow>
                         (Inr (apply_override (attr\<lparr>fa_ino := ino\<rparr>) (metadata_override_for_path s path)), w)))))"

definition path_and_local_path_for_ino :: "mount \<Rightarrow> u64 \<Rightarrow> 'h world \<Rightarrow> (sandbox_path \<times> string) option" where
  "path_and_local_path_for_ino F ino w =
     (case path_for_ino ino w of
        None \<Rightarrow> None
      | Some path \<Rightarrow>
          (case fs_sandbox F w of
             None \<Rightarrow> None
           | Some s \<Rightarrow>
               (case resolve s path of
                  Some (RealPath local _ _) \<Rightarrow> Some (path, local)
                | _ \<Rightarrow> None)))"

definition local_path_for_ino :: "mount \<Rightarrow> u64 \<Rightarrow> 'h world \<Rightarrow> string option" where
  "local_path_for_ino F ino w = map_option snd (path_and_local_path_for_ino F ino w)"

definition path_child :: "u64 \<Rightarrow> string \<Rightarrow> 'h world \<Rightarrow> errno + sandbox_path" where
  "path_child parent_ino name w =
     (if name = ''.'' then ok_or (path_for_ino parent_ino w) ENOENT
      else result_bind (ok_or (path_for_ino parent_ino w) ENOENT) (\<lambda>parent_path.
        map_err (\<lambda>_. EINVAL) (join parent_path name)))"

definition local_path_for_child :: "mount \<Rightarrow> u64 \<Rightarrow> string \<Rightarrow> 'h world \<Rightarrow> errno + string" where
  "local_path_for_child F parent_ino name w =
     result_bind (ok_or (path_for_ino parent_ino w) ENOENT) (\<lambda>parent_path.
     result_bind (ok_or (fs_sandbox F w) ENOENT) (\<lambda>s.
       case resolve s parent_path of
         Some (RealPath local _ _) \<Rightarrow> Inr (path_join local name)
       | Some (VirtualDirPath _) \<Rightarrow> Inl EROFS
       | None \<Rightarrow> Inl ENOENT))"

definition fs_path_is_directory :: "'h env \<Rightarrow> mount \<Rightarrow> sandbox_path \<Rightarrow> 'h world \<Rightarrow> errno + bool" where
  "fs_path_is_directory E F path w =
     result_bind (ok_or (fs_sandbox F w) ENOENT) (\<lambda>s.
       Inr (path_is_directory (env_os E) (w_host w) s path))"

definition path_matches_bypass ::
  "'h env \<Rightarrow> mount \<Rightarrow> protection_kind \<Rightarrow> sandbox_path \<Rightarrow> bool \<Rightarrow> 'h world \<Rightarrow> errno + bool"
where
  "path_matches_bypass E F kind path target_is_dir w =
     result_bind (ok_or (fs_sandbox F w) ENOENT) (\<lambda>s.
       Inr (is_bypass (env_glob E) s kind path target_is_dir))"

section \<open>Trusted operations\<close>

definition scope_covers :: "sandbox_path \<Rightarrow> trusted_path_scope \<Rightarrow> bool" where
  "scope_covers path scope =
     (if scope_recursive scope then starts_with path (scope_path scope) else path = scope_path scope)"

definition trusted_covers :: "string \<Rightarrow> u32 \<Rightarrow> u32 \<Rightarrow> sandbox_path \<Rightarrow> trusted_operation \<Rightarrow> bool" where
  "trusted_covers sandbox_name pid uid path t \<longleftrightarrow>
     tr_sandbox t = sandbox_name \<and> tr_pid t = Some pid \<and> tr_uid t = Some uid
     \<and> list_ex (scope_covers path) (tr_paths t)"

definition is_trusted_operation :: "registry \<Rightarrow> string \<Rightarrow> u32 \<Rightarrow> u32 \<Rightarrow> sandbox_path \<Rightarrow> bool" where
  "is_trusted_operation r sandbox_name pid uid path =
     list_ex (trusted_covers sandbox_name pid uid path) (om_values (rg_trusted r))"

section \<open>Metadata requests\<close>

record pending_metadata_outcome =
  po_unchanged_attr :: file_attr
  po_path :: sandbox_path
  po_object :: metadata_object_key
  po_operation :: metadata_operation
  po_waiter :: pending_waiter

datatype metadata_outcome = Applied file_attr | MetadataPending pending_metadata_outcome

text \<open>\<^verbatim>\<open>sandbox.apply_metadata_override_to_object(\<dots>).map_err(ENOTSUP)\<close> on the registry's sandbox.\<close>

definition apply_to_registry_object ::
  "mount \<Rightarrow> metadata_object_key \<Rightarrow> sandbox_path \<Rightarrow> metadata_operation \<Rightarrow> 'h world \<Rightarrow> (errno + unit) \<times> 'h world"
where
  "apply_to_registry_object F object path oper w =
     (case fs_sandbox F w of
        None \<Rightarrow> (Inl ENOENT, w)
      | Some s \<Rightarrow>
          (case apply_metadata_override_to_object object path oper s of
             Inl _ \<Rightarrow> (Inl ENOTSUP, w)
           | Inr s' \<Rightarrow>
               (Inr (), with_registry (\<lambda>r. r\<lparr>rg_sandboxes := om_insert (mt_sandbox_name F) s' (rg_sandboxes r)\<rparr>) w)))"

definition apply_and_reread ::
  "'h env \<Rightarrow> mount \<Rightarrow> metadata_object_key \<Rightarrow> sandbox_path \<Rightarrow> metadata_operation \<Rightarrow> 'h world \<Rightarrow>
   (errno + metadata_outcome) \<times> 'h world"
where
  "apply_and_reread E F object path oper w =
     (case apply_to_registry_object F object path oper w of
        (Inl e, w) \<Rightarrow> (Inl e, w)
      | (Inr _, w) \<Rightarrow>
          (case attr_for_path E F path w of
             (Inl e, w) \<Rightarrow> (Inl e, w)
           | (Inr attr, w) \<Rightarrow> (Inr (Applied attr), w)))"

text \<open>The branch of a trusted caller: log the operation, then apply it at once.\<close>

definition begin_trusted_metadata ::
  "'h env \<Rightarrow> mount \<Rightarrow> requester_identity \<Rightarrow> sandbox_path \<Rightarrow> metadata_operation \<Rightarrow> metadata_object_key \<Rightarrow>
   'h world \<Rightarrow> (errno + metadata_outcome) \<times> 'h world"
where
  "begin_trusted_metadata E F identity path oper object w =
     (case fs_sandbox F w of
        None \<Rightarrow> (Inl ENOENT, w)
      | Some s \<Rightarrow>
          if resolve s (metadata_path oper) = None then (Inl ENOTSUP, w)
          else
            let (i, w) = fresh_operation_id w;
                trusted_id = map_option tr_id
                  (find (trusted_covers (mt_sandbox_name F) (req_pid identity) (req_uid identity) path)
                     (om_values (rg_trusted (w_registry w))));
                body = (case trusted_id of
                          Some t \<Rightarrow> ''trusted trusted='' @ show_nat t @ '' '' @ metadata_event_body oper
                        | None \<Rightarrow> ''trusted '' @ metadata_event_body oper)
            in case append_event E (sb_log_path s) i body w of
                 (Inl _, w) \<Rightarrow> (Inl EIO, w)
               | (Inr _, w) \<Rightarrow> apply_and_reread E F object path oper w)"

definition requires_metadata_protection ::
  "'h env \<Rightarrow> 'h world \<Rightarrow> sandbox \<Rightarrow> sandbox_path \<Rightarrow> pending_operation_kind list \<Rightarrow> bool"
where
  "requires_metadata_protection E w s path kinds =
     (let target_is_dir = path_is_directory (env_os E) (w_host w) s path in
      list_ex (\<lambda>kind.
        case kind of
          KXattr \<Rightarrow> is_protected (env_glob E) s Metadata path target_is_dir
                    \<or> is_protected (env_glob E) s Xattr path target_is_dir
        | _ \<Rightarrow> is_protected (env_glob E) s Metadata path target_is_dir) kinds)"

text \<open>Taking the keys of the new request out of the index, with the requests that held them.\<close>

fun take_index_keys :: "pending_operation_key list \<Rightarrow> registry \<Rightarrow> nat list \<times> registry" where
  "take_index_keys [] r = ([], r)"
| "take_index_keys (k # ks) r =
     (let found = om_get (rg_pending_index r) k;
          (ids, r') = take_index_keys ks (r\<lparr>rg_pending_index := om_remove k (rg_pending_index r)\<rparr>)
      in ((case found of Some i \<Rightarrow> [i] | None \<Rightarrow> []) @ ids, r'))"

definition unique_ids :: "nat list \<Rightarrow> nat list" where
  "unique_ids ids = fold (\<lambda>i acc. if i \<in> set acc then acc else acc @ [i]) ids []"

fun supersede ::
  "'h env \<Rightarrow> string \<Rightarrow> nat list \<Rightarrow> bool \<Rightarrow> 'h world \<Rightarrow> pending_waiter option list \<times> bool \<times> 'h world"
where
  "supersede E log_path [] failed w = ([], failed, w)"
| "supersede E log_path (old_id # ids) failed w =
     (case remove_pending_request old_id (w_registry w) of
        (None, _) \<Rightarrow> supersede E log_path ids failed w
      | (Some old_request, r) \<Rightarrow>
          let (decision_id, w) = fresh_operation_id (w\<lparr>w_registry := r\<rparr>);
              (logged, w) = append_event E log_path decision_id
                (''decision request='' @ show_nat old_id @ format_attach_field (pm_attach_id old_request)
                 @ '' DENY reason=superseded'') w;
              waiter = om_get (rg_pending_waiters (w_registry w)) old_id;
              w = with_registry (\<lambda>r. r\<lparr>rg_pending_waiters := om_remove old_id (rg_pending_waiters r)\<rparr>) w;
              (waiters, failed, w) = supersede E log_path ids (failed \<or> \<not> is_ok logged) w
          in (waiter # waiters, failed, w))"

definition notify_all :: "pending_waiter option list \<Rightarrow> pending_decision \<Rightarrow> 'h world \<Rightarrow> 'h world" where
  "notify_all waiters decision w = fold (\<lambda>c. notify_waiter c decision) waiters w"

text \<open>The branch of a protected operation: replace older requests for the same keys, then queue.\<close>

definition queue_metadata_request ::
  "'h env \<Rightarrow> mount \<Rightarrow> requester_identity \<Rightarrow> sandbox_path \<Rightarrow> metadata_operation \<Rightarrow> metadata_object_key \<Rightarrow>
   file_attr \<Rightarrow> string \<Rightarrow> 'h world \<Rightarrow> (errno + metadata_outcome) \<times> 'h world"
where
  "queue_metadata_request E F identity path oper object unchanged log_path w =
     (let kinds = pending_kinds oper;
          description = metadata_event_body oper;
          (waiter, w) = new_waiter w;
          (replacement_ids, r) =
            take_index_keys (pending_metadata_keys (mt_sandbox_name F) object kinds) (w_registry w);
          (superseded, failed, w) =
            supersede E log_path (unique_ids replacement_ids) False (w\<lparr>w_registry := r\<rparr>);
          (i, w) = fresh_operation_id w;
          (logged, w) = append_event E log_path i
            (''pending'' @ format_attach_field (mt_attach_id F) @ '' '' @ description) w;
          w = notify_all superseded Deny w
      in if failed \<or> \<not> is_ok logged then (Inl EIO, w)
         else
           let request = \<lparr>pm_id = i, pm_sandbox = mt_sandbox_name F, pm_attach_id = mt_attach_id F,
                 pm_operation = oper, pm_object = object, pm_kinds = kinds, pm_pid = req_pid identity,
                 pm_uid = req_uid identity, pm_gid = req_gid identity, pm_description = description\<rparr>;
               w = with_registry (insert_pending_request request) w;
               w = with_registry (\<lambda>r. r\<lparr>rg_pending_waiters := om_insert i waiter (rg_pending_waiters r)\<rparr>) w
           in (Inr (MetadataPending \<lparr>po_unchanged_attr = unchanged, po_path = path, po_object = object,
                 po_operation = oper, po_waiter = waiter\<rparr>), w))"

definition begin_metadata_request ::
  "'h env \<Rightarrow> mount \<Rightarrow> requester_identity \<Rightarrow> sandbox_path \<Rightarrow> metadata_operation \<Rightarrow> 'h world \<Rightarrow>
   (errno + metadata_outcome) \<times> 'h world"
where
  "begin_metadata_request E F identity path oper w =
     (case attr_for_path E F path w of
        (Inl e, w) \<Rightarrow> (Inl e, w)
      | (Inr unchanged, w) \<Rightarrow>
          (case fs_sandbox F w of
             None \<Rightarrow> (Inl ENOENT, w)
           | Some s \<Rightarrow>
               (case metadata_object_key s path of
                  None \<Rightarrow> (Inl ENOTSUP, w)
                | Some object \<Rightarrow>
                    if is_trusted_operation (w_registry w) (mt_sandbox_name F) (req_pid identity)
                         (req_uid identity) path
                    then begin_trusted_metadata E F identity path oper object w
                    else if pending_kinds oper = [] then (Inr (Applied unchanged), w)
                    else if \<not> requires_metadata_protection E w s path (pending_kinds oper)
                    then apply_and_reread E F object path oper w
                    else queue_metadata_request E F identity path oper object unchanged (sb_log_path s) w)))"

definition apply_pending_operation ::
  "mount \<Rightarrow> metadata_operation \<Rightarrow> metadata_object_key \<Rightarrow> 'h world \<Rightarrow> (errno + unit) \<times> 'h world"
where
  "apply_pending_operation F oper object w =
     apply_to_registry_object F object (metadata_path oper) oper w"

definition finish_pending_attr ::
  "'h env \<Rightarrow> mount \<Rightarrow> pending_metadata_outcome \<Rightarrow> 'h world \<Rightarrow> ((errno + file_attr) \<times> 'h world) option"
where
  "finish_pending_attr E F p w =
     (case wait_for_decision E (po_waiter p) w of
        None \<Rightarrow> None
      | Some (Apply, w) \<Rightarrow>
          (case apply_pending_operation F (po_operation p) (po_object p) w of
             (Inl e, w) \<Rightarrow> Some (Inl e, w)
           | (Inr _, w) \<Rightarrow> Some (attr_for_path E F (po_path p) w))
      | Some (DoNothing, w) \<Rightarrow> Some (Inr (po_unchanged_attr p), w)
      | Some (Deny, w) \<Rightarrow> Some (Inl EPERM, w)
      | Some (Cancel, w) \<Rightarrow> Some (Inl ECANCELED, w))"

section \<open>Authorisation of reads and writes\<close>

datatype read_write_decision = Proceed | Denied | Canceled

text \<open>An effect passes without a decision when it is bypassed or not protected.\<close>

definition effect_passes ::
  "'h env \<Rightarrow> 'h world \<Rightarrow> sandbox \<Rightarrow> read_write_operation \<Rightarrow> read_write_effect \<Rightarrow> bool"
where
  "effect_passes E w s oper e =
     (let target_is_dir = path_is_directory (env_os E) (w_host w) s (eff_path e) in
      (is_xattr_operation oper \<and> is_bypass (env_glob E) s Xattr (eff_path e) target_is_dir)
      \<or> is_bypass (env_glob E) s (eff_kind e) (eff_path e) target_is_dir
      \<or> \<not> is_protected (env_glob E) s (eff_kind e) (eff_path e) target_is_dir)"

text \<open>The request queued for an effect.\<close>

definition queue_effect ::
  "'h env \<Rightarrow> mount \<Rightarrow> requester_identity \<Rightarrow> process_identity option \<Rightarrow> read_write_operation \<Rightarrow> string \<Rightarrow>
   read_write_effect \<Rightarrow> 'h world \<Rightarrow> (errno + nat \<times> pending_waiter) \<times> 'h world"
where
  "queue_effect E F identity process oper log_path e w =
     (let (waiter, w) = new_waiter w;
          (i, w) = fresh_operation_id w;
          (logged, w) = append_event E log_path i
            (''pending'' @ format_attach_field (mt_attach_id F) @ '' '' @ eff_description e) w
      in case logged of
           Inl _ \<Rightarrow> (Inl EIO, w)
         | Inr _ \<Rightarrow>
             let request = with_process_identity process
                   (new_with_attach_effect i (mt_sandbox_name F) (mt_attach_id F) oper e identity);
                 w = with_registry (insert_pending_read_write_request request) w;
                 w = with_registry (\<lambda>r. r\<lparr>rg_pending_waiters := om_insert i waiter (rg_pending_waiters r)\<rparr>) w
             in (Inr (i, waiter), w))"

text \<open>The loop over the effects, under the registry lock: consumed grants, new request ids
  and their waiters are collected in order.\<close>

fun authorize_effects ::
  "'h env \<Rightarrow> mount \<Rightarrow> requester_identity \<Rightarrow> process_identity option \<Rightarrow> system_time \<Rightarrow> read_write_operation \<Rightarrow>
   string \<Rightarrow> read_write_effect list \<Rightarrow> (nat \<times> nat) list \<Rightarrow> (nat \<times> pending_waiter) list \<Rightarrow> 'h world \<Rightarrow>
   (errno + (nat \<times> nat) list \<times> (nat \<times> pending_waiter) list) \<times> 'h world"
where
  "authorize_effects E F identity process now oper log_path [] consumed queued w =
     (Inr (consumed, queued), w)"
| "authorize_effects E F identity process now oper log_path (e # es) consumed queued w =
     (case fs_sandbox F w of
        None \<Rightarrow> (Inl ENOENT, w)
      | Some s \<Rightarrow>
          if effect_passes E w s oper e
          then authorize_effects E F identity process now oper log_path es consumed queued w
          else
            (case match_read_write_grant_for_intent (env_glob E) (mt_sandbox_name F) (eff_kind e)
                    (eff_path e) process now (w_registry w) of
               (Matched gid True, r) \<Rightarrow>
                 (case fresh_operation_id (w\<lparr>w_registry := r\<rparr>) of
                    (i, w) \<Rightarrow>
                      authorize_effects E F identity process now oper log_path es
                        (consumed @ [(i, gid)]) queued w)
             | (Matched gid False, r) \<Rightarrow>
                 authorize_effects E F identity process now oper log_path es consumed queued
                   (w\<lparr>w_registry := r\<rparr>)
             | (NotMatched, r) \<Rightarrow>
                 (case queue_effect E F identity process oper log_path e (w\<lparr>w_registry := r\<rparr>) of
                    (Inl err, w) \<Rightarrow> (Inl err, w)
                  | (Inr q, w) \<Rightarrow>
                      authorize_effects E F identity process now oper log_path es consumed
                        (queued @ [q]) w)))"

text \<open>One fresh id per pruned grant, in order.\<close>

fun assign_event_ids :: "read_write_access_grant list \<Rightarrow> registry \<Rightarrow> (nat \<times> nat) list \<times> registry" where
  "assign_event_ids [] r = ([], r)"
| "assign_event_ids (g # gs) r =
     (let (i, r) = next_operation_id r; (rest, r) = assign_event_ids gs r
      in ((i, grant_id g) # rest, r))"

definition expired_event :: "nat \<times> nat \<Rightarrow> nat \<times> string" where
  "expired_event e = (fst e, ''grant-expired grant='' @ show_nat (snd e) @ '' lifetime=duration'')"

definition consumed_event :: "nat \<times> nat \<Rightarrow> nat \<times> string" where
  "consumed_event e = (fst e, ''grant-consumed grant='' @ show_nat (snd e) @ '' lifetime=one-shot'')"

text \<open>\<^verbatim>\<open>authorize_read_write\<close> up to the point where the caller starts to wait.\<close>

definition authorize_begin ::
  "'h env \<Rightarrow> mount \<Rightarrow> requester_identity \<Rightarrow> read_write_operation \<Rightarrow> 'h world \<Rightarrow>
   (errno + (nat \<times> pending_waiter) list) \<times> 'h world"
where
  "authorize_begin E F identity oper w =
     (case fs_sandbox F w of
        None \<Rightarrow> (Inl ENOENT, w)
      | Some s \<Rightarrow>
          let log_path = sb_log_path s;
              process = identity_for_pid (env_os E) (w_host w) (req_pid identity);
              now = os_now (env_os E) (w_host w);
              (pruned, r) = prune_expired_read_write_grants_for_sandbox (mt_sandbox_name F) now (w_registry w);
              (expired, r) = assign_event_ids pruned r
          in case authorize_effects E F identity process now oper log_path (effects oper) [] []
                    (w\<lparr>w_registry := r\<rparr>) of
               (Inl err, w) \<Rightarrow> (Inl err, w)
             | (Inr (consumed, queued), w) \<Rightarrow>
                 (Inr queued,
                  append_events E log_path (map expired_event expired @ map consumed_event consumed) w))"

fun await_decisions :: "'h env \<Rightarrow> pending_waiter list \<Rightarrow> 'h world \<Rightarrow> (read_write_decision \<times> 'h world) option" where
  "await_decisions E [] w = Some (Proceed, w)"
| "await_decisions E (c # cs) w =
     (case wait_for_decision E c w of
        None \<Rightarrow> None
      | Some (Apply, w) \<Rightarrow> await_decisions E cs w
      | Some (DoNothing, w) \<Rightarrow> await_decisions E cs w
      | Some (Deny, w) \<Rightarrow> Some (Denied, w)
      | Some (Cancel, w) \<Rightarrow> Some (Canceled, w))"

fun cancel_unresolved_read_write_effects :: "(nat \<times> pending_waiter) list \<Rightarrow> 'h world \<Rightarrow> 'h world" where
  "cancel_unresolved_read_write_effects [] w = w"
| "cancel_unresolved_read_write_effects ((i, waiter) # qs) w =
     (case remove_pending_read_write_request i (w_registry w) of
        (None, r) \<Rightarrow> cancel_unresolved_read_write_effects qs (w\<lparr>w_registry := r\<rparr>)
      | (Some _, r) \<Rightarrow>
          cancel_unresolved_read_write_effects qs
            (notify_waiter (Some waiter) Cancel
               (w\<lparr>w_registry := r\<lparr>rg_pending_waiters := om_remove i (rg_pending_waiters r)\<rparr>\<rparr>)))"

definition authorize_read_write ::
  "'h env \<Rightarrow> mount \<Rightarrow> requester_identity \<Rightarrow> read_write_operation \<Rightarrow> 'h world \<Rightarrow>
   ((errno + read_write_decision) \<times> 'h world) option"
where
  "authorize_read_write E F identity oper w =
     (case authorize_begin E F identity oper w of
        (Inl err, w) \<Rightarrow> Some (Inl err, w)
      | (Inr queued, w) \<Rightarrow>
          (case await_decisions E (map snd queued) w of
             None \<Rightarrow> None
           | Some (decision, w) \<Rightarrow>
               Some (Inr decision,
                     if decision \<noteq> Proceed then cancel_unresolved_read_write_effects queued w else w)))"

definition authorize_xattr_read ::
  "'h env \<Rightarrow> mount \<Rightarrow> requester_identity \<Rightarrow> read_write_operation \<Rightarrow> 'h world \<Rightarrow>
   ((errno + read_write_decision) \<times> 'h world) option"
where
  "authorize_xattr_read E F identity oper w = authorize_read_write E F identity oper w"

definition authorize_xattr_write ::
  "'h env \<Rightarrow> mount \<Rightarrow> requester_identity \<Rightarrow> sandbox_path \<Rightarrow> string \<Rightarrow> bool \<Rightarrow> 'h world \<Rightarrow>
   ((errno + read_write_decision) \<times> 'h world) option"
where
  "authorize_xattr_write E F identity path name remove w =
     (let name = to_string_lossy name;
          oper = (if remove then RemoveXattr path name else SetXattr path name)
      in authorize_read_write E F identity oper w)"

end
