(* ===== verification/Fs_Handlers.thy ===== *)
theory Fs_Handlers
  imports Fs
begin

text \<open>
  \<^verbatim>\<open>src/fs.rs\<close>, \<^verbatim>\<open>impl Filesystem for SandboxFs\<close>: the FUSE handlers. A handler maps the request
  and the shared state to its reply and the state after; the result is \<open>None\<close> when the
  caller waits for a decision that never comes. Handlers that start a thread to wait
  (\<^verbatim>\<open>setattr\<close>, \<^verbatim>\<open>ioctl\<close>) return what the thread was started with, and the thread is a
  function of its own. The match on the authorisation that the source repeats in every
  handler is \<open>match_decision\<close>. Arguments a handler ignores (lock owners, umask, rename flags) are
  left out, and so are the constant reply fields (TTL, generation, open flags).
\<close>

unbundle bit_operations_syntax

section \<open>Replies\<close>

type_synonym dir_entry = "u64 \<times> nat \<times> file_type \<times> string"

datatype reply =
    ReplyError errno
  | ReplyOk
  | ReplyAttr file_attr
  | ReplyEntry file_attr
  | ReplyData string
  | ReplyStatfs stat_fs
  | ReplyDirectory "dir_entry list"
  | ReplyOpened nat
  | ReplyCreated file_attr nat
  | ReplySize u32
  | ReplyWritten u32
  | ReplyIoctl string

datatype handler_result =
    Replied reply
  | SpawnedAttr pending_metadata_outcome
  | SpawnedIoctl pending_metadata_outcome

definition reply_result :: "(errno + 'a) \<Rightarrow> ('a \<Rightarrow> reply) \<Rightarrow> reply" where
  "reply_result r f = (case r of Inl e \<Rightarrow> ReplyError e | Inr a \<Rightarrow> f a)"

definition match_decision ::
  "((errno + read_write_decision) \<times> 'h world) option \<Rightarrow> ('h world \<Rightarrow> reply \<times> 'h world) \<Rightarrow>
   (reply \<times> 'h world) option"
where
  "match_decision authorized go =
     (case authorized of
        None \<Rightarrow> None
      | Some (Inr Proceed, w) \<Rightarrow> Some (go w)
      | Some (Inr Denied, w) \<Rightarrow> Some (ReplyError EACCES, w)
      | Some (Inr Canceled, w) \<Rightarrow> Some (ReplyError ECANCELED, w)
      | Some (Inl err, w) \<Rightarrow> Some (ReplyError err, w))"

definition gated ::
  "'h env \<Rightarrow> mount \<Rightarrow> requester_identity \<Rightarrow> read_write_operation \<Rightarrow> ('h world \<Rightarrow> reply \<times> 'h world) \<Rightarrow>
   'h world \<Rightarrow> (reply \<times> 'h world) option"
where
  "gated E F req oper go w = match_decision (authorize_read_write E F req oper w) go"

text \<open>A call into \<^verbatim>\<open>hostfs\<close> that changes the host.\<close>

definition on_host :: "('h \<Rightarrow> (io_error + 'a) \<times> 'h) \<Rightarrow> 'h world \<Rightarrow> (io_error + 'a) \<times> 'h world" where
  "on_host f w = (case f (w_host w) of (r, h) \<Rightarrow> (r, w\<lparr>w_host := h\<rparr>))"

text \<open>\<^verbatim>\<open>.and_then(|()| real_attr(path, local))\<close>, then \<^verbatim>\<open>attr.ino = self.remember(path)\<close>.\<close>

definition attr_after ::
  "'h env \<Rightarrow> sandbox_path \<Rightarrow> string \<Rightarrow> (file_attr \<Rightarrow> reply) \<Rightarrow> (io_error + unit) \<times> 'h world \<Rightarrow> reply \<times> 'h world"
where
  "attr_after E path local mk out =
     (case out of
        (Inl e, w) \<Rightarrow> (ReplyError (io_to_errno e), w)
      | (Inr _, w) \<Rightarrow>
          (case real_attr (env_os E) (w_host w) path local of
             Inl e \<Rightarrow> (ReplyError (io_to_errno e), w)
           | Inr attr \<Rightarrow> (case remember path w of (ino, w) \<Rightarrow> (mk (attr\<lparr>fa_ino := ino\<rparr>), w))))"

definition empty_after :: "(io_error + unit) \<times> 'h world \<Rightarrow> reply \<times> 'h world" where
  "empty_after out =
     (case out of
        (Inl e, w) \<Rightarrow> (ReplyError (io_to_errno e), w)
      | (Inr _, w) \<Rightarrow> (ReplyOk, w))"

definition alloc_handle :: "handle_info \<Rightarrow> 'h world \<Rightarrow> nat \<times> 'h world" where
  "alloc_handle info w =
     (w_next_handle w,
      w\<lparr>w_next_handle := w_next_handle w + 1, w_handles := om_insert (w_next_handle w) info (w_handles w)\<rparr>)"

section \<open>Looking\<close>

definition fs_lookup :: "'h env \<Rightarrow> mount \<Rightarrow> u64 \<Rightarrow> string \<Rightarrow> 'h world \<Rightarrow> reply \<times> 'h world" where
  "fs_lookup E F parent_ino name w =
     (case path_child parent_ino name w of
        Inl _ \<Rightarrow> (ReplyError ENOENT, w)
      | Inr path \<Rightarrow> (case attr_for_path E F path w of (r, w) \<Rightarrow> (reply_result r ReplyEntry, w)))"

definition fs_getattr :: "'h env \<Rightarrow> mount \<Rightarrow> u64 \<Rightarrow> 'h world \<Rightarrow> reply \<times> 'h world" where
  "fs_getattr E F ino w =
     (case path_for_ino ino w of
        None \<Rightarrow> (ReplyError ENOENT, w)
      | Some path \<Rightarrow> (case attr_for_path E F path w of (r, w) \<Rightarrow> (reply_result r ReplyAttr, w)))"

definition fs_readlink :: "'h env \<Rightarrow> mount \<Rightarrow> u64 \<Rightarrow> 'h world \<Rightarrow> reply \<times> 'h world" where
  "fs_readlink E F ino w =
     (case path_for_ino ino w of
        None \<Rightarrow> (ReplyError ENOENT, w)
      | Some path \<Rightarrow>
          (case fs_sandbox F w of
             None \<Rightarrow> (ReplyError ENOENT, w)
           | Some s \<Rightarrow>
               (case resolve s path of
                  Some (RealPath local _ _) \<Rightarrow>
                    (case hostfs_read_link (env_os E) (w_host w) local of
                       Inr target \<Rightarrow> (ReplyData target, w)
                     | Inl e \<Rightarrow> (ReplyError (io_to_errno e), w))
                | Some (VirtualDirPath _) \<Rightarrow> (ReplyError EINVAL, w)
                | None \<Rightarrow> (ReplyError ENOENT, w))))"

definition fs_statfs :: "'h env \<Rightarrow> mount \<Rightarrow> u64 \<Rightarrow> 'h world \<Rightarrow> reply \<times> 'h world" where
  "fs_statfs E F ino w =
     (let path = (case path_for_ino ino w of Some p \<Rightarrow> p | None \<Rightarrow> root) in
      case fs_sandbox F w of
        None \<Rightarrow> (ReplyError ENOENT, w)
      | Some s \<Rightarrow>
          (case (case resolve s path of
                   Some (RealPath local _ _) \<Rightarrow> Some local
                 | Some (VirtualDirPath _) \<Rightarrow>
                     Some (if sb_layers s = [] then ''/'' else ml_local (last (sb_layers s)))
                 | None \<Rightarrow> None) of
             None \<Rightarrow> (ReplyError ENOENT, w)
           | Some local \<Rightarrow>
               (case hostfs_statfs (env_os E) (w_host w) local of
                  Inr st \<Rightarrow> (ReplyStatfs st, w)
                | Inl e \<Rightarrow> (ReplyError (io_to_errno e), w))))"

definition fs_access ::
  "'h env \<Rightarrow> mount \<Rightarrow> requester_identity \<Rightarrow> u64 \<Rightarrow> u32 \<Rightarrow> 'h world \<Rightarrow> reply \<times> 'h world"
where
  "fs_access E F req ino amask w =
     (case path_for_ino ino w of
        None \<Rightarrow> (ReplyError ENOENT, w)
      | Some path \<Rightarrow>
          (case attr_for_path E F path w of
             (Inr attr, w) \<Rightarrow>
               (if check_access attr (req_uid req) (req_gid req) amask then ReplyOk else ReplyError EACCES, w)
           | (Inl e, w) \<Rightarrow> (ReplyError e, w)))"

text \<open>
  \<^verbatim>\<open>reply.add\<close> of the FUSE library reports that its buffer is full; \<open>fits\<close> (a parameter) says
  whether a list of entries still fits.
\<close>

fun fill_directory :: "(dir_entry list \<Rightarrow> bool) \<Rightarrow> dir_entry list \<Rightarrow> dir_entry list \<Rightarrow> dir_entry list" where
  "fill_directory fits acc [] = acc"
| "fill_directory fits acc (e # es) =
     (if fits (acc @ [e]) then fill_directory fits (acc @ [e]) es else acc)"

fun resolved_sandbox_path :: "resolved_path \<Rightarrow> sandbox_path" where
  "resolved_sandbox_path (RealPath _ _ p) = p"
| "resolved_sandbox_path (VirtualDirPath p) = p"

fun list_entries ::
  "'h env \<Rightarrow> mount \<Rightarrow> (string \<times> resolved_path) list \<Rightarrow> 'h world \<Rightarrow> (u64 \<times> file_type \<times> string) list \<times> 'h world"
where
  "list_entries E F [] w = ([], w)"
| "list_entries E F ((name, resolved) # es) w =
     (let path = resolved_sandbox_path resolved;
          (r, w) = attr_for_path E F path w;
          kind = (case r of Inr attr \<Rightarrow> fa_kind attr | Inl _ \<Rightarrow> RegularFile);
          (ino, w) = remember path w;
          (rest, w) = list_entries E F es w
      in ((ino, kind, name) # rest, w))"

definition number_entries :: "(u64 \<times> file_type \<times> string) list \<Rightarrow> dir_entry list" where
  "number_entries all = map (\<lambda>(idx, ino, kind, name). (ino, idx + 1, kind, name)) (zip [0..<length all] all)"

definition read_directory ::
  "'h env \<Rightarrow> mount \<Rightarrow> u64 \<Rightarrow> sandbox_path \<Rightarrow> nat \<Rightarrow> (dir_entry list \<Rightarrow> bool) \<Rightarrow> 'h world \<Rightarrow> reply \<times> 'h world"
where
  "read_directory E F ino dir offset fits w =
     (case fs_sandbox F w of
        None \<Rightarrow> (ReplyError ENOENT, w)
      | Some s \<Rightarrow>
          (case children (env_os E) (w_host w) s dir of
             Inl _ \<Rightarrow> (ReplyError ENOENT, w)
           | Inr entries \<Rightarrow>
               let parent_ino = (case parent dir of Some p \<Rightarrow> stable_ino p | None \<Rightarrow> ino);
                   (listed, w) = list_entries E F entries w;
                   all = (ino, Directory, ''.'') # (parent_ino, Directory, ''..'') # listed
               in (ReplyDirectory (fill_directory fits [] (drop offset (number_entries all))), w)))"

definition fs_readdir ::
  "'h env \<Rightarrow> mount \<Rightarrow> requester_identity \<Rightarrow> u64 \<Rightarrow> nat \<Rightarrow> (dir_entry list \<Rightarrow> bool) \<Rightarrow> 'h world \<Rightarrow>
   (reply \<times> 'h world) option"
where
  "fs_readdir E F req ino offset fits w =
     (case path_for_ino ino w of
        None \<Rightarrow> Some (ReplyError ENOENT, w)
      | Some dir \<Rightarrow> gated E F req (ReadDirectory dir) (read_directory E F ino dir offset fits) w)"

section \<open>Files\<close>

definition open_resolved ::
  "'h env \<Rightarrow> mount \<Rightarrow> sandbox_path \<Rightarrow> bool \<Rightarrow> bool \<Rightarrow> 'h world \<Rightarrow> reply \<times> 'h world"
where
  "open_resolved E F path writable appending w =
     (case fs_sandbox F w of
        None \<Rightarrow> (ReplyError ENOENT, w)
      | Some s \<Rightarrow>
          (case resolve s path of
             Some (RealPath local _ _) \<Rightarrow>
               if os_is_file (env_os E) (w_host w) local
               then (case alloc_handle \<lparr>hi_local_path = local, hi_sandbox_path = path,
                        hi_writable = writable, hi_append = appending\<rparr> w of
                       (fh, w) \<Rightarrow> (ReplyOpened fh, w))
               else (ReplyError EACCES, w)
           | Some (VirtualDirPath _) \<Rightarrow> (ReplyError EISDIR, w)
           | None \<Rightarrow> (ReplyError ENOENT, w)))"

definition fs_open ::
  "'h env \<Rightarrow> mount \<Rightarrow> requester_identity \<Rightarrow> u64 \<Rightarrow> u32 \<Rightarrow> 'h world \<Rightarrow> (reply \<times> 'h world) option"
where
  "fs_open E F req ino flags w =
     (case path_for_ino ino w of
        None \<Rightarrow> Some (ReplyError ENOENT, w)
      | Some path \<Rightarrow>
          let writable = (flags AND 3 \<noteq> 0);
              appending = (flags AND 0x400 \<noteq> 0)
          in if writable
             then gated E F req (OpenWrite path) (open_resolved E F path writable appending) w
             else Some (open_resolved E F path writable appending w))"

definition fs_read ::
  "'h env \<Rightarrow> mount \<Rightarrow> requester_identity \<Rightarrow> nat \<Rightarrow> u64 \<Rightarrow> u32 \<Rightarrow> 'h world \<Rightarrow> (reply \<times> 'h world) option"
where
  "fs_read E F req fh offset len w =
     (case om_get (w_handles w) fh of
        None \<Rightarrow> Some (ReplyError EBADF, w)
      | Some handle \<Rightarrow>
          gated E F req (ReadFile (hi_sandbox_path handle))
            (\<lambda>w. case os_read_at (env_os E) (w_host w) (hi_local_path handle) offset len of
                   Inr data \<Rightarrow> (ReplyData data, w)
                 | Inl e \<Rightarrow> (ReplyError (io_to_errno e), w)) w)"

definition fs_flush :: "nat \<Rightarrow> 'h world \<Rightarrow> reply \<times> 'h world" where
  "fs_flush fh w = (if om_get (w_handles w) fh \<noteq> None then ReplyOk else ReplyError EBADF, w)"

definition fs_release :: "nat \<Rightarrow> 'h world \<Rightarrow> reply \<times> 'h world" where
  "fs_release fh w = (ReplyOk, w\<lparr>w_handles := om_remove fh (w_handles w)\<rparr>)"

definition fs_fsync :: "nat \<Rightarrow> 'h world \<Rightarrow> reply \<times> 'h world" where
  "fs_fsync fh w = (if om_get (w_handles w) fh \<noteq> None then ReplyOk else ReplyError EBADF, w)"

definition fs_write ::
  "'h env \<Rightarrow> mount \<Rightarrow> requester_identity \<Rightarrow> nat \<Rightarrow> u64 \<Rightarrow> string \<Rightarrow> 'h world \<Rightarrow> (reply \<times> 'h world) option"
where
  "fs_write E F req fh offset data w =
     (case om_get (w_handles w) fh of
        None \<Rightarrow> Some (ReplyError EBADF, w)
      | Some handle \<Rightarrow>
          if \<not> hi_writable handle then Some (ReplyError EBADF, w)
          else gated E F req (WriteFile (hi_sandbox_path handle))
            (\<lambda>w. case on_host (\<lambda>h. os_write_at (env_os E) h (hi_local_path handle) (hi_append handle) offset data) w of
                   (Inr written, w) \<Rightarrow> (ReplyWritten (of_nat written), w)
                 | (Inl e, w) \<Rightarrow> (ReplyError (io_to_errno e), w)) w)"

section \<open>Attributes\<close>

definition truncate_file ::
  "'h env \<Rightarrow> mount \<Rightarrow> u64 \<Rightarrow> sandbox_path \<Rightarrow> u64 \<Rightarrow> nat option \<Rightarrow> 'h world \<Rightarrow> reply \<times> 'h world"
where
  "truncate_file E F ino path len fh w =
     (let handle = (case fh of Some f \<Rightarrow> om_get (w_handles w) f | None \<Rightarrow> None);
          local = (case handle of Some info \<Rightarrow> Some (hi_local_path info) | None \<Rightarrow> local_path_for_ino F ino w)
      in case local of
           None \<Rightarrow> (ReplyError ENOENT, w)
         | Some local \<Rightarrow>
             attr_after E path local ReplyAttr (on_host (\<lambda>h. hostfs_truncate (env_os E) h local len) w))"

definition fs_setattr ::
  "'h env \<Rightarrow> mount \<Rightarrow> requester_identity \<Rightarrow> u64 \<Rightarrow> u32 option \<Rightarrow> u32 option \<Rightarrow> u32 option \<Rightarrow> u64 option \<Rightarrow>
   time_or_now option \<Rightarrow> time_or_now option \<Rightarrow> nat option \<Rightarrow> u32 option \<Rightarrow> 'h world \<Rightarrow>
   (handler_result \<times> 'h world) option"
where
  "fs_setattr E F req ino mode uid gid len atime mtime fh flags w =
     (case path_for_ino ino w of
        None \<Rightarrow> Some (Replied (ReplyError ENOENT), w)
      | Some path \<Rightarrow>
          (case len of
             Some len \<Rightarrow>
               map_option (\<lambda>(r, w). (Replied r, w))
                 (gated E F req (Truncate path) (truncate_file E F ino path len fh) w)
           | None \<Rightarrow>
               let atime = map_option (resolve_time_or_now (env_os E) (w_host w)) atime;
                   mtime = map_option (resolve_time_or_now (env_os E) (w_host w)) mtime;
                   target_is_dir = (case fs_path_is_directory E F path w of Inr d \<Rightarrow> d | Inl _ \<Rightarrow> False)
               in if (atime \<noteq> None \<or> mtime \<noteq> None) \<and> mode = None \<and> uid = None \<and> gid = None \<and> flags = None
                     \<and> (case path_matches_bypass E F Metadata path target_is_dir w of Inr b \<Rightarrow> b | Inl _ \<Rightarrow> False)
                  then
                    (case local_path_for_ino F ino w of
                       None \<Rightarrow> Some (Replied (ReplyError ENOENT), w)
                     | Some local \<Rightarrow>
                         (case attr_after E path local ReplyAttr
                                 (on_host (\<lambda>h. hostfs_set_times (env_os E) h local atime mtime) w) of
                            (r, w) \<Rightarrow> Some (Replied r, w)))
                  else
                    let oper = SetAttr path (map_option (\<lambda>m. ucast (m AND 0xFFF)) mode) uid gid flags atime mtime
                    in (case begin_metadata_request E F req path oper w of
                          (Inr (Applied attr), w) \<Rightarrow> Some (Replied (ReplyAttr attr), w)
                        | (Inr (MetadataPending p), w) \<Rightarrow> Some (SpawnedAttr p, w)
                        | (Inl e, w) \<Rightarrow> Some (Replied (ReplyError e), w))))"

text \<open>The threads started by \<^verbatim>\<open>setattr\<close> and \<^verbatim>\<open>ioctl\<close>.\<close>

definition spawn_attr_waiter ::
  "'h env \<Rightarrow> mount \<Rightarrow> pending_metadata_outcome \<Rightarrow> 'h world \<Rightarrow> (reply \<times> 'h world) option"
where
  "spawn_attr_waiter E F p w =
     map_option (\<lambda>(r, w). (reply_result r ReplyAttr, w)) (finish_pending_attr E F p w)"

definition spawn_ioctl_waiter ::
  "'h env \<Rightarrow> mount \<Rightarrow> pending_metadata_outcome \<Rightarrow> 'h world \<Rightarrow> (reply \<times> 'h world) option"
where
  "spawn_ioctl_waiter E F p w =
     (case wait_for_decision E (po_waiter p) w of
        None \<Rightarrow> None
      | Some (Apply, w) \<Rightarrow>
          (case apply_pending_operation F (po_operation p) (po_object p) w of
             (Inr _, w) \<Rightarrow> Some (ReplyIoctl [], w)
           | (Inl e, w) \<Rightarrow> Some (ReplyError e, w))
      | Some (DoNothing, w) \<Rightarrow> Some (ReplyIoctl [], w)
      | Some (Deny, w) \<Rightarrow> Some (ReplyError EPERM, w)
      | Some (Cancel, w) \<Rightarrow> Some (ReplyError ECANCELED, w))"

definition ioctl_set_flags ::
  "'h env \<Rightarrow> mount \<Rightarrow> requester_identity \<Rightarrow> sandbox_path \<Rightarrow> u32 \<Rightarrow> 'h world \<Rightarrow> handler_result \<times> 'h world"
where
  "ioctl_set_flags E F req path flags w =
     (case begin_metadata_request E F req path (Chattr path flags) w of
        (Inr (Applied _), w) \<Rightarrow> (Replied (ReplyIoctl []), w)
      | (Inr (MetadataPending p), w) \<Rightarrow> (SpawnedIoctl p, w)
      | (Inl e, w) \<Rightarrow> (Replied (ReplyError e), w))"

definition fs_ioctl ::
  "'h env \<Rightarrow> mount \<Rightarrow> requester_identity \<Rightarrow> u64 \<Rightarrow> u32 \<Rightarrow> string \<Rightarrow> 'h world \<Rightarrow> handler_result \<times> 'h world"
where
  "fs_ioctl E F req ino cmd in_data w =
     (case path_for_ino ino w of
        None \<Rightarrow> (Replied (ReplyError ENOENT), w)
      | Some path \<Rightarrow>
          if cmd = 0x80086601 \<or> cmd = 0x80046601 then
            (case attr_for_path E F path w of
               (r, w) \<Rightarrow> (Replied (reply_result r (\<lambda>attr. ReplyIoctl (to_ne_bytes (fa_flags attr)))), w))
          else if cmd = 0x801c581f then
            (case attr_for_path E F path w of
               (r, w) \<Rightarrow> (Replied (reply_result r (\<lambda>attr. ReplyIoctl (encode_fsxattr (fa_flags attr)))), w))
          else if cmd = 0x40086602 \<or> cmd = 0x40046602 then
            (if length in_data < 4 then (Replied (ReplyError EINVAL), w)
             else ioctl_set_flags E F req path (from_ne_bytes (take 4 in_data)) w)
          else if cmd = 0x401c5820 then
            (case decode_fsxattr_flags in_data of
               Inl e \<Rightarrow> (Replied (ReplyError e), w)
             | Inr flags \<Rightarrow> ioctl_set_flags E F req path flags w)
          else (Replied (ReplyError ENOTSUP), w))"

section \<open>Extended attributes\<close>

definition fs_setxattr ::
  "'h env \<Rightarrow> mount \<Rightarrow> requester_identity \<Rightarrow> u64 \<Rightarrow> string \<Rightarrow> string \<Rightarrow> int \<Rightarrow> u32 \<Rightarrow> 'h world \<Rightarrow>
   (reply \<times> 'h world) option"
where
  "fs_setxattr E F req ino name data flags position w =
     (if position \<noteq> 0 then Some (ReplyError ENOTSUP, w)
      else case path_and_local_path_for_ino F ino w of
        None \<Rightarrow> Some (ReplyError ENOENT, w)
      | Some (path, local) \<Rightarrow>
          match_decision (authorize_xattr_write E F req path name False w)
            (\<lambda>w. empty_after (on_host (\<lambda>h. hostfs_setxattr (env_os E) h local name data flags) w)))"

definition xattr_reply :: "u32 \<Rightarrow> io_error + string \<Rightarrow> reply" where
  "xattr_reply len r =
     (case r of
        Inr data \<Rightarrow>
          if len = 0 then ReplySize (of_nat (length data))
          else if length data \<le> unat len then ReplyData data
          else ReplyError ERANGE
      | Inl e \<Rightarrow> ReplyError (io_to_errno e))"

definition fs_getxattr ::
  "'h env \<Rightarrow> mount \<Rightarrow> requester_identity \<Rightarrow> u64 \<Rightarrow> string \<Rightarrow> u32 \<Rightarrow> 'h world \<Rightarrow> (reply \<times> 'h world) option"
where
  "fs_getxattr E F req ino name len w =
     (case path_and_local_path_for_ino F ino w of
        None \<Rightarrow> Some (ReplyError ENOENT, w)
      | Some (path, local) \<Rightarrow>
          match_decision (authorize_xattr_read E F req (GetXattr path (to_string_lossy name)) w)
            (\<lambda>w. (xattr_reply len (hostfs_getxattr (env_os E) (w_host w) local name), w)))"

definition fs_listxattr ::
  "'h env \<Rightarrow> mount \<Rightarrow> requester_identity \<Rightarrow> u64 \<Rightarrow> u32 \<Rightarrow> 'h world \<Rightarrow> (reply \<times> 'h world) option"
where
  "fs_listxattr E F req ino len w =
     (case path_and_local_path_for_ino F ino w of
        None \<Rightarrow> Some (ReplyError ENOENT, w)
      | Some (path, local) \<Rightarrow>
          match_decision (authorize_xattr_read E F req (ListXattr path) w)
            (\<lambda>w. (xattr_reply len (hostfs_listxattr (env_os E) (w_host w) local), w)))"

definition fs_removexattr ::
  "'h env \<Rightarrow> mount \<Rightarrow> requester_identity \<Rightarrow> u64 \<Rightarrow> string \<Rightarrow> 'h world \<Rightarrow> (reply \<times> 'h world) option"
where
  "fs_removexattr E F req ino name w =
     (case path_and_local_path_for_ino F ino w of
        None \<Rightarrow> Some (ReplyError ENOENT, w)
      | Some (path, local) \<Rightarrow>
          match_decision (authorize_xattr_write E F req path name True w)
            (\<lambda>w. empty_after (on_host (\<lambda>h. hostfs_removexattr (env_os E) h local name) w)))"

section \<open>Changing directories\<close>

definition create_options :: "u32 \<Rightarrow> u32 \<Rightarrow> open_options" where
  "create_options mode flags =
     (let exclusive = (flags AND 0x80 \<noteq> 0)
      in \<lparr>oo_write = True, oo_read = (flags AND 3 = 2), oo_append = (flags AND 0x400 \<noteq> 0),
          oo_mode = mode AND 0xFFF, oo_create_new = exclusive, oo_create = \<not> exclusive,
          oo_truncate = (\<not> exclusive \<and> flags AND 0x200 \<noteq> 0)\<rparr>)"

definition create_file ::
  "'h env \<Rightarrow> mount \<Rightarrow> u64 \<Rightarrow> string \<Rightarrow> sandbox_path \<Rightarrow> u32 \<Rightarrow> u32 \<Rightarrow> 'h world \<Rightarrow> reply \<times> 'h world"
where
  "create_file E F parent_ino name path mode flags w =
     (case local_path_for_child F parent_ino name w of
        Inl e \<Rightarrow> (ReplyError e, w)
      | Inr local \<Rightarrow>
          (case on_host (\<lambda>h. os_open_with (env_os E) h local (create_options mode flags)) w of
             (Inl e, w) \<Rightarrow> (ReplyError (io_to_errno e), w)
           | (Inr _, w) \<Rightarrow>
               (case real_attr (env_os E) (w_host w) path local of
                  Inl e \<Rightarrow> (ReplyError (io_to_errno e), w)
                | Inr attr \<Rightarrow>
                    let (ino, w) = remember path w;
                        (fh, w) = alloc_handle \<lparr>hi_local_path = local, hi_sandbox_path = path,
                          hi_writable = True, hi_append = (flags AND 0x400 \<noteq> 0)\<rparr> w
                    in (ReplyCreated (attr\<lparr>fa_ino := ino\<rparr>) fh, w))))"

definition fs_create ::
  "'h env \<Rightarrow> mount \<Rightarrow> requester_identity \<Rightarrow> u64 \<Rightarrow> string \<Rightarrow> u32 \<Rightarrow> u32 \<Rightarrow> 'h world \<Rightarrow> (reply \<times> 'h world) option"
where
  "fs_create E F req parent_ino name mode flags w =
     (case path_child parent_ino name w of
        Inl _ \<Rightarrow> Some (ReplyError ENOENT, w)
      | Inr path \<Rightarrow> gated E F req (Create path) (create_file E F parent_ino name path mode flags) w)"

text \<open>The common shape of \<^verbatim>\<open>mkdir\<close>, \<^verbatim>\<open>mknod\<close> and \<^verbatim>\<open>symlink\<close>: resolve the new local path, call the
  host, reply with the attributes of what was made.\<close>

definition make_entry ::
  "'h env \<Rightarrow> mount \<Rightarrow> u64 \<Rightarrow> string \<Rightarrow> sandbox_path \<Rightarrow> (string \<Rightarrow> 'h \<Rightarrow> (io_error + unit) \<times> 'h) \<Rightarrow>
   'h world \<Rightarrow> reply \<times> 'h world"
where
  "make_entry E F parent_ino name path call w =
     (case local_path_for_child F parent_ino name w of
        Inl e \<Rightarrow> (ReplyError e, w)
      | Inr local \<Rightarrow> attr_after E path local ReplyEntry (on_host (call local) w))"

definition fs_mkdir ::
  "'h env \<Rightarrow> mount \<Rightarrow> requester_identity \<Rightarrow> u64 \<Rightarrow> string \<Rightarrow> u32 \<Rightarrow> 'h world \<Rightarrow> (reply \<times> 'h world) option"
where
  "fs_mkdir E F req parent_ino name mode w =
     (case path_child parent_ino name w of
        Inl _ \<Rightarrow> Some (ReplyError ENOENT, w)
      | Inr path \<Rightarrow>
          gated E F req (Mkdir path)
            (make_entry E F parent_ino name path (\<lambda>local h. hostfs_mkdir (env_os E) h local (mode AND 0xFFF))) w)"

definition fs_mknod ::
  "'h env \<Rightarrow> mount \<Rightarrow> requester_identity \<Rightarrow> u64 \<Rightarrow> string \<Rightarrow> u32 \<Rightarrow> u32 \<Rightarrow> 'h world \<Rightarrow> (reply \<times> 'h world) option"
where
  "fs_mknod E F req parent_ino name mode rdev w =
     (case path_child parent_ino name w of
        Inl _ \<Rightarrow> Some (ReplyError ENOENT, w)
      | Inr path \<Rightarrow>
          gated E F req (Mknod path)
            (make_entry E F parent_ino name path (\<lambda>local h. hostfs_mknod (env_os E) h local mode rdev)) w)"

definition fs_symlink ::
  "'h env \<Rightarrow> mount \<Rightarrow> requester_identity \<Rightarrow> u64 \<Rightarrow> string \<Rightarrow> string \<Rightarrow> 'h world \<Rightarrow> (reply \<times> 'h world) option"
where
  "fs_symlink E F req parent_ino name target w =
     (case path_child parent_ino name w of
        Inl _ \<Rightarrow> Some (ReplyError ENOENT, w)
      | Inr path \<Rightarrow>
          gated E F req (Symlink path)
            (make_entry E F parent_ino name path (\<lambda>local h. hostfs_symlink (env_os E) h target local)) w)"

definition link_file ::
  "'h env \<Rightarrow> mount \<Rightarrow> u64 \<Rightarrow> u64 \<Rightarrow> string \<Rightarrow> sandbox_path \<Rightarrow> 'h world \<Rightarrow> reply \<times> 'h world"
where
  "link_file E F ino newparent newname to_path w =
     (case local_path_for_ino F ino w of
        None \<Rightarrow> (ReplyError ENOENT, w)
      | Some from_local \<Rightarrow>
          (case local_path_for_child F newparent newname w of
             Inl e \<Rightarrow> (ReplyError e, w)
           | Inr to_local \<Rightarrow>
               attr_after E to_path to_local ReplyEntry
                 (on_host (\<lambda>h. hostfs_hard_link (env_os E) h from_local to_local) w)))"

definition fs_link ::
  "'h env \<Rightarrow> mount \<Rightarrow> requester_identity \<Rightarrow> u64 \<Rightarrow> u64 \<Rightarrow> string \<Rightarrow> 'h world \<Rightarrow> (reply \<times> 'h world) option"
where
  "fs_link E F req ino newparent newname w =
     (case path_for_ino ino w of
        None \<Rightarrow> Some (ReplyError ENOENT, w)
      | Some from_path \<Rightarrow>
          (case path_child newparent newname w of
             Inl _ \<Rightarrow> Some (ReplyError ENOENT, w)
           | Inr to_path \<Rightarrow>
               gated E F req (Link from_path to_path) (link_file E F ino newparent newname to_path) w))"

definition remove_entry ::
  "mount \<Rightarrow> u64 \<Rightarrow> string \<Rightarrow> (string \<Rightarrow> 'h \<Rightarrow> (io_error + unit) \<times> 'h) \<Rightarrow> 'h world \<Rightarrow> reply \<times> 'h world"
where
  "remove_entry F parent_ino name call w =
     (case local_path_for_child F parent_ino name w of
        Inl e \<Rightarrow> (ReplyError e, w)
      | Inr local \<Rightarrow> empty_after (on_host (call local) w))"

definition fs_unlink ::
  "'h env \<Rightarrow> mount \<Rightarrow> requester_identity \<Rightarrow> u64 \<Rightarrow> string \<Rightarrow> 'h world \<Rightarrow> (reply \<times> 'h world) option"
where
  "fs_unlink E F req parent_ino name w =
     (case path_child parent_ino name w of
        Inl _ \<Rightarrow> Some (ReplyError ENOENT, w)
      | Inr path \<Rightarrow>
          gated E F req (Unlink path) (remove_entry F parent_ino name (\<lambda>local h. hostfs_unlink (env_os E) h local)) w)"

definition fs_rmdir ::
  "'h env \<Rightarrow> mount \<Rightarrow> requester_identity \<Rightarrow> u64 \<Rightarrow> string \<Rightarrow> 'h world \<Rightarrow> (reply \<times> 'h world) option"
where
  "fs_rmdir E F req parent_ino name w =
     (case path_child parent_ino name w of
        Inl _ \<Rightarrow> Some (ReplyError ENOENT, w)
      | Inr path \<Rightarrow>
          gated E F req (Rmdir path) (remove_entry F parent_ino name (\<lambda>local h. hostfs_rmdir (env_os E) h local)) w)"

definition rename_entry ::
  "'h env \<Rightarrow> mount \<Rightarrow> u64 \<Rightarrow> string \<Rightarrow> u64 \<Rightarrow> string \<Rightarrow> 'h world \<Rightarrow> reply \<times> 'h world"
where
  "rename_entry E F parent_ino name newparent newname w =
     (case local_path_for_child F parent_ino name w of
        Inl e \<Rightarrow> (ReplyError e, w)
      | Inr from_local \<Rightarrow>
          (case local_path_for_child F newparent newname w of
             Inl e \<Rightarrow> (ReplyError e, w)
           | Inr to_local \<Rightarrow> empty_after (on_host (\<lambda>h. hostfs_rename (env_os E) h from_local to_local) w)))"

definition fs_rename ::
  "'h env \<Rightarrow> mount \<Rightarrow> requester_identity \<Rightarrow> u64 \<Rightarrow> string \<Rightarrow> u64 \<Rightarrow> string \<Rightarrow> 'h world \<Rightarrow>
   (reply \<times> 'h world) option"
where
  "fs_rename E F req parent_ino name newparent newname w =
     (case path_child parent_ino name w of
        Inl _ \<Rightarrow> Some (ReplyError ENOENT, w)
      | Inr from_path \<Rightarrow>
          (case path_child newparent newname w of
             Inl _ \<Rightarrow> Some (ReplyError ENOENT, w)
           | Inr to_path \<Rightarrow>
               gated E F req (Rename from_path to_path)
                 (rename_entry E F parent_ino name newparent newname) w))"

end
