(* ===== verification/Ipc.thy ===== *)
theory Ipc
  imports World
begin

text \<open>
  \<^verbatim>\<open>src/ipc.rs\<close>: the requests a session serves and its responses, and \<^verbatim>\<open>src/runtime.rs\<close>: where a
  session keeps its socket, its log and its temporary mounts. The lines that carry them are
  in \<open>Wire\<close>.
\<close>

section \<open>Requests and responses\<close>

datatype request =
    Ping
  | Shutdown string
  | Attach string string bool
  | Detach string string
  | Mount string string sandbox_path
  | Umount string sandbox_path
  | Hide string sandbox_path
  | Protect string protection_kind policy_pattern
  | Unprotect string protection_kind policy_pattern
  | Bypass string protection_kind policy_pattern
  | Unbypass string protection_kind policy_pattern
  | ListProtection string bool bool bool bool
  | ListBypass string bool bool bool bool
  | ListMounts string
  | MetadataList string
  | BeginTrustedOperation string string string "trusted_path_scope list"
  | RegisterTrustedPid string u32 u32
  | EndTrustedOperation string
  | Pending string
  | Allow string nat bool "read_write_grant_options option"
  | DenyRequest string nat
  | CancelRequest string nat
  | CancelAll string "string option"
  | LogPath string

datatype response =
    ResponseOk
  | ResponseText string
  | ResponseWarning string
  | ResponsePending "pending_request list"
  | ResponseProtectionRules "protection_rule list"
  | ResponseBypassRules "bypass_rule list"
  | ResponseTrusted string nat string
  | ResponseError string

section \<open>Runtime paths\<close>

record runtime_paths =
  rt_runtime_dir :: string
  rt_log_dir :: string
  rt_socket_override :: "string option"

definition socket_path :: "runtime_paths \<Rightarrow> string \<Rightarrow> string" where
  "socket_path rt name =
     (case rt_socket_override rt of
        Some p \<Rightarrow> p
      | None \<Rightarrow> path_join (rt_runtime_dir rt) (name @ ''.sock''))"

definition sandbox_log_path :: "runtime_paths \<Rightarrow> string \<Rightarrow> string" where
  "sandbox_log_path rt name = path_join (rt_log_dir rt) (name @ ''.log'')"

definition tmp_mount_dir :: "runtime_paths \<Rightarrow> string \<Rightarrow> nat \<Rightarrow> string" where
  "tmp_mount_dir rt name operation_id =
     path_join (path_join (rt_runtime_dir rt) ''tmp'') (name @ ''-'' @ show_nat operation_id)"

text \<open>
  \<^verbatim>\<open>runtime_dir\<close> and \<^verbatim>\<open>RuntimePaths::discover\<close>: environment variables come first, then the
  directories the \<^verbatim>\<open>directories\<close> crate proposes (a parameter: the runtime directory, when there
  is one, and the cache directory). Every directory is made private to its owner; the call
  that changes permissions is a parameter too.
\<close>

record project_dirs =
  pd_runtime_dir :: "string option"
  pd_cache_dir :: string

definition runtime_dir_from_project_dirs :: "project_dirs \<Rightarrow> string" where
  "runtime_dir_from_project_dirs dirs =
     (case pd_runtime_dir dirs of
        Some dir \<Rightarrow> dir
      | None \<Rightarrow> path_join (pd_cache_dir dirs) ''run'')"

definition runtime_dir :: "(string \<Rightarrow> string option) \<Rightarrow> project_dirs option \<Rightarrow> string res" where
  "runtime_dir env dirs =
     (case env ''GATEFS_RUNTIME_DIR'' of
        Some dir \<Rightarrow> Inr dir
      | None \<Rightarrow>
          (case dirs of
             None \<Rightarrow> Inl (Message ''could not determine standard project directories for gatefs'')
           | Some d \<Rightarrow> Inr (runtime_dir_from_project_dirs d)))"

type_synonym 'h set_permissions = "'h \<Rightarrow> string \<Rightarrow> u32 \<Rightarrow> (io_error + unit) \<times> 'h"

definition ensure_private_dir :: "'h os \<Rightarrow> 'h set_permissions \<Rightarrow> string \<Rightarrow> 'h \<Rightarrow> unit res \<times> 'h" where
  "ensure_private_dir S chmod path h =
     (case os_create_dir_all S h path of
        (Inl e, h) \<Rightarrow> (Inl (Io e), h)
      | (Inr _, h) \<Rightarrow> (case chmod h path 0x1C0 of (r, h) \<Rightarrow> (map_err Io r, h)))"

definition ensure_runtime_dir :: "'h os \<Rightarrow> 'h set_permissions \<Rightarrow> string \<Rightarrow> 'h \<Rightarrow> unit res \<times> 'h" where
  "ensure_runtime_dir S chmod path h =
     (case ensure_private_dir S chmod path h of
        (Inl e, h) \<Rightarrow> (Inl e, h)
      | (Inr _, h) \<Rightarrow> ensure_private_dir S chmod (path_join path ''tmp'') h)"

definition discover ::
  "'h os \<Rightarrow> 'h set_permissions \<Rightarrow> (string \<Rightarrow> string option) \<Rightarrow> project_dirs option \<Rightarrow> 'h \<Rightarrow>
   runtime_paths res \<times> 'h"
where
  "discover S chmod env dirs h =
     (case runtime_dir env dirs of
        Inl e \<Rightarrow> (Inl e, h)
      | Inr dir \<Rightarrow>
          (case ensure_runtime_dir S chmod dir h of
             (Inl e, h) \<Rightarrow> (Inl e, h)
           | (Inr _, h) \<Rightarrow>
               let log_dir = (case env ''GATEFS_LOG_DIR'' of Some d \<Rightarrow> d | None \<Rightarrow> dir)
               in case ensure_private_dir S chmod log_dir h of
                    (Inl e, h) \<Rightarrow> (Inl e, h)
                  | (Inr _, h) \<Rightarrow>
                      (Inr \<lparr>rt_runtime_dir = dir, rt_log_dir = log_dir,
                            rt_socket_override = env ''GATEFS_SOCKET''\<rparr>, h)))"

end
