(* ===== verification/Session.thy ===== *)
theory Session
  imports Ipc Fs
begin

text \<open>
  \<^verbatim>\<open>src/session.rs\<close>: the server of a sandbox session. A session holds the shared state, the
  mounted file systems and its runtime paths; each request of the protocol is a function
  from the session before to its result and the session after. Requests that fail part way
  keep what they did before the failure, as the source does. The operations that only touch
  the shared state are functions on it and are lifted by \<open>in_world\<close>.
\<close>

section \<open>State\<close>

text \<open>A mounted file system with its own tables (\<^verbatim>\<open>MountedSession\<close> and the \<^verbatim>\<open>SandboxFs\<close> behind it).\<close>

record mounted_session =
  ms_sandbox :: string
  ms_attach_id :: nat
  ms_mountpoint :: string
  ms_temporary :: bool
  ms_inodes :: "(u64, sandbox_path) omap"
  ms_handles :: "(nat, handle_info) omap"
  ms_next_handle :: nat

record 'h session =
  ss_world :: "'h world"
  ss_mounts :: "mounted_session list"
  ss_runtime :: runtime_paths

definition in_world :: "('h world \<Rightarrow> 'a \<times> 'h world) \<Rightarrow> 'h session \<Rightarrow> 'a \<times> 'h session" where
  "in_world f S = (case f (ss_world S) of (r, w) \<Rightarrow> (r, S\<lparr>ss_world := w\<rparr>))"

definition get_sandbox :: "string \<Rightarrow> 'h world \<Rightarrow> sandbox option" where
  "get_sandbox name w = om_get (rg_sandboxes (w_registry w)) name"

definition put_sandbox :: "string \<Rightarrow> sandbox \<Rightarrow> 'h world \<Rightarrow> 'h world" where
  "put_sandbox name s = with_registry (\<lambda>r. r\<lparr>rg_sandboxes := om_insert name s (rg_sandboxes r)\<rparr>)"

definition sandbox_not_found :: "string \<Rightarrow> error" where
  "sandbox_not_found name = Message (''sandbox not found: '' @ name)"

definition pending_not_found :: "nat \<Rightarrow> error" where
  "pending_not_found i = Message (''pending operation not found: '' @ show_nat i)"

definition not_in_sandbox :: "nat \<Rightarrow> string \<Rightarrow> error" where
  "not_in_sandbox i name =
     Message (''pending operation '' @ show_nat i @ '' does not belong to sandbox '' @ name)"

text \<open>\<^verbatim>\<open>log_writer.append(\<dots>)?; Ok(Response::Ok)\<close>.\<close>

definition log_then_ok :: "'h env \<Rightarrow> string \<Rightarrow> nat \<Rightarrow> string \<Rightarrow> 'h world \<Rightarrow> response res \<times> 'h world" where
  "log_then_ok E log_path i body w =
     (case append_event E log_path i body w of
        (Inl e, w) \<Rightarrow> (Inl e, w)
      | (Inr _, w) \<Rightarrow> (Inr ResponseOk, w))"

section \<open>Creating a session\<close>

definition validate_name :: "string \<Rightarrow> unit res" where
  "validate_name name =
     (if name = [] \<or> slash \<in> set name \<or> CHR 0x00 \<in> set name
      then Inl (Message (''invalid sandbox name: '' @ name)) else Inr ())"

definition new_state :: "runtime_paths \<Rightarrow> 'h \<Rightarrow> 'h session" where
  "new_state rt h =
     \<lparr>ss_world = \<lparr>w_registry = new_registry, w_cells = (\<lambda>_. None), w_next_cell = 0, w_log_running = True,
        w_inodes = [], w_handles = [], w_next_handle = 1, w_host = h\<rparr>,
      ss_mounts = [], ss_runtime = rt\<rparr>"

definition create_initial :: "'h env \<Rightarrow> string \<Rightarrow> 'h session \<Rightarrow> unit res \<times> 'h session" where
  "create_initial E name S =
     (case validate_name name of
        Inl e \<Rightarrow> (Inl e, S)
      | Inr _ \<Rightarrow>
          let w = ss_world S; log_path = sandbox_log_path (ss_runtime S) name
          in case log_reset (env_os E) (w_log_running w) log_path (w_host w) of
               (Inl e, h) \<Rightarrow> (Inl e, S\<lparr>ss_world := w\<lparr>w_host := h\<rparr>\<rparr>)
             | (Inr _, h) \<Rightarrow>
                 (Inr (), S\<lparr>ss_world := put_sandbox name (new_sandbox name log_path) (w\<lparr>w_host := h\<rparr>)\<rparr>))"

definition new_session :: "'h env \<Rightarrow> runtime_paths \<Rightarrow> string \<Rightarrow> 'h \<Rightarrow> 'h session res" where
  "new_session E rt name h =
     (case create_initial E name (new_state rt h) of
        (Inl e, _) \<Rightarrow> Inl e
      | (Inr _, S) \<Rightarrow> Inr S)"

section \<open>Layers and rules\<close>

text \<open>
  The common shape of the commands that change one sandbox: an id is taken, the sandbox is
  looked up and changed (or the change is refused), and the change is logged. The change
  stays when the log line fails.
\<close>

definition change_sandbox ::
  "'h env \<Rightarrow> string \<Rightarrow> (sandbox \<Rightarrow> (string \<times> sandbox) res) \<Rightarrow> 'h world \<Rightarrow> response res \<times> 'h world"
where
  "change_sandbox E name f w =
     (case fresh_operation_id w of (i, w) \<Rightarrow>
        (case get_sandbox name w of
           None \<Rightarrow> (Inl (sandbox_not_found name), w)
         | Some s \<Rightarrow>
             (case f s of
                Inl e \<Rightarrow> (Inl e, w)
              | Inr (body, s') \<Rightarrow> log_then_ok E (sb_log_path s') i body (put_sandbox name s' w))))"

definition session_mount_layer ::
  "'h env \<Rightarrow> string \<Rightarrow> string \<Rightarrow> sandbox_path \<Rightarrow> 'h world \<Rightarrow> response res \<times> 'h world"
where
  "session_mount_layer E name local on_fs w =
     (case os_canonicalize (env_os E) (w_host w) local of
        Inl e \<Rightarrow> (Inl (Io e), w)
      | Inr local \<Rightarrow>
          if \<not> os_exists (env_os E) (w_host w) local
          then (Inl (Message (''local path does not exist: '' @ to_string_lossy local)), w)
          else change_sandbox E name
                 (\<lambda>s. Inr (''mount local='' @ to_string_lossy local @ '' path='' @ display_path on_fs,
                           snd (add_layer local on_fs s))) w)"

definition session_umount_layer :: "'h env \<Rightarrow> string \<Rightarrow> sandbox_path \<Rightarrow> 'h world \<Rightarrow> response res \<times> 'h world" where
  "session_umount_layer E name on_fs =
     change_sandbox E name
       (\<lambda>s. case remove_layer on_fs s of
              (False, _) \<Rightarrow> Inl (Message (''no mount at '' @ display_path on_fs))
            | (True, s') \<Rightarrow> Inr (''umount path='' @ display_path on_fs, s'))"

definition session_hide :: "'h env \<Rightarrow> string \<Rightarrow> sandbox_path \<Rightarrow> 'h world \<Rightarrow> response res \<times> 'h world" where
  "session_hide E name on_fs =
     change_sandbox E name (\<lambda>s. Inr (''hide path='' @ display_path on_fs, snd (add_hide on_fs s)))"

definition rule_event :: "string \<Rightarrow> protection_kind \<Rightarrow> policy_pattern \<Rightarrow> protection_rule_result \<Rightarrow> string" where
  "rule_event verb kind pattern result =
     verb @ '' kind='' @ kind_log_name kind @ '' pattern='' @ pattern_to_string pattern
     @ '' result='' @ result_log_name result"

definition session_protect ::
  "'h env \<Rightarrow> string \<Rightarrow> protection_kind \<Rightarrow> policy_pattern \<Rightarrow> 'h world \<Rightarrow> response res \<times> 'h world"
where
  "session_protect E name kind pattern =
     change_sandbox E name
       (\<lambda>s. case protect kind pattern s of (result, s') \<Rightarrow> Inr (rule_event ''protect'' kind pattern result, s'))"

definition session_unprotect ::
  "'h env \<Rightarrow> string \<Rightarrow> protection_kind \<Rightarrow> policy_pattern \<Rightarrow> 'h world \<Rightarrow> response res \<times> 'h world"
where
  "session_unprotect E name kind pattern =
     change_sandbox E name
       (\<lambda>s. case unprotect kind pattern s of (result, s') \<Rightarrow> Inr (rule_event ''unprotect'' kind pattern result, s'))"

definition session_bypass ::
  "'h env \<Rightarrow> string \<Rightarrow> protection_kind \<Rightarrow> policy_pattern \<Rightarrow> 'h world \<Rightarrow> response res \<times> 'h world"
where
  "session_bypass E name kind pattern =
     change_sandbox E name
       (\<lambda>s. case add_bypass kind pattern s of (result, s') \<Rightarrow> Inr (rule_event ''bypass'' kind pattern result, s'))"

definition session_unbypass ::
  "'h env \<Rightarrow> string \<Rightarrow> protection_kind \<Rightarrow> policy_pattern \<Rightarrow> 'h world \<Rightarrow> response res \<times> 'h world"
where
  "session_unbypass E name kind pattern =
     change_sandbox E name
       (\<lambda>s. case remove_bypass kind pattern s of (result, s') \<Rightarrow> Inr (rule_event ''unbypass'' kind pattern result, s'))"

section \<open>Looking\<close>

definition look_at_sandbox :: "string \<Rightarrow> (sandbox \<Rightarrow> response) \<Rightarrow> 'h world \<Rightarrow> response res \<times> 'h world" where
  "look_at_sandbox name f w =
     (case get_sandbox name w of
        None \<Rightarrow> (Inl (sandbox_not_found name), w)
      | Some s \<Rightarrow> (Inr (f s), w))"

abbreviation newline :: string where "newline \<equiv> [CHR 0x0A]"

definition list_protection :: "string \<Rightarrow> bool \<Rightarrow> bool \<Rightarrow> bool \<Rightarrow> bool \<Rightarrow> 'h world \<Rightarrow> response res \<times> 'h world" where
  "list_protection name include_read include_write include_metadata include_xattr =
     look_at_sandbox name (\<lambda>s. ResponseProtectionRules
       (protection_rules include_read include_write include_metadata include_xattr s))"

definition list_bypass :: "string \<Rightarrow> bool \<Rightarrow> bool \<Rightarrow> bool \<Rightarrow> bool \<Rightarrow> 'h world \<Rightarrow> response res \<times> 'h world" where
  "list_bypass name include_read include_write include_metadata include_xattr =
     look_at_sandbox name (\<lambda>s. ResponseBypassRules
       (bypass_rules include_read include_write include_metadata include_xattr s))"

definition list_mounts :: "string \<Rightarrow> 'h world \<Rightarrow> response res \<times> 'h world" where
  "list_mounts name =
     look_at_sandbox name (\<lambda>s. ResponseText (intercalate_str newline
       (map (\<lambda>l. to_string_lossy (ml_local l) @ '' on '' @ display_path (ml_on_fs l)) (sb_layers s)
        @ map (\<lambda>h. ''hide '' @ display_path (hr_path h)) (sb_hides s))))"

definition session_metadata :: "string \<Rightarrow> 'h world \<Rightarrow> response res \<times> 'h world" where
  "session_metadata name =
     look_at_sandbox name (\<lambda>s. ResponseText (intercalate_str newline (map display_path (metadata_differences s))))"

definition session_log_path :: "string \<Rightarrow> 'h world \<Rightarrow> response res \<times> 'h world" where
  "session_log_path name = look_at_sandbox name (\<lambda>s. ResponseText (to_string_lossy (sb_log_path s)))"

definition session_pending :: "string \<Rightarrow> 'h world \<Rightarrow> response res \<times> 'h world" where
  "session_pending name w =
     (if get_sandbox name w = None then (Inl (sandbox_not_found name), w)
      else (Inr (ResponsePending (pending_requests_for_sandbox name (w_registry w))), w))"

section \<open>Decisions\<close>

text \<open>
  \<^verbatim>\<open>registry.remove_any_pending_request(id)\<close> and the check that the request belongs to the
  sandbox, which puts it back otherwise.
\<close>

definition take_request :: "string \<Rightarrow> nat \<Rightarrow> 'h world \<Rightarrow> pending_request res \<times> 'h world" where
  "take_request name i w =
     (case remove_any_pending_request i (w_registry w) of
        (None, r) \<Rightarrow> (Inl (pending_not_found i), w\<lparr>w_registry := r\<rparr>)
      | (Some pending, r) \<Rightarrow>
          if pending_sandbox pending \<noteq> name
          then (Inl (not_in_sandbox i name), w\<lparr>w_registry := insert_any_pending_request pending r\<rparr>)
          else (Inr pending, w\<lparr>w_registry := r\<rparr>))"

definition take_waiter :: "nat \<Rightarrow> 'h world \<Rightarrow> pending_waiter option \<times> 'h world" where
  "take_waiter i w =
     (om_get (rg_pending_waiters (w_registry w)) i,
      with_registry (\<lambda>r. r\<lparr>rg_pending_waiters := om_remove i (rg_pending_waiters r)\<rparr>) w)"

text \<open>The decision event, then the notification, then the result of the logging.\<close>

definition log_and_notify ::
  "'h env \<Rightarrow> string \<Rightarrow> nat \<Rightarrow> string \<Rightarrow> pending_waiter option \<Rightarrow> pending_decision \<Rightarrow> 'h world \<Rightarrow>
   response res \<times> 'h world"
where
  "log_and_notify E log_path i body waiter decision w =
     (case append_event E log_path i body w of (logged, w) \<Rightarrow>
        ((case logged of Inl e \<Rightarrow> Inl e | Inr _ \<Rightarrow> Inr ResponseOk), notify_waiter waiter decision w))"

text \<open>A request whose waiter is gone is applied by \<^verbatim>\<open>allow\<close> itself.\<close>

definition apply_without_waiter ::
  "string \<Rightarrow> bool \<Rightarrow> pending_waiter option \<Rightarrow> pending_request \<Rightarrow> sandbox \<Rightarrow> 'h world \<Rightarrow> unit res \<times> 'h world"
where
  "apply_without_waiter name do_nothing waiter pending s w =
     (case pending of
        PendingMetadata q \<Rightarrow>
          if waiter = None \<and> \<not> do_nothing
          then (case apply_metadata_override_to_object (pm_object q) (metadata_path (pm_operation q)) (pm_operation q) s of
                  Inl e \<Rightarrow> (Inl e, w)
                | Inr s' \<Rightarrow> (Inr (), put_sandbox name s' w))
          else (Inr (), w)
      | PendingReadWrite _ \<Rightarrow> (Inr (), w))"

definition allow_plain :: "'h env \<Rightarrow> string \<Rightarrow> nat \<Rightarrow> bool \<Rightarrow> 'h world \<Rightarrow> response res \<times> 'h world" where
  "allow_plain E name i do_nothing w =
     (case take_request name i w of
        (Inl e, w) \<Rightarrow> (Inl e, w)
      | (Inr pending, w) \<Rightarrow>
          let (decision_id, w) = fresh_operation_id w;
              (waiter, w) = take_waiter i w
          in case get_sandbox name w of
               None \<Rightarrow> (Inl (sandbox_not_found name), w)
             | Some s \<Rightarrow>
                 (case apply_without_waiter name do_nothing waiter pending s w of
                    (Inl e, w) \<Rightarrow> (Inl e, w)
                  | (Inr _, w) \<Rightarrow>
                      log_and_notify E (sb_log_path s) decision_id
                        (''decision request='' @ show_nat i @ format_attach_field (pending_attach_id pending) @ '' ''
                         @ (if do_nothing then ''ALLOW_DO_NOTHING'' else ''ALLOW''))
                        waiter (if do_nothing then DoNothing else Apply) w))"

definition session_deny :: "'h env \<Rightarrow> string \<Rightarrow> nat \<Rightarrow> 'h world \<Rightarrow> response res \<times> 'h world" where
  "session_deny E name i w =
     (case take_request name i w of
        (Inl e, w) \<Rightarrow> (Inl e, w)
      | (Inr pending, w) \<Rightarrow>
          let (decision_id, w) = fresh_operation_id w
          in case get_sandbox name w of
               None \<Rightarrow> (Inl (sandbox_not_found name), w)
             | Some s \<Rightarrow>
                 let (waiter, w) = take_waiter i w
                 in log_and_notify E (sb_log_path s) decision_id
                      (''decision request='' @ show_nat i @ format_attach_field (pending_attach_id pending) @ '' DENY'')
                      waiter Deny w)"

definition session_cancel :: "'h env \<Rightarrow> string \<Rightarrow> nat \<Rightarrow> string \<Rightarrow> 'h world \<Rightarrow> response res \<times> 'h world" where
  "session_cancel E name i reason w =
     (case take_request name i w of
        (Inl e, w) \<Rightarrow> (Inl e, w)
      | (Inr pending, w) \<Rightarrow>
          let (event_id, w) = fresh_operation_id w
          in case get_sandbox name w of
               None \<Rightarrow> (Inl (sandbox_not_found name), w)
             | Some s \<Rightarrow>
                 let (waiter, w) = take_waiter i w
                 in log_and_notify E (sb_log_path s) event_id
                      (''cancel request='' @ show_nat i @ format_attach_field (pending_attach_id pending)
                       @ '' reason='' @ reason) waiter Cancel w)"

section \<open>Allowing with a grant\<close>

record released_pending =
  rel_id :: nat
  rel_attach_id :: "nat option"
  rel_event_id :: "nat option"
  rel_waiter :: "pending_waiter option"

record grant_allow_outcome =
  go_decision_id :: nat
  go_grant_event_id :: "nat option"
  go_consumed_event_id :: "nat option"
  go_log_path :: string
  go_request_id :: nat
  go_request_attach_id :: "nat option"
  go_released :: "released_pending list"
  go_grant :: "read_write_access_grant option"
  go_warning :: "string option"
  go_downgraded :: bool

definition exact_identity :: "'h env \<Rightarrow> 'h \<Rightarrow> pending_read_write_request \<Rightarrow> process_identity option" where
  "exact_identity E h selected =
     (case prw_process_identity selected of
        Some i \<Rightarrow> Some i
      | None \<Rightarrow> identity_for_pid (env_os E) h (prw_pid selected))"

text \<open>\<^verbatim>\<open>selected.process_identity.get_or_insert(identity)\<close>.\<close>

definition get_or_insert_identity ::
  "process_identity \<Rightarrow> pending_read_write_request \<Rightarrow> pending_read_write_request"
where
  "get_or_insert_identity i selected =
     (case prw_process_identity selected of
        Some _ \<Rightarrow> selected
      | None \<Rightarrow> selected\<lparr>prw_process_identity := Some i\<rparr>)"

definition tree_warning :: "pending_read_write_request \<Rightarrow> string" where
  "tree_warning selected =
     ''process tree unavailable for pid '' @ show_nat (unat (prw_pid selected)) @ ''; using exact requester grant''"

definition identity_warning :: "pending_read_write_request \<Rightarrow> string" where
  "identity_warning selected =
     ''requester identity unavailable for pid '' @ show_nat (unat (prw_pid selected))
     @ ''; released current request without creating grant''"

text \<open>The subject of the grant, the request with its identity filled in, the warning, and
  whether the allow is downgraded to one without a grant.\<close>

type_synonym subject_choice =
  "grant_subject option \<times> pending_read_write_request \<times> string option \<times> bool"

definition exact_subject ::
  "'h env \<Rightarrow> 'h \<Rightarrow> string option \<Rightarrow> pending_read_write_request \<Rightarrow> subject_choice"
where
  "exact_subject E h warning selected =
     (case exact_identity E h selected of
        Some i \<Rightarrow> (Some (Exact i), get_or_insert_identity i selected, warning, False)
      | None \<Rightarrow> (None, selected, Some (identity_warning selected), True))"

definition tree_subject ::
  "'h env \<Rightarrow> 'h \<Rightarrow> process_identity list \<Rightarrow> pending_read_write_request \<Rightarrow> subject_choice"
where
  "tree_subject E h identities selected =
     (case (case prw_process_identity selected of
              Some i \<Rightarrow> Some i
            | None \<Rightarrow> find (\<lambda>i. identity_pid i = prw_pid selected) identities) of
        Some i \<Rightarrow>
          if i \<in> set identities
          then (Some (ProcessTree identities), get_or_insert_identity i selected, None, False)
          else (Some (Exact i), get_or_insert_identity i selected, Some (tree_warning selected), False)
      | None \<Rightarrow> exact_subject E h (Some (tree_warning selected)) selected)"

text \<open>\<open>None\<close> when the walk over the process tree does not end.\<close>

definition choose_subject ::
  "'h env \<Rightarrow> 'h \<Rightarrow> bool \<Rightarrow> pending_read_write_request \<Rightarrow> subject_choice option"
where
  "choose_subject E h tree selected =
     (if tree
      then map_option
             (\<lambda>found. case found of
                Some identities \<Rightarrow>
                  if identities \<noteq> [] then tree_subject E h identities selected
                  else exact_subject E h (Some (tree_warning selected)) selected
              | None \<Rightarrow> exact_subject E h (Some (tree_warning selected)) selected)
             (process_tree_for_pid (env_os E) h (prw_pid selected))
      else Some (exact_subject E h None selected))"

fun lifetime_of_request :: "grant_lifetime_request \<Rightarrow> system_time \<Rightarrow> grant_lifetime" where
  "lifetime_of_request OneShotRequest now = OneShot"
| "lifetime_of_request (DurationRequest seconds) now = Duration (duration_expires_at now seconds)"

text \<open>Releasing one pending request that the grant covers.\<close>

definition release_pending :: "nat \<Rightarrow> 'h world \<Rightarrow> released_pending list \<times> 'h world" where
  "release_pending i w =
     (case remove_pending_read_write_request i (w_registry w) of
        (None, r) \<Rightarrow> ([], w\<lparr>w_registry := r\<rparr>)
      | (Some q, r) \<Rightarrow>
          let (event_id, w) = fresh_operation_id (w\<lparr>w_registry := r\<rparr>);
              (waiter, w) = take_waiter i w
          in ([\<lparr>rel_id = i, rel_attach_id = prw_attach_id q, rel_event_id = Some event_id,
                rel_waiter = waiter\<rparr>], w))"

fun release_each :: "nat list \<Rightarrow> 'h world \<Rightarrow> released_pending list \<times> 'h world" where
  "release_each [] w = ([], w)"
| "release_each (i # ids) w =
     (let (released, w) = release_pending i w; (rest, w) = release_each ids w in (released @ rest, w))"

definition min_id :: "nat list \<Rightarrow> nat option" where
  "min_id ids = (if ids = [] then None else Some (Min (set ids)))"

text \<open>
  Placing the grant: the ids of the consumption event, the released requests, and whether
  the selected request (already out of the registry) is among them.
\<close>

definition place_one_shot ::
  "'h env \<Rightarrow> read_write_access_grant \<Rightarrow> system_time \<Rightarrow> pending_read_write_request \<Rightarrow> released_pending \<Rightarrow>
   'h world \<Rightarrow> nat option \<times> released_pending list \<times> bool \<times> 'h world"
where
  "place_one_shot E g now selected own w =
     (let matching = matching_pending_read_write_ids_for_grant (env_glob E) g now (w_registry w);
          candidates = matching @ (if matches_request (env_glob E) g selected now then [rel_id own] else [])
      in case min_id candidates of
           None \<Rightarrow> (None, [], False, with_registry (insert_read_write_grant g) w)
         | Some release_id \<Rightarrow>
             let (released, own_released, w) =
                   (if release_id = rel_id own then ([own], True, w)
                    else case release_pending release_id w of (released, w) \<Rightarrow> (released, False, w));
                 (consumed_id, w) = fresh_operation_id w
             in (Some consumed_id, released, own_released, w))"

definition place_duration ::
  "'h env \<Rightarrow> read_write_access_grant \<Rightarrow> system_time \<Rightarrow> pending_read_write_request \<Rightarrow> released_pending \<Rightarrow>
   'h world \<Rightarrow> nat option \<times> released_pending list \<times> bool \<times> 'h world"
where
  "place_duration E g now selected own w =
     (let matching = matching_pending_read_write_ids_for_grant (env_glob E) g now (w_registry w);
          own_released = matches_request (env_glob E) g selected now;
          (rest, w) = release_each matching w
      in (None, (if own_released then [own] else []) @ rest, own_released,
          with_registry (insert_read_write_grant g) w))"

text \<open>Putting the selected request back with its waiter.\<close>

definition put_back ::
  "nat \<Rightarrow> pending_read_write_request \<Rightarrow> pending_waiter option \<Rightarrow> 'h world \<Rightarrow> 'h world"
where
  "put_back i selected waiter w =
     (let w = with_registry (insert_pending_read_write_request selected) w
      in case waiter of
           None \<Rightarrow> w
         | Some c \<Rightarrow> with_registry (\<lambda>r. r\<lparr>rg_pending_waiters := om_insert i c (rg_pending_waiters r)\<rparr>) w)"

definition place_grant ::
  "'h env \<Rightarrow> string \<Rightarrow> read_write_grant_options \<Rightarrow> sandbox_path \<Rightarrow> system_time \<Rightarrow> grant_subject \<Rightarrow>
   pending_read_write_request \<Rightarrow> released_pending \<Rightarrow> string \<Rightarrow> nat \<Rightarrow> string option \<Rightarrow> 'h world \<Rightarrow>
   grant_allow_outcome \<times> 'h world"
where
  "place_grant E name options grant_path now subject selected own log_path decision_id warning w =
     (let (gid, w) = fresh_operation_id w;
          (grant_event_id, w) = fresh_operation_id w;
          g = \<lparr>grant_id = gid, grant_sandbox = name, grant_kind = prw_kind selected,
               grant_path_pattern = grant_path, grant_subject_of = subject,
               grant_lifetime_of = lifetime_of_request (opt_lifetime options) now,
               grant_created_at = epoch_millis now\<rparr>;
          (consumed_id, released, own_released, w) =
            (case grant_lifetime_of g of
               OneShot \<Rightarrow> place_one_shot E g now selected own w
             | Duration _ \<Rightarrow> place_duration E g now selected own w);
          w = (if own_released then w else put_back (rel_id own) selected (rel_waiter own) w)
      in (\<lparr>go_decision_id = decision_id, go_grant_event_id = Some grant_event_id,
           go_consumed_event_id = consumed_id, go_log_path = log_path, go_request_id = rel_id own,
           go_request_attach_id = rel_attach_id own, go_released = released, go_grant = Some g,
           go_warning = warning, go_downgraded = False\<rparr>, w))"

text \<open>The critical section of \<^verbatim>\<open>allow_read_write_grant\<close>.\<close>

definition decide_grant ::
  "'h env \<Rightarrow> string \<Rightarrow> nat \<Rightarrow> read_write_grant_options \<Rightarrow> system_time \<Rightarrow> 'h world \<Rightarrow>
   (grant_allow_outcome res \<times> 'h world) option"
where
  "decide_grant E name i options now w =
     (case take_request name i w of
        (Inl e, w) \<Rightarrow> Some (Inl e, w)
      | (Inr (PendingMetadata q), w) \<Rightarrow>
          Some (Inl (Message ''read/write grant options can only be used with read/write pending requests''),
                with_registry (insert_any_pending_request (PendingMetadata q)) w)
      | (Inr (PendingReadWrite selected), w) \<Rightarrow>
          (case get_sandbox name w of
             None \<Rightarrow> Some (Inl (sandbox_not_found name), w)
           | Some s \<Rightarrow>
               let (decision_id, w) = fresh_operation_id w;
                   (waiter, w) = take_waiter i w;
                   grant_path = (case opt_path options of Some p \<Rightarrow> p | None \<Rightarrow> prw_path selected);
                   own = \<lparr>rel_id = i, rel_attach_id = prw_attach_id selected, rel_event_id = None, rel_waiter = waiter\<rparr>
               in if \<not> grant_pattern_matches (env_glob E) grant_path (prw_path selected)
                  then Some (Inl (Message (''read/write grant path '' @ display_path grant_path
                               @ '' does not match pending path '' @ display_path (prw_path selected))),
                             put_back i selected waiter w)
                  else case choose_subject E (w_host w) (opt_tree options) selected of
                         None \<Rightarrow> None
                       | Some (None, selected, warning, downgraded) \<Rightarrow>
                           Some (Inr \<lparr>go_decision_id = decision_id, go_grant_event_id = None,
                              go_consumed_event_id = None, go_log_path = sb_log_path s, go_request_id = i,
                              go_request_attach_id = rel_attach_id own, go_released = [own], go_grant = None,
                              go_warning = warning, go_downgraded = downgraded\<rparr>, w)
                       | Some (Some subject, selected, warning, downgraded) \<Rightarrow>
                           Some (case place_grant E name options grant_path now subject selected own
                                        (sb_log_path s) decision_id warning w of
                                   (outcome, w) \<Rightarrow> (Inr outcome, w))))"

definition quote_log_value :: "string \<Rightarrow> string" where
  "quote_log_value v =
     [CHR 0x22] @ concat (map (\<lambda>c. if c = CHR 0x5C \<or> c = CHR 0x22 then [CHR 0x5C, c] else [c]) v) @ [CHR 0x22]"

definition format_grant_created_body :: "read_write_access_grant \<Rightarrow> string" where
  "format_grant_created_body g =
     ''grant-created grant='' @ show_nat (grant_id g) @ '' kind='' @ kind_log_name (grant_kind g)
     @ '' path='' @ display_path (grant_path_pattern g)
     @ '' subject='' @ subject_log_name (grant_subject_of g)
     @ '' subject_count='' @ show_nat (subject_len (grant_subject_of g))
     @ '' lifetime='' @ lifetime_log_name (grant_lifetime_of g)
     @ (case grant_lifetime_of g of
          Duration expires_at \<Rightarrow> '' expires_at_epoch_ms='' @ show_nat expires_at
        | OneShot \<Rightarrow> [])"

definition format_grant_consumed_body :: "nat \<Rightarrow> string" where
  "format_grant_consumed_body gid = ''grant-consumed grant='' @ show_nat gid @ '' lifetime=one-shot''"

text \<open>Further events keep the first failure of the log.\<close>

definition and_log ::
  "'h env \<Rightarrow> string \<Rightarrow> nat \<Rightarrow> string \<Rightarrow> unit res \<times> 'h world \<Rightarrow> unit res \<times> 'h world"
where
  "and_log E log_path i body acc =
     (case acc of (logged, w) \<Rightarrow>
        (case append_event E log_path i body w of (r, w) \<Rightarrow>
           (if is_ok logged \<and> \<not> is_ok r then r else logged, w)))"

fun announce_released ::
  "'h env \<Rightarrow> string \<Rightarrow> nat \<Rightarrow> released_pending list \<Rightarrow> unit res \<times> 'h world \<Rightarrow> unit res \<times> 'h world"
where
  "announce_released E log_path request_id [] acc = acc"
| "announce_released E log_path request_id (rel # rels) acc =
     (let (logged, w) =
            (case rel_event_id rel of
               None \<Rightarrow> acc
             | Some event_id \<Rightarrow>
                 and_log E log_path event_id
                   (''grant-release request='' @ show_nat (rel_id rel) @ format_attach_field (rel_attach_id rel)
                    @ '' decision='' @ show_nat request_id) acc)
      in announce_released E log_path request_id rels (logged, notify_waiter (rel_waiter rel) Apply w))"

definition decision_body :: "grant_allow_outcome \<Rightarrow> string" where
  "decision_body oc =
     ''decision request='' @ show_nat (go_request_id oc) @ format_attach_field (go_request_attach_id oc) @ '' ALLOW''
     @ (if go_downgraded oc then '' downgraded=grantless'' else [])
     @ (case go_warning oc of Some t \<Rightarrow> '' warning='' @ quote_log_value t | None \<Rightarrow> [])"

definition finish_read_write_grant_allow ::
  "'h env \<Rightarrow> grant_allow_outcome \<Rightarrow> 'h world \<Rightarrow> response res \<times> 'h world"
where
  "finish_read_write_grant_allow E oc w =
     (let log_path = go_log_path oc;
          acc = append_event E log_path (go_decision_id oc) (decision_body oc) w;
          acc = (case (go_grant_event_id oc, go_grant oc) of
                   (Some i, Some g) \<Rightarrow> and_log E log_path i (format_grant_created_body g) acc
                 | _ \<Rightarrow> acc);
          acc = (case (go_consumed_event_id oc, go_grant oc) of
                   (Some i, Some g) \<Rightarrow> and_log E log_path i (format_grant_consumed_body (grant_id g)) acc
                 | _ \<Rightarrow> acc);
          (logged, w) = announce_released E log_path (go_request_id oc) (go_released oc) acc
      in ((case logged of
             Inl e \<Rightarrow> Inl e
           | Inr _ \<Rightarrow> Inr (case go_warning oc of Some t \<Rightarrow> ResponseWarning t | None \<Rightarrow> ResponseOk)), w))"

definition allow_read_write_grant ::
  "'h env \<Rightarrow> string \<Rightarrow> nat \<Rightarrow> read_write_grant_options \<Rightarrow> 'h world \<Rightarrow> (response res \<times> 'h world) option"
where
  "allow_read_write_grant E name i options w =
     (if opt_lifetime options = DurationRequest 0
      then Some (Inl (Message ''duration must be greater than zero''), w)
      else case decide_grant E name i options (os_now (env_os E) (w_host w)) w of
             None \<Rightarrow> None
           | Some (Inl e, w) \<Rightarrow> Some (Inl e, w)
           | Some (Inr oc, w) \<Rightarrow> Some (finish_read_write_grant_allow E oc w))"

definition session_allow ::
  "'h env \<Rightarrow> string \<Rightarrow> nat \<Rightarrow> bool \<Rightarrow> read_write_grant_options option \<Rightarrow> 'h world \<Rightarrow>
   (response res \<times> 'h world) option"
where
  "session_allow E name i do_nothing grant w =
     (if do_nothing \<and> grant \<noteq> None
      then Some (Inl (Message ''allow --do-nothing cannot be combined with read/write grant options''), w)
      else case grant of
             Some options \<Rightarrow> allow_read_write_grant E name i options w
           | None \<Rightarrow> Some (allow_plain E name i do_nothing w))"

section \<open>Cancelling scopes\<close>

record canceled_pending =
  cp_id :: nat
  cp_event_id :: nat
  cp_attach_id :: "nat option"
  cp_waiter :: "pending_waiter option"

text \<open>The loop that takes the requests out; \<open>attach\<close> is the attach id that is recorded,
  that of the request itself when it is \<open>None\<close>.\<close>

fun take_canceled ::
  "nat option \<Rightarrow> nat list \<Rightarrow> 'h world \<Rightarrow> canceled_pending list \<times> 'h world"
where
  "take_canceled attach [] w = ([], w)"
| "take_canceled attach (i # ids) w =
     (let (pending, r) = remove_any_pending_request i (w_registry w);
          own_attach = (case pending of Some q \<Rightarrow> pending_attach_id q | None \<Rightarrow> None);
          (waiter, w) = take_waiter i (w\<lparr>w_registry := r\<rparr>);
          (event_id, w) = fresh_operation_id w;
          (rest, w) = take_canceled attach ids w
      in (\<lparr>cp_id = i, cp_event_id = event_id,
           cp_attach_id = (case attach of Some a \<Rightarrow> Some a | None \<Rightarrow> own_attach),
           cp_waiter = waiter\<rparr> # rest, w))"

fun log_canceled ::
  "'h env \<Rightarrow> string \<Rightarrow> string \<Rightarrow> canceled_pending list \<Rightarrow> unit res \<times> 'h world \<Rightarrow> unit res \<times> 'h world"
where
  "log_canceled E log_path reason [] acc = acc"
| "log_canceled E log_path reason (item # items) acc =
     log_canceled E log_path reason items
       (and_log E log_path (cp_event_id item)
          (''cancel request='' @ show_nat (cp_id item) @ format_attach_field (cp_attach_id item)
           @ '' reason='' @ reason) acc)"

definition finish_cancel_scope ::
  "'h env \<Rightarrow> nat \<Rightarrow> string \<Rightarrow> canceled_pending list \<Rightarrow> string \<Rightarrow> nat option \<Rightarrow> string \<Rightarrow> 'h world \<Rightarrow>
   response res \<times> 'h world"
where
  "finish_cancel_scope E scope_event_id log_path canceled scope attach_id reason w =
     (let (logged, w) =
            log_canceled E log_path reason canceled
              (append_event E log_path scope_event_id
                 (''cancel'' @ format_attach_field attach_id @ '' scope='' @ scope @ '' reason='' @ reason
                  @ '' count='' @ show_nat (length canceled)) w);
          w = notify_all (map cp_waiter canceled) Cancel w
      in ((case logged of Inl e \<Rightarrow> Inl e | Inr _ \<Rightarrow> Inr ResponseOk), w))"

text \<open>Both cancellations: the requests of the sandbox that are in scope, taken and announced.\<close>

definition cancel_scope ::
  "'h env \<Rightarrow> string \<Rightarrow> (pending_request \<Rightarrow> bool) \<Rightarrow> string \<Rightarrow> nat option \<Rightarrow> string \<Rightarrow> 'h world \<Rightarrow>
   response res \<times> 'h world"
where
  "cancel_scope E name in_scope scope attach_id reason w =
     (case get_sandbox name w of
        None \<Rightarrow> (Inl (sandbox_not_found name), w)
      | Some s \<Rightarrow>
          let ids = map pending_id (filter in_scope (pending_requests_for_sandbox name (w_registry w)));
              (scope_event_id, w) = fresh_operation_id w;
              (canceled, w) = take_canceled attach_id ids w
          in finish_cancel_scope E scope_event_id (sb_log_path s) canceled scope attach_id reason w)"

definition cancel_attached_view ::
  "'h env \<Rightarrow> string \<Rightarrow> nat \<Rightarrow> string \<Rightarrow> 'h world \<Rightarrow> response res \<times> 'h world"
where
  "cancel_attached_view E name attach_id reason =
     cancel_scope E name (\<lambda>q. pending_attach_id q = Some attach_id) ''attached-view'' (Some attach_id) reason"

definition canonicalize_existing_dir :: "'h os \<Rightarrow> 'h \<Rightarrow> string \<Rightarrow> string res" where
  "canonicalize_existing_dir S h path =
     (case os_canonicalize S h path of
        Inl e \<Rightarrow> Inl (Io e)
      | Inr canonical \<Rightarrow>
          if \<not> os_is_dir S h canonical
          then Inl (Message (''mountpoint is not a directory: '' @ to_string_lossy canonical))
          else Inr canonical)"

definition canonicalize_maybe_existing :: "'h os \<Rightarrow> 'h \<Rightarrow> string \<Rightarrow> string res" where
  "canonicalize_maybe_existing S h path =
     (if os_exists S h path then map_err Io (os_canonicalize S h path)
      else if is_absolute path then Inr path
      else map_err Io (result_bind (os_current_dir S h) (\<lambda>dir. Inr (path_join dir path))))"

definition not_attached :: "string \<Rightarrow> string \<Rightarrow> error" where
  "not_attached name mountpoint =
     Message (''mountpoint is not attached to sandbox '' @ name @ '': '' @ to_string_lossy mountpoint)"

text \<open>The attach of a mount point (keys are compared by components).\<close>

definition get_attach :: "string \<Rightarrow> string \<Rightarrow> 'h world \<Rightarrow> (sandbox \<times> attach_mount) res" where
  "get_attach name mountpoint w =
     (case get_sandbox name w of
        None \<Rightarrow> Inl (sandbox_not_found name)
      | Some s \<Rightarrow>
          (case om_get (sb_attaches s) (components mountpoint) of
             None \<Rightarrow> Inl (not_attached name mountpoint)
           | Some a \<Rightarrow> Inr (s, a)))"

definition cancel_all :: "'h env \<Rightarrow> string \<Rightarrow> string option \<Rightarrow> 'h world \<Rightarrow> response res \<times> 'h world" where
  "cancel_all E name mountpoint w =
     (case mountpoint of
        Some path \<Rightarrow>
          (case result_bind (canonicalize_maybe_existing (env_os E) (w_host w) path)
                  (\<lambda>mp. get_attach name mp w) of
             Inl e \<Rightarrow> (Inl e, w)
           | Inr (s, a) \<Rightarrow> cancel_attached_view E name (at_id a) ''cancel-all'' w)
      | None \<Rightarrow> cancel_scope E name (\<lambda>_. True) ''sandbox'' None ''cancel-all'' w)"

section \<open>Attaching and detaching\<close>

definition mountpoint_conflict :: "string \<Rightarrow> string \<Rightarrow> registry \<Rightarrow> error option" where
  "mountpoint_conflict name mountpoint r =
     map_option
       (\<lambda>(other_name, _).
          Message ((if other_name = name then ''mountpoint already attached: ''
                    else ''mountpoint already used by sandbox '' @ other_name @ '': '')
                   @ to_string_lossy mountpoint))
       (find (\<lambda>(_, s). om_get (sb_attaches s) (components mountpoint) \<noteq> None) (rg_sandboxes r))"

definition new_mounted :: "string \<Rightarrow> nat \<Rightarrow> string \<Rightarrow> bool \<Rightarrow> 'h world \<Rightarrow> mounted_session" where
  "new_mounted name attach_id mountpoint temporary w =
     (let fs = new_fs w
      in \<lparr>ms_sandbox = name, ms_attach_id = attach_id, ms_mountpoint = mountpoint, ms_temporary = temporary,
          ms_inodes = w_inodes fs, ms_handles = w_handles fs, ms_next_handle = w_next_handle fs\<rparr>)"

definition session_attach ::
  "'h env \<Rightarrow> string \<Rightarrow> string \<Rightarrow> bool \<Rightarrow> 'h session \<Rightarrow> response res \<times> 'h session"
where
  "session_attach E name mountpoint temporary S =
     (let w = ss_world S in
      case canonicalize_existing_dir (env_os E) (w_host w) mountpoint of
        Inl e \<Rightarrow> (Inl e, S)
      | Inr mp \<Rightarrow>
          (case get_sandbox name w of
             None \<Rightarrow> (Inl (sandbox_not_found name), S)
           | Some s \<Rightarrow>
               (case mountpoint_conflict name mp (w_registry w) of
                  Some e \<Rightarrow> (Inl e, S)
                | None \<Rightarrow>
                    let (attach_id, w) = fresh_operation_id w;
                        (event_id, w) = fresh_operation_id w
                    in case os_spawn_mount (env_os E) (w_host w) (''gatefs:'' @ name) mp of
                         (Inl e, h) \<Rightarrow> (Inl (Io e), S\<lparr>ss_world := w\<lparr>w_host := h\<rparr>\<rparr>)
                       | (Inr _, h) \<Rightarrow>
                           let w = w\<lparr>w_host := h\<rparr>;
                               S = S\<lparr>ss_mounts := ss_mounts S @ [new_mounted name attach_id mp temporary w]\<rparr>;
                               attach = \<lparr>at_id = attach_id, at_mountpoint = mp, at_temporary = temporary, at_active = True\<rparr>;
                               w = put_sandbox name (s\<lparr>sb_attaches := om_insert (components mp) attach (sb_attaches s)\<rparr>) w;
                               (r, w) = log_then_ok E (sb_log_path s) event_id
                                 (''attach attach='' @ show_nat attach_id @ '' mountpoint='' @ to_string_lossy mp) w
                           in (r, S\<lparr>ss_world := w\<rparr>))))"

definition mount_matches :: "string \<Rightarrow> nat \<Rightarrow> string \<Rightarrow> mounted_session \<Rightarrow> bool" where
  "mount_matches name attach_id mountpoint m \<longleftrightarrow>
     ms_sandbox m = name \<and> ms_attach_id m = attach_id \<and> components (ms_mountpoint m) = components mountpoint"

definition remove_attach :: "string \<Rightarrow> string \<Rightarrow> 'h world \<Rightarrow> 'h world" where
  "remove_attach name mountpoint w =
     (case get_sandbox name w of
        None \<Rightarrow> w
      | Some s \<Rightarrow> put_sandbox name (s\<lparr>sb_attaches := om_remove (components mountpoint) (sb_attaches s)\<rparr>) w)"

definition session_detach :: "'h env \<Rightarrow> string \<Rightarrow> string \<Rightarrow> 'h session \<Rightarrow> response res \<times> 'h session" where
  "session_detach E name mountpoint S =
     (let w = ss_world S in
      case canonicalize_maybe_existing (env_os E) (w_host w) mountpoint of
        Inl e \<Rightarrow> (Inl e, S)
      | Inr mp \<Rightarrow>
          (case get_attach name mp w of
             Inl e \<Rightarrow> (Inl e, S)
           | Inr (s, a) \<Rightarrow>
               let w = snd (cancel_attached_view E name (at_id a) ''detach'' w)
               in case list_position (mount_matches name (at_id a) mp) (ss_mounts S) of
                    None \<Rightarrow> (Inl (Message (''mount session not found: '' @ to_string_lossy mp)), S\<lparr>ss_world := w\<rparr>)
                  | Some idx \<Rightarrow>
                      let S = S\<lparr>ss_mounts := vec_remove idx (ss_mounts S)\<rparr>
                      in case os_umount_and_join (env_os E) (w_host w) mp of
                           (Inl e, h) \<Rightarrow> (Inl (Io e), S\<lparr>ss_world := w\<lparr>w_host := h\<rparr>\<rparr>)
                         | (Inr _, h) \<Rightarrow>
                             let (event_id, w) = fresh_operation_id (w\<lparr>w_host := h\<rparr>);
                                 w = remove_attach name mp w;
                                 (r, w) = log_then_ok E (sb_log_path s) event_id (''detach attach='' @ show_nat (at_id a)) w
                             in (r, S\<lparr>ss_world := w\<rparr>)))"

fun detach_all :: "'h env \<Rightarrow> string \<Rightarrow> string list \<Rightarrow> 'h session \<Rightarrow> unit res \<times> 'h session" where
  "detach_all E name [] S = (Inr (), S)"
| "detach_all E name (mp # mps) S =
     (case session_detach E name mp S of
        (Inl e, S) \<Rightarrow> (Inl e, S)
      | (Inr _, S) \<Rightarrow> detach_all E name mps S)"

definition session_destroy :: "'h env \<Rightarrow> string \<Rightarrow> 'h session \<Rightarrow> response res \<times> 'h session" where
  "session_destroy E name S =
     (case get_sandbox name (ss_world S) of
        None \<Rightarrow> (Inl (sandbox_not_found name), S)
      | Some s \<Rightarrow>
          let mountpoints = map at_mountpoint (om_values (sb_attaches s));
              w = with_registry (\<lambda>r. r\<lparr>rg_trusted := filter (\<lambda>(_, t). tr_sandbox t \<noteq> name) (rg_trusted r)\<rparr>) (ss_world S);
              w = snd (cancel_all E name None w)
          in case detach_all E name mountpoints (S\<lparr>ss_world := w\<rparr>) of
               (Inl e, S) \<Rightarrow> (Inl e, S)
             | (Inr _, S) \<Rightarrow>
                 let w = ss_world S
                 in case get_sandbox name w of
                      None \<Rightarrow> (Inr ResponseOk, S)
                    | Some s \<Rightarrow>
                        let w = with_registry (\<lambda>r. r\<lparr>rg_sandboxes := om_remove name (rg_sandboxes r)\<rparr>) w
                        in case log_remove (env_os E) (w_log_running w) (sb_log_path s) (w_host w) of
                             (r, h) \<Rightarrow>
                               ((case r of Inl e \<Rightarrow> Inl e | Inr _ \<Rightarrow> Inr ResponseOk),
                                S\<lparr>ss_world := w\<lparr>w_host := h\<rparr>\<rparr>))"

section \<open>Trusted operations\<close>

definition begin_trusted ::
  "'h env \<Rightarrow> string \<Rightarrow> string \<Rightarrow> string \<Rightarrow> trusted_path_scope list \<Rightarrow> 'h session \<Rightarrow> response res \<times> 'h session"
where
  "begin_trusted E name command mountpoint paths S =
     (if get_sandbox name (ss_world S) = None then (Inl (sandbox_not_found name), S)
      else
        let (operation_id, w) = fresh_operation_id (ss_world S)
        in case os_create_dir_all (env_os E) (w_host w) mountpoint of
             (Inl e, h) \<Rightarrow> (Inl (Io e), S\<lparr>ss_world := w\<lparr>w_host := h\<rparr>\<rparr>)
           | (Inr _, h) \<Rightarrow>
               (case session_attach E name mountpoint True (S\<lparr>ss_world := w\<lparr>w_host := h\<rparr>\<rparr>) of
                  (Inl e, S) \<Rightarrow> (Inl e, S)
                | (Inr _, S) \<Rightarrow>
                    let token = name @ ''-'' @ show_nat operation_id @ ''-''
                          @ show_nat (unat (os_process_id (env_os E)));
                        trusted = \<lparr>tr_id = operation_id, tr_sandbox = name, tr_token = token, tr_pid = None,
                          tr_uid = None, tr_mountpoint = mountpoint, tr_command = command, tr_paths = paths\<rparr>
                    in (Inr (ResponseTrusted token operation_id (to_string_lossy mountpoint)),
                        S\<lparr>ss_world := with_registry
                             (\<lambda>r. r\<lparr>rg_trusted := om_insert token trusted (rg_trusted r)\<rparr>) (ss_world S)\<rparr>)))"

definition trusted_not_found :: "string \<Rightarrow> error" where
  "trusted_not_found token = Message (''trusted operation not found: '' @ token)"

definition register_trusted_pid :: "string \<Rightarrow> u32 \<Rightarrow> u32 \<Rightarrow> 'h world \<Rightarrow> response res \<times> 'h world" where
  "register_trusted_pid token pid uid w =
     (case om_get (rg_trusted (w_registry w)) token of
        None \<Rightarrow> (Inl (trusted_not_found token), w)
      | Some t \<Rightarrow>
          (Inr ResponseOk,
           with_registry (\<lambda>r. r\<lparr>rg_trusted := om_insert token (t\<lparr>tr_pid := Some pid, tr_uid := Some uid\<rparr>) (rg_trusted r)\<rparr>) w))"

definition end_trusted :: "'h env \<Rightarrow> string \<Rightarrow> 'h session \<Rightarrow> response res \<times> 'h session" where
  "end_trusted E token S =
     (let found = om_get (rg_trusted (w_registry (ss_world S))) token;
          S = S\<lparr>ss_world := with_registry (\<lambda>r. r\<lparr>rg_trusted := om_remove token (rg_trusted r)\<rparr>) (ss_world S)\<rparr>
      in case found of
           None \<Rightarrow> (Inl (trusted_not_found token), S)
         | Some t \<Rightarrow>
             (case session_detach E (tr_sandbox t) (tr_mountpoint t) S of
                (Inl e, S) \<Rightarrow> (Inl e, S)
              | (Inr _, S) \<Rightarrow>
                  (case os_remove_dir (env_os E) (w_host (ss_world S)) (tr_mountpoint t) of
                     (r, h) \<Rightarrow>
                       ((case r of Inl e \<Rightarrow> Inl (Io e) | Inr _ \<Rightarrow> Inr ResponseOk),
                        S\<lparr>ss_world := (ss_world S)\<lparr>w_host := h\<rparr>\<rparr>))))"

section \<open>The dispatch\<close>

definition is_shutdown :: "request \<Rightarrow> bool" where
  "is_shutdown request = (case request of Shutdown _ \<Rightarrow> True | _ \<Rightarrow> False)"

fun handle_result :: "'h env \<Rightarrow> request \<Rightarrow> 'h session \<Rightarrow> (response res \<times> 'h session) option" where
  "handle_result E Ping S = Some (Inr ResponseOk, S)"
| "handle_result E (Shutdown name) S = Some (session_destroy E name S)"
| "handle_result E (Attach name mountpoint temporary) S = Some (session_attach E name mountpoint temporary S)"
| "handle_result E (Detach name mountpoint) S = Some (session_detach E name mountpoint S)"
| "handle_result E (Mount name local on_fs) S = Some (in_world (session_mount_layer E name local on_fs) S)"
| "handle_result E (Umount name on_fs) S = Some (in_world (session_umount_layer E name on_fs) S)"
| "handle_result E (Hide name on_fs) S = Some (in_world (session_hide E name on_fs) S)"
| "handle_result E (Protect name kind pattern) S = Some (in_world (session_protect E name kind pattern) S)"
| "handle_result E (Unprotect name kind pattern) S = Some (in_world (session_unprotect E name kind pattern) S)"
| "handle_result E (Bypass name kind pattern) S = Some (in_world (session_bypass E name kind pattern) S)"
| "handle_result E (Unbypass name kind pattern) S = Some (in_world (session_unbypass E name kind pattern) S)"
| "handle_result E (ListProtection name r w m x) S = Some (in_world (list_protection name r w m x) S)"
| "handle_result E (ListBypass name r w m x) S = Some (in_world (list_bypass name r w m x) S)"
| "handle_result E (ListMounts name) S = Some (in_world (list_mounts name) S)"
| "handle_result E (MetadataList name) S = Some (in_world (session_metadata name) S)"
| "handle_result E (BeginTrustedOperation name command mountpoint paths) S =
     Some (begin_trusted E name command mountpoint paths S)"
| "handle_result E (RegisterTrustedPid token pid uid) S = Some (in_world (register_trusted_pid token pid uid) S)"
| "handle_result E (EndTrustedOperation token) S = Some (end_trusted E token S)"
| "handle_result E (Pending name) S = Some (in_world (session_pending name) S)"
| "handle_result E (Allow name i do_nothing grant) S =
     map_option (\<lambda>(r, w). (r, S\<lparr>ss_world := w\<rparr>)) (session_allow E name i do_nothing grant (ss_world S))"
| "handle_result E (DenyRequest name i) S = Some (in_world (session_deny E name i) S)"
| "handle_result E (CancelRequest name i) S = Some (in_world (session_cancel E name i ''explicit'') S)"
| "handle_result E (CancelAll name mountpoint) S = Some (in_world (cancel_all E name mountpoint) S)"
| "handle_result E (LogPath name) S = Some (in_world (session_log_path name) S)"

text \<open>\<^verbatim>\<open>error.to_string()\<close>; the texts of operating system and JSON errors are not the repository's,
  so the first is a parameter.\<close>

fun error_text :: "(io_error \<Rightarrow> string) \<Rightarrow> error \<Rightarrow> string" where
  "error_text io_text (Message m) = m"
| "error_text io_text (Io e) = io_text e"
| "error_text io_text (Serde m) = m"

definition handle ::
  "(io_error \<Rightarrow> string) \<Rightarrow> 'h env \<Rightarrow> request \<Rightarrow> 'h session \<Rightarrow> (response \<times> 'h session) option"
where
  "handle io_text E request S =
     map_option (\<lambda>(r, S). ((case r of Inl e \<Rightarrow> ResponseError (error_text io_text e) | Inr resp \<Rightarrow> resp), S))
       (handle_result E request S)"

end
