(* ===== verification/Fs_Auth.thy ===== *)
theory Fs_Auth
  imports Fs
begin

text \<open>
  The gate: properties of the authorisation of reads and writes in \<^verbatim>\<open>src/fs.rs\<close>. A caller
  goes on only when each of its effects was open, covered by a grant, or queued and decided
  in its favour; a refused caller leaves no request behind; the invariant of the shared
  state is kept.
\<close>

section \<open>One effect\<close>

lemma queue_effect_cases:
  assumes "queue_effect E F identity process oper log_path e w = (res, w')"
  obtains (failed) "res = Inl EIO" "w_registry w' = snd (next_operation_id (w_registry w))"
      "w_cells w' = (w_cells w)(w_next_cell w := None)" "w_next_cell w' = Suc (w_next_cell w)"
  | (queued) request where
      "request = with_process_identity process
         (new_with_attach_effect (rg_next_operation_id (w_registry w)) (mt_sandbox_name F)
            (mt_attach_id F) oper e identity)"
      "res = Inr (rg_next_operation_id (w_registry w), w_next_cell w)"
      "w_registry w' =
         (insert_pending_read_write_request request (snd (next_operation_id (w_registry w))))
           \<lparr>rg_pending_waiters := om_insert (rg_next_operation_id (w_registry w)) (w_next_cell w)
              (rg_pending_waiters (w_registry w))\<rparr>"
      "w_cells w' = (w_cells w)(w_next_cell w := None)" "w_next_cell w' = Suc (w_next_cell w)"
proof -
  let ?w = "snd (fresh_operation_id (snd (new_waiter w)))"
  let ?a = "append_event E log_path (rg_next_operation_id (w_registry w))
    (''pending'' @ format_attach_field (mt_attach_id F) @ '' '' @ eff_description e) ?w"
  obtain w1 where w1: "new_waiter w = (w_next_cell w, w1)" "snd (new_waiter w) = w1"
    by (cases "new_waiter w") (auto simp: new_waiter_def)
  obtain w2 where w2: "fresh_operation_id w1 = (rg_next_operation_id (w_registry w), w2)" "w2 = ?w"
    using w1 by (auto simp: fresh_operation_id_def next_operation_id_def new_waiter_def)
  obtain logged w3 where a: "?a = (logged, w3)" by fastforce
  have w3: "w_registry w3 = snd (next_operation_id (w_registry w))"
    "w_cells w3 = (w_cells w)(w_next_cell w := None)" "w_next_cell w3 = Suc (w_next_cell w)"
    using append_event_simps [of E log_path "rg_next_operation_id (w_registry w)"
        "''pending'' @ format_attach_field (mt_attach_id F) @ '' '' @ eff_description e" ?w]
    by (simp_all only: a snd_conv fresh_operation_id_simps new_waiter_simps)
  note run = assms [unfolded queue_effect_def Let_def w1(1) case_prod_conv w2(1) a [folded w2(2)]]
  show ?thesis
  proof (cases logged)
    case (Inl x)
    with run have "res = Inl EIO" "w' = w3" by simp_all
    with w3 show ?thesis by (intro failed) simp_all
  next
    case (Inr x)
    let ?i = "rg_next_operation_id (w_registry w)"
    let ?q = "with_process_identity process
         (new_with_attach_effect ?i (mt_sandbox_name F) (mt_attach_id F) oper e identity)"
    from Inr run have "res = Inr (?i, w_next_cell w)"
      "w' = with_registry (\<lambda>r. r\<lparr>rg_pending_waiters := om_insert ?i (w_next_cell w) (rg_pending_waiters r)\<rparr>)
        (with_registry (insert_pending_read_write_request ?q) w3)"
      by simp_all
    with w3 show ?thesis
      by (intro queued [OF refl])
         (simp_all add: insert_pending_read_write_request_def next_operation_id_def)
  qed
qed

lemma queue_effect_host:
  assumes "queue_effect E F identity process oper log_path e w = (res, w')"
  shows "host_logged E (w_host w) (w_host w')"
proof -
  let ?w = "snd (fresh_operation_id (snd (new_waiter w)))"
  let ?a = "append_event E log_path (rg_next_operation_id (w_registry w))
    (''pending'' @ format_attach_field (mt_attach_id F) @ '' '' @ eff_description e) ?w"
  have "w_host w' = w_host (snd ?a)"
    using assms
    by (auto simp: queue_effect_def new_waiter_def fresh_operation_id_def next_operation_id_def Let_def
        split: prod.splits sum.splits)
  with host_logged_append_event [of E ?w] show ?thesis by simp
qed

lemma request_fields [simp]:
  "prw_id (with_process_identity process (new_with_attach_effect i n a oper e identity)) = i"
  "prw_kind (with_process_identity process (new_with_attach_effect i n a oper e identity)) = eff_kind e"
  "prw_path (with_process_identity process (new_with_attach_effect i n a oper e identity)) = eff_path e"
  "prw_sandbox (with_process_identity process (new_with_attach_effect i n a oper e identity)) = n"
  by (simp_all add: with_process_identity_def new_with_attach_effect_def)

lemma queue_effect_wf:
  assumes "wf_world w" and "queue_effect E F identity process oper log_path e w = (res, w')"
  shows "wf_world w'"
  using assms(2)
proof (cases rule: queue_effect_cases)
  case failed
  let ?w = "snd (fresh_operation_id (snd (new_waiter w)))"
  have "wf_world ?w" using assms(1) by (simp add: wf_world_fresh_id wf_world_new_waiter)
  with failed show ?thesis by (subst wf_world_cong [of _ ?w]) simp_all
next
  case (queued request)
  let ?w = "snd (fresh_operation_id (snd (new_waiter w)))"
  let ?i = "rg_next_operation_id (w_registry w)"
  have wf: "wf_world ?w" using assms(1) by (simp add: wf_world_fresh_id wf_world_new_waiter)
  have "?i \<notin> used_ids (w_registry w)"
    using assms(1) by (auto simp: wf_world_def dest: wf_registryD(6))
  then have adm: "admissible (PendingReadWrite request) (w_registry ?w)"
    by (simp add: queued(1) next_operation_id_def used_ids_def request_ids_def)
  have "\<forall>i. om_get (rg_pending_waiters (w_registry ?w)) i \<noteq> Some (w_next_cell w)"
    using assms(1) by (auto simp: wf_world_def waiters_exact_def next_operation_id_def)
  from wf_world_enqueue [OF wf adm _ _ this] queued show ?thesis
    by (subst wf_world_cong [where w = "with_registry (\<lambda>r. r\<lparr>rg_pending_waiters :=
          om_insert (pending_id (PendingReadWrite request)) (w_next_cell w) (rg_pending_waiters r)\<rparr>)
        (with_registry (insert_any_pending_request (PendingReadWrite request)) ?w)"])
       (simp_all add: insert_pending_read_write_request_def next_operation_id_def)
qed

section \<open>The loop over the effects\<close>

text \<open>What authorisation may do to a registry: queue read/write requests and use up grants.\<close>

definition gate_step :: "registry \<Rightarrow> registry \<Rightarrow> bool" where
  "gate_step r r' \<longleftrightarrow>
     rg_sandboxes r' = rg_sandboxes r \<and> rg_pending r' = rg_pending r
     \<and> rg_pending_index r' = rg_pending_index r \<and> rg_trusted r' = rg_trusted r
     \<and> (\<forall>i q. om_get (rg_pending_read_write r) i = Some q \<longrightarrow> om_get (rg_pending_read_write r') i = Some q)
     \<and> (\<forall>i c. om_get (rg_pending_waiters r) i = Some c \<longrightarrow> om_get (rg_pending_waiters r') i = Some c)
     \<and> (\<forall>i g. om_get (rg_read_write_grants r') i = Some g \<longrightarrow> om_get (rg_read_write_grants r) i = Some g)"

lemma gate_step_refl [simp]: "gate_step r r"
  by (simp add: gate_step_def)

lemma gate_step_trans: "gate_step r r' \<Longrightarrow> gate_step r' r'' \<Longrightarrow> gate_step r r''"
  by (simp add: gate_step_def)

lemma gate_step_next_id [simp]: "gate_step r (snd (next_operation_id r))"
  by (simp add: gate_step_def next_operation_id_def)

lemma queue_effect_step:
  assumes "wf_world w" and "queue_effect E F identity process oper log_path e w = (res, w')"
  shows "gate_step (w_registry w) (w_registry w')"
proof -
  have "rg_next_operation_id (w_registry w) \<notin> used_ids (w_registry w)"
    using assms(1) by (auto simp: wf_world_def dest: wf_registryD(6))
  then have new: "om_get (rg_pending_read_write (w_registry w)) (rg_next_operation_id (w_registry w)) = None"
    by (auto simp: used_ids_def request_ids_def om_keys_dom)
  moreover have "om_get (rg_pending_waiters (w_registry w)) (rg_next_operation_id (w_registry w)) = None"
    using assms(1) \<open>_ \<notin> used_ids _\<close>
    by (auto simp: wf_world_def waiters_exact_def used_ids_def)
  ultimately show ?thesis
    using assms(2)
    by - (erule queue_effect_cases;
      auto simp: gate_step_def insert_pending_read_write_request_def next_operation_id_def)
qed

lemma match_grant_step:
  assumes "wf_registry r"
    and "match_read_write_grant_for_intent G sandbox kind path identity now r = (outcome, r')"
  shows "wf_registry r'" "gate_step r r'" "rg_pending_read_write r' = rg_pending_read_write r"
    "rg_pending_waiters r' = rg_pending_waiters r"
    "\<And>gid c. outcome = Matched gid c \<Longrightarrow>
       \<exists>i g. om_get (rg_read_write_grants r) i = Some g \<and> matches_intent G g sandbox kind path identity now"
    "outcome = NotMatched \<Longrightarrow> r' = r"
proof -
  have wf: "om_wf (rg_read_write_grants r)" using assms(1) by (simp add: wf_registry_def wf_maps_def)
  have drop: "wf_registry (r\<lparr>rg_read_write_grants := om_remove gid (rg_read_write_grants r)\<rparr>)" for gid
    using assms(1) wf by (intro wf_registry_grants) (auto split: if_splits)
  note cases = match_grant_cases [OF wf, of G sandbox kind path identity now, unfolded assms(2)]
  from cases drop assms(1) show "wf_registry r'" "gate_step r r'"
    "rg_pending_read_write r' = rg_pending_read_write r" "rg_pending_waiters r' = rg_pending_waiters r"
    by (auto simp: gate_step_def split: if_splits)
  from cases show "\<And>gid c. outcome = Matched gid c \<Longrightarrow>
       \<exists>i g. om_get (rg_read_write_grants r) i = Some g \<and> matches_intent G g sandbox kind path identity now"
    by blast
  from cases show "outcome = NotMatched \<Longrightarrow> r' = r" by auto
qed

text \<open>An effect is settled when it was open as it was examined, when a grant covers it, or
  when a request for it is queued.\<close>

definition effect_settled ::
  "'h env \<Rightarrow> mount \<Rightarrow> process_identity option \<Rightarrow> system_time \<Rightarrow> read_write_operation \<Rightarrow> sandbox \<Rightarrow> 'h \<Rightarrow> registry \<Rightarrow>
   (nat \<times> pending_waiter) list \<Rightarrow> registry \<Rightarrow> read_write_effect \<Rightarrow> bool"
where
  "effect_settled E F process now oper s h0 r0 queued r e \<longleftrightarrow>
     (\<exists>w. host_logged E h0 (w_host w) \<and> effect_passes E w s oper e)
     \<or> (\<exists>i g. om_get (rg_read_write_grants r0) i = Some g
          \<and> matches_intent (env_glob E) g (mt_sandbox_name F) (eff_kind e) (eff_path e) process now)
     \<or> (\<exists>i c q. (i, c) \<in> set queued \<and> om_get (rg_pending_read_write r) i = Some q
          \<and> prw_kind q = eff_kind e \<and> prw_path q = eff_path e)"

lemma effect_settled_mono:
  assumes "effect_settled E F process now oper s h1 r1 queued r e"
    and "host_logged E h0 h1" "gate_step r0 r1" "gate_step r r'" "set queued \<subseteq> set queued'"
  shows "effect_settled E F process now oper s h0 r0 queued' r' e"
proof -
  have grants: "om_get (rg_read_write_grants r1) i = Some g \<Longrightarrow> om_get (rg_read_write_grants r0) i = Some g" for i g
    using assms(3) by (simp add: gate_step_def)
  have requests: "om_get (rg_pending_read_write r) i = Some q \<Longrightarrow> om_get (rg_pending_read_write r') i = Some q" for i q
    using assms(4) by (simp add: gate_step_def)
  from assms(1) show ?thesis
    unfolding effect_settled_def
    using grants requests host_logged_trans [OF _ assms(2)] assms(5) by blast
qed

definition queued_in :: "registry \<Rightarrow> (nat \<times> pending_waiter) list \<Rightarrow> bool" where
  "queued_in r qs \<longleftrightarrow>
     (\<forall>(i, c) \<in> set qs. om_get (rg_pending_waiters r) i = Some c \<and> om_get (rg_pending_read_write r) i \<noteq> None)"

lemma queued_in_mono: "queued_in r qs \<Longrightarrow> gate_step r r' \<Longrightarrow> queued_in r' qs"
  unfolding queued_in_def gate_step_def by fastforce

lemma queue_effect_done:
  assumes "queue_effect E F identity process oper log_path e w = (Inr x, w1)"
  shows "queued_in (w_registry w1) [x]"
    and "effect_settled E F process' now oper' s h0 r0 [x] (w_registry w1) e"
  using assms
  by (rule queue_effect_cases;
      auto simp: queued_in_def effect_settled_def insert_pending_read_write_request_def)+

text \<open>What the loop over \<open>es\<close> has established when it ends.\<close>

definition effects_done ::
  "'h env \<Rightarrow> mount \<Rightarrow> process_identity option \<Rightarrow> system_time \<Rightarrow> read_write_operation \<Rightarrow> sandbox \<Rightarrow>
   read_write_effect list \<Rightarrow> (nat \<times> pending_waiter) list \<Rightarrow> 'h world \<Rightarrow>
   (errno + (nat \<times> nat) list \<times> (nat \<times> pending_waiter) list) \<times> 'h world \<Rightarrow> bool"
where
  "effects_done E F process now oper s es queued w out \<longleftrightarrow>
     wf_world (snd out) \<and> gate_step (w_registry w) (w_registry (snd out))
     \<and> host_logged E (w_host w) (w_host (snd out))
     \<and> (\<forall>c q. fst out = Inr (c, q) \<longrightarrow>
          (\<exists>new. q = queued @ new \<and> queued_in (w_registry (snd out)) new
             \<and> (\<forall>e \<in> set es. effect_settled E F process now oper s (w_host w) (w_registry w) new (w_registry (snd out)) e)))"

lemma effects_done_Cons:
  assumes rest: "effects_done E F process now oper s es (queued @ qs) w1 out"
    and gs: "gate_step (w_registry w) (w_registry w1)" and hs: "host_logged E (w_host w) (w_host w1)"
    and qs: "queued_in (w_registry w1) qs"
    and se: "effect_settled E F process now oper s (w_host w) (w_registry w) qs (w_registry w1) e"
  shows "effects_done E F process now oper s (e # es) queued w out"
  unfolding effects_done_def
proof (intro conjI allI impI)
  let ?r = "w_registry (snd out)"
  have gs': "gate_step (w_registry w1) ?r" using rest by (simp add: effects_done_def)
  show "host_logged E (w_host w) (w_host (snd out))"
    using rest hs host_logged_trans by (auto simp: effects_done_def)
  show "wf_world (snd out)" using rest by (simp add: effects_done_def)
  show "gate_step (w_registry w) ?r" using gs gs' by (rule gate_step_trans)
  fix c q
  assume "fst out = Inr (c, q)"
  with rest obtain new where new: "q = (queued @ qs) @ new" "queued_in ?r new"
    "\<forall>e \<in> set es. effect_settled E F process now oper s (w_host w1) (w_registry w1) new ?r e"
    by (auto simp: effects_done_def)
  have "queued_in ?r (qs @ new)"
    using queued_in_mono [OF qs gs'] new(2) by (auto simp: queued_in_def)
  moreover have "\<forall>e \<in> set (e # es). effect_settled E F process now oper s (w_host w) (w_registry w) (qs @ new) ?r e"
    using effect_settled_mono [OF se logged_refl gate_step_refl gs', of "qs @ new"] new(3)
      effect_settled_mono [OF _ hs gs gate_step_refl, of F process now oper s new ?r _ "qs @ new"]
    by auto
  ultimately show "\<exists>new. q = queued @ new \<and> queued_in ?r new
      \<and> (\<forall>e \<in> set (e # es). effect_settled E F process now oper s (w_host w) (w_registry w) new ?r e)"
    using new(1) by (intro exI [of _ "qs @ new"]) simp
qed

lemma authorize_effects_done:
  assumes "wf_world w" and "fs_sandbox F w = Some s"
  shows "effects_done E F process now oper s es queued w
    (authorize_effects E F identity process now oper log_path es consumed queued w)"
  using assms
proof (induction es arbitrary: consumed queued w)
  case Nil
  then show ?case by (simp add: effects_done_def queued_in_def)
next
  case (Cons e es)
  note wf = Cons.prems(1) and sb = Cons.prems(2)
  have rg: "wf_registry (w_registry w)" using wf by (simp add: wf_world_def)
  have keeps: "fs_sandbox F w1 = Some s" if "gate_step (w_registry w) (w_registry w1)" for w1
    using that sb by (simp add: fs_sandbox_def gate_step_def)
  obtain outcome r where m: "match_read_write_grant_for_intent (env_glob E) (mt_sandbox_name F) (eff_kind e)
      (eff_path e) process now (w_registry w) = (outcome, r)" by fastforce
  note mg = match_grant_step [OF rg m]
  consider (free) "effect_passes E w s oper e"
    | (granted) gid consume where "\<not> effect_passes E w s oper e" "outcome = Matched gid consume"
    | (ask) "\<not> effect_passes E w s oper e" "outcome = NotMatched"
    by (cases outcome) auto
  then show ?case
  proof cases
    case free
    then have "effect_settled E F process now oper s (w_host w) (w_registry w) [] (w_registry w) e"
      by (auto simp: effect_settled_def)
    with free sb Cons.IH [OF wf sb, of queued consumed] show ?thesis
      by (auto intro: effects_done_Cons [where qs = "[]"] simp: queued_in_def)
  next
    case granted
    let ?w1 = "if consume then snd (fresh_operation_id (w\<lparr>w_registry := r\<rparr>)) else w\<lparr>w_registry := r\<rparr>"
    have wfr: "wf_world (w\<lparr>w_registry := r\<rparr>)"
      using wf mg(1,3,4) mg(2) by (intro wf_world_registry) (simp_all add: gate_step_def)
    have w1: "wf_world ?w1" "gate_step (w_registry w) (w_registry ?w1)"
      using wfr mg(2) by (auto simp: wf_world_fresh_id intro: gate_step_trans [OF _ gate_step_next_id])
    have "effect_settled E F process now oper s (w_host w) (w_registry w) [] (w_registry ?w1) e"
      using mg(5) [OF granted(2)] by (auto simp: effect_settled_def)
    with w1 Cons.IH [OF w1(1) keeps [OF w1(2)],
        of queued "if consume then consumed @ [(rg_next_operation_id r, gid)] else consumed"] sb granted m
    show ?thesis
      by (cases consume)
         (auto intro!: effects_done_Cons [where qs = "[]" and ?w1.0 = ?w1] simp: queued_in_def
            fresh_operation_id_def next_operation_id_def)
  next
    case ask
    have r: "w\<lparr>w_registry := r\<rparr> = w" using mg(6) [OF ask(2)] by simp
    obtain qr w1 where q: "queue_effect E F identity process oper log_path e w = (qr, w1)" by fastforce
    note w1 = queue_effect_wf [OF wf q] queue_effect_step [OF wf q] queue_effect_host [OF q]
    show ?thesis
    proof (cases qr)
      case (Inl err)
      with sb ask m q r w1 show ?thesis by (simp add: effects_done_def)
    next
      case (Inr x)
      note IH = Cons.IH [OF w1(1) keeps [OF w1(2)], of "queued @ [x]" consumed]
      from effects_done_Cons [OF IH w1(2,3) queue_effect_done [OF q [unfolded Inr]]] sb ask m q r Inr
      show ?thesis by simp
    qed
  qed
qed

section \<open>Before the wait\<close>

lemma assign_event_ids_step:
  "wf_registry r \<Longrightarrow> wf_registry (snd (assign_event_ids gs r)) \<and> gate_step r (snd (assign_event_ids gs r))
    \<and> rg_pending_waiters (snd (assign_event_ids gs r)) = rg_pending_waiters r
    \<and> rg_pending_read_write (snd (assign_event_ids gs r)) = rg_pending_read_write r"
proof (induction gs arbitrary: r)
  case Nil
  then show ?case by simp
next
  case (Cons g gs)
  from Cons.IH [OF wf_next_operation_id [OF Cons.prems]] show ?case
    using gate_step_trans [OF gate_step_next_id]
    by (auto simp: split_beta) (simp_all add: next_operation_id_def)
qed

lemma prune_step:
  assumes "wf_registry r"
  shows "wf_registry (snd (prune_expired_read_write_grants_for_sandbox n now r))
    \<and> gate_step r (snd (prune_expired_read_write_grants_for_sandbox n now r))
    \<and> rg_pending_waiters (snd (prune_expired_read_write_grants_for_sandbox n now r)) = rg_pending_waiters r
    \<and> rg_pending_read_write (snd (prune_expired_read_write_grants_for_sandbox n now r)) = rg_pending_read_write r"
proof -
  have wf: "om_wf (rg_read_write_grants r)" using assms by (simp add: wf_registry_def wf_maps_def)
  have sub: "om_get (rg_read_write_grants r) i = Some g"
    if "om_get (filter p (rg_read_write_grants r)) i = Some g" for p i g
    using that wf by (auto simp: om_get_filter split: option.splits if_splits)
  show ?thesis
    using assms wf sub
    by (auto simp: prune_state gate_step_def om_wf_filter intro!: wf_registry_grants)
qed

definition requester_process :: "'h env \<Rightarrow> requester_identity \<Rightarrow> 'h world \<Rightarrow> process_identity option" where
  "requester_process E identity w = identity_for_pid (env_os E) (w_host w) (req_pid identity)"

lemma authorize_begin_spec:
  assumes wf: "wf_world w" and sb: "fs_sandbox F w = Some s"
    and run: "authorize_begin E F identity oper w = (res, w')"
  shows "wf_world w' \<and> gate_step (w_registry w) (w_registry w')
    \<and> (\<forall>queued. res = Inr queued \<longrightarrow> queued_in (w_registry w') queued
        \<and> (\<forall>e \<in> set (effects oper). effect_settled E F (requester_process E identity w)
             (os_now (env_os E) (w_host w)) oper s (w_host w) (w_registry w) queued (w_registry w') e))"
proof -
  let ?p = "requester_process E identity w" and ?now = "os_now (env_os E) (w_host w)"
  obtain pruned r1 where p: "prune_expired_read_write_grants_for_sandbox (mt_sandbox_name F) ?now (w_registry w)
      = (pruned, r1)" by fastforce
  obtain expired r where x: "assign_event_ids pruned r1 = (expired, r)" by fastforce
  have rg: "wf_registry (w_registry w)" using wf by (simp add: wf_world_def)
  have r1: "wf_registry r1" "gate_step (w_registry w) r1"
    "rg_pending_waiters r1 = rg_pending_waiters (w_registry w)"
    "rg_pending_read_write r1 = rg_pending_read_write (w_registry w)"
    using prune_step [OF rg, of "mt_sandbox_name F" ?now] by (simp_all add: p)
  have r: "wf_registry r" "gate_step r1 r" "rg_pending_waiters r = rg_pending_waiters (w_registry w)"
    "rg_pending_read_write r = rg_pending_read_write (w_registry w)"
    using assign_event_ids_step [OF r1(1), of pruned] r1 by (simp_all add: x)
  have gs: "gate_step (w_registry w) r" using r1(2) r(2) by (rule gate_step_trans)
  have w0: "wf_world (w\<lparr>w_registry := r\<rparr>)"
    using wf r gs by (intro wf_world_registry) (simp_all add: gate_step_def)
  have s0: "fs_sandbox F (w\<lparr>w_registry := r\<rparr>) = Some s"
    using sb gs by (simp add: fs_sandbox_def gate_step_def)
  obtain out w1 where a: "authorize_effects E F identity ?p ?now oper (sb_log_path s) (effects oper) [] []
      (w\<lparr>w_registry := r\<rparr>) = (out, w1)" by fastforce
  have fin: "effects_done E F ?p ?now oper s (effects oper) [] (w\<lparr>w_registry := r\<rparr>) (out, w1)"
    using authorize_effects_done [OF w0 s0] a by metis
  have up: "effect_settled E F ?p ?now oper s (w_host w) (w_registry w) q r' e"
    if "effect_settled E F ?p ?now oper s (w_host w) r q r' e" for q r' e
    using effect_settled_mono [OF that logged_refl gs gate_step_refl] by simp
  have same: "w_registry w' = w_registry w1 \<and> wf_world w' = wf_world w1
    \<and> (\<forall>q. res = Inr q \<longrightarrow> (\<exists>c. out = Inr (c, q)))"
    using run a by (cases out) (auto simp: authorize_begin_def sb p x requester_process_def Let_def)
  with fin up gs show ?thesis
    by (auto simp: effects_done_def intro: gate_step_trans)
qed

section \<open>The wait and after it\<close>

lemma await_proceed:
  assumes "await_decisions E (cs @ c # cs') w = Some (Proceed, w')"
  shows "\<exists>w1 d w2. await_decisions E cs w = Some (Proceed, w1)
    \<and> wait_for_decision E c w1 = Some (d, w2) \<and> d \<in> {Apply, DoNothing}"
  using assms
  by (induction cs arbitrary: w) (auto split: option.splits pending_decision.splits)

lemma cancel_keeps_absent:
  "om_get (rg_pending_read_write (w_registry w)) i = None \<Longrightarrow>
   om_get (rg_pending_read_write (w_registry (cancel_unresolved_read_write_effects qs w))) i = None"
  by (induction qs w rule: cancel_unresolved_read_write_effects.induct)
     (auto simp: remove_pending_read_write_request_def split: option.splits)

lemma cancel_drops:
  "(i, c) \<in> set qs \<Longrightarrow>
   om_get (rg_pending_read_write (w_registry (cancel_unresolved_read_write_effects qs w))) i = None"
proof (induction qs w rule: cancel_unresolved_read_write_effects.induct)
  case 1
  then show ?case by simp
next
  case (2 j a qs w)
  from 2 show ?case
    by (auto simp: remove_pending_read_write_request_def split: option.splits intro: cancel_keeps_absent)
qed

text \<open>Open operations are let through without a request.\<close>

lemma authorize_effects_open:
  assumes "fs_sandbox F w = Some s" and "\<forall>e \<in> set es. effect_passes E w s oper e"
  shows "authorize_effects E F identity process now oper log_path es consumed queued w = (Inr (consumed, queued), w)"
  using assms by (induction es) simp_all

section \<open>A small world for evaluation\<close>

definition demo_mount :: mount where
  "demo_mount = \<lparr>mt_sandbox_name = ''box'', mt_attach_id = None\<rparr>"

text \<open>The other threads answer every request by the decision \<open>d\<close>.\<close>

definition demo_env :: "pending_decision \<Rightarrow> unit env" where
  "demo_env d = \<lparr>env_os = demo_host\<lparr>os_create_dir_all := (\<lambda>h _. (Inr (), h)), os_append_line := (\<lambda>h _ _. (Inr (), h))\<rparr>,
     env_glob = simple_glob, env_sched = (\<lambda>w c. Some (w\<lparr>w_cells := (w_cells w)(c := Some d)\<rparr>))\<rparr>"

definition guarded_sandbox :: sandbox where
  "guarded_sandbox = snd (protect Write (PolicyPattern ''/data/doc'' False) demo_sandbox)"

definition demo_world :: "unit world" where
  "demo_world = \<lparr>w_registry = new_registry\<lparr>rg_sandboxes := [(''box'', guarded_sandbox)]\<rparr>,
     w_cells = (\<lambda>_. None), w_next_cell = 0, w_log_running = True, w_inodes = [(1, [])], w_handles = [],
     w_next_handle = 1, w_host = ()\<rparr>"

lemma wf_demo_world: "wf_world demo_world"
  by (simp add: wf_world_def waiters_exact_def wf_registry_def wf_maps_def index_exact_def used_ids_def
      request_ids_def om_keys_def om_values_def om_wf_def demo_world_def new_registry_def
      guarded_sandbox_def wf_demo_sandbox wf_sandbox_rules)

lemma demo_fs_sandbox: "fs_sandbox demo_mount demo_world = Some guarded_sandbox"
  by (simp add: fs_sandbox_def demo_mount_def demo_world_def)

lemma guarded_rules:
  "is_protected simple_glob guarded_sandbox k path d \<longleftrightarrow> k = Write \<and> path_string path = ''/data/doc''"
  "is_bypass G guarded_sandbox k path d \<longleftrightarrow> False"
proof -
  have base: "sb_protection_rules demo_sandbox = []" "sb_bypass_rules demo_sandbox = []"
    by (simp_all add: demo_sandbox_def add_layer_simps new_sandbox_def)
  have "\<not> is_protected simple_glob demo_sandbox k path d" by (simp add: is_protected_def base)
  then show "is_protected simple_glob guarded_sandbox k path d \<longleftrightarrow> k = Write \<and> path_string path = ''/data/doc''"
    unfolding guarded_sandbox_def protection.covers_add
    by (auto simp: pattern_matches_def simple_glob_def glob_pattern_for_match_def ends_with_slash_def)
  show "is_bypass G guarded_sandbox k path d \<longleftrightarrow> False"
    by (simp add: is_bypass_def guarded_sandbox_def base)
qed

lemma demo_prune: "prune_expired_read_write_grants_for_sandbox n now (w_registry demo_world) = ([], w_registry demo_world)"
  by (simp add: prune_expired_read_write_grants_for_sandbox_def demo_world_def new_registry_def List.map_filter_simps)

lemma demo_match:
  "match_read_write_grant_for_intent G n k p i now (w_registry demo_world) = (NotMatched, w_registry demo_world)"
  by (simp add: match_read_write_grant_for_intent_def demo_world_def new_registry_def)

lemma demo_append [simp]: "append_event (demo_env d) p i b w = (Inr (), w)" if "w_log_running w" for w :: "unit world"
  using that
  by (simp add: append_event_def log_append_def log_request_def append_log_file_def create_parent_def
      demo_env_def demo_host_def split: option.splits)

text \<open>The same world with other inodes and handles.\<close>

definition demo_tables :: "(u64, sandbox_path) omap \<Rightarrow> (nat, handle_info) omap \<Rightarrow> unit world" where
  "demo_tables inodes handles = demo_world\<lparr>w_inodes := inodes, w_handles := handles\<rparr>"

lemma demo_tables_simps [simp]:
  "w_registry (demo_tables is hs) = w_registry demo_world" "w_inodes (demo_tables is hs) = is"
  "w_handles (demo_tables is hs) = hs" "w_log_running (demo_tables is hs)"
  "w_cells (demo_tables is hs) = (\<lambda>_. None)" "w_next_cell (demo_tables is hs) = 0"
  by (simp_all add: demo_tables_def demo_world_def)

lemma demo_tables_registry [simp]: "(demo_tables is hs)\<lparr>w_registry := w_registry demo_world\<rparr> = demo_tables is hs"
  by (simp add: demo_tables_def demo_world_def)

lemma demo_world_tables: "demo_world = demo_tables [(1, [])] []"
  by (simp add: demo_tables_def demo_world_def)

lemma wf_demo_tables: "wf_world (demo_tables is hs)"
  using wf_demo_world by (subst wf_world_cong [where w = demo_world]) (simp_all add: demo_world_def)

lemma demo_tables_sandbox: "fs_sandbox demo_mount (demo_tables is hs) = Some guarded_sandbox"
  using demo_fs_sandbox by (simp add: fs_sandbox_def)

lemma demo_queue:
  "\<exists>w1. queue_effect (demo_env d) demo_mount identity pr oper lp e (demo_tables is hs) = (Inr (1, 0), w1)
     \<and> w_log_running w1"
  by (simp add: queue_effect_def new_waiter_def fresh_operation_id_def next_operation_id_def Let_def
      with_registry_def)
     (simp add: demo_world_def new_registry_def demo_tables_def)

lemma demo_tables_begin:
  "\<exists>w1. authorize_begin (demo_env d) demo_mount demo_requester (WriteFile [''data'', ''doc'']) (demo_tables is hs) =
     (Inr [(1, 0)], w1)"
proof -
  have ps: "path_string [''data'', ''doc''] = ''/data/doc''" by (simp add: path_string_def)
  have np: "\<not> effect_passes (demo_env d) (demo_tables is hs) guarded_sandbox (WriteFile [''data'', ''doc''])
    (effect_new Write [''data'', ''doc''] x)" for x
    by (simp add: effect_passes_def effect_new_def is_xattr_operation_def demo_env_def guarded_rules ps)
  show ?thesis
    using demo_queue [of d demo_requester "requester_process (demo_env d) demo_requester (demo_tables is hs)"
        "WriteFile [''data'', ''doc'']" "sb_log_path guarded_sandbox"
        "effect_new Write [''data'', ''doc''] (path_field [''data'', ''doc''] ''WRITE data'')" "is" hs]
    by (auto simp: authorize_begin_def demo_tables_sandbox demo_prune np demo_match requester_process_def Let_def)
qed

lemma demo_begin:
  "\<exists>w1. authorize_begin (demo_env d) demo_mount demo_requester (WriteFile [''data'', ''doc'']) demo_world =
     (Inr [(1, 0)], w1)"
  using demo_tables_begin by (simp add: demo_world_tables)

lemma demo_tables_authorize:
  "\<exists>w'. authorize_read_write (demo_env d) demo_mount demo_requester (WriteFile [''data'', ''doc'']) (demo_tables is hs) =
     Some (Inr (case d of Deny \<Rightarrow> Denied | Cancel \<Rightarrow> Canceled | _ \<Rightarrow> Proceed), w')"
proof -
  obtain w1 where b: "authorize_begin (demo_env d) demo_mount demo_requester (WriteFile [''data'', ''doc''])
      (demo_tables is hs) = (Inr [(1, 0)], w1)" using demo_tables_begin by blast
  from authorize_begin_spec [OF wf_demo_tables demo_tables_sandbox b]
  have "w_cells w1 0 = None" by (auto simp: queued_in_def wf_world_def waiters_exact_def)
  then have "wait_for_decision (demo_env d) 0 w1 = Some (d, w1\<lparr>w_cells := (w_cells w1)(0 := Some d)\<rparr>)"
    by (simp add: wait_for_decision_def demo_env_def)
  with b show ?thesis by (cases d) (simp_all add: authorize_read_write_def)
qed

lemma demo_authorize:
  "\<exists>w'. authorize_read_write (demo_env d) demo_mount demo_requester (WriteFile [''data'', ''doc'']) demo_world =
     Some (Inr (case d of Deny \<Rightarrow> Denied | Cancel \<Rightarrow> Canceled | _ \<Rightarrow> Proceed), w')"
  using demo_tables_authorize by (simp add: demo_world_tables)

text \<open>How an effect may have been let through: open, covered by a grant, or decided in its
  favour by the decision its own request waited for.\<close>

definition effect_allowed ::
  "'h env \<Rightarrow> mount \<Rightarrow> requester_identity \<Rightarrow> read_write_operation \<Rightarrow> sandbox \<Rightarrow> 'h world \<Rightarrow> read_write_effect \<Rightarrow> bool"
where
  "effect_allowed E F identity oper s w e \<longleftrightarrow>
       (\<exists>h. host_logged E (w_host w) h \<and> effect_passes E (w\<lparr>w_host := h\<rparr>) s oper e)
       \<or> (\<exists>i g. om_get (rg_read_write_grants (w_registry w)) i = Some g
            \<and> matches_intent (env_glob E) g (mt_sandbox_name F) (eff_kind e) (eff_path e)
                (requester_process E identity w) (os_now (env_os E) (w_host w)))
       \<or> (\<exists>queued w1 before after i c q. authorize_begin E F identity oper w = (Inr queued, w1)
            \<and> queued = before @ (i, c) # after
            \<and> om_get (rg_pending_read_write (w_registry w1)) i = Some q
            \<and> prw_kind q = eff_kind e \<and> prw_path q = eff_path e
            \<and> om_get (rg_pending_waiters (w_registry w1)) i = Some c
            \<and> (\<exists>w2 d w3. await_decisions E (map snd before) w1 = Some (Proceed, w2)
                 \<and> wait_for_decision E c w2 = Some (d, w3) \<and> d \<in> {Apply, DoNothing}))"

lemma proceed_allowed:
  assumes "wf_world w" and "fs_sandbox F w = Some s"
    and "authorize_read_write E F identity oper w = Some (Inr Proceed, w')"
    and "e \<in> set (effects oper)"
  shows "effect_allowed E F identity oper s w e"
proof -
  from assms(3) obtain queued w1 where b: "authorize_begin E F identity oper w = (Inr queued, w1)"
    and a: "await_decisions E (map snd queued) w1 = Some (Proceed, w')"
    by (auto simp: authorize_read_write_def split: prod.splits sum.splits option.splits if_splits)
  from authorize_begin_spec [OF assms(1,2) b] assms(4)
  have q: "queued_in (w_registry w1) queued"
    and s: "effect_settled E F (requester_process E identity w) (os_now (env_os E) (w_host w)) oper s
      (w_host w) (w_registry w) queued (w_registry w1) e" by auto
  from s consider (free) v where "host_logged E (w_host w) (w_host v)" "effect_passes E v s oper e"
    | (granted) i g where "om_get (rg_read_write_grants (w_registry w)) i = Some g"
        "matches_intent (env_glob E) g (mt_sandbox_name F) (eff_kind e) (eff_path e)
           (requester_process E identity w) (os_now (env_os E) (w_host w))"
    | (asked) i c r where "(i, c) \<in> set queued" "om_get (rg_pending_read_write (w_registry w1)) i = Some r"
        "prw_kind r = eff_kind e" "prw_path r = eff_path e"
    unfolding effect_settled_def by blast
  then show ?thesis
  proof cases
    case free
    then have "effect_passes E (w\<lparr>w_host := w_host v\<rparr>) s oper e" by (simp add: effect_passes_def)
    with free(1) show ?thesis unfolding effect_allowed_def by blast
  next
    case granted
    then show ?thesis unfolding effect_allowed_def by blast
  next
    case asked
    then obtain before after where split: "queued = before @ (i, c) # after" by (metis split_list)
    have "\<exists>w2 d w3. await_decisions E (map snd before) w1 = Some (Proceed, w2)
        \<and> wait_for_decision E c w2 = Some (d, w3) \<and> d \<in> {Apply, DoNothing}"
      using a await_proceed [of E "map snd before" c "map snd after" w1 w'] by (simp add: split)
    moreover have "om_get (rg_pending_waiters (w_registry w1)) i = Some c"
      using q asked(1) by (auto simp: queued_in_def)
    ultimately show ?thesis using b split asked(2-4) unfolding effect_allowed_def by blast
  qed
qed

section \<open>Properties\<close>

text \<open>
  C1: The gate. A read or write goes on only when each of its effects was bypassed or not
  protected as it was examined (on the host as it was, plus lines in the log), or is covered
  by a grant that was in the registry, or was queued as a pending request for exactly that
  kind and path whose caller, at that request's turn, waited on the request's own cell and
  found a decision in its favour.
\<close>

theorem proceed_only_if_settled:
  assumes "wf_world w" and "fs_sandbox F w = Some s"
    and "authorize_read_write E F identity oper w = Some (Inr Proceed, w')"
    and "e \<in> set (effects oper)"
  shows "(\<exists>h. host_logged E (w_host w) h \<and> effect_passes E (w\<lparr>w_host := h\<rparr>) s oper e)
    \<or> (\<exists>i g. om_get (rg_read_write_grants (w_registry w)) i = Some g
         \<and> matches_intent (env_glob E) g (mt_sandbox_name F) (eff_kind e) (eff_path e)
             (requester_process E identity w) (os_now (env_os E) (w_host w)))
    \<or> (\<exists>queued w1 before after i c q. authorize_begin E F identity oper w = (Inr queued, w1)
         \<and> queued = before @ (i, c) # after
         \<and> om_get (rg_pending_read_write (w_registry w1)) i = Some q
         \<and> prw_kind q = eff_kind e \<and> prw_path q = eff_path e
         \<and> om_get (rg_pending_waiters (w_registry w1)) i = Some c
         \<and> (\<exists>w2 d w3. await_decisions E (map snd before) w1 = Some (Proceed, w2)
              \<and> wait_for_decision E c w2 = Some (d, w3) \<and> d \<in> {Apply, DoNothing}))"
  using proceed_allowed [OF assms] by (simp only: effect_allowed_def)

theorem proceed_only_if_settled_witness:
  "\<exists>w'. authorize_read_write (demo_env Apply) demo_mount demo_requester (WriteFile [''data'', ''doc'']) demo_world
       = Some (Inr Proceed, w')
     \<and> (\<exists>queued w1 i c q. authorize_begin (demo_env Apply) demo_mount demo_requester
            (WriteFile [''data'', ''doc'']) demo_world = (Inr queued, w1) \<and> (i, c) \<in> set queued
          \<and> om_get (rg_pending_read_write (w_registry w1)) i = Some q \<and> prw_kind q = Write
          \<and> prw_path q = [''data'', ''doc''])"
proof -
  obtain w' where run: "authorize_read_write (demo_env Apply) demo_mount demo_requester
      (WriteFile [''data'', ''doc'']) demo_world = Some (Inr Proceed, w')"
    using demo_authorize [of Apply] by auto
  let ?e = "effect_new Write [''data'', ''doc''] (path_field [''data'', ''doc''] ''WRITE data'')"
  have "path_string [''data'', ''doc''] = ''/data/doc''" by (simp add: path_string_def)
  then have closed: "\<not> effect_passes (demo_env Apply) v guarded_sandbox (WriteFile [''data'', ''doc'']) ?e" for v
    by (simp add: effect_passes_def effect_new_def is_xattr_operation_def demo_env_def guarded_rules)
  have "rg_read_write_grants (w_registry demo_world) = []" by (simp add: demo_world_def new_registry_def)
  with proceed_only_if_settled [OF wf_demo_world demo_fs_sandbox run, of ?e] closed
  obtain queued w1 before after i c q where
    "authorize_begin (demo_env Apply) demo_mount demo_requester (WriteFile [''data'', ''doc'']) demo_world
       = (Inr queued, w1)" "queued = before @ (i, c) # after"
    "om_get (rg_pending_read_write (w_registry w1)) i = Some q" "prw_kind q = Write"
    "prw_path q = [''data'', ''doc'']"
    by (auto simp: effect_new_def)
  then show ?thesis using run by auto
qed

text \<open>
  C28: A refused operation (denied or cancelled) leaves none of its requests pending, so no
  later decision can act on it.
\<close>

theorem refused_leaves_nothing_pending:
  assumes "authorize_read_write E F identity oper w = Some (Inr d, w')" and "d \<noteq> Proceed"
  shows "\<exists>queued w1. authorize_begin E F identity oper w = (Inr queued, w1)
    \<and> (\<forall>(i, c) \<in> set queued. om_get (rg_pending_read_write (w_registry w')) i = None)"
proof -
  from assms obtain queued w1 w2 where "authorize_begin E F identity oper w = (Inr queued, w1)"
    and "w' = cancel_unresolved_read_write_effects queued w2"
    by (auto simp: authorize_read_write_def split: prod.splits sum.splits option.splits if_splits)
  then show ?thesis by (auto intro: cancel_drops)
qed

theorem refused_leaves_nothing_pending_witness:
  "\<exists>w'. authorize_read_write (demo_env Deny) demo_mount demo_requester (WriteFile [''data'', ''doc'']) demo_world
       = Some (Inr Denied, w') \<and> om_get (rg_pending_read_write (w_registry w')) 1 = None"
proof -
  obtain w' where run: "authorize_read_write (demo_env Deny) demo_mount demo_requester
      (WriteFile [''data'', ''doc'']) demo_world = Some (Inr Denied, w')"
    using demo_authorize [of Deny] by auto
  from refused_leaves_nothing_pending [OF run] demo_begin [of Deny] run show ?thesis by auto
qed

text \<open>
  Authorisation keeps the invariant of the shared state up to the wait, and changes the
  registry only by queueing read/write requests, using up grants and handing out ids.
\<close>

lemma authorize_begin_invariant:
  assumes "wf_world w" and "authorize_begin E F identity oper w = (res, w')"
  shows "wf_world w' \<and> gate_step (w_registry w) (w_registry w')"
proof (cases "fs_sandbox F w")
  case None
  with assms show ?thesis by (simp add: authorize_begin_def)
next
  case (Some s)
  with authorize_begin_spec [OF assms(1) Some assms(2)] show ?thesis by blast
qed

text \<open>
  An operation none of whose effects is protected never blocks: it goes on at once, no
  request is queued and no waiter is touched.
\<close>

lemma open_operation_proceeds:
  assumes "wf_world w" and "fs_sandbox F w = Some s"
    and "\<forall>e \<in> set (effects oper). \<forall>h. effect_passes E (w\<lparr>w_host := h\<rparr>) s oper e"
  shows "\<exists>w'. authorize_read_write E F identity oper w = Some (Inr Proceed, w')
    \<and> rg_pending_read_write (w_registry w') = rg_pending_read_write (w_registry w)
    \<and> rg_pending (w_registry w') = rg_pending (w_registry w) \<and> w_cells w' = w_cells w"
proof -
  let ?now = "os_now (env_os E) (w_host w)"
  obtain pruned r1 where p: "prune_expired_read_write_grants_for_sandbox (mt_sandbox_name F) ?now (w_registry w)
      = (pruned, r1)" by fastforce
  obtain expired r where x: "assign_event_ids pruned r1 = (expired, r)" by fastforce
  have rg: "wf_registry (w_registry w)" using assms(1) by (simp add: wf_world_def)
  note ps = prune_step [OF rg, of "mt_sandbox_name F" ?now, unfolded p snd_conv]
  note as = assign_event_ids_step [of r1 pruned, unfolded x snd_conv]
  have gs: "gate_step (w_registry w) r" "rg_pending_read_write r = rg_pending_read_write (w_registry w)"
    using ps as gate_step_trans by auto
  have s0: "fs_sandbox F (w\<lparr>w_registry := r\<rparr>) = Some s"
    using assms(2) gs(1) by (simp add: fs_sandbox_def gate_step_def)
  have "effect_passes E (w\<lparr>w_registry := r\<rparr>) s oper e" if "e \<in> set (effects oper)" for e
    using assms(3) that by (simp add: effect_passes_def)
  then have a: "authorize_effects E F identity pr ?now oper lp (effects oper) [] [] (w\<lparr>w_registry := r\<rparr>) =
      (Inr ([], []), w\<lparr>w_registry := r\<rparr>)" for pr lp
    by (intro authorize_effects_open [OF s0]) simp
  have "authorize_begin E F identity oper w =
      (Inr [], append_events E (sb_log_path s) (map expired_event expired) (w\<lparr>w_registry := r\<rparr>))"
    by (simp add: authorize_begin_def assms(2) p x a Let_def)
  with gs show ?thesis by (auto simp: authorize_read_write_def gate_step_def)
qed

end
