(* ===== verification/Fs_Metadata.thy ===== *)
theory Fs_Metadata
  imports Fs_Auth
begin

text \<open>
  Properties of metadata requests in \<^verbatim>\<open>src/fs.rs\<close>: a protected change by an untrusted caller
  is queued and changes no override before its decision, at most one request is pending for
  each object and kind of change, an older request for the same change is denied, and an
  allowed change is applied to the object it was asked for.
\<close>

section \<open>The registry while older requests are replaced\<close>

text \<open>
  The keys of the new request leave the index before the requests that hold them are
  removed. Until then the index is exact only up to these keys.
\<close>

definition index_upto :: "pending_operation_key set \<Rightarrow> registry \<Rightarrow> bool" where
  "index_upto K r \<longleftrightarrow>
     (\<forall>key i. om_get (rg_pending_index r) key = Some i \<longrightarrow>
        (\<exists>q. om_get (rg_pending r) i = Some q \<and> key \<in> set (request_keys q)))
     \<and> (\<forall>i q key. om_get (rg_pending r) i = Some q \<longrightarrow> key \<in> set (request_keys q) \<longrightarrow>
          om_get (rg_pending_index r) key = Some i \<or> key \<in> K \<and> om_get (rg_pending_index r) key = None)
     \<and> (\<forall>i j p q key. om_get (rg_pending r) i = Some p \<longrightarrow> om_get (rg_pending r) j = Some q \<longrightarrow>
          key \<in> set (request_keys p) \<longrightarrow> key \<in> set (request_keys q) \<longrightarrow> i = j)"

lemma index_upto_exact:
  assumes "index_exact r"
  shows "index_upto K r"
proof -
  have iff: "om_get (rg_pending_index r) key = Some i \<longleftrightarrow>
      (\<exists>q. om_get (rg_pending r) i = Some q \<and> key \<in> set (request_keys q))" for key i
    using assms by (simp add: index_exact_def)
  have "i = j" if "om_get (rg_pending r) i = Some p" "om_get (rg_pending r) j = Some q"
    "key \<in> set (request_keys p)" "key \<in> set (request_keys q)" for i j p q key
  proof -
    from that have "om_get (rg_pending_index r) key = Some i" "om_get (rg_pending_index r) key = Some j"
      unfolding iff by blast+
    then show ?thesis by simp
  qed
  then show ?thesis unfolding index_upto_def iff by blast
qed

lemma index_exact_upto:
  assumes "index_upto K r"
    and "\<forall>i q. om_get (rg_pending r) i = Some q \<longrightarrow> set (request_keys q) \<inter> K = {}"
  shows "index_exact r"
  using assms unfolding index_exact_def index_upto_def by blast

definition wf_rest :: "registry \<Rightarrow> bool" where
  "wf_rest r \<longleftrightarrow>
     wf_maps r
     \<and> (\<forall>i q. om_get (rg_pending r) i = Some q \<longrightarrow> pm_id q = i)
     \<and> (\<forall>i q. om_get (rg_pending_read_write r) i = Some q \<longrightarrow> prw_id q = i)
     \<and> (\<forall>i g. om_get (rg_read_write_grants r) i = Some g \<longrightarrow> grant_id g = i)
     \<and> (\<forall>i. om_get (rg_pending r) i = None \<or> om_get (rg_pending_read_write r) i = None)
     \<and> (\<forall>i \<in> used_ids r. i < rg_next_operation_id r)
     \<and> (\<forall>n s. om_get (rg_sandboxes r) n = Some s \<longrightarrow> wf_sandbox s)"

lemma wf_registry_rest: "wf_registry r \<longleftrightarrow> wf_rest r \<and> index_exact r"
  by (auto simp: wf_registry_def wf_rest_def)

definition wf_upto :: "pending_operation_key set \<Rightarrow> 'h world \<Rightarrow> bool" where
  "wf_upto K w \<longleftrightarrow> wf_rest (w_registry w) \<and> index_upto K (w_registry w) \<and> waiters_exact w"

lemma wf_upto_world: "wf_world w \<Longrightarrow> wf_upto K w"
  by (simp add: wf_world_def wf_upto_def wf_registry_rest index_upto_exact)

lemma wf_upto_cong:
  assumes "w_registry w' = w_registry w" "w_cells w' = w_cells w" "w_next_cell w' = w_next_cell w"
  shows "wf_upto K w' = wf_upto K w"
  using assms by (simp add: wf_upto_def waiters_exact_def)

section \<open>Taking the keys\<close>

lemma take_index_keys_spec:
  assumes "take_index_keys ks r = (ids, r')"
  shows "r' = r\<lparr>rg_pending_index := rg_pending_index r'\<rparr>"
    "om_get (rg_pending_index r') = (\<lambda>key. if key \<in> set ks then None else om_get (rg_pending_index r) key)"
    "set ids = {i. \<exists>key \<in> set ks. om_get (rg_pending_index r) key = Some i}"
    "om_wf (rg_pending_index r) \<Longrightarrow> om_wf (rg_pending_index r')"
proof -
  have "r' = r\<lparr>rg_pending_index := rg_pending_index r'\<rparr>
    \<and> om_get (rg_pending_index r') = (\<lambda>key. if key \<in> set ks then None else om_get (rg_pending_index r) key)
    \<and> set ids = {i. \<exists>key \<in> set ks. om_get (rg_pending_index r) key = Some i}
    \<and> (om_wf (rg_pending_index r) \<longrightarrow> om_wf (rg_pending_index r'))"
    using assms
  proof (induction ks arbitrary: r ids)
    case Nil
    then show ?case by auto
  next
    case (Cons k ks)
    obtain ids1 where run: "take_index_keys ks (r\<lparr>rg_pending_index := om_remove k (rg_pending_index r)\<rparr>) = (ids1, r')"
      and ids: "ids = (case om_get (rg_pending_index r) k of Some i \<Rightarrow> [i] | None \<Rightarrow> []) @ ids1"
      using Cons.prems by (auto split: prod.splits)
    from Cons.IH [OF run] show ?case
      by (cases "om_get (rg_pending_index r) k")
         (auto simp: ids fun_eq_iff split: if_splits, (metis option.distinct(1) option.inject)+)
  qed
  then show "r' = r\<lparr>rg_pending_index := rg_pending_index r'\<rparr>"
    "om_get (rg_pending_index r') = (\<lambda>key. if key \<in> set ks then None else om_get (rg_pending_index r) key)"
    "set ids = {i. \<exists>key \<in> set ks. om_get (rg_pending_index r) key = Some i}"
    "om_wf (rg_pending_index r) \<Longrightarrow> om_wf (rg_pending_index r')" by blast+
qed

lemma set_unique_ids: "set (unique_ids ids) = set ids"
proof -
  have "set (fold (\<lambda>i acc. if i \<in> set acc then acc else acc @ [i]) ids acc) = set acc \<union> set ids" for acc :: "nat list"
    by (induction ids arbitrary: acc) auto
  then show ?thesis by (simp add: unique_ids_def)
qed

lemma wf_upto_take_index_keys:
  assumes "wf_world w" and t: "take_index_keys ks (w_registry w) = (ids, r)"
  shows "wf_upto (set ks) (w\<lparr>w_registry := r\<rparr>)"
proof -
  note spec = take_index_keys_spec [OF t]
  have wf: "wf_rest (w_registry w)" "index_exact (w_registry w)" "waiters_exact w"
    using assms(1) by (simp_all add: wf_world_def wf_registry_rest)
  obtain m where r: "r = (w_registry w)\<lparr>rg_pending_index := m\<rparr>" using spec(1) by blast
  have "wf_rest r" using wf(1) spec(4) by (auto simp: r wf_rest_def wf_maps_def used_ids_def request_ids_def)
  moreover have "index_upto (set ks) r"
    using index_upto_exact [OF wf(2), of "{}"] spec(2) unfolding index_upto_def by (simp add: r)
  moreover have "waiters_exact (w\<lparr>w_registry := r\<rparr>)"
    using wf(3) by (simp add: r waiters_exact_def request_ids_def)
  ultimately show ?thesis by (simp add: wf_upto_def)
qed

section \<open>Replacing older requests\<close>

lemma index_upto_remove:
  assumes "index_upto K r"
  shows "index_upto K (snd (remove_pending_request i r))"
proof (cases "om_get (rg_pending r) i")
  case None
  then show ?thesis using assms by (simp add: remove_pending_request_def)
next
  case (Some q)
  have old: "om_get (rg_pending_index r) key = Some j \<Longrightarrow>
      \<exists>p. om_get (rg_pending r) j = Some p \<and> key \<in> set (request_keys p)"
    "om_get (rg_pending r) j = Some p \<Longrightarrow> key \<in> set (request_keys p) \<Longrightarrow>
      om_get (rg_pending_index r) key = Some j \<or> key \<in> K \<and> om_get (rg_pending_index r) key = None"
    "om_get (rg_pending r) j = Some p \<Longrightarrow> om_get (rg_pending r) k = Some p' \<Longrightarrow>
      key \<in> set (request_keys p) \<Longrightarrow> key \<in> set (request_keys p') \<Longrightarrow> j = k" for key j k p p'
    using assms unfolding index_upto_def by blast+
  have other: "key \<notin> set (request_keys q)"
    if "om_get (rg_pending r) j = Some p" "key \<in> set (request_keys p)" "j \<noteq> i" for j p key
    using that Some old(3) by blast
  have own: "key \<in> set (request_keys q)" if "om_get (rg_pending_index r) key = Some i" for key
    using old(1) [OF that] Some by simp
  have pending: "om_get (rg_pending (snd (remove_pending_request i r))) = (om_get (rg_pending r))(i := None)"
    by (auto simp: remove_pending_request_def Some)
  have index: "om_get (rg_pending_index (snd (remove_pending_request i r))) =
      (\<lambda>key. if key \<in> set (request_keys q) \<and> om_get (rg_pending_index r) key = Some i then None
             else om_get (rg_pending_index r) key)"
    by (simp add: remove_pending_request_def Some omap_simps)
  show ?thesis
    unfolding index_upto_def pending index
  proof (intro conjI allI impI, goal_cases)
    case (1 key j)
    then show ?case using old(1) [of key j] own [of key] by (auto split: if_splits)
  next
    case (2 j p key)
    then show ?case using old(2) [of j p key] other [of j p key] by (auto split: if_splits)
  next
    case (3 j k p p' key)
    then show ?case using old(3) [of j p k p' key] by (auto split: if_splits)
  qed
qed

lemma wf_rest_remove: "wf_rest r \<Longrightarrow> wf_rest (snd (remove_pending_request i r))"
  by (auto simp: wf_rest_def wf_maps_def remove_pending_request_def omap_simps used_ids_def
      request_ids_def om_keys_dom split: option.splits)

lemma wf_rest_fields:
  assumes "wf_rest r" and "om_wf m" and "rg_next_operation_id r \<le> n"
  shows "wf_rest (r\<lparr>rg_pending_waiters := m, rg_next_operation_id := n\<rparr>)"
proof -
  have "used_ids (r\<lparr>rg_pending_waiters := m, rg_next_operation_id := n\<rparr>) = used_ids r"
    by (simp add: used_ids_def request_ids_def)
  moreover have "\<forall>i \<in> used_ids r. i < n"
    using assms(1,3) less_le_trans unfolding wf_rest_def by blast
  ultimately show ?thesis using assms by (simp add: wf_rest_def wf_maps_def)
qed

text \<open>One older request leaves, together with its waiter.\<close>

lemma wf_upto_drop:
  assumes "wf_upto K w" and q: "om_get (rg_pending (w_registry w)) i = Some q"
    and reg: "w_registry w' = (snd (remove_pending_request i (w_registry w)))
      \<lparr>rg_pending_waiters := om_remove i (rg_pending_waiters (w_registry w)),
       rg_next_operation_id := Suc (rg_next_operation_id (w_registry w))\<rparr>"
    and "w_cells w' = w_cells w" "w_next_cell w' = w_next_cell w"
  shows "wf_upto K w'"
proof -
  let ?r = "snd (remove_pending_request i (w_registry w))"
  have wf: "wf_rest (w_registry w)" "index_upto K (w_registry w)" "waiters_exact w"
    using assms(1) by (simp_all add: wf_upto_def)
  have "om_wf (om_remove i (rg_pending_waiters (w_registry w)))"
    using wf(1) by (simp add: wf_rest_def wf_maps_def)
  moreover have "rg_next_operation_id ?r = rg_next_operation_id (w_registry w)"
    by (simp add: remove_pending_request_def q)
  ultimately have "wf_rest (w_registry w')"
    unfolding reg using wf_rest_remove [OF wf(1), of i] by (intro wf_rest_fields) simp_all
  moreover have "index_upto K (w_registry w')"
    using index_upto_remove [OF wf(2), of i] by (simp add: reg index_upto_def)
  moreover have "waiters_exact w'"
  proof -
    have rw: "om_get (rg_pending_read_write (w_registry w)) i = None"
      using wf(1) q unfolding wf_rest_def by (metis option.distinct(1))
    have "request_ids (w_registry w') = request_ids (w_registry w) - {i}"
      using q rw by (auto simp: reg remove_pending_request_def request_ids_def om_keys_dom)
    with wf(3) assms(4,5) show ?thesis
      unfolding waiters_exact_def by (auto simp: reg)
  qed
  ultimately show ?thesis by (simp add: wf_upto_def)
qed

text \<open>What replacing the requests \<open>ids\<close> does: they are gone, and \<open>ws\<close> are their waiters.\<close>

definition dropped :: "nat set \<Rightarrow> pending_waiter option list \<Rightarrow> 'h world \<Rightarrow> 'h world \<Rightarrow> bool" where
  "dropped I ws w w' \<longleftrightarrow>
     om_get (rg_pending (w_registry w')) = (\<lambda>i. if i \<in> I then None else om_get (rg_pending (w_registry w)) i)
     \<and> rg_pending_read_write (w_registry w') = rg_pending_read_write (w_registry w)
     \<and> rg_sandboxes (w_registry w') = rg_sandboxes (w_registry w)
     \<and> rg_next_operation_id (w_registry w) \<le> rg_next_operation_id (w_registry w')
     \<and> w_cells w' = w_cells w \<and> w_next_cell w' = w_next_cell w
     \<and> (\<forall>c. Some c \<in> set ws \<longleftrightarrow> (\<exists>i \<in> I. om_get (rg_pending (w_registry w)) i \<noteq> None
          \<and> om_get (rg_pending_waiters (w_registry w)) i = Some c))
     \<and> (\<forall>i. om_get (rg_pending_waiters (w_registry w')) i =
          (if i \<in> I \<and> om_get (rg_pending (w_registry w)) i \<noteq> None then None
           else om_get (rg_pending_waiters (w_registry w)) i))"

lemma dropped_refl: "dropped {} [] w w"
  by (simp add: dropped_def)

lemma dropped_absent:
  assumes "dropped I ws w w'" and "om_get (rg_pending (w_registry w)) i = None"
  shows "dropped (insert i I) ws w w'"
  using assms by (auto simp: dropped_def fun_eq_iff)

lemma dropped_step:
  assumes d: "dropped I ws w1 w'" and q: "om_get (rg_pending (w_registry w)) i = Some q"
    and reg: "w_registry w1 = (snd (remove_pending_request i (w_registry w)))
      \<lparr>rg_pending_waiters := om_remove i (rg_pending_waiters (w_registry w)),
       rg_next_operation_id := Suc (rg_next_operation_id (w_registry w))\<rparr>"
    and cells: "w_cells w1 = w_cells w" "w_next_cell w1 = w_next_cell w"
  shows "dropped (insert i I) (om_get (rg_pending_waiters (w_registry w)) i # ws) w w'"
proof -
  have r1: "om_get (rg_pending (w_registry w1)) = (om_get (rg_pending (w_registry w)))(i := None)"
    "rg_pending_read_write (w_registry w1) = rg_pending_read_write (w_registry w)"
    "rg_sandboxes (w_registry w1) = rg_sandboxes (w_registry w)"
    "rg_next_operation_id (w_registry w1) = Suc (rg_next_operation_id (w_registry w))"
    "om_get (rg_pending_waiters (w_registry w1)) = (om_get (rg_pending_waiters (w_registry w)))(i := None)"
    by (auto simp: reg remove_pending_request_def q fun_eq_iff)
  have ws: "Some c \<in> set ws \<longleftrightarrow> (\<exists>j \<in> I. j \<noteq> i \<and> om_get (rg_pending (w_registry w)) j \<noteq> None
      \<and> om_get (rg_pending_waiters (w_registry w)) j = Some c)" for c
    using d unfolding dropped_def r1 by (auto split: if_splits)
  have "Some c \<in> set (om_get (rg_pending_waiters (w_registry w)) i # ws) \<longleftrightarrow>
      (\<exists>j \<in> insert i I. om_get (rg_pending (w_registry w)) j \<noteq> None
      \<and> om_get (rg_pending_waiters (w_registry w)) j = Some c)" for c
    using q ws [of c] by (auto, metis option.distinct(1))
  moreover have "om_get (rg_pending (w_registry w')) =
      (\<lambda>j. if j \<in> insert i I then None else om_get (rg_pending (w_registry w)) j)"
    "rg_next_operation_id (w_registry w) \<le> rg_next_operation_id (w_registry w')"
    using d unfolding dropped_def r1 by (auto simp: fun_eq_iff)
  moreover have "om_get (rg_pending_waiters (w_registry w')) j =
      (if j \<in> insert i I \<and> om_get (rg_pending (w_registry w)) j \<noteq> None then None
       else om_get (rg_pending_waiters (w_registry w)) j)" for j
    using d q unfolding dropped_def r1 by auto
  ultimately show ?thesis
    using d unfolding dropped_def r1 cells by blast
qed

lemma supersede_spec:
  assumes "wf_upto K w" and "supersede E log_path ids failed w = (ws, f, w')"
  shows "wf_upto K w' \<and> dropped (set ids) ws w w'"
  using assms
proof (induction ids arbitrary: failed w ws)
  case Nil
  then show ?case by (simp add: dropped_refl)
next
  case (Cons i ids)
  show ?case
  proof (cases "om_get (rg_pending (w_registry w)) i")
    case None
    then have "supersede E log_path ids failed w = (ws, f, w')"
      using Cons.prems(2) by (simp add: remove_pending_request_def)
    with Cons.IH Cons.prems(1) None show ?thesis by (simp add: dropped_absent)
  next
    case (Some q)
    obtain logged w1 where ev: "append_event E log_path (rg_next_operation_id (w_registry w))
      (''decision request='' @ show_nat i @ format_attach_field (pm_attach_id q) @ '' DENY reason=superseded'')
      (snd (fresh_operation_id (w\<lparr>w_registry := snd (remove_pending_request i (w_registry w))\<rparr>))) = (logged, w1)"
      by fastforce
    then have w1: "w1 = snd (append_event E log_path (rg_next_operation_id (w_registry w))
      (''decision request='' @ show_nat i @ format_attach_field (pm_attach_id q) @ '' DENY reason=superseded'')
      (snd (fresh_operation_id (w\<lparr>w_registry := snd (remove_pending_request i (w_registry w))\<rparr>))))" by simp
    define w2 where "w2 = with_registry (\<lambda>r. r\<lparr>rg_pending_waiters := om_remove i (rg_pending_waiters r)\<rparr>) w1"
    have reg: "w_registry w2 = (snd (remove_pending_request i (w_registry w)))
      \<lparr>rg_pending_waiters := om_remove i (rg_pending_waiters (w_registry w)),
       rg_next_operation_id := Suc (rg_next_operation_id (w_registry w))\<rparr>"
      "w_cells w2 = w_cells w" "w_next_cell w2 = w_next_cell w"
      "om_get (rg_pending_waiters (w_registry w1)) i = om_get (rg_pending_waiters (w_registry w)) i"
      by (simp_all add: w2_def w1 next_operation_id_def remove_pending_request_def Some)
    obtain ws1 where run: "supersede E log_path ids (failed \<or> \<not> is_ok logged) w2 = (ws1, f, w')"
      and ws: "ws = om_get (rg_pending_waiters (w_registry w)) i # ws1"
      using Cons.prems(2) Some ev
      by (auto simp: w2_def remove_pending_request_def fresh_operation_id_def next_operation_id_def
          reg(4) split: prod.splits)
    have "wf_upto K w2" by (rule wf_upto_drop [OF Cons.prems(1) Some reg(1,2,3)])
    with Cons.IH run have "wf_upto K w'" "dropped (set ids) ws1 w2 w'" by blast+
    then show ?thesis using dropped_step [OF _ Some reg(1,2,3)] by (simp add: ws)
  qed
qed

text \<open>The pending requests that hold one of the keys.\<close>

definition rivals :: "registry \<Rightarrow> pending_operation_key set \<Rightarrow> nat set" where
  "rivals r K = {i. \<exists>q. om_get (rg_pending r) i = Some q \<and> set (request_keys q) \<inter> K \<noteq> {}}"

lemma replace_rivals:
  assumes wf: "wf_world w" and t: "take_index_keys ks (w_registry w) = (ids, r)"
    and run: "supersede E log_path (unique_ids ids) False (w\<lparr>w_registry := r\<rparr>) = (ws, f, w')"
  shows "wf_world w'" and "dropped (rivals (w_registry w) (set ks)) ws w w'"
    and "\<forall>key \<in> set ks. om_get (rg_pending_index (w_registry w')) key = None"
proof -
  note spec = take_index_keys_spec [OF t]
  have ids: "set (unique_ids ids) = rivals (w_registry w) (set ks)"
    using wf spec(3) unfolding set_unique_ids rivals_def wf_world_def wf_registry_def index_exact_def by auto
  have s: "wf_upto (set ks) w'" "dropped (rivals (w_registry w) (set ks)) ws (w\<lparr>w_registry := r\<rparr>) w'"
    using supersede_spec [OF wf_upto_take_index_keys [OF wf t] run] by (simp_all add: ids)
  obtain m where r: "r = (w_registry w)\<lparr>rg_pending_index := m\<rparr>" using spec(1) by blast
  have same: "rg_pending r = rg_pending (w_registry w)" "rg_sandboxes r = rg_sandboxes (w_registry w)"
    "rg_pending_read_write r = rg_pending_read_write (w_registry w)"
    "rg_pending_waiters r = rg_pending_waiters (w_registry w)"
    "rg_next_operation_id r = rg_next_operation_id (w_registry w)"
    by (simp_all add: r)
  have reg: "w_registry (w\<lparr>w_registry := r\<rparr>) = r" "w_cells (w\<lparr>w_registry := r\<rparr>) = w_cells w"
    "w_next_cell (w\<lparr>w_registry := r\<rparr>) = w_next_cell w" by simp_all
  show d: "dropped (rivals (w_registry w) (set ks)) ws w w'"
    using s(2) unfolding dropped_def reg same .
  have gone: "set (request_keys q) \<inter> set ks = {}" if "om_get (rg_pending (w_registry w')) i = Some q" for i q
    using that d by (auto simp: dropped_def rivals_def split: if_splits)
  then have "index_exact (w_registry w')"
    using s(1) by (intro index_exact_upto [of "set ks"]) (auto simp: wf_upto_def)
  then show wf': "wf_world w'" using s(1) by (simp add: wf_world_def wf_registry_rest wf_upto_def)
  show "\<forall>key \<in> set ks. om_get (rg_pending_index (w_registry w')) key = None"
  proof
    fix key
    assume "key \<in> set ks"
    with gone have "om_get (rg_pending_index (w_registry w')) key \<noteq> Some i" for i
      using \<open>index_exact (w_registry w')\<close> unfolding index_exact_def by blast
    then show "om_get (rg_pending_index (w_registry w')) key = None" by (cases "om_get (rg_pending_index (w_registry w')) key") auto
  qed
qed

lemma notify_all_simps [simp]:
  "w_registry (notify_all ws d w) = w_registry w"
  "w_next_cell (notify_all ws d w) = w_next_cell w"
  "w_host (notify_all ws d w) = w_host w"
  "w_cells (notify_all ws d w) = (\<lambda>c. if Some c \<in> set ws then Some d else w_cells w c)"
proof -
  have "w_registry (fold (\<lambda>c. notify_waiter c d) ws w) = w_registry w
    \<and> w_next_cell (fold (\<lambda>c. notify_waiter c d) ws w) = w_next_cell w
    \<and> w_host (fold (\<lambda>c. notify_waiter c d) ws w) = w_host w
    \<and> w_cells (fold (\<lambda>c. notify_waiter c d) ws w) = (\<lambda>c. if Some c \<in> set ws then Some d else w_cells w c)"
    by (induction ws arbitrary: w) (auto simp: notify_waiter_def fun_eq_iff split: option.splits)
  then show "w_registry (notify_all ws d w) = w_registry w"
    "w_next_cell (notify_all ws d w) = w_next_cell w" "w_host (notify_all ws d w) = w_host w"
    "w_cells (notify_all ws d w) = (\<lambda>c. if Some c \<in> set ws then Some d else w_cells w c)"
    by (simp_all add: notify_all_def)
qed

lemma wf_world_notify_all:
  assumes "wf_world w" and "\<And>c i. Some c \<in> set ws \<Longrightarrow> om_get (rg_pending_waiters (w_registry w)) i \<noteq> Some c"
  shows "wf_world (notify_all ws d w)"
  using assms unfolding wf_world_def waiters_exact_def by auto

lemma dropped_waiters_free:
  assumes "wf_world w" and "dropped I ws w w'" and "Some c \<in> set ws"
  shows "om_get (rg_pending_waiters (w_registry w')) i \<noteq> Some c"
proof -
  obtain j where j: "j \<in> I" "om_get (rg_pending (w_registry w)) j \<noteq> None"
    "om_get (rg_pending_waiters (w_registry w)) j = Some c"
    using assms(2,3) by (auto simp: dropped_def)
  have "om_get (rg_pending_waiters (w_registry w)) i = Some c \<Longrightarrow> i = j"
    using assms(1) j(3) unfolding wf_world_def waiters_exact_def by blast
  with j assms(2) show ?thesis by (auto simp: dropped_def)
qed

section \<open>Queueing a metadata request\<close>

text \<open>What is true of the shared state after a request for the keys \<open>ks\<close> was queued with id \<open>i\<close>:
  it is the only holder of its keys, its waiter is undecided, and every older holder is gone
  with its caller told \<open>Deny\<close>.\<close>

definition rivals_denied :: "pending_operation_key set \<Rightarrow> 'h world \<Rightarrow> 'h world \<Rightarrow> bool" where
  "rivals_denied K w w' \<longleftrightarrow>
     (\<forall>i \<in> rivals (w_registry w) K. om_get (rg_pending (w_registry w')) i = None
        \<and> (\<forall>c. om_get (rg_pending_waiters (w_registry w)) i = Some c \<longrightarrow> w_cells w' c = Some Deny))"

definition request_queued ::
  "pending_metadata_outcome \<Rightarrow> nat \<Rightarrow> pending_metadata_request \<Rightarrow> 'h world \<Rightarrow> bool"
where
  "request_queued p i q w \<longleftrightarrow>
     om_get (rg_pending (w_registry w)) i = Some q \<and> pm_id q = i
     \<and> pm_operation q = po_operation p \<and> pm_object q = po_object p
     \<and> om_get (rg_pending_waiters (w_registry w)) i = Some (po_waiter p) \<and> w_cells w (po_waiter p) = None
     \<and> (\<forall>key \<in> set (request_keys q). om_get (rg_pending_index (w_registry w)) key = Some i)"

text \<open>The state in which the new request is logged and its rivals are told.\<close>

lemma queue_metadata_prepared:
  assumes wf: "wf_world w"
    and t: "take_index_keys ks (w_registry (snd (new_waiter w))) = (ids, r)"
    and run: "supersede E log_path (unique_ids ids) False ((snd (new_waiter w))\<lparr>w_registry := r\<rparr>) = (ws, f, w2)"
    and reg: "w_registry w4 = snd (next_operation_id (w_registry w2))"
    and cells: "w_cells w4 = w_cells w2" "w_next_cell w4 = w_next_cell w2"
  defines "w5 \<equiv> notify_all ws Deny w4"
  shows "wf_world w5" and "rg_sandboxes (w_registry w5) = rg_sandboxes (w_registry w)"
    and "rivals_denied (set ks) w w5" and "w_cells w5 (w_next_cell w) = None"
    and "w_next_cell w < w_next_cell w5"
    and "\<forall>i. om_get (rg_pending_waiters (w_registry w5)) i \<noteq> Some (w_next_cell w)"
    and "\<forall>key \<in> set ks. om_get (rg_pending_index (w_registry w5)) key = None"
    and "rg_next_operation_id (w_registry w2) \<notin> request_ids (w_registry w5)"
    and "rg_next_operation_id (w_registry w2) < rg_next_operation_id (w_registry w5)"
proof -
  let ?w1 = "snd (new_waiter w)"
  note w2 = replace_rivals [OF wf_world_new_waiter [OF wf] t run]
  note d = w2(2) [unfolded dropped_def]
  have below: "c < w_next_cell w" if "om_get (rg_pending_waiters (w_registry w)) i = Some c" for i c
    using that wf by (auto simp: wf_world_def waiters_exact_def)
  then have ws: "c < w_next_cell w" if "Some c \<in> set ws" for c
    using d that by auto
  have "wf_world w4 = wf_world (snd (fresh_operation_id w2))"
    using reg cells by (intro wf_world_cong) simp_all
  then have "wf_world w4" using wf_world_fresh_id [OF w2(1)] by simp
  moreover have "om_get (rg_pending_waiters (w_registry w4)) i \<noteq> Some c" if "Some c \<in> set ws" for i c
    using dropped_waiters_free [OF wf_world_new_waiter [OF wf] w2(2) that] reg
    by (simp add: next_operation_id_def)
  ultimately show "wf_world w5" unfolding w5_def by (intro wf_world_notify_all)
  show "rg_sandboxes (w_registry w5) = rg_sandboxes (w_registry w)"
    using d reg by (simp add: w5_def next_operation_id_def)
  have "rivals (w_registry ?w1) (set ks) = rivals (w_registry w) (set ks)" by simp
  moreover have "Some c \<in> set ws"
    if "i \<in> rivals (w_registry w) (set ks)" "om_get (rg_pending_waiters (w_registry w)) i = Some c" for i c
    using d that by (auto simp: rivals_def)
  ultimately show "rivals_denied (set ks) w w5"
    unfolding rivals_denied_def using d reg by (auto simp: w5_def next_operation_id_def)
  show "w_cells w5 (w_next_cell w) = None" "w_next_cell w < w_next_cell w5"
    using ws cells d by (auto simp: w5_def)
  show "\<forall>i. om_get (rg_pending_waiters (w_registry w5)) i \<noteq> Some (w_next_cell w)"
    using below d reg by (auto simp: w5_def next_operation_id_def split: if_splits)
  show "\<forall>key \<in> set ks. om_get (rg_pending_index (w_registry w5)) key = None"
    using w2(3) reg by (simp add: w5_def next_operation_id_def)
  have "i < rg_next_operation_id (w_registry w2)" if "i \<in> request_ids (w_registry w2)" for i
    using that w2(1) by (auto simp: wf_world_def wf_registry_def used_ids_def)
  then show "rg_next_operation_id (w_registry w2) \<notin> request_ids (w_registry w5)"
    "rg_next_operation_id (w_registry w2) < rg_next_operation_id (w_registry w5)"
    using reg by (auto simp: w5_def next_operation_id_def request_ids_def)
qed

text \<open>The request that is queued, and the outcomes of queueing.\<close>

definition metadata_request_of ::
  "mount \<Rightarrow> requester_identity \<Rightarrow> metadata_operation \<Rightarrow> metadata_object_key \<Rightarrow> nat \<Rightarrow> pending_metadata_request"
where
  "metadata_request_of F identity oper object i =
     \<lparr>pm_id = i, pm_sandbox = mt_sandbox_name F, pm_attach_id = mt_attach_id F,
      pm_operation = oper, pm_object = object, pm_kinds = pending_kinds oper, pm_pid = req_pid identity,
      pm_uid = req_uid identity, pm_gid = req_gid identity, pm_description = metadata_event_body oper\<rparr>"

lemma queue_metadata_run:
  fixes w :: "'h world"
  assumes run: "queue_metadata_request E F identity path oper object unchanged log_path w = (res, w')"
  defines "ks \<equiv> pending_metadata_keys (mt_sandbox_name F) object (pending_kinds oper)"
  obtains ids r ws f w2 and w4 :: "'h world"
  where "take_index_keys ks (w_registry (snd (new_waiter w))) = (ids, r)"
    and "supersede E log_path (unique_ids ids) False ((snd (new_waiter w))\<lparr>w_registry := r\<rparr>) = (ws, f, w2)"
    and "w_registry w4 = snd (next_operation_id (w_registry w2))" "w_cells w4 = w_cells w2" "w_next_cell w4 = w_next_cell w2"
    and "(res, w') = (Inl EIO, notify_all ws Deny w4) \<or>
      (res, w') = (Inr (MetadataPending \<lparr>po_unchanged_attr = unchanged, po_path = path, po_object = object,
          po_operation = oper, po_waiter = w_next_cell w\<rparr>),
        with_registry (\<lambda>r. r\<lparr>rg_pending_waiters := om_insert (rg_next_operation_id (w_registry w2)) (w_next_cell w) (rg_pending_waiters r)\<rparr>)
          (with_registry (insert_pending_request (metadata_request_of F identity oper object (rg_next_operation_id (w_registry w2))))
            (notify_all ws Deny w4)))"
proof -
  obtain ids r where t: "take_index_keys ks (w_registry (snd (new_waiter w))) = (ids, r)" by fastforce
  obtain ws f w2 where s: "supersede E log_path (unique_ids ids) False
      ((snd (new_waiter w))\<lparr>w_registry := r\<rparr>) = (ws, f, w2)" by (metis prod_cases3)
  let ?i = "rg_next_operation_id (w_registry w2)" and ?c = "w_next_cell w"
  obtain logged w4 where a: "append_event E log_path ?i
      (''pending'' @ format_attach_field (mt_attach_id F) @ '' '' @ metadata_event_body oper)
      (snd (fresh_operation_id w2)) = (logged, w4)" by fastforce
  have w4: "w_registry w4 = snd (next_operation_id (w_registry w2))" "w_cells w4 = w_cells w2"
    "w_next_cell w4 = w_next_cell w2"
    using append_event_simps [of E log_path ?i "''pending'' @ format_attach_field (mt_attach_id F) @ '' ''
        @ metadata_event_body oper" "snd (fresh_operation_id w2)"]
    by (simp_all only: a snd_conv fresh_operation_id_simps)
  have nw: "new_waiter w = (?c, snd (new_waiter w))" and fr: "fresh_operation_id w2 = (?i, snd (fresh_operation_id w2))"
    by (simp_all add: prod_eq_iff)
  have eq: "queue_metadata_request E F identity path oper object unchanged log_path w =
      (if f \<or> \<not> is_ok logged then (Inl EIO, notify_all ws Deny w4)
       else (Inr (MetadataPending \<lparr>po_unchanged_attr = unchanged, po_path = path, po_object = object,
          po_operation = oper, po_waiter = ?c\<rparr>),
        with_registry (\<lambda>r. r\<lparr>rg_pending_waiters := om_insert ?i ?c (rg_pending_waiters r)\<rparr>)
          (with_registry (insert_pending_request (metadata_request_of F identity oper object ?i)) (notify_all ws Deny w4))))"
    unfolding queue_metadata_request_def Let_def metadata_request_of_def
    by (subst nw, simp only: case_prod_conv t [unfolded ks_def] s, subst fr, simp only: case_prod_conv a)
  show ?thesis by (rule that [OF t s w4]) (use run eq in \<open>auto split: if_splits\<close>)
qed

lemma queue_metadata_spec:
  assumes wf: "wf_world w"
    and run: "queue_metadata_request E F identity path oper object unchanged log_path w = (res, w')"
  defines "ks \<equiv> pending_metadata_keys (mt_sandbox_name F) object (pending_kinds oper)"
  shows "wf_world w'" and "rg_sandboxes (w_registry w') = rg_sandboxes (w_registry w)"
    and "rivals_denied (set ks) w w'"
    and "res = Inl EIO \<or> (\<exists>p i q. res = Inr (MetadataPending p) \<and> request_queued p i q w'
          \<and> po_operation p = oper \<and> po_object p = object \<and> request_keys q = ks)"
proof -
  obtain ids r ws f w2 w4 where t: "take_index_keys ks (w_registry (snd (new_waiter w))) = (ids, r)"
    and s: "supersede E log_path (unique_ids ids) False ((snd (new_waiter w))\<lparr>w_registry := r\<rparr>) = (ws, f, w2)"
    and w4: "w_registry w4 = snd (next_operation_id (w_registry w2))" "w_cells w4 = w_cells w2" "w_next_cell w4 = w_next_cell w2"
    and eq: "(res, w') = (Inl EIO, notify_all ws Deny w4) \<or>
      (res, w') = (Inr (MetadataPending \<lparr>po_unchanged_attr = unchanged, po_path = path, po_object = object,
          po_operation = oper, po_waiter = w_next_cell w\<rparr>),
        with_registry (\<lambda>r. r\<lparr>rg_pending_waiters := om_insert (rg_next_operation_id (w_registry w2)) (w_next_cell w) (rg_pending_waiters r)\<rparr>)
          (with_registry (insert_pending_request (metadata_request_of F identity oper object (rg_next_operation_id (w_registry w2))))
            (notify_all ws Deny w4)))"
    by (rule queue_metadata_run [OF run, folded ks_def])
  let ?i = "rg_next_operation_id (w_registry w2)" and ?c = "w_next_cell w"
  let ?w5 = "notify_all ws Deny w4"
  note prep = queue_metadata_prepared [OF wf t s w4]
  let ?q = "metadata_request_of F identity oper object ?i"
  let ?p = "\<lparr>po_unchanged_attr = unchanged, po_path = path, po_object = object,
                 po_operation = oper, po_waiter = ?c\<rparr>"
  let ?w6 = "with_registry (\<lambda>r. r\<lparr>rg_pending_waiters := om_insert ?i ?c (rg_pending_waiters r)\<rparr>)
     (with_registry (insert_pending_request ?q) ?w5)"
  have keys: "request_keys ?q = ks" by (simp add: request_keys_def ks_def metadata_request_of_def)
  have id: "pm_id ?q = ?i" by (simp add: metadata_request_of_def)
  have adm: "admissible (PendingMetadata ?q) (w_registry ?w5)"
    using prep(7,8,9) by (simp add: keys id)
  have w6: "wf_world ?w6"
    using wf_world_enqueue [OF prep(1) adm prep(5,4,6)]
    by (simp add: with_registry_def id)
  have q6: "request_queued ?p ?i ?q ?w6"
    using prep(4) keys by (simp add: request_queued_def insert_pending_request_def omap_simps id)
      (simp add: metadata_request_of_def)
  have "?i \<notin> rivals (w_registry w) (set ks)"
  proof
    assume "?i \<in> rivals (w_registry w) (set ks)"
    then have "?i \<in> request_ids (w_registry w)" by (auto simp: rivals_def request_ids_def om_keys_dom)
    then have "?i < rg_next_operation_id (w_registry w)"
      using wf by (auto simp: wf_world_def wf_registry_def used_ids_def)
    with replace_rivals(2) [OF wf_world_new_waiter [OF wf] t s] show False by (simp add: dropped_def)
  qed
  then have r6: "rivals_denied (set ks) w ?w6"
    using prep(3) unfolding rivals_denied_def by (auto simp: insert_pending_request_def id)
  have sb6: "rg_sandboxes (w_registry ?w6) = rg_sandboxes (w_registry ?w5)"
    by (simp add: insert_pending_request_def)
  show "wf_world w'" "rg_sandboxes (w_registry w') = rg_sandboxes (w_registry w)" "rivals_denied (set ks) w w'"
    using eq w6 r6 sb6 prep(1,2,3) by auto
  show "res = Inl EIO \<or> (\<exists>p i q. res = Inr (MetadataPending p) \<and> request_queued p i q w'
          \<and> po_operation p = oper \<and> po_object p = object \<and> request_keys q = ks)"
    using eq q6 keys by fastforce
qed

section \<open>The other branches\<close>

text \<open>Reading attributes touches the inode table only.\<close>

lemma attr_for_path_frame:
  assumes "attr_for_path E F path w = (res, w')"
  shows "w_registry w' = w_registry w" "w_cells w' = w_cells w" "w_next_cell w' = w_next_cell w"
    "w_host w' = w_host w" "wf_world w' = wf_world w" "fs_sandbox F' w' = fs_sandbox F' w"
proof -
  obtain m where "w' = w\<lparr>w_inodes := m\<rparr>"
  proof -
    have "w' = w \<or> w' = w\<lparr>w_inodes := om_insert (stable_ino path) path (w_inodes w)\<rparr>"
      using assms
      by (auto simp: attr_for_path_def remember_def Let_def split: option.splits resolved_path.splits sum.splits)
    moreover have "w = w\<lparr>w_inodes := w_inodes w\<rparr>" by simp
    ultimately show ?thesis using that by metis
  qed
  then show "w_registry w' = w_registry w" "w_cells w' = w_cells w" "w_next_cell w' = w_next_cell w"
    "w_host w' = w_host w" "wf_world w' = wf_world w" "fs_sandbox F' w' = fs_sandbox F' w"
    by (simp_all add: fs_sandbox_def)
qed

text \<open>Applying a change replaces one sandbox by itself with the object's override updated.\<close>

lemma apply_to_registry_cases:
  assumes "apply_to_registry_object F object path oper w = (res, w')"
  obtains (failed) e where "res = Inl e" "w' = w"
  | (applied) s s' where "res = Inr ()" "fs_sandbox F w = Some s"
      "apply_metadata_override_to_object object path oper s = Inr s'"
      "w' = with_registry (\<lambda>r. r\<lparr>rg_sandboxes := om_insert (mt_sandbox_name F) s' (rg_sandboxes r)\<rparr>) w"
proof (cases "fs_sandbox F w")
  case None
  with assms show ?thesis by (intro failed) (auto simp: apply_to_registry_object_def)
next
  case (Some s)
  show ?thesis
  proof (cases "apply_metadata_override_to_object object path oper s")
    case (Inl e)
    with assms Some show ?thesis by (intro failed) (auto simp: apply_to_registry_object_def)
  next
    case (Inr s')
    with assms Some show ?thesis by (intro applied [OF _ Some Inr]) (auto simp: apply_to_registry_object_def)
  qed
qed

lemma wf_registry_sandboxes:
  assumes "wf_registry r" and "wf_sandbox s"
  shows "wf_registry (r\<lparr>rg_sandboxes := om_insert n s (rg_sandboxes r)\<rparr>)"
  using assms
  by (auto simp: wf_registry_def wf_maps_def index_exact_def used_ids_def request_ids_def split: if_splits)

lemma wf_apply_to_registry:
  assumes "wf_world w" and run: "apply_to_registry_object F object path oper w = (res, w')"
  shows "wf_world w'"
  using run
proof (cases rule: apply_to_registry_cases)
  case failed
  with assms(1) show ?thesis by simp
next
  case (applied s s')
  have "wf_sandbox s"
    using assms(1) applied(2) by (auto simp: wf_world_def wf_registry_def fs_sandbox_def)
  then have "wf_sandbox s'" using applied(3) by (rule wf_sandbox_apply_to_object)
  then show ?thesis
    unfolding applied(4) with_registry_def
    using assms(1) by (intro wf_world_registry wf_registry_sandboxes) (simp_all add: wf_world_def)
qed

lemma wf_apply_and_reread:
  assumes "wf_world w" and "apply_and_reread E F object path oper w = (res, w')"
  shows "wf_world w'"
  using assms
  by (auto simp: apply_and_reread_def attr_for_path_frame(5) dest: wf_apply_to_registry
      split: prod.splits sum.splits)

lemma wf_begin_trusted:
  assumes wf: "wf_world w" and run: "begin_trusted_metadata E F identity path oper object w = (res, w')"
  shows "wf_world w'"
proof -
  have wf1: "wf_world w1" if "fresh_operation_id w = (i, w1)" for i w1
    using wf_world_fresh_id [OF wf] that by simp
  have wf2: "wf_world w2" if "append_event E p i b w1 = (x, w2)" "wf_world w1" for p i b w1 x w2
    using wf_world_append_event [of E p i b w1] that by simp
  show ?thesis
    using run wf
    by (auto simp: begin_trusted_metadata_def Let_def dest!: wf1 wf2 intro: wf_apply_and_reread
        split: option.splits prod.splits sum.splits if_splits)
qed

text \<open>
  The documented policy for the kinds of a metadata change: a kind asks when a rule protects its
  layer and no bypass rule of that layer matches. For an extended attribute the layers are the
  metadata and the xattr one, and a \<^verbatim>\<open>bypass-xattr\<close> rule opens both.
\<close>

definition policy_asks :: "'h env \<Rightarrow> 'h world \<Rightarrow> sandbox \<Rightarrow> sandbox_path \<Rightarrow> pending_operation_kind list \<Rightarrow> bool" where
  "policy_asks E w s path kinds \<longleftrightarrow>
     (let target_is_dir = path_is_directory (env_os E) (w_host w) s path;
          guarded = (\<lambda>layer. is_protected (env_glob E) s layer path target_is_dir
                              \<and> \<not> is_bypass (env_glob E) s layer path target_is_dir)
      in list_ex (\<lambda>kind. if kind = KXattr
                        then (guarded Metadata \<or> guarded Xattr) \<and> \<not> is_bypass (env_glob E) s Xattr path target_is_dir
                        else guarded Metadata) kinds)"

lemma policy_asks_protected: "policy_asks E w s path kinds \<Longrightarrow> requires_metadata_protection E w s path kinds"
  by (auto simp: policy_asks_def requires_metadata_protection_def Let_def list_ex_iff split: if_splits pending_operation_kind.split)

text \<open>
  Where the code asks: \<^verbatim>\<open>begin_metadata_request\<close> looks at the protection rules only, so it asks
  wherever the policy does, and also where a bypass rule matches.
\<close>

definition code_asks :: "'h env \<Rightarrow> mount \<Rightarrow> requester_identity \<Rightarrow> sandbox_path \<Rightarrow> metadata_operation \<Rightarrow> 'h world \<Rightarrow> bool" where
  "code_asks E F identity path oper w \<longleftrightarrow>
     (\<exists>s. fs_sandbox F w = Some s
        \<and> \<not> is_trusted_operation (w_registry w) (mt_sandbox_name F) (req_pid identity) (req_uid identity) path
        \<and> pending_kinds oper \<noteq> [] \<and> requires_metadata_protection E w s path (pending_kinds oper))"

text \<open>A change must ask when its caller is not trusted and the policy asks for one of its kinds.\<close>

definition must_ask :: "'h env \<Rightarrow> mount \<Rightarrow> requester_identity \<Rightarrow> sandbox_path \<Rightarrow> metadata_operation \<Rightarrow> 'h world \<Rightarrow> bool" where
  "must_ask E F identity path oper w \<longleftrightarrow>
     (\<exists>s. fs_sandbox F w = Some s
        \<and> \<not> is_trusted_operation (w_registry w) (mt_sandbox_name F) (req_pid identity) (req_uid identity) path
        \<and> policy_asks E w s path (pending_kinds oper))"

lemma must_ask_code: "must_ask E F identity path oper w \<Longrightarrow> code_asks E F identity path oper w"
  using policy_asks_protected unfolding must_ask_def code_asks_def
  by (fastforce simp: policy_asks_def Let_def)

text \<open>A protected change by a caller that is not trusted ends in the queue.\<close>

lemma begin_metadata_asks:
  assumes ask: "code_asks E F identity path oper w"
    and run: "begin_metadata_request E F identity path oper w = (res, w')"
  obtains (failed) e where "res = Inl e" "w_registry w' = w_registry w" "w_cells w' = w_cells w" "wf_world w' = wf_world w"
  | (asked) s object unchanged w1 where "fs_sandbox F w = Some s" "metadata_object_key s path = Some object"
      "attr_for_path E F path w = (Inr unchanged, w1)"
      "queue_metadata_request E F identity path oper object unchanged (sb_log_path s) w1 = (res, w')"
proof -
  obtain s where s: "fs_sandbox F w = Some s"
    "\<not> is_trusted_operation (w_registry w) (mt_sandbox_name F) (req_pid identity) (req_uid identity) path"
    "pending_kinds oper \<noteq> []" "requires_metadata_protection E w s path (pending_kinds oper)"
    using ask by (auto simp: code_asks_def)
  obtain a w1 where at: "attr_for_path E F path w = (a, w1)" by fastforce
  note f = attr_for_path_frame [OF at]
  have prot: "requires_metadata_protection E w1 s path (pending_kinds oper)"
    using s(4) f(4) by (simp add: requires_metadata_protection_def)
  show ?thesis
  proof (cases a)
    case (Inl e)
    with run at f show ?thesis by (intro failed [of e]) (simp_all add: begin_metadata_request_def)
  next
    case (Inr unchanged)
    show ?thesis
    proof (cases "metadata_object_key s path")
      case None
      with run at f s(1) Inr show ?thesis
        by (intro failed [of ENOTSUP]) (simp_all add: begin_metadata_request_def)
    next
      case (Some object)
      with run at f s prot Inr show ?thesis
        by (intro asked [OF s(1) Some at [unfolded Inr]]) (simp add: begin_metadata_request_def)
    qed
  qed
qed

lemma wf_begin_metadata:
  assumes wf: "wf_world w" and run: "begin_metadata_request E F identity path oper w = (res, w')"
  shows "wf_world w'"
proof -
  obtain a w1 where at: "attr_for_path E F path w = (a, w1)" by fastforce
  have w1: "wf_world w1" using attr_for_path_frame(5) [OF at] wf by simp
  show ?thesis
    using run at w1
    by (auto simp: begin_metadata_request_def intro: wf_begin_trusted wf_apply_and_reread queue_metadata_spec(1)
        split: sum.splits option.splits if_splits)
qed

section \<open>A small world for evaluation\<close>

definition file_meta :: host_metadata where
  "file_meta = \<lparr>hm_mode = 0x81A4, hm_is_dir = False, hm_is_symlink = False, hm_is_file = True, hm_size = 5,
     hm_blocks = 1, hm_atime = 0, hm_atime_nsec = 0, hm_mtime = 0, hm_mtime_nsec = 0, hm_ctime = 0,
     hm_ctime_nsec = 0, hm_nlink = 1, hm_uid = 0, hm_gid = 0, hm_rdev = 0, hm_blksize = 512\<rparr>"

definition meta_env :: "pending_decision \<Rightarrow> unit env" where
  "meta_env d = (demo_env d)\<lparr>env_os := (env_os (demo_env d))\<lparr>os_symlink_metadata := (\<lambda>_ _. Inr file_meta)\<rparr>\<rparr>"

definition meta_sandbox :: sandbox where
  "meta_sandbox = snd (protect Metadata (PolicyPattern ''/data/doc'' False) demo_sandbox)"

definition meta_world :: "unit world" where
  "meta_world = with_registry (\<lambda>r. r\<lparr>rg_sandboxes := om_insert ''box'' meta_sandbox (rg_sandboxes r)\<rparr>) demo_world"

abbreviation doc_path :: sandbox_path where
  "doc_path \<equiv> [''data'', ''doc'']"

lemma wf_meta_world: "wf_world meta_world"
  unfolding meta_world_def with_registry_def
  using wf_demo_world
  by (intro wf_world_registry wf_registry_sandboxes)
     (simp_all add: wf_world_def meta_sandbox_def wf_demo_sandbox wf_sandbox_rules)

lemma meta_fs_sandbox: "fs_sandbox demo_mount meta_world = Some meta_sandbox"
  by (simp add: fs_sandbox_def demo_mount_def meta_world_def)

lemma meta_layers:
  "sb_layers meta_sandbox = [\<lparr>ml_id = 1, ml_local = ''/srv'', ml_on_fs = [''data'']\<rparr>]"
  "sb_metadata meta_sandbox = []" "sb_hides meta_sandbox = []"
  by (simp_all add: meta_sandbox_def demo_sandbox_def add_layer_simps new_sandbox_def overlay_bound_def)

lemma meta_resolve: "resolve meta_sandbox doc_path = Some (RealPath ''/srv/doc'' 1 doc_path)"
proof -
  have "resolve_overlay meta_sandbox = resolve_overlay demo_sandbox"
    by (rule resolve_overlay_cong) (simp_all add: meta_sandbox_def)
  then show ?thesis by (simp add: resolve_def demo_view eval_simps)
qed

lemma meta_key: "metadata_object_key meta_sandbox doc_path = Some (MetadataObjectKey 1 [''doc''])"
  by (simp add: metadata_object_key_def meta_resolve meta_layers eval_simps)

lemma meta_bypass: "sb_bypass_rules meta_sandbox = []"
  by (simp add: meta_sandbox_def demo_sandbox_def add_layer_simps new_sandbox_def)

lemma meta_must_ask: "must_ask (meta_env d) demo_mount demo_requester doc_path (Chmod doc_path 384) meta_world"
proof -
  have "path_string doc_path = ''/data/doc''" by (simp add: path_string_def)
  then have "is_protected simple_glob meta_sandbox Metadata doc_path b" for b
    unfolding meta_sandbox_def protection.covers_add
    by (simp add: pattern_matches_def simple_glob_def glob_pattern_for_match_def ends_with_slash_def)
  moreover have "\<not> is_bypass simple_glob meta_sandbox Metadata doc_path b" for b
    by (simp add: meta_bypass is_bypass_def)
  moreover have "env_glob (meta_env d) = simple_glob" by (simp add: meta_env_def demo_env_def)
  moreover have "rg_trusted (w_registry meta_world) = []"
    by (simp add: meta_world_def demo_world_def new_registry_def)
  ultimately show ?thesis
    by (simp add: must_ask_def meta_fs_sandbox is_trusted_operation_def policy_asks_def om_values_def Let_def)
qed

lemma meta_append [simp]: "append_event (meta_env d) p i b w = (Inr (), w)" if "w_log_running w" for w :: "unit world"
  using that
  by (simp add: append_event_def log_append_def log_request_def append_log_file_def create_parent_def
      meta_env_def demo_env_def demo_host_def split: option.splits)

lemma meta_attr:
  assumes "fs_sandbox F w = Some s" and "resolve s path = Some (RealPath local i p)"
  shows "\<exists>a. attr_for_path (meta_env d) F path w =
     (Inr a, w\<lparr>w_inodes := om_insert (stable_ino path) path (w_inodes w)\<rparr>)"
proof -
  have "os_symlink_metadata (env_os (meta_env d)) h l = Inr file_meta" for h l
    by (simp add: meta_env_def)
  with assms show ?thesis
    by (simp add: attr_for_path_def real_attr_def remember_def Let_def)
qed

lemma meta_queue:
  assumes "w_log_running w" and "rg_pending_index (w_registry w) = []"
  shows "\<exists>p w1. queue_metadata_request (meta_env d) demo_mount identity path (Chmod path m) object u lp w
    = (Inr (MetadataPending p), w1)"
  using assms
  by (simp add: queue_metadata_request_def new_waiter_def fresh_operation_id_def next_operation_id_def
      pending_metadata_keys_def unique_ids_def Let_def)

lemma meta_begin:
  "\<exists>p w1. begin_metadata_request (meta_env d) demo_mount demo_requester doc_path (Chmod doc_path 384) meta_world
     = (Inr (MetadataPending p), w1)"
proof -
  obtain res w' where run: "begin_metadata_request (meta_env d) demo_mount demo_requester doc_path
      (Chmod doc_path 384) meta_world = (res, w')" by fastforce
  from meta_attr [OF meta_fs_sandbox meta_resolve, of d] obtain a where at: "attr_for_path (meta_env d) demo_mount doc_path meta_world =
     (Inr a, meta_world\<lparr>w_inodes := om_insert (stable_ino doc_path) doc_path (w_inodes meta_world)\<rparr>)" by blast
  let ?w1 = "meta_world\<lparr>w_inodes := om_insert (stable_ino doc_path) doc_path (w_inodes meta_world)\<rparr>"
  have sb: "fs_sandbox demo_mount ?w1 = Some meta_sandbox" using meta_fs_sandbox by (simp add: fs_sandbox_def)
  have "\<not> is_trusted_operation (w_registry ?w1) (mt_sandbox_name demo_mount) (req_pid demo_requester)
      (req_uid demo_requester) doc_path"
    "requires_metadata_protection (meta_env d) ?w1 meta_sandbox doc_path [KMode]"
    using must_ask_code [OF meta_must_ask [of d]]
    by (simp_all add: code_asks_def meta_fs_sandbox requires_metadata_protection_def)
  moreover have "w_log_running ?w1" "rg_pending_index (w_registry ?w1) = []"
    by (simp_all add: meta_world_def with_registry_def demo_world_def new_registry_def)
  ultimately show ?thesis
    using meta_queue [of ?w1] by (simp add: begin_metadata_request_def at sb meta_key)
qed

definition meta_outcome :: pending_metadata_outcome where
  "meta_outcome = \<lparr>po_unchanged_attr = virtual_dir_attr (empty_host :: unit os) [], po_path = doc_path,
     po_object = MetadataObjectKey 1 [''doc''], po_operation = Chmod doc_path 384, po_waiter = 0\<rparr>"

lemma meta_wait:
  "wait_for_decision (meta_env d) 0 meta_world =
     Some (d, meta_world\<lparr>w_cells := (w_cells meta_world)(0 := Some d)\<rparr>)"
  by (simp add: wait_for_decision_def meta_world_def demo_world_def meta_env_def demo_env_def with_registry_def)

lemma meta_finish:
  "\<exists>a w'. finish_pending_attr (meta_env Apply) demo_mount meta_outcome meta_world = Some (Inr a, w')"
proof -
  obtain s' where s': "apply_metadata_override_to_object (MetadataObjectKey 1 [''doc'']) doc_path
      (Chmod doc_path 384) meta_sandbox = Inr s'"
    by (simp add: apply_metadata_override_to_object_def meta_layers Let_def)
  have r: "resolve s' doc_path = Some (RealPath ''/srv/doc'' 1 doc_path)"
    using resolve_overlay_cong [of s' meta_sandbox] apply_to_object_keeps(1,2) [OF s'] meta_resolve
    by (simp add: resolve_def)
  let ?w1 = "meta_world\<lparr>w_cells := (w_cells meta_world)(0 := Some Apply)\<rparr>"
  let ?w2 = "with_registry (\<lambda>r. r\<lparr>rg_sandboxes := om_insert (mt_sandbox_name demo_mount) s' (rg_sandboxes r)\<rparr>) ?w1"
  have "fs_sandbox demo_mount ?w1 = Some meta_sandbox" using meta_fs_sandbox by (simp add: fs_sandbox_def)
  then have ap: "apply_pending_operation demo_mount (Chmod doc_path 384) (MetadataObjectKey 1 [''doc'']) ?w1
      = (Inr (), ?w2)"
    by (simp add: apply_pending_operation_def apply_to_registry_object_def s' del: One_nat_def)
  have "fs_sandbox demo_mount ?w2 = Some s'" by (simp add: fs_sandbox_def)
  from meta_attr [OF this r, of Apply] ap show ?thesis
    by (auto simp: finish_pending_attr_def meta_outcome_def meta_wait simp del: One_nat_def)
qed

text \<open>An allowed change: the override of the captured object is updated, of this sandbox only.\<close>

definition override_updated :: "mount \<Rightarrow> pending_metadata_outcome \<Rightarrow> 'h world \<Rightarrow> 'h world \<Rightarrow> bool" where
  "override_updated F p w1 w' \<longleftrightarrow>
     (\<exists>s s' entry. fs_sandbox F w1 = Some s \<and> fs_sandbox F w' = Some s'
            \<and> om_get (sb_metadata s') = (om_get (sb_metadata s))(po_object p \<mapsto> entry)
            \<and> entry_override entry = apply_to_override (po_operation p)
                 (case om_get (sb_metadata s) (po_object p) of
                    Some e \<Rightarrow> entry_override e | None \<Rightarrow> default_override)
            \<and> sb_layers s' = sb_layers s \<and> sb_hides s' = sb_hides s
            \<and> (\<forall>n. n \<noteq> mt_sandbox_name F \<longrightarrow>
                 om_get (rg_sandboxes (w_registry w')) n = om_get (rg_sandboxes (w_registry w1)) n))"

section \<open>Properties\<close>

text \<open>
  C2: A metadata change that must ask waits: where a caller that is not trusted makes a change that
  a rule protects and no bypass rule opens, as the policy documents, the call either fails or
  leaves a pending request for exactly this operation and object, the caller's cell is
  undecided, and no sandbox has changed.
\<close>

theorem protected_metadata_waits:
  assumes "wf_world w" and "must_ask E F identity path oper w"
    and "begin_metadata_request E F identity path oper w = (res, w')"
  shows "wf_world w' \<and> rg_sandboxes (w_registry w') = rg_sandboxes (w_registry w)
    \<and> ((\<exists>e. res = Inl e)
       \<or> (\<exists>p i q. res = Inr (MetadataPending p) \<and> request_queued p i q w' \<and> po_operation p = oper
            \<and> (\<exists>s. fs_sandbox F w = Some s \<and> metadata_object_key s path = Some (po_object p))))"
  using must_ask_code [OF assms(2)] assms(3)
proof (cases rule: begin_metadata_asks)
  case failed
  with assms(1) show ?thesis by simp
next
  case (asked s object unchanged w1)
  note f = attr_for_path_frame [OF asked(3)]
  have "wf_world w1" using f assms(1) by simp
  note q = queue_metadata_spec [OF this asked(4)]
  from q(4) show ?thesis
    using q(1,2) f(1) asked(1,2) by auto
qed

theorem protected_metadata_waits_witness:
  "\<exists>p i q w1. begin_metadata_request (meta_env Apply) demo_mount demo_requester doc_path (Chmod doc_path 384) meta_world
     = (Inr (MetadataPending p), w1) \<and> request_queued p i q w1 \<and> w_cells w1 (po_waiter p) = None"
proof -
  obtain p w1 where run: "begin_metadata_request (meta_env Apply) demo_mount demo_requester doc_path
      (Chmod doc_path 384) meta_world = (Inr (MetadataPending p), w1)" using meta_begin by blast
  from protected_metadata_waits [OF wf_meta_world meta_must_ask run] run show ?thesis
    by (auto simp: request_queued_def)
qed

text \<open>
  C26: The newest request for an object and kind of change replaces the older ones: when the code
  asks and a request is queued, every request that was pending for one of its keys is gone and its
  caller is told that it was denied, and each key leads to the new request.
\<close>

theorem newest_metadata_request_wins:
  assumes "wf_world w" and "code_asks E F identity path oper w"
    and "begin_metadata_request E F identity path oper w = (Inr outcome, w')"
  shows "\<exists>p i q. outcome = MetadataPending p \<and> request_queued p i q w'
    \<and> request_keys q = pending_metadata_keys (mt_sandbox_name F) (po_object p) (pending_kinds oper)
    \<and> rivals_denied (set (request_keys q)) w w'"
  using assms(2,3)
proof (cases rule: begin_metadata_asks)
  case failed
  then show ?thesis by simp
next
  case (asked s object unchanged w1)
  note f = attr_for_path_frame [OF asked(3)]
  have "wf_world w1" using f assms(1) by simp
  note q = queue_metadata_spec [OF this asked(4)]
  have "rivals_denied K w1 w' = rivals_denied K w w'" for K by (simp add: rivals_denied_def f)
  with q(3,4) show ?thesis by fastforce
qed

theorem newest_metadata_request_wins_witness:
  "\<exists>p i q w1. begin_metadata_request (meta_env Apply) demo_mount demo_requester doc_path (Chmod doc_path 384) meta_world
     = (Inr (MetadataPending p), w1) \<and> request_queued p i q w1
     \<and> rivals_denied (set (request_keys q)) meta_world w1"
proof -
  obtain p w1 where run: "begin_metadata_request (meta_env Apply) demo_mount demo_requester doc_path
      (Chmod doc_path 384) meta_world = (Inr (MetadataPending p), w1)" using meta_begin by blast
  from newest_metadata_request_wins [OF wf_meta_world must_ask_code [OF meta_must_ask] run] run show ?thesis by auto
qed

text \<open>
  Every branch of a metadata request, trusted, unprotected, queued or failed, keeps the
  invariant of the shared state.
\<close>

lemma metadata_request_invariant:
  assumes "wf_world w"
  shows "wf_world (snd (begin_metadata_request E F identity path oper w))"
  using wf_begin_metadata [OF assms surjective_pairing] .

text \<open>
  C27: After the wait a metadata change does what was decided: denied and cancelled callers
  get \<open>EPERM\<close> and \<open>ECANCELED\<close> and a dismissed one the old attributes, all without any change;
  an allowed change updates the override of the object it was asked for and of no other, in
  this sandbox only.
\<close>

theorem decision_is_carried_out:
  assumes "finish_pending_attr E F p w = Some (res, w')"
  shows "\<exists>d w1. wait_for_decision E (po_waiter p) w = Some (d, w1)
    \<and> (d = Deny \<longrightarrow> res = Inl EPERM \<and> w' = w1) \<and> (d = Cancel \<longrightarrow> res = Inl ECANCELED \<and> w' = w1)
    \<and> (d = DoNothing \<longrightarrow> res = Inr (po_unchanged_attr p) \<and> w' = w1)
    \<and> (\<forall>attr. d = Apply \<longrightarrow> res = Inr attr \<longrightarrow>
         override_updated F p w1 w')"
proof -
  from assms obtain d w1 where wait: "wait_for_decision E (po_waiter p) w = Some (d, w1)"
    by (auto simp: finish_pending_attr_def split: option.splits)
  have updated: "override_updated F p w1 w'"
    if "d = Apply" "res = Inr attr" for attr
  proof -
    obtain r w2 where ap: "apply_to_registry_object F (po_object p) (metadata_path (po_operation p))
        (po_operation p) w1 = (r, w2)" by fastforce
    from ap show ?thesis
    proof (cases rule: apply_to_registry_cases)
      case failed
      with that assms wait ap show ?thesis by (simp add: finish_pending_attr_def apply_pending_operation_def)
    next
      case (applied s s')
      then have at: "attr_for_path E F (po_path p) w2 = (res, w')"
        using that assms wait ap by (simp add: finish_pending_attr_def apply_pending_operation_def)
      have "fs_sandbox F w' = Some s'" "\<forall>n. n \<noteq> mt_sandbox_name F \<longrightarrow>
                 om_get (rg_sandboxes (w_registry w')) n = om_get (rg_sandboxes (w_registry w1)) n"
        using attr_for_path_frame(1) [OF at] by (auto simp: applied(4) fs_sandbox_def)
      with applied(2) apply_to_object_metadata [OF applied(3)] apply_to_object_keeps(1,2) [OF applied(3)]
      show ?thesis unfolding override_updated_def by blast
    qed
  qed
  from assms wait show ?thesis
    by (cases d) (auto simp: finish_pending_attr_def intro!: updated)
qed

theorem decision_is_carried_out_witness:
  "\<exists>a w'. finish_pending_attr (meta_env Apply) demo_mount meta_outcome meta_world = Some (Inr a, w')
     \<and> (\<exists>w1. override_updated demo_mount meta_outcome w1 w')"
proof -
  obtain a w' where run: "finish_pending_attr (meta_env Apply) demo_mount meta_outcome meta_world = Some (Inr a, w')"
    using meta_finish by blast
  have wait: "wait_for_decision (meta_env Apply) (po_waiter meta_outcome) meta_world =
      Some (Apply, meta_world\<lparr>w_cells := (w_cells meta_world)(0 := Some Apply)\<rparr>)"
    by (simp add: meta_wait meta_outcome_def)
  from decision_is_carried_out [OF run] run wait show ?thesis by auto
qed

end
