(* ===== verification/Session_Decisions.thy ===== *)
theory Session_Decisions
  imports Session Fs_Metadata
begin

text \<open>
  Properties of the decisions of a session (\<^verbatim>\<open>allow\<close>, \<^verbatim>\<open>deny\<close>, \<^verbatim>\<open>cancel\<close>, \<^verbatim>\<open>cancel_all\<close> and grants
  in \<^verbatim>\<open>src/session.rs\<close>). The abstract view of the shared state is who waits for which request
  and what the cells of the callers hold; a decision on a set of requests takes exactly
  these out and tells exactly their callers.
\<close>

section \<open>The abstract view\<close>

abbreviation pending_of :: "'h world \<Rightarrow> nat \<Rightarrow> pending_request option" where
  "pending_of w \<equiv> get_any_pending (w_registry w)"

abbreviation waiter_of :: "'h world \<Rightarrow> nat \<Rightarrow> pending_waiter option" where
  "waiter_of w \<equiv> om_get (rg_pending_waiters (w_registry w))"

text \<open>The requests \<open>I\<close> are decided by \<open>d\<close>: they leave the store, the callers that wait for
  them find \<open>d\<close> in their cells, and no other request or caller is affected.\<close>

definition settled :: "nat set \<Rightarrow> pending_decision \<Rightarrow> 'h world \<Rightarrow> 'h world \<Rightarrow> bool" where
  "settled I d w w' \<longleftrightarrow>
     pending_of w' = (\<lambda>i. if i \<in> I then None else pending_of w i)
     \<and> waiter_of w' = (\<lambda>i. if i \<in> I then None else waiter_of w i)
     \<and> w_cells w' = (\<lambda>c. if \<exists>i \<in> I. waiter_of w i = Some c then Some d else w_cells w c)
     \<and> w_next_cell w' = w_next_cell w"

text \<open>The same without the notification: \<open>ws\<close> are the waiters to be told.\<close>

definition taken :: "nat set \<Rightarrow> pending_waiter option list \<Rightarrow> 'h world \<Rightarrow> 'h world \<Rightarrow> bool" where
  "taken I ws w w' \<longleftrightarrow>
     pending_of w' = (\<lambda>i. if i \<in> I then None else pending_of w i)
     \<and> waiter_of w' = (\<lambda>i. if i \<in> I then None else waiter_of w i)
     \<and> w_cells w' = w_cells w \<and> w_next_cell w' = w_next_cell w
     \<and> (\<forall>c. Some c \<in> set ws \<longleftrightarrow> (\<exists>i \<in> I. waiter_of w i = Some c))
     \<and> wf_registry (w_registry w')
     \<and> rg_sandboxes (w_registry w') = rg_sandboxes (w_registry w)
     \<and> rg_read_write_grants (w_registry w') = rg_read_write_grants (w_registry w)
     \<and> rg_trusted (w_registry w') = rg_trusted (w_registry w)
     \<and> rg_next_operation_id (w_registry w) \<le> rg_next_operation_id (w_registry w')"

lemma get_any_pending_cong:
  "rg_pending r' = rg_pending r \<Longrightarrow> rg_pending_read_write r' = rg_pending_read_write r \<Longrightarrow>
   get_any_pending r' = get_any_pending r"
  by (simp add: get_any_pending_def fun_eq_iff split: option.splits)

lemma get_any_pending_fields [simp]:
  "get_any_pending (r\<lparr>rg_pending_waiters := m\<rparr>) = get_any_pending r"
  "get_any_pending (r\<lparr>rg_next_operation_id := n\<rparr>) = get_any_pending r"
  "get_any_pending (r\<lparr>rg_sandboxes := s\<rparr>) = get_any_pending r"
  "get_any_pending (r\<lparr>rg_trusted := t\<rparr>) = get_any_pending r"
  "get_any_pending (r\<lparr>rg_read_write_grants := g\<rparr>) = get_any_pending r"
  by (rule get_any_pending_cong; simp)+

lemma request_ids_get_any: "request_ids r = {i. get_any_pending r i \<noteq> None}"
  by (auto simp: request_ids_def om_keys_dom get_any_pending_def split: option.splits)

lemma taken_refl: "wf_world w \<Longrightarrow> taken {} [] w w"
  by (simp add: taken_def wf_world_def)

lemma taken_trans:
  assumes "taken I ws w w1" and "taken J us w1 w2"
  shows "taken (I \<union> J) (ws @ us) w w2"
  using assms unfolding taken_def by (auto simp: fun_eq_iff split: if_splits)

lemma taken_cong:
  assumes "taken I ws w w1" and "w_registry w2 = w_registry w1" "w_cells w2 = w_cells w1"
    "w_next_cell w2 = w_next_cell w1"
  shows "taken I ws w w2"
  using assms by (simp add: taken_def)

lemma taken_settled:
  assumes "taken I ws w w1" and "w_registry w2 = w_registry w1" "w_cells w2 = w_cells w1"
    "w_next_cell w2 = w_next_cell w1"
  shows "settled I d w (notify_all ws d w2)"
  using assms by (auto simp: taken_def settled_def)

lemma waiters_exact_settled:
  assumes "waiters_exact w" and "settled I d w w'"
  shows "waiters_exact w'"
proof -
  have ids: "request_ids (w_registry w') = request_ids (w_registry w) - I"
    using assms(2) by (auto simp: settled_def request_ids_get_any)
  have own: "i = j" if "waiter_of w i = Some c" "waiter_of w j = Some c" for i j c
    using assms(1) that unfolding waiters_exact_def by blast
  have "w_cells w' c = None" if "waiter_of w' i = Some c" for i c
    using assms that own by (auto simp: settled_def waiters_exact_def split: if_splits)
  moreover have "c < w_next_cell w'" if "waiter_of w' i = Some c" for i c
    using assms that by (auto simp: settled_def waiters_exact_def split: if_splits)
  moreover have "i = j" if "waiter_of w' i = Some c" "waiter_of w' j = Some c" for i j c
    using assms(2) that own by (auto simp: settled_def split: if_splits)
  moreover have "waiter_of w' i \<noteq> None \<longleftrightarrow> i \<in> request_ids (w_registry w')" for i
    using assms unfolding ids by (auto simp: settled_def waiters_exact_def)
  ultimately show ?thesis unfolding waiters_exact_def by blast
qed

lemma wf_world_settled:
  assumes "wf_world w" and "settled I d w w'" and "wf_registry (w_registry w')"
  shows "wf_world w'"
  using assms waiters_exact_settled [OF _ assms(2)] by (simp add: wf_world_def)

lemma wf_world_taken:
  assumes "wf_world w" and "taken I ws w w'"
  shows "wf_world w'"
proof -
  have "wf_world (notify_all ws Deny w')"
    using wf_world_settled [OF assms(1) taken_settled [OF assms(2) refl refl refl]] assms(2)
    by (simp add: taken_def)
  moreover have "w_cells w' c = None" if "waiter_of w' i = Some c" for i c
    using assms that by (auto simp: taken_def wf_world_def waiters_exact_def split: if_splits)
  ultimately show ?thesis by (auto simp: wf_world_def waiters_exact_def)
qed

text \<open>One request leaves with its waiter.\<close>

lemma wf_registry_fields:
  assumes "wf_registry r" and "om_wf m" and "rg_next_operation_id r \<le> n"
  shows "wf_registry (r\<lparr>rg_pending_waiters := m, rg_next_operation_id := n\<rparr>)"
  using assms wf_rest_fields [of r m n]
  by (simp add: wf_registry_rest index_exact_def)

lemma take_one:
  assumes wf: "wf_world w"
    and reg: "w_registry w1 = (snd (remove_any_pending_request i (w_registry w)))
      \<lparr>rg_pending_waiters := om_remove i (rg_pending_waiters (w_registry w)), rg_next_operation_id := n\<rparr>"
    and n: "rg_next_operation_id (w_registry w) \<le> n"
    and cells: "w_cells w1 = w_cells w" "w_next_cell w1 = w_next_cell w"
  shows "taken {i} [waiter_of w i] w w1"
proof -
  have wfr: "wf_registry (w_registry w)" using wf by (simp add: wf_world_def)
  let ?r = "snd (remove_any_pending_request i (w_registry w))"
  have same: "rg_sandboxes ?r = rg_sandboxes (w_registry w)"
    "rg_read_write_grants ?r = rg_read_write_grants (w_registry w)" "rg_trusted ?r = rg_trusted (w_registry w)"
    "rg_next_operation_id ?r = rg_next_operation_id (w_registry w)"
    by (simp_all add: remove_any_cases [OF wfr] registry_defs split: option.splits)
  have "om_wf (om_remove i (rg_pending_waiters (w_registry w)))"
    using wfr by (simp add: wf_registry_def wf_maps_def)
  then have "wf_registry (w_registry w1)"
    unfolding reg using any_store.take_ok [OF wfr, of i] same n by (intro wf_registry_fields) simp_all
  moreover have "pending_of w1 = (\<lambda>j. if j \<in> {i} then None else pending_of w j)"
    using any_store.take_get [OF wfr, of i] by (auto simp: reg fun_eq_iff)
  ultimately show ?thesis
    using cells n same by (auto simp: taken_def reg)
qed

section \<open>Taking a request\<close>

lemma take_request_cases:
  assumes "wf_world w"
  obtains (missing) "pending_of w i = None" "take_request name i w = (Inl (pending_not_found i), w)"
  | (foreign) q where "pending_of w i = Some q" "pending_sandbox q \<noteq> name"
      "take_request name i w = (Inl (not_in_sandbox i name), w)"
  | (found) q where "pending_of w i = Some q" "pending_sandbox q = name"
      "take_request name i w =
         (Inr q, w\<lparr>w_registry := snd (remove_any_pending_request i (w_registry w))\<rparr>)"
proof -
  have wfr: "wf_registry (w_registry w)" using assms by (simp add: wf_world_def)
  obtain p r where rem: "remove_any_pending_request i (w_registry w) = (p, r)" by fastforce
  have p: "p = pending_of w i" using any_store.take_present [OF wfr, of i] by (simp add: rem)
  show ?thesis
  proof (cases p)
    case None
    with p any_store.take_absent [OF wfr, of i] show ?thesis
      by (intro missing) (simp_all add: take_request_def)
  next
    case (Some q)
    have got: "pending_of w i = Some q" and rem': "remove_any_pending_request i (w_registry w) = (Some q, r)"
      using p Some rem by simp_all
    have restored: "insert_any_pending_request q r = w_registry w"
      using any_store.take_put_back [OF wfr] rem Some by simp
    show ?thesis
    proof (cases "pending_sandbox q = name")
      case True
      with got rem' show ?thesis by (intro found [of q]) (simp_all add: take_request_def)
    next
      case False
      with got rem' restored show ?thesis by (intro foreign [of q]) (simp_all add: take_request_def)
    qed
  qed
qed

lemma fresh_pair: "fresh_operation_id w = (rg_next_operation_id (w_registry w), snd (fresh_operation_id w))"
  by (simp add: prod_eq_iff)

lemma take_waiter_pair:
  "take_waiter i w = (waiter_of w i,
     with_registry (\<lambda>r. r\<lparr>rg_pending_waiters := om_remove i (rg_pending_waiters r)\<rparr>) w)"
  by (simp add: take_waiter_def)

lemma log_and_notify_snd:
  "snd (log_and_notify E p i b c d w) = notify_all [c] d (snd (append_event E p i b w))"
  by (simp add: log_and_notify_def notify_all_def split_beta)

lemma log_and_notify_pair:
  "\<exists>r. log_and_notify E p i b c d w = (r, notify_all [c] d (snd (append_event E p i b w)))"
  by (metis log_and_notify_snd prod.collapse)

section \<open>Deciding one request\<close>

text \<open>The four decisions of the protocol.\<close>

definition session_decide :: "'h env \<Rightarrow> pending_decision \<Rightarrow> string \<Rightarrow> nat \<Rightarrow> 'h world \<Rightarrow> response res \<times> 'h world" where
  "session_decide E d name i =
     (case d of
        Apply \<Rightarrow> allow_plain E name i False
      | DoNothing \<Rightarrow> allow_plain E name i True
      | Deny \<Rightarrow> session_deny E name i
      | Cancel \<Rightarrow> session_cancel E name i ''explicit'')"

text \<open>The state after the request, its waiter and an id have been taken.\<close>

definition request_out :: "nat \<Rightarrow> 'h world \<Rightarrow> 'h world" where
  "request_out i w =
     w\<lparr>w_registry := (snd (remove_any_pending_request i (w_registry w)))
        \<lparr>rg_pending_waiters := om_remove i (rg_pending_waiters (w_registry w)),
         rg_next_operation_id := Suc (rg_next_operation_id (w_registry w))\<rparr>\<rparr>"

lemma request_out_taken: "wf_world w \<Longrightarrow> taken {i} [waiter_of w i] w (request_out i w)"
  by (rule take_one [where n = "Suc (rg_next_operation_id (w_registry w))"]) (simp_all add: request_out_def)

lemma remove_any_other [simp]:
  "rg_pending_waiters (snd (remove_any_pending_request i r)) = rg_pending_waiters r"
  "rg_next_operation_id (snd (remove_any_pending_request i r)) = rg_next_operation_id r"
  "rg_sandboxes (snd (remove_any_pending_request i r)) = rg_sandboxes r"
  "rg_read_write_grants (snd (remove_any_pending_request i r)) = rg_read_write_grants r"
  "rg_trusted (snd (remove_any_pending_request i r)) = rg_trusted r"
  by (simp_all add: registry_defs split: option.splits)

lemma out_simps [simp]:
  "get_sandbox name (request_out i w) = get_sandbox name w"
  "get_sandbox name (w\<lparr>w_registry := snd (remove_any_pending_request i (w_registry w))\<rparr>) = get_sandbox name w"
  "get_sandbox name (snd (fresh_operation_id w)) = get_sandbox name w"
  "get_sandbox name (with_registry (\<lambda>r. r\<lparr>rg_pending_waiters := m r\<rparr>) w) = get_sandbox name w"
  by (simp_all add: request_out_def get_sandbox_def next_operation_id_def)

lemma take_fresh_out:
  assumes "take_request name i w = (Inr q, w\<lparr>w_registry := snd (remove_any_pending_request i (w_registry w))\<rparr>)"
  shows "with_registry (\<lambda>r. r\<lparr>rg_pending_waiters := om_remove i (rg_pending_waiters r)\<rparr>)
      (snd (fresh_operation_id (w\<lparr>w_registry := snd (remove_any_pending_request i (w_registry w))\<rparr>))) = request_out i w"
  by (simp add: request_out_def with_registry_def fresh_operation_id_def next_operation_id_def)

lemma decide_found:
  assumes wf: "wf_world w" and q: "pending_of w i = Some q" "pending_sandbox q = name"
    and s: "get_sandbox name w = Some s"
  shows "\<exists>r log_path body. session_decide E d name i w =
    (r, notify_all [waiter_of w i] d (snd (append_event E log_path (rg_next_operation_id (w_registry w)) body (request_out i w))))"
proof -
  have t: "take_request name i w = (Inr q, w\<lparr>w_registry := snd (remove_any_pending_request i (w_registry w))\<rparr>)"
    using wf q by (cases rule: take_request_cases [where name = name and i = i]) auto
  let ?w1 = "w\<lparr>w_registry := snd (remove_any_pending_request i (w_registry w))\<rparr>"
  obtain w2 where f: "fresh_operation_id ?w1 = (rg_next_operation_id (w_registry w), w2)"
    and w2: "snd (fresh_operation_id ?w1) = w2"
    by (rule that [OF _ refl]) (simp add: prod_eq_iff)
  have tw: "take_waiter i w2 = (waiter_of w i, request_out i w)"
    unfolding w2 [symmetric] take_waiter_pair take_fresh_out [OF t] by (simp add: next_operation_id_def)
  have s2: "get_sandbox name w2 = Some s" using s by (simp add: w2 [symmetric])
  have waiting: "waiter_of w i \<noteq> None"
    using wf q(1) unfolding wf_world_def waiters_exact_def request_ids_get_any by blast
  have aw: "apply_without_waiter name do_nothing (waiter_of w i) q s w2 = (Inr (), w2)" for do_nothing w2
    using waiting by (auto simp: apply_without_waiter_def split: pending_request.splits)
  have "\<exists>body. session_decide E d name i w =
      log_and_notify E (sb_log_path s) (rg_next_operation_id (w_registry w)) body (waiter_of w i) d (request_out i w)"
    by (cases d)
       (simp_all add: session_decide_def allow_plain_def session_deny_def session_cancel_def t f tw s s2 aw, blast+)
  then show ?thesis using log_and_notify_pair by metis
qed

lemma decide_settled:
  assumes "wf_world w" and "pending_of w i = Some q" and "get_sandbox (pending_sandbox q) w = Some s"
    and "session_decide E d (pending_sandbox q) i w = (r, w')"
  shows "settled {i} d w w'" and "wf_registry (w_registry w')"
    and "rg_sandboxes (w_registry w') = rg_sandboxes (w_registry w)"
    and "rg_read_write_grants (w_registry w') = rg_read_write_grants (w_registry w)"
    and "rg_trusted (w_registry w') = rg_trusted (w_registry w)"
proof -
  obtain log_path body where w': "w' = notify_all [waiter_of w i] d
      (snd (append_event E log_path (rg_next_operation_id (w_registry w)) body (request_out i w)))"
    using decide_found [OF assms(1,2) refl assms(3), of E d] assms(4) by auto
  have t: "taken {i} [waiter_of w i] w (request_out i w)" using assms(1) by (rule request_out_taken)
  show "settled {i} d w w'" unfolding w' by (rule taken_settled [OF t]) simp_all
  show "wf_registry (w_registry w')"
    and "rg_sandboxes (w_registry w') = rg_sandboxes (w_registry w)"
    and "rg_read_write_grants (w_registry w') = rg_read_write_grants (w_registry w)"
    and "rg_trusted (w_registry w') = rg_trusted (w_registry w)"
    using t by (simp_all add: w' taken_def)
qed

text \<open>A request that is missing or belongs to another sandbox is left alone.\<close>

lemma decide_refused:
  assumes wf: "wf_world w" and "\<forall>q. pending_of w i = Some q \<longrightarrow> pending_sandbox q \<noteq> name"
  shows "session_decide E d name i w =
    (Inl (if pending_of w i = None then pending_not_found i else not_in_sandbox i name), w)"
proof -
  have "take_request name i w = (Inl (if pending_of w i = None then pending_not_found i else not_in_sandbox i name), w)"
    using wf assms(2) by (cases rule: take_request_cases [where name = name and i = i]) auto
  then show ?thesis
    by (cases d) (simp_all add: session_decide_def allow_plain_def session_deny_def session_cancel_def)
qed

text \<open>Every pending request belongs to a sandbox of the registry.\<close>

definition requests_homed :: "'h world \<Rightarrow> bool" where
  "requests_homed w \<longleftrightarrow> (\<forall>i q. pending_of w i = Some q \<longrightarrow> get_sandbox (pending_sandbox q) w \<noteq> None)"

lemma requests_homed_settled:
  assumes "requests_homed w" and "settled I d w w'"
    and "\<And>n. get_sandbox n w \<noteq> None \<Longrightarrow> get_sandbox n w' \<noteq> None"
  shows "requests_homed w'"
  using assms by (auto simp: requests_homed_def settled_def split: if_splits)

section \<open>Cancelling a scope\<close>

lemma take_canceled_taken:
  assumes "wf_world w" and "take_canceled attach ids w = (items, w')"
  shows "taken (set ids) (map cp_waiter items) w w'"
  using assms
proof (induction ids arbitrary: w items)
  case Nil
  then show ?case by (simp add: taken_refl)
next
  case (Cons i ids)
  let ?w1 = "request_out i w"
  have t: "taken {i} [waiter_of w i] w ?w1" using Cons.prems(1) by (rule request_out_taken)
  have tw: "take_waiter i (w\<lparr>w_registry := snd (remove_any_pending_request i (w_registry w))\<rparr>) =
    (waiter_of w i, with_registry (\<lambda>r. r\<lparr>rg_pending_waiters := om_remove i (rg_pending_waiters r)\<rparr>)
       (w\<lparr>w_registry := snd (remove_any_pending_request i (w_registry w))\<rparr>))"
    by (simp add: take_waiter_pair)
  have out: "snd (fresh_operation_id (with_registry (\<lambda>r. r\<lparr>rg_pending_waiters := om_remove i (rg_pending_waiters r)\<rparr>)
       (w\<lparr>w_registry := snd (remove_any_pending_request i (w_registry w))\<rparr>))) = ?w1"
    by (simp add: request_out_def with_registry_def fresh_operation_id_def next_operation_id_def)
  let ?rest = "fst (take_canceled attach ids ?w1)"
  have run: "take_canceled attach ids ?w1 = (?rest, w')"
    and items: "map cp_waiter items = waiter_of w i # map cp_waiter ?rest"
    using Cons.prems(2) by (auto simp: tw out split_beta Let_def)
  have "taken (set ids) (map cp_waiter ?rest) ?w1 w'"
    using Cons.IH [OF wf_world_taken [OF Cons.prems(1) t] run] .
  from taken_trans [OF t this] show ?case by (simp add: items)
qed

lemma pending_requests_set:
  assumes "wf_registry r"
  shows "set (pending_requests_for_sandbox name r) =
    {q. \<exists>i. get_any_pending r i = Some q \<and> pending_sandbox q = name}"
proof -
  have wf: "om_wf (rg_pending r)" "om_wf (rg_pending_read_write r)"
    using assms by (simp_all add: wf_registry_def wf_maps_def)
  have excl: "om_get (rg_pending r) i = None \<or> om_get (rg_pending_read_write r) i = None" for i
    using assms by (rule wf_registryD)
  have "PendingMetadata q \<in> set (pending_requests_for_sandbox name r) \<longleftrightarrow>
      (\<exists>i. get_any_pending r i = Some (PendingMetadata q)) \<and> pm_sandbox q = name" for q
    using wf by (auto simp: pending_requests_for_sandbox_def get_any_pending_def om_values_iff split: option.splits)
  moreover have "PendingReadWrite q \<in> set (pending_requests_for_sandbox name r) \<longleftrightarrow>
      (\<exists>i. get_any_pending r i = Some (PendingReadWrite q)) \<and> prw_sandbox q = name" for q
    using wf excl
    by (auto simp: pending_requests_for_sandbox_def get_any_pending_def om_values_iff split: option.splits)
       (metis option.distinct(1))
  ultimately show ?thesis
    by (intro set_eqI) (case_tac x; auto)
qed

text \<open>The ids a cancellation takes out.\<close>

definition scope_ids :: "string \<Rightarrow> (pending_request \<Rightarrow> bool) \<Rightarrow> 'h world \<Rightarrow> nat set" where
  "scope_ids name in_scope w =
     {i. \<exists>q. pending_of w i = Some q \<and> pending_sandbox q = name \<and> in_scope q}"

lemma scope_ids_list:
  assumes "wf_registry (w_registry w)"
  shows "set (map pending_id (filter in_scope (pending_requests_for_sandbox name (w_registry w)))) =
    scope_ids name in_scope w"
  using get_any_pending_id [OF assms] pending_requests_set [OF assms, of name]
  by (fastforce simp: scope_ids_def)

lemma and_log_snd [simp]:
  "w_registry (snd (and_log E p i b acc)) = w_registry (snd acc)"
  "w_cells (snd (and_log E p i b acc)) = w_cells (snd acc)"
  "w_next_cell (snd (and_log E p i b acc)) = w_next_cell (snd acc)"
  by (simp_all add: and_log_def split_beta)

lemma log_canceled_snd [simp]:
  "w_registry (snd (log_canceled E p reason items acc)) = w_registry (snd acc)"
  "w_cells (snd (log_canceled E p reason items acc)) = w_cells (snd acc)"
  "w_next_cell (snd (log_canceled E p reason items acc)) = w_next_cell (snd acc)"
  by (induction E p reason items acc rule: log_canceled.induct) simp_all

lemma cancel_scope_settled:
  assumes wf: "wf_world w" and s: "get_sandbox name w = Some s"
    and run: "cancel_scope E name in_scope scope attach_id reason w = (r, w')"
  shows "settled (scope_ids name in_scope w) Cancel w w'" and "wf_world w'"
    and "rg_sandboxes (w_registry w') = rg_sandboxes (w_registry w)"
    and "rg_read_write_grants (w_registry w') = rg_read_write_grants (w_registry w)"
    and "rg_trusted (w_registry w') = rg_trusted (w_registry w)"
    and "rg_next_operation_id (w_registry w) \<le> rg_next_operation_id (w_registry w')"
proof -
  let ?ids = "map pending_id (filter in_scope (pending_requests_for_sandbox name (w_registry w)))"
  let ?w1 = "snd (fresh_operation_id w)"
  obtain items w2 where t: "take_canceled attach_id ?ids ?w1 = (items, w2)" by fastforce
  have wf1: "wf_world ?w1" using wf by (rule wf_world_fresh_id)
  have tk1: "taken (set ?ids) (map cp_waiter items) ?w1 w2" using take_canceled_taken [OF wf1 t] .
  then have tk: "taken (set ?ids) (map cp_waiter items) w w2"
    by (auto simp: taken_def next_operation_id_def)
  obtain w3 where w': "w' = notify_all (map cp_waiter items) Cancel w3"
    and w3: "w_registry w3 = w_registry w2" "w_cells w3 = w_cells w2" "w_next_cell w3 = w_next_cell w2"
    using run s t by (simp add: cancel_scope_def finish_cancel_scope_def split_beta Let_def) (metis append_event_simps(1,2,3) log_canceled_snd)
  have ids: "set ?ids = scope_ids name in_scope w"
    using wf by (intro scope_ids_list) (simp add: wf_world_def)
  show st: "settled (scope_ids name in_scope w) Cancel w w'"
    unfolding w' ids [symmetric] by (rule taken_settled [OF tk w3])
  have wfr: "wf_registry (w_registry w')" using tk w3 by (simp add: w' taken_def)
  show "wf_world w'" by (rule wf_world_settled [OF wf st wfr])
  show "rg_sandboxes (w_registry w') = rg_sandboxes (w_registry w)"
    "rg_read_write_grants (w_registry w') = rg_read_write_grants (w_registry w)"
    "rg_trusted (w_registry w') = rg_trusted (w_registry w)"
    "rg_next_operation_id (w_registry w) \<le> rg_next_operation_id (w_registry w')"
    using tk w3 by (simp_all add: w' taken_def)
qed

section \<open>A small session for evaluation\<close>

text \<open>Two writes of one process wait in the sandbox.\<close>

definition waiting_write :: "nat \<Rightarrow> pending_read_write_request" where
  "waiting_write i = with_process_identity (Some (ProcessIdentity 42 7))
     (new_with_attach_path i ''box'' (Some 2) (WriteFile [''data'', ''doc'']) [''data'', ''doc''] demo_requester)"

definition attached_sandbox :: sandbox where
  "attached_sandbox = demo_sandbox\<lparr>sb_attaches := [(components ''/mnt'',
     \<lparr>at_id = 2, at_mountpoint = ''/mnt'', at_temporary = False, at_active = True\<rparr>)]\<rparr>"

definition busy_world :: "unit world" where
  "busy_world = \<lparr>w_registry = new_registry\<lparr>rg_sandboxes := [(''box'', attached_sandbox)],
       rg_pending_read_write := [(3, waiting_write 3), (4, waiting_write 4)],
       rg_pending_waiters := [(3, 0), (4, 1)], rg_next_operation_id := 5\<rparr>,
     w_cells = (\<lambda>_. None), w_next_cell = 2, w_log_running = True, w_inodes = [(1, [])], w_handles = [],
     w_next_handle = 1, w_host = ()\<rparr>"

lemma waiting_write_simps [simp]:
  "prw_id (waiting_write i) = i" "prw_sandbox (waiting_write i) = ''box''"
  "prw_kind (waiting_write i) = Write" "prw_path (waiting_write i) = [''data'', ''doc'']"
  "prw_process_identity (waiting_write i) = Some (ProcessIdentity 42 7)" "prw_attach_id (waiting_write i) = Some 2"
  by (simp_all add: waiting_write_def with_process_identity_def new_with_attach_path_def operation_kind_def effect_new_def)

lemma wf_attached_sandbox: "wf_sandbox attached_sandbox"
  using wf_demo_sandbox
  by (simp add: attached_sandbox_def wf_sandbox_def wf_overlay_def overlay_ids_def overlay_bound_def om_wf_def)

lemma wf_busy_world: "wf_world busy_world"
  by (auto simp: wf_world_def waiters_exact_def wf_registry_def wf_maps_def index_exact_def used_ids_def
      request_ids_def om_keys_def om_values_def om_wf_def busy_world_def new_registry_def wf_attached_sandbox)

lemma busy_world_simps:
  "get_sandbox ''box'' busy_world = Some attached_sandbox"
  "om_get (rg_pending_read_write (w_registry busy_world)) =
     [3 \<mapsto> waiting_write 3, 4 \<mapsto> waiting_write 4]"
  "pending_of busy_world = [3 \<mapsto> PendingReadWrite (waiting_write 3), 4 \<mapsto> PendingReadWrite (waiting_write 4)]"
  "waiter_of busy_world = [3 \<mapsto> 0, 4 \<mapsto> 1]" "w_cells busy_world = (\<lambda>_. None)"
  "rg_read_write_grants (w_registry busy_world) = []" "rg_next_operation_id (w_registry busy_world) = 5"
  by (auto simp: busy_world_def get_sandbox_def get_any_pending_def new_registry_def fun_eq_iff)

section \<open>Properties\<close>

text \<open>
  C18: Each of the four decisions on a pending request of the sandbox takes exactly this
  request out, tells exactly its caller, and leaves every other request and caller, the
  sandboxes, the grants and the trusted operations as they were; the state stays
  well-formed. This holds also when the log line cannot be written.
\<close>

theorem decision_settles_request:
  assumes "wf_world w" and "pending_of w i = Some q" and "get_sandbox (pending_sandbox q) w = Some s"
    and "session_decide E d (pending_sandbox q) i w = (r, w')"
  shows "settled {i} d w w' \<and> wf_world w'
    \<and> rg_sandboxes (w_registry w') = rg_sandboxes (w_registry w)
    \<and> rg_read_write_grants (w_registry w') = rg_read_write_grants (w_registry w)
    \<and> rg_trusted (w_registry w') = rg_trusted (w_registry w)"
  using decide_settled [OF assms] wf_world_settled [OF assms(1)] by blast

theorem decision_settles_request_witness:
  "\<exists>w'. session_decide (demo_env Apply) Deny ''box'' 3 busy_world = (Inr ResponseOk, w')
     \<and> pending_of w' 3 = None \<and> w_cells w' 0 = Some Deny
     \<and> pending_of w' 4 = Some (PendingReadWrite (waiting_write 4)) \<and> w_cells w' 1 = None"
proof -
  have "fst (session_decide (demo_env Apply) Deny ''box'' 3 busy_world) = Inr ResponseOk"
    by (simp add: session_decide_def session_deny_def take_request_def busy_world_def new_registry_def registry_defs
        fresh_operation_id_def next_operation_id_def take_waiter_def log_and_notify_def get_sandbox_def with_registry_def)
  then obtain w' where run: "session_decide (demo_env Apply) Deny ''box'' 3 busy_world = (Inr ResponseOk, w')"
    by (metis prod.collapse)
  from decision_settles_request [OF wf_busy_world, of 3 "PendingReadWrite (waiting_write 3)" attached_sandbox
      "demo_env Apply" Deny "Inr ResponseOk" w'] run
  show ?thesis by (simp add: busy_world_simps settled_def)
qed

text \<open>
  A decision on a request that is not pending, or that belongs to another sandbox, is
  refused with an error that says which, and changes nothing at all.
\<close>

lemma refused_decision_changes_nothing:
  assumes "wf_world w" and "\<forall>q. pending_of w i = Some q \<longrightarrow> pending_sandbox q \<noteq> name"
  shows "session_decide E d name i w =
    (Inl (if pending_of w i = None then pending_not_found i else not_in_sandbox i name), w)"
  using assms by (rule decide_refused)

text \<open>
  C24: Cancelling a scope (the requests of a sandbox, or those of one attached view) takes
  out exactly the pending requests of that scope and tells all their callers; requests of
  other sandboxes and views stay, also when log lines fail.
\<close>

theorem cancel_takes_the_scope:
  assumes "wf_world w" and "get_sandbox name w = Some s"
  shows "settled (scope_ids name (\<lambda>_. True) w) Cancel w (snd (cancel_all E name None w))
    \<and> settled (scope_ids name (\<lambda>q. pending_attach_id q = Some a) w) Cancel w
        (snd (cancel_attached_view E name a reason w))
    \<and> wf_world (snd (cancel_all E name None w)) \<and> wf_world (snd (cancel_attached_view E name a reason w))"
proof -
  note c = cancel_scope_settled(1,2) [OF assms prod.collapse [symmetric]]
  show ?thesis
    unfolding cancel_all_def cancel_attached_view_def option.case by (intro conjI c)
qed

theorem cancel_takes_the_scope_witness:
  "w_cells (snd (cancel_all (demo_env Apply) ''box'' None busy_world)) 1 = Some Cancel
   \<and> pending_of (snd (cancel_attached_view (demo_env Apply) ''box'' 8 ''detach'' busy_world)) 4 \<noteq> None
   \<and> pending_of (snd (cancel_attached_view (demo_env Apply) ''box'' 2 ''detach'' busy_world)) 4 = None"
proof -
  note c = cancel_takes_the_scope [OF wf_busy_world busy_world_simps(1), of "demo_env Apply" _ "''detach''"]
  have all: "scope_ids ''box'' (\<lambda>_. True) busy_world = {3, 4}"
    and none: "scope_ids ''box'' (\<lambda>q. pending_attach_id q = Some 8) busy_world = {}"
    and two: "scope_ids ''box'' (\<lambda>q. pending_attach_id q = Some 2) busy_world = {3, 4}"
    by (auto simp: scope_ids_def busy_world_simps split: if_splits)
  from c [of 8] c [of 2] show ?thesis
    unfolding all none two by (simp add: settled_def busy_world_simps)
qed

end
