(* ===== verification/Session_Grants.thy ===== *)
theory Session_Grants
  imports Session_Decisions
begin

text \<open>
  Properties of allowing with a grant (\<^verbatim>\<open>allow_read_write_grant\<close> in \<^verbatim>\<open>src/session.rs\<close>): the grant
  covers the request it was made for; a duration grant releases every pending request it
  covers and stays; a one-shot grant releases the earliest covered request only and is used
  up by it.
\<close>

section \<open>The subject\<close>

lemma get_or_insert_fields [simp]:
  "prw_id (get_or_insert_identity i q) = prw_id q" "prw_kind (get_or_insert_identity i q) = prw_kind q"
  "prw_path (get_or_insert_identity i q) = prw_path q" "prw_sandbox (get_or_insert_identity i q) = prw_sandbox q"
  by (simp_all add: get_or_insert_identity_def split: option.splits)

text \<open>The chosen subject covers the requester, and only the identity of the request is filled in.\<close>

lemma exact_subject_covers:
  assumes "exact_subject E h warning q = (Some subject, q', t, dg)"
  shows "subject_matches subject (prw_process_identity q')
    \<and> (\<exists>i. q' = get_or_insert_identity i q)"
  using assms
  by (auto simp: exact_subject_def exact_identity_def get_or_insert_identity_def split: option.splits)

lemma tree_subject_covers:
  assumes "tree_subject E h identities q = (Some subject, q', t, dg)"
  shows "subject_matches subject (prw_process_identity q')
    \<and> (\<exists>i. q' = get_or_insert_identity i q)"
proof (cases "case prw_process_identity q of Some i \<Rightarrow> Some i
    | None \<Rightarrow> find (\<lambda>i. identity_pid i = prw_pid q) identities")
  case None
  with assms show ?thesis by (auto simp: tree_subject_def intro!: exact_subject_covers)
next
  case (Some i)
  then have own: "prw_process_identity (get_or_insert_identity i q) = Some i"
    by (auto simp: get_or_insert_identity_def split: option.splits)
  from assms Some have "q' = get_or_insert_identity i q"
    "subject = (if i \<in> set identities then ProcessTree identities else Exact i)"
    by (auto simp: tree_subject_def split: if_splits)
  with own show ?thesis by auto
qed

lemma choose_subject_covers:
  assumes "choose_subject E h tree q = Some (Some subject, q', t, dg)"
  shows "subject_matches subject (prw_process_identity q')
    \<and> (\<exists>i. q' = get_or_insert_identity i q)"
  using assms
  by (auto simp: choose_subject_def split: if_splits option.splits
      dest!: exact_subject_covers tree_subject_covers)

lemma choose_subject_none:
  assumes "choose_subject E h tree q = Some (None, q', t, dg)"
  shows "q' = q"
proof -
  have e: "exact_subject E h x q = (None, q', t, dg) \<Longrightarrow> q' = q" for x
    by (auto simp: exact_subject_def split: option.splits)
  moreover have "tree_subject E h ids q = (None, q', t, dg) \<Longrightarrow> q' = q" for ids
    by (auto simp: tree_subject_def split: option.splits if_splits dest: e)
  ultimately show ?thesis
    using assms by (auto simp: choose_subject_def split: if_splits option.splits)
qed

text \<open>A clock within the range of the platform, after the epoch.\<close>

definition clock_ok :: "system_time \<Rightarrow> bool" where
  "clock_ok t \<longleftrightarrow> 0 \<le> tv_sec t \<and> tv_sec t < 2 ^ 63 \<and> tv_nsec t < 1000000000"

lemma duration_not_expired:
  assumes "clock_ok now" and "0 < secs"
  shows "\<not> lifetime_is_expired (Duration (duration_expires_at now secs)) now"
proof (cases "tv_sec now + int secs \<le> 2 ^ 63 - 1")
  case True
  with assms show ?thesis
    by (simp add: duration_expires_at_def checked_add_secs_def epoch_millis_def clock_ok_def nat_add_distrib)
next
  case False
  have "nat (tv_sec now) < 2 ^ 63" using assms(1) by (simp add: clock_ok_def nat_less_iff)
  moreover have "tv_nsec now div 1000000 < 1000"
    using assms(1) by (intro less_mult_imp_div_less) (simp add: clock_ok_def)
  ultimately have "epoch_millis now < 2 ^ 128 - 1"
    using assms(1) by (simp add: epoch_millis_def clock_ok_def)
  with False show ?thesis by (simp add: duration_expires_at_def checked_add_secs_def)
qed

section \<open>Releasing\<close>

lemma remove_any_read_write:
  assumes "wf_registry r" and "om_get (rg_pending_read_write r) i = Some q"
  shows "remove_any_pending_request i r = (Some (PendingReadWrite q), snd (remove_pending_read_write_request i r))"
    and "remove_pending_read_write_request i r = (Some q, snd (remove_any_pending_request i r))"
proof -
  have "om_get (rg_pending r) i = None" using wf_registryD(5) [OF assms(1), of i] assms(2) by simp
  then show "remove_any_pending_request i r = (Some (PendingReadWrite q), snd (remove_pending_read_write_request i r))"
    "remove_pending_read_write_request i r = (Some q, snd (remove_any_pending_request i r))"
    using assms(2) by (simp_all add: remove_any_pending_request_def remove_pending_request_def
        remove_pending_read_write_request_def)
qed

lemma release_pending_out:
  assumes "wf_world w" and "om_get (rg_pending_read_write (w_registry w)) i = Some q"
  shows "\<exists>rel. release_pending i w = ([rel], request_out i w) \<and> rel_waiter rel = waiter_of w i \<and> rel_id rel = i"
proof -
  note rem = remove_any_read_write(2) [of "w_registry w" i q]
  have "wf_registry (w_registry w)" using assms(1) by (simp add: wf_world_def)
  then show ?thesis
    using rem assms(2)
    by (simp add: release_pending_def request_out_def take_waiter_def fresh_operation_id_def
        next_operation_id_def with_registry_def)
qed

lemma release_each_taken:
  assumes "wf_world w" and "distinct ids"
    and "\<forall>i \<in> set ids. om_get (rg_pending_read_write (w_registry w)) i \<noteq> None"
  shows "\<exists>rels w'. release_each ids w = (rels, w') \<and> taken (set ids) (map rel_waiter rels) w w'"
  using assms
proof (induction ids arbitrary: w)
  case Nil
  then show ?case by (simp add: taken_refl)
next
  case (Cons i ids)
  obtain q where q: "om_get (rg_pending_read_write (w_registry w)) i = Some q" using Cons.prems(3) by auto
  obtain rel where r: "release_pending i w = ([rel], request_out i w)" "rel_waiter rel = waiter_of w i"
    using release_pending_out [OF Cons.prems(1) q] by blast
  note t = request_out_taken [OF Cons.prems(1), of i]
  have rw: "om_get (rg_pending_read_write (w_registry (request_out i w))) j \<noteq> None" if "j \<in> set ids" for j
  proof -
    have "wf_registry (w_registry w)" using Cons.prems(1) by (simp add: wf_world_def)
    then have "snd (remove_any_pending_request i (w_registry w)) =
        snd (remove_pending_read_write_request i (w_registry w))"
      using remove_any_read_write(1) [OF _ q] by simp
    then show ?thesis
      using Cons.prems(2,3) that by (auto simp: request_out_def remove_pending_read_write_request_def)
  qed
  obtain rels w' where run: "release_each ids (request_out i w) = (rels, w')"
    "taken (set ids) (map rel_waiter rels) (request_out i w) w'"
    using Cons.IH [OF wf_world_taken [OF Cons.prems(1) t]] Cons.prems(2) rw by auto
  from taken_trans [OF t run(2)] run(1) r show ?case by simp
qed

lemma announce_released_snd [simp]:
  "w_registry (snd (announce_released E p i rels acc)) = w_registry (snd acc)"
  "w_next_cell (snd (announce_released E p i rels acc)) = w_next_cell (snd acc)"
  "w_cells (snd (announce_released E p i rels acc)) =
     (\<lambda>c. if Some c \<in> set (map rel_waiter rels) then Some Apply else w_cells (snd acc) c)"
proof -
  have step: "w_registry w1 = w_registry (snd acc) \<and> w_next_cell w1 = w_next_cell (snd acc) \<and> w_cells w1 = w_cells (snd acc)"
    if "(l, w1) = (case rel_event_id rel of None \<Rightarrow> acc | Some e \<Rightarrow> and_log E p e b acc)" for l w1 rel b
      and acc :: "unit res \<times> 'a world"
  proof -
    have "w1 = (case rel_event_id rel of None \<Rightarrow> snd acc | Some e \<Rightarrow> snd (and_log E p e b acc))"
      using arg_cong [OF that, of snd] by (cases "rel_event_id rel") simp_all
    then show ?thesis by (simp split: option.splits)
  qed
  have "w_registry (snd (announce_released E p i rels acc)) = w_registry (snd acc)
    \<and> w_next_cell (snd (announce_released E p i rels acc)) = w_next_cell (snd acc)
    \<and> w_cells (snd (announce_released E p i rels acc)) =
     (\<lambda>c. if Some c \<in> set (map rel_waiter rels) then Some Apply else w_cells (snd acc) c)"
  proof (induction rels arbitrary: acc)
    case Nil
    then show ?case by simp
  next
    case (Cons rel rels)
    obtain l w1 where lw: "(l, w1) = (case rel_event_id rel of None \<Rightarrow> acc | Some e \<Rightarrow>
      and_log E p e (''grant-release request='' @ show_nat (rel_id rel) @ format_attach_field (rel_attach_id rel)
                    @ '' decision='' @ show_nat i) acc)" by (metis surj_pair)
    note s = step [OF lw]
    have "announce_released E p i (rel # rels) acc =
        announce_released E p i rels (l, notify_waiter (rel_waiter rel) Apply w1)"
      by (simp add: Let_def lw [symmetric])
    with Cons.IH [of "(l, notify_waiter (rel_waiter rel) Apply w1)"] s show ?case
      by (auto simp: notify_waiter_def fun_eq_iff split: option.splits)
  qed
  then show "w_registry (snd (announce_released E p i rels acc)) = w_registry (snd acc)"
    "w_next_cell (snd (announce_released E p i rels acc)) = w_next_cell (snd acc)"
    "w_cells (snd (announce_released E p i rels acc)) =
     (\<lambda>c. if Some c \<in> set (map rel_waiter rels) then Some Apply else w_cells (snd acc) c)" by blast+
qed

lemma finish_grant_snd [simp]:
  "w_registry (snd (finish_read_write_grant_allow E oc w)) = w_registry w"
  "w_next_cell (snd (finish_read_write_grant_allow E oc w)) = w_next_cell w"
  "w_cells (snd (finish_read_write_grant_allow E oc w)) =
     (\<lambda>c. if Some c \<in> set (map rel_waiter (go_released oc)) then Some Apply else w_cells w c)"
  by (simp_all add: finish_read_write_grant_allow_def Let_def split_beta fun_eq_iff split: option.splits)

section \<open>Placing the grant\<close>

text \<open>The pending requests a grant covers.\<close>

definition covered :: "'h env \<Rightarrow> read_write_access_grant \<Rightarrow> system_time \<Rightarrow> 'h world \<Rightarrow> nat set" where
  "covered E g now w =
     {i. \<exists>q. om_get (rg_pending_read_write (w_registry w)) i = Some q \<and> matches_request (env_glob E) g q now}"

lemma matching_ids_covered:
  assumes "wf_registry (w_registry w)"
  shows "set (matching_pending_read_write_ids_for_grant (env_glob E) g now (w_registry w)) = covered E g now w"
    and "distinct (matching_pending_read_write_ids_for_grant (env_glob E) g now (w_registry w))"
proof -
  have wf: "om_wf (rg_pending_read_write (w_registry w))" using assms by (simp add: wf_registry_def wf_maps_def)
  have ids: "om_get (rg_pending_read_write (w_registry w)) i = Some q \<Longrightarrow> prw_id q = i" for i q
    using assms by (simp add: wf_registry_def)
  show "set (matching_pending_read_write_ids_for_grant (env_glob E) g now (w_registry w)) = covered E g now w"
    using ids by (force simp: matching_pending_read_write_ids_for_grant_def covered_def om_values_iff [OF wf])
  have "map prw_id (om_values (rg_pending_read_write (w_registry w))) = om_keys (rg_pending_read_write (w_registry w))"
    using ids omap.get_iff_entry [OF wf] by (auto simp: om_values_def om_keys_def)
  then have "distinct (map prw_id (om_values (rg_pending_read_write (w_registry w))))"
    using om_wf_distinct [OF wf] by simp
  then show "distinct (matching_pending_read_write_ids_for_grant (env_glob E) g now (w_registry w))"
    by (simp add: matching_pending_read_write_ids_for_grant_def distinct_map_filter)
qed

text \<open>The selected request with its identity filled in, in its place.\<close>

definition identified :: "pending_read_write_request \<Rightarrow> 'h world \<Rightarrow> 'h world" where
  "identified q = with_registry (insert_pending_read_write_request q)"

lemma identified_world:
  assumes wf: "wf_world w" and q: "om_get (rg_pending_read_write (w_registry w)) i = Some q" and id: "prw_id q' = i"
  shows "wf_world (identified q' w)" and "request_out i (identified q' w) = request_out i w"
    and "om_get (rg_pending_read_write (w_registry (identified q' w))) i = Some q'"
    and "waiter_of (identified q' w) = waiter_of w"
    and "pending_of (identified q' w) = (pending_of w)(i := Some (PendingReadWrite q'))"
proof -
  have wfr: "wf_registry (w_registry w)" and maps: "om_wf (rg_pending_read_write (w_registry w))"
    using wf by (simp_all add: wf_world_def wf_registry_def wf_maps_def)
  have key: "om_get (rg_pending (w_registry w)) i = None" using wf_registryD(5) [OF wfr, of i] q by simp
  have same: "om_remove i (om_insert i q' (rg_pending_read_write (w_registry w))) =
      om_remove i (rg_pending_read_write (w_registry w))"
    by (rule omap.maps_equal_if_lookups_equal) (auto simp: maps fun_eq_iff)
  show "request_out i (identified q' w) = request_out i w"
    using key q id same
    by (simp add: request_out_def identified_def with_registry_def insert_pending_read_write_request_def
        remove_any_pending_request_def remove_pending_request_def remove_pending_read_write_request_def)
  have ids: "request_ids (w_registry (identified q' w)) = request_ids (w_registry w)"
    using q id by (auto simp: identified_def request_ids_def om_keys_dom insert_pending_read_write_request_def)
  have "wf_registry (w_registry (identified q' w))"
    using wfr q id key unfolding wf_registry_def wf_maps_def
    by (auto simp: identified_def insert_pending_read_write_request_def index_exact_def used_ids_def request_ids_def
        om_keys_dom)
  moreover have "waiters_exact (identified q' w)"
    using wf ids unfolding wf_world_def waiters_exact_def
    by (simp add: identified_def insert_pending_read_write_request_def)
  ultimately show "wf_world (identified q' w)" by (simp add: wf_world_def)
  show "om_get (rg_pending_read_write (w_registry (identified q' w))) i = Some q'"
    "waiter_of (identified q' w) = waiter_of w"
    using id by (simp_all add: identified_def insert_pending_read_write_request_def)
  show "pending_of (identified q' w) = (pending_of w)(i := Some (PendingReadWrite q'))"
    using key id by (auto simp: get_any_pending_def identified_def insert_pending_read_write_request_def fun_eq_iff
        split: option.splits)
qed

lemma taken_fresh:
  assumes "taken I ws w w1"
  shows "taken I ws w (snd (fresh_operation_id w1))"
  using assms wf_next_operation_id [of "w_registry w1"]
  by (auto simp: taken_def next_operation_id_def)

lemma covered_fresh [simp]: "covered E g now (snd (fresh_operation_id w)) = covered E g now w"
  by (simp add: covered_def next_operation_id_def)

lemma covered_request_out:
  assumes "wf_world w" and "om_get (rg_pending_read_write (w_registry w)) i = Some q"
  shows "covered E g now (request_out i w) = covered E g now w - {i}"
proof -
  have "wf_registry (w_registry w)" using assms(1) by (simp add: wf_world_def)
  from remove_any_read_write(1) [OF this assms(2)] assms(2) show ?thesis
    by (auto simp: covered_def request_out_def remove_pending_read_write_request_def split: if_splits)
qed

lemma place_duration_taken:
  assumes wf: "wf_world v" and q: "om_get (rg_pending_read_write (w_registry v)) i = Some q"
    and m: "matches_request (env_glob E) g q now" and own: "rel_id own = i" "rel_waiter own = waiter_of v i"
    and w: "taken {i} [waiter_of v i] v w" "rg_pending_read_write (w_registry w) = rg_pending_read_write (w_registry (request_out i v))"
  shows "\<exists>rels w1. place_duration E g now q own w = (None, rels, True, with_registry (insert_read_write_grant g) w1)
    \<and> taken (covered E g now v) (map rel_waiter rels) v w1
    \<and> rg_next_operation_id (w_registry w) \<le> rg_next_operation_id (w_registry w1)"
proof -
  have wfw: "wf_world w" by (rule wf_world_taken [OF wf w(1)])
  then have wfr: "wf_registry (w_registry w)" by (simp add: wf_world_def)
  let ?ids = "matching_pending_read_write_ids_for_grant (env_glob E) g now (w_registry w)"
  have cov: "set ?ids = covered E g now v - {i}"
    using matching_ids_covered(1) [OF wfr, of E g now] covered_request_out [OF wf q, of E g now]
    by (simp add: covered_def w(2))
  have "\<forall>j \<in> set ?ids. om_get (rg_pending_read_write (w_registry w)) j \<noteq> None"
    unfolding matching_ids_covered(1) [OF wfr] by (auto simp: covered_def)
  then obtain rels w1 where r: "release_each ?ids w = (rels, w1)" "taken (set ?ids) (map rel_waiter rels) w w1"
    using release_each_taken [OF wfw matching_ids_covered(2) [OF wfr]] by blast
  have "{i} \<union> (covered E g now v - {i}) = covered E g now v" using q m by (auto simp: covered_def)
  with taken_trans [OF w(1) r(2)] have "taken (covered E g now v) (map rel_waiter (own # rels)) v w1"
    by (simp add: own cov)
  moreover have "rg_next_operation_id (w_registry w) \<le> rg_next_operation_id (w_registry w1)"
    using r(2) by (simp add: taken_def)
  ultimately show ?thesis using r(1) m by (auto simp: place_duration_def)
qed

lemma put_back_taken:
  assumes wf: "wf_world v" and q: "om_get (rg_pending_read_write (w_registry v)) i = Some q"
    and t: "taken (insert i I) us v w" and "i \<notin> I"
    and ws: "\<And>c. Some c \<in> set ws \<longleftrightarrow> (\<exists>j \<in> I. waiter_of v j = Some c)"
  shows "taken I ws v (put_back i q (waiter_of v i) w)"
proof -
  have wfv: "wf_registry (w_registry v)" and id: "prw_id q = i" using wf q by (simp_all add: wf_world_def wf_registry_def)
  have own: "pending_of v i = Some (PendingReadWrite q)"
    using wf_registryD(5) [OF wfv, of i] q by (auto simp: get_any_pending_def)
  have gone: "pending_of w i = None" using t by (simp add: taken_def)
  obtain c where c: "waiter_of v i = Some c"
    using wf own unfolding wf_world_def waiters_exact_def request_ids_get_any by blast
  have "i < rg_next_operation_id (w_registry v)"
    using wfv own by (auto simp: wf_registry_def used_ids_def request_ids_get_any)
  then have adm: "admissible (PendingReadWrite q) (w_registry w)"
    using t gone id by (simp add: taken_def request_ids_get_any)
  have wfw: "wf_registry (w_registry w)" using t by (simp add: taken_def)
  let ?r = "insert_pending_read_write_request q (w_registry w)"
  have wfr: "wf_registry ?r" using wf_insert_any [OF wfw adm] by simp
  have reg: "w_registry (put_back i q (waiter_of v i) w) =
      ?r\<lparr>rg_pending_waiters := om_insert i c (rg_pending_waiters ?r), rg_next_operation_id := rg_next_operation_id ?r\<rparr>"
    by (simp add: put_back_def c)
  have "om_wf (om_insert i c (rg_pending_waiters ?r))"
    using wfr by (simp add: wf_registry_def wf_maps_def)
  then have wf1: "wf_registry (w_registry (put_back i q (waiter_of v i) w))"
    unfolding reg by (rule wf_registry_fields [OF wfr]) simp
  have none: "om_get (rg_pending (w_registry w)) i = None"
    using gone by (auto simp: get_any_pending_def split: option.splits)
  have "get_any_pending ?r = (get_any_pending (w_registry w))(i := Some (PendingReadWrite q))"
    using none id by (auto simp: get_any_pending_def insert_pending_read_write_request_def fun_eq_iff split: option.splits)
  then have pend: "pending_of (put_back i q (waiter_of v i) w) = (pending_of w)(i := Some (PendingReadWrite q))"
    by (simp add: reg)
  have rest: "rg_pending_waiters ?r = rg_pending_waiters (w_registry w)" "rg_sandboxes ?r = rg_sandboxes (w_registry w)"
    "rg_read_write_grants ?r = rg_read_write_grants (w_registry w)" "rg_trusted ?r = rg_trusted (w_registry w)"
    "rg_next_operation_id ?r = rg_next_operation_id (w_registry w)"
    by (simp_all add: insert_pending_read_write_request_def)
  have cells: "w_cells (put_back i q (waiter_of v i) w) = w_cells w"
    "w_next_cell (put_back i q (waiter_of v i) w) = w_next_cell w"
    by (simp_all add: put_back_def c)
  show ?thesis
    unfolding taken_def pend cells unfolding reg
    using t wf1 [unfolded reg] own c \<open>i \<notin> I\<close> ws by (auto simp: taken_def fun_eq_iff rest)
qed

lemma place_one_shot_taken:
  assumes wf: "wf_world v" and q: "om_get (rg_pending_read_write (w_registry v)) i = Some q"
    and m: "matches_request (env_glob E) g q now" and own: "rel_id own = i" "rel_waiter own = waiter_of v i"
    and w: "taken {i} [waiter_of v i] v w" "rg_pending_read_write (w_registry w) = rg_pending_read_write (w_registry (request_out i v))"
    and first: "first = Min (covered E g now v)"
  shows "\<exists>n rel own_released w1. place_one_shot E g now q own w = (Some n, [rel], own_released, w1)
    \<and> rel_waiter rel = waiter_of v first
    \<and> taken {first} [waiter_of v first] v (if own_released then w1 else put_back i q (waiter_of v i) w1)"
proof -
  have wfw: "wf_world w" by (rule wf_world_taken [OF wf w(1)])
  then have wfr: "wf_registry (w_registry w)" by (simp add: wf_world_def)
  let ?ids = "matching_pending_read_write_ids_for_grant (env_glob E) g now (w_registry w)"
  have cov: "set ?ids = covered E g now v - {i}"
    using matching_ids_covered(1) [OF wfr, of E g now] covered_request_out [OF wf q, of E g now]
    by (simp add: covered_def w(2))
  have all: "insert i (covered E g now v) = covered E g now v" using q m by (auto simp: covered_def)
  have "min_id (?ids @ [i]) = Some first" by (simp add: min_id_def first cov all)
  note min = this
  obtain n w2 where f: "fresh_operation_id w = (n, w2)" "w2 = snd (fresh_operation_id w)" by (metis prod.collapse)
  show ?thesis
  proof (cases "first = i")
    case True
    have "taken {i} [waiter_of v i] v w2" unfolding f(2) by (rule taken_fresh [OF w(1)])
    then show ?thesis using min m f(1) own True by (auto simp: place_one_shot_def)
  next
    case False
    have "finite (covered E g now v)" using all cov by (metis finite.simps List.finite_set insert_Diff_single)
    then have "first \<in> covered E g now v" unfolding first using all by (intro Min_in) auto
    with False have "first \<in> set ?ids" by (simp add: cov)
    then obtain p where "om_get (rg_pending_read_write (w_registry w)) first = Some p"
      unfolding matching_ids_covered(1) [OF wfr] by (auto simp: covered_def)
    from release_pending_out [OF wfw this] obtain rel where
      rel: "release_pending first w = ([rel], request_out first w)" "rel_waiter rel = waiter_of w first" by blast
    have waiter: "waiter_of w first = waiter_of v first" using w(1) False by (simp add: taken_def)
    obtain n w3 where f3: "fresh_operation_id (request_out first w) = (n, w3)"
      "w3 = snd (fresh_operation_id (request_out first w))" by (metis prod.collapse)
    have "taken ({i} \<union> {first}) ([waiter_of v i] @ [waiter_of w first]) v w3"
      unfolding f3(2) by (rule taken_fresh [OF taken_trans [OF w(1) request_out_taken [OF wfw]]])
    then have t: "taken (insert i {first}) [waiter_of v i, waiter_of w first] v w3"
      by (simp add: insert_commute)
    have "taken {first} [waiter_of v first] v (put_back i q (waiter_of v i) w3)"
      by (rule put_back_taken [OF wf q t]) (use False in auto)
    then show ?thesis using min m f3(1) own False rel waiter by (auto simp: place_one_shot_def)
  qed
qed

section \<open>Deciding with a grant\<close>

lemma decide_grant_start:
  assumes wf: "wf_world w" and q: "om_get (rg_pending_read_write (w_registry w)) i = Some q" "prw_sandbox q = name"
  obtains w1 w2 where "take_request name i w = (Inr (PendingReadWrite q), w1)"
    and "fresh_operation_id w1 = (rg_next_operation_id (w_registry w), w2)"
    and "take_waiter i w2 = (waiter_of w i, request_out i w)"
    and "get_sandbox name w1 = get_sandbox name w"
proof -
  have wfr: "wf_registry (w_registry w)" using wf by (simp add: wf_world_def)
  have pend: "pending_of w i = Some (PendingReadWrite q)"
    using wf_registryD(5) [OF wfr, of i] q by (auto simp: get_any_pending_def)
  let ?w1 = "w\<lparr>w_registry := snd (remove_any_pending_request i (w_registry w))\<rparr>"
  have t: "take_request name i w = (Inr (PendingReadWrite q), ?w1)"
    using wf q pend by (cases rule: take_request_cases [where name = name and i = i]) auto
  obtain w2 where f: "fresh_operation_id ?w1 = (rg_next_operation_id (w_registry w), w2)"
    and w2: "snd (fresh_operation_id ?w1) = w2"
    by (rule that [OF _ refl]) (simp add: prod_eq_iff)
  have tw: "take_waiter i w2 = (waiter_of w i, request_out i w)"
    unfolding w2 [symmetric] take_waiter_pair take_fresh_out [OF t] by (simp add: next_operation_id_def)
  show ?thesis by (rule that [OF t f tw]) simp
qed

text \<open>What the critical section does for a pending read or write of the sandbox.\<close>

lemma decide_grant_found:
  assumes wf: "wf_world w" and q: "om_get (rg_pending_read_write (w_registry w)) i = Some q" "prw_sandbox q = name"
    and s: "get_sandbox name w = Some s"
    and p: "p = (case opt_path options of Some p \<Rightarrow> p | None \<Rightarrow> prw_path q)"
      "grant_pattern_matches (env_glob E) p (prw_path q)"
    and own: "own = \<lparr>rel_id = i, rel_attach_id = prw_attach_id q, rel_event_id = None, rel_waiter = waiter_of w i\<rparr>"
  shows "decide_grant E name i options now w =
    (case choose_subject E (w_host w) (opt_tree options) q of
       None \<Rightarrow> None
     | Some (None, q', warning, dg) \<Rightarrow>
         Some (Inr \<lparr>go_decision_id = rg_next_operation_id (w_registry w), go_grant_event_id = None,
           go_consumed_event_id = None, go_log_path = sb_log_path s, go_request_id = i,
           go_request_attach_id = prw_attach_id q, go_released = [own], go_grant = None,
           go_warning = warning, go_downgraded = dg\<rparr>, request_out i w)
     | Some (Some subject, q', warning, dg) \<Rightarrow>
         Some (case place_grant E name options p now subject q' own (sb_log_path s)
                 (rg_next_operation_id (w_registry w)) warning (request_out i w) of
                 (outcome, w) \<Rightarrow> (Inr outcome, w)))"
proof -
  obtain w1 w2 where t: "take_request name i w = (Inr (PendingReadWrite q), w1)"
    and f: "fresh_operation_id w1 = (rg_next_operation_id (w_registry w), w2)"
    and tw: "take_waiter i w2 = (waiter_of w i, request_out i w)"
    and w1: "get_sandbox name w1 = get_sandbox name w" by (rule decide_grant_start [OF wf q])
  have host: "w_host (request_out i w) = w_host w" by (simp add: request_out_def)
  show ?thesis
    using s p(2)
    by (simp add: decide_grant_def t f tw w1 own p(1) [symmetric] host Let_def cong: option.case_cong prod.case_cong)
qed

text \<open>The grant that is made for a request.\<close>

definition grant_for ::
  "nat \<Rightarrow> string \<Rightarrow> read_write_grant_options \<Rightarrow> sandbox_path \<Rightarrow> grant_subject \<Rightarrow> pending_read_write_request \<Rightarrow>
   system_time \<Rightarrow> read_write_access_grant"
where
  "grant_for i name options p subject q now =
     \<lparr>grant_id = i, grant_sandbox = name, grant_kind = prw_kind q, grant_path_pattern = p,
      grant_subject_of = subject, grant_lifetime_of = lifetime_of_request (opt_lifetime options) now,
      grant_created_at = epoch_millis now\<rparr>"

lemma grant_for_id [simp]: "grant_id (grant_for i name options p subject q now) = i"
  by (simp add: grant_for_def)

lemma grant_for_matches:
  assumes "prw_sandbox q = name" and "grant_pattern_matches G p (prw_path q)"
    and "subject_matches subject (prw_process_identity q)"
    and "clock_ok now" and "opt_lifetime options \<noteq> DurationRequest 0"
  shows "matches_request G (grant_for i name options p subject q now) q now"
proof (cases "opt_lifetime options")
  case OneShotRequest
  with assms show ?thesis by (simp add: matches_request_def grant_for_def)
next
  case (DurationRequest n)
  with assms duration_not_expired [of now n] show ?thesis
    by (simp add: matches_request_def grant_for_def)
qed

lemma place_grant_settles:
  assumes wf: "wf_world w" and q: "om_get (rg_pending_read_write (w_registry w)) i = Some q" "prw_sandbox q = name"
    and p: "grant_pattern_matches (env_glob E) p (prw_path q)"
    and q': "q' = get_or_insert_identity ident q" "subject_matches subject (prw_process_identity q')"
    and clock: "clock_ok now" "opt_lifetime options \<noteq> DurationRequest 0"
    and own: "rel_id own = i" "rel_waiter own = waiter_of w i"
    and v: "v = identified q' w" and g: "g = grant_for (Suc (rg_next_operation_id (w_registry w))) name options p subject q' now"
    and run: "place_grant E name options p now subject q' own log_path d warning (request_out i w) = (oc, w2)"
  shows "\<exists>w1. taken (if grant_lifetime_of g = OneShot then {Min (covered E g now v)} else covered E g now v)
          (map rel_waiter (go_released oc)) v w1
      \<and> w2 = (if grant_lifetime_of g = OneShot then w1 else with_registry (insert_read_write_grant g) w1)
      \<and> (grant_lifetime_of g \<noteq> OneShot \<longrightarrow> grant_id g < rg_next_operation_id (w_registry w1))
      \<and> go_grant oc = Some g"
proof -
  have id: "prw_id q' = i" using wf q q'(1) by (simp add: wf_world_def wf_registry_def)
  note idw = identified_world [OF wf q(1) id, folded v]
  let ?w0 = "snd (fresh_operation_id (snd (fresh_operation_id (request_out i w))))"
  have t0: "taken {i} [waiter_of v i] v ?w0"
    using request_out_taken [OF idw(1), of i] idw(2) by (simp add: taken_fresh)
  have rw0: "rg_pending_read_write (w_registry ?w0) = rg_pending_read_write (w_registry (request_out i v))"
    using idw(2) by (simp add: next_operation_id_def)
  have m: "matches_request (env_glob E) g q' now"
    unfolding g using q q' p clock by (intro grant_for_matches) simp_all
  have own': "rel_waiter own = waiter_of v i" using own idw(4) by simp
  obtain w01 where f1: "fresh_operation_id (request_out i w) = (Suc (rg_next_operation_id (w_registry w)), w01)"
    and w01: "snd (fresh_operation_id (request_out i w)) = w01"
    by (rule that [OF _ refl]) (simp add: prod_eq_iff request_out_def)
  obtain n w0 where f2: "fresh_operation_id w01 = (n, w0)" by fastforce
  have w0: "?w0 = w0" by (simp add: w01 f2)
  have n0: "rg_next_operation_id (w_registry ?w0) = Suc (Suc (Suc (rg_next_operation_id (w_registry w))))"
    by (simp add: request_out_def next_operation_id_def)
  have g': "\<lparr>grant_id = Suc (rg_next_operation_id (w_registry w)), grant_sandbox = name, grant_kind = prw_kind q',
      grant_path_pattern = p, grant_subject_of = subject,
      grant_lifetime_of = lifetime_of_request (opt_lifetime options) now, grant_created_at = epoch_millis now\<rparr> = g"
    by (simp add: g grant_for_def)
  let ?placed = "case grant_lifetime_of g of OneShot \<Rightarrow> place_one_shot E g now q' own w0
    | Duration _ \<Rightarrow> place_duration E g now q' own w0"
  obtain cid rels b wp where placed: "?placed = (cid, rels, b, wp)" by (metis prod_cases4)
  have out: "go_released oc = rels" "go_grant oc = Some g" "w2 = (if b then wp else put_back i q' (waiter_of v i) wp)"
    using run own(1) own' unfolding place_grant_def Let_def f1 f2 prod.case g' placed by auto
  show ?thesis
  proof (cases "grant_lifetime_of g")
    case OneShot
    from place_one_shot_taken [OF idw(1,3) m own(1) own' t0 [unfolded w0] rw0 [unfolded w0] refl]
    show ?thesis using OneShot out placed by auto
  next
    case (Duration e)
    from place_duration_taken [OF idw(1,3) m own(1) own' t0 [unfolded w0] rw0 [unfolded w0]]
    show ?thesis using Duration out placed n0 [unfolded w0] by (auto simp: g grant_for_def)
  qed
qed

text \<open>A settled state with one more grant.\<close>

lemma wf_registry_insert_grant:
  assumes "wf_registry r" and "grant_id g < rg_next_operation_id r"
  shows "wf_registry (insert_read_write_grant g r)"
  using assms unfolding wf_registry_def wf_maps_def index_exact_def
  by (auto simp: insert_read_write_grant_def used_ids_def request_ids_def om_keys_dom split: if_splits)

lemma insert_grant_fields [simp]:
  "get_any_pending (insert_read_write_grant g r) = get_any_pending r"
  "rg_pending_waiters (insert_read_write_grant g r) = rg_pending_waiters r"
  "rg_sandboxes (insert_read_write_grant g r) = rg_sandboxes r"
  "rg_trusted (insert_read_write_grant g r) = rg_trusted r"
  "rg_next_operation_id (insert_read_write_grant g r) = rg_next_operation_id r"
  "rg_read_write_grants (insert_read_write_grant g r) = om_insert (grant_id g) g (rg_read_write_grants r)"
  by (simp_all add: insert_read_write_grant_def)

lemma allow_with_grant_settles:
  assumes wf: "wf_world w" and q: "om_get (rg_pending_read_write (w_registry w)) i = Some q" "prw_sandbox q = name"
    and s: "get_sandbox name w = Some s"
    and p: "p = (case opt_path options of Some p \<Rightarrow> p | None \<Rightarrow> prw_path q)"
      "grant_pattern_matches (env_glob E) p (prw_path q)"
    and now: "now = os_now (env_os E) (w_host w)" "clock_ok now" and life: "opt_lifetime options \<noteq> DurationRequest 0"
    and sub: "choose_subject E (w_host w) (opt_tree options) q = Some (Some subject, q', warning, dg)"
    and run: "allow_read_write_grant E name i options w = Some (r, w')"
    and v: "v = identified q' w" and g: "g = grant_for (Suc (rg_next_operation_id (w_registry w))) name options p subject q' now"
  shows "i \<in> covered E g now v" and "wf_world w'"
    and "settled (if grant_lifetime_of g = OneShot then {Min (covered E g now v)} else covered E g now v) Apply v w'"
    and "rg_read_write_grants (w_registry w') =
      (if grant_lifetime_of g = OneShot then rg_read_write_grants (w_registry w)
       else om_insert (grant_id g) g (rg_read_write_grants (w_registry w)))"
    and "rg_sandboxes (w_registry w') = rg_sandboxes (w_registry w)"
    and "rg_next_operation_id (w_registry w) \<le> rg_next_operation_id (w_registry w')"
proof -
  let ?I = "if grant_lifetime_of g = OneShot then {Min (covered E g now v)} else covered E g now v"
  obtain ident where q': "q' = get_or_insert_identity ident q" "subject_matches subject (prw_process_identity q')"
    using choose_subject_covers [OF sub] by blast
  have id: "prw_id q' = i" using wf q q'(1) by (simp add: wf_world_def wf_registry_def)
  note idw = identified_world [OF wf q(1) id, folded v]
  have "matches_request (env_glob E) g q' now"
    unfolding g using q q' p(2) now(2) life by (intro grant_for_matches) simp_all
  then show "i \<in> covered E g now v" using idw(3) by (auto simp: covered_def)
  define own where "own = \<lparr>rel_id = i, rel_attach_id = prw_attach_id q, rel_event_id = None, rel_waiter = waiter_of w i\<rparr>"
  obtain oc w2 where pg: "place_grant E name options p now subject q' own (sb_log_path s)
      (rg_next_operation_id (w_registry w)) warning (request_out i w) = (oc, w2)" by fastforce
  have w': "w' = snd (finish_read_write_grant_allow E oc w2)"
    using run life decide_grant_found [OF wf q s p own_def, of now] pg
    by (auto simp: allow_read_write_grant_def now(1) [symmetric] sub split: if_splits)
  from place_grant_settles [OF wf q p(2) q' now(2) life _ _ v g pg]
  obtain w1 where t: "taken ?I (map rel_waiter (go_released oc)) v w1"
    and w2: "w2 = (if grant_lifetime_of g = OneShot then w1 else with_registry (insert_read_write_grant g) w1)"
    and gid: "grant_lifetime_of g \<noteq> OneShot \<longrightarrow> grant_id g < rg_next_operation_id (w_registry w1)"
    by (auto simp: own_def)
  have same: "w_cells w2 = w_cells w1" "w_next_cell w2 = w_next_cell w1" "pending_of w2 = pending_of w1" "waiter_of w2 = waiter_of w1"
    by (simp_all add: w2)
  show st: "settled ?I Apply v w'"
    using t by (auto simp: settled_def taken_def w' same)
  have "wf_registry (w_registry w')"
    using t gid by (simp add: w' w2 taken_def wf_registry_insert_grant)
  then show "wf_world w'" by (rule wf_world_settled [OF idw(1) st])
  show "rg_read_write_grants (w_registry w') =
      (if grant_lifetime_of g = OneShot then rg_read_write_grants (w_registry w)
       else om_insert (grant_id g) g (rg_read_write_grants (w_registry w)))"
    "rg_sandboxes (w_registry w') = rg_sandboxes (w_registry w)"
    "rg_next_operation_id (w_registry w) \<le> rg_next_operation_id (w_registry w')"
    using t by (simp_all add: w' w2 v taken_def identified_def insert_pending_read_write_request_def)
qed

lemma allow_with_grant_returns:
  assumes wf: "wf_world w" and q: "om_get (rg_pending_read_write (w_registry w)) i = Some q" "prw_sandbox q = name"
    and s: "get_sandbox name w = Some s"
    and p: "p = (case opt_path options of Some p \<Rightarrow> p | None \<Rightarrow> prw_path q)"
      "grant_pattern_matches (env_glob E) p (prw_path q)"
    and sub: "choose_subject E (w_host w) (opt_tree options) q = Some choice"
  obtains r w' where "allow_read_write_grant E name i options w = Some (r, w')"
proof -
  note d = decide_grant_found [OF wf q s p refl, of "os_now (env_os E) (w_host w)"]
  have "allow_read_write_grant E name i options w \<noteq> None"
  proof (cases choice)
    case (fields subject q' warning dg)
    with d sub show ?thesis
      by (cases subject) (auto simp: allow_read_write_grant_def split: prod.splits sum.splits)
  qed
  then show ?thesis using that by auto
qed

text \<open>Without a subject the request is released alone.\<close>

lemma allow_downgraded:
  assumes wf: "wf_world w" and q: "om_get (rg_pending_read_write (w_registry w)) i = Some q" "prw_sandbox q = name"
    and s: "get_sandbox name w = Some s"
    and p: "p = (case opt_path options of Some p \<Rightarrow> p | None \<Rightarrow> prw_path q)"
      "grant_pattern_matches (env_glob E) p (prw_path q)"
    and life: "opt_lifetime options \<noteq> DurationRequest 0"
    and sub: "choose_subject E (w_host w) (opt_tree options) q = Some (None, q', warning, dg)"
    and run: "allow_read_write_grant E name i options w = Some (r, w')"
  shows "settled {i} Apply w w'" and "wf_world w'"
    and "rg_read_write_grants (w_registry w') = rg_read_write_grants (w_registry w)"
    and "rg_sandboxes (w_registry w') = rg_sandboxes (w_registry w)"
    and "rg_next_operation_id (w_registry w) \<le> rg_next_operation_id (w_registry w')"
proof -
  note d = decide_grant_found [OF wf q s p refl, of "os_now (env_os E) (w_host w)"]
  obtain oc where fin: "finish_read_write_grant_allow E oc (request_out i w) = (r, w')"
    and oc: "map rel_waiter (go_released oc) = [waiter_of w i]"
    by (rule that, use run life d sub in \<open>simp add: allow_read_write_grant_def\<close>, simp)
  have w': "w' = snd (finish_read_write_grant_allow E oc (request_out i w))" by (simp add: fin)
  note t = request_out_taken [OF wf, of i]
  show st: "settled {i} Apply w w'"
    using t by (auto simp: settled_def taken_def w' oc)
  have "wf_registry (w_registry w')" using t by (simp add: w' taken_def)
  then show "wf_world w'" by (rule wf_world_settled [OF wf st])
  show "rg_read_write_grants (w_registry w') = rg_read_write_grants (w_registry w)"
    "rg_sandboxes (w_registry w') = rg_sandboxes (w_registry w)"
    "rg_next_operation_id (w_registry w) \<le> rg_next_operation_id (w_registry w')"
    using t by (simp_all add: w' taken_def)
qed

text \<open>Putting the request back restores everything but the id that was taken.\<close>

lemma put_back_restores:
  assumes wf: "wf_world w" and q: "om_get (rg_pending_read_write (w_registry w)) i = Some q"
  shows "put_back i q (waiter_of w i) (request_out i w) = snd (fresh_operation_id w)"
proof -
  have wfr: "wf_registry (w_registry w)" and id: "prw_id q = i"
    using wf q by (simp_all add: wf_world_def wf_registry_def)
  have maps: "om_wf (rg_pending_read_write (w_registry w))" "om_wf (rg_pending_waiters (w_registry w))"
    using wfr by (simp_all add: wf_registry_def wf_maps_def)
  have "i \<in> request_ids (w_registry w)" using q by (auto simp: request_ids_def om_keys_dom)
  then obtain c where c: "waiter_of w i = Some c" using wf unfolding wf_world_def waiters_exact_def by blast
  show ?thesis
    using remove_any_read_write(1) [OF wfr q] q id
      omap.put_after_drop [OF maps(1) q] omap.put_after_drop [OF maps(2) c]
    by (simp add: put_back_def c request_out_def with_registry_def insert_pending_read_write_request_def
        remove_pending_read_write_request_def fresh_operation_id_def next_operation_id_def)
qed

lemma decide_grant_mismatch:
  assumes wf: "wf_world w" and q: "om_get (rg_pending_read_write (w_registry w)) i = Some q" "prw_sandbox q = name"
    and s: "get_sandbox name w = Some s" and p: "p = (case opt_path options of Some p \<Rightarrow> p | None \<Rightarrow> prw_path q)"
      "\<not> grant_pattern_matches (env_glob E) p (prw_path q)"
  shows "\<exists>m. decide_grant E name i options now w = Some (Inl (Message m), snd (fresh_operation_id w))"
proof -
  obtain w1 w2 where t: "take_request name i w = (Inr (PendingReadWrite q), w1)"
    and f: "fresh_operation_id w1 = (rg_next_operation_id (w_registry w), w2)"
    and tw: "take_waiter i w2 = (waiter_of w i, request_out i w)"
    and w1: "get_sandbox name w1 = get_sandbox name w" by (rule decide_grant_start [OF wf q])
  show ?thesis
    using s p(2) put_back_restores [OF wf q(1)]
    by (simp add: decide_grant_def t f tw w1 p(1) [symmetric])
qed

lemma decide_grant_metadata:
  assumes wf: "wf_world w" and q: "pending_of w i = Some (PendingMetadata q)"
  shows "\<exists>m. decide_grant E (pm_sandbox q) i options now w = Some (Inl (Message m), w)"
proof -
  have wfr: "wf_registry (w_registry w)" using wf by (simp add: wf_world_def)
  let ?r = "snd (remove_any_pending_request i (w_registry w))"
  have t: "take_request (pm_sandbox q) i w = (Inr (PendingMetadata q), w\<lparr>w_registry := ?r\<rparr>)"
    using wf q by (cases rule: take_request_cases [where name = "pm_sandbox q" and i = i]) auto
  have "remove_any_pending_request i (w_registry w) = (Some (PendingMetadata q), ?r)"
    using any_store.take_present [OF wfr, of i] q by (simp add: prod_eq_iff)
  from any_store.take_put_back [OF wfr this] have "with_registry (insert_any_pending_request (PendingMetadata q)) (w\<lparr>w_registry := ?r\<rparr>) = w"
    by (simp add: with_registry_def)
  then show ?thesis by (simp add: decide_grant_def t)
qed

lemma decide_grant_refused:
  assumes wf: "wf_world w" and no: "\<nexists>q. pending_of w i = Some (PendingReadWrite q) \<and> prw_sandbox q = name"
  shows "\<exists>e. decide_grant E name i options now w = Some (Inl e, w)"
  using wf
proof (cases rule: take_request_cases [where name = name and i = i])
  case missing
  then show ?thesis by (simp add: decide_grant_def)
next
  case (foreign q)
  then show ?thesis by (simp add: decide_grant_def)
next
  case (found q)
  with no obtain m where "q = PendingMetadata m" "pm_sandbox m = name" by (cases q) auto
  with found(1) decide_grant_metadata [OF wf, of i m E options now] show ?thesis by auto
qed

section \<open>A small session for evaluation\<close>

lemma busy_subject:
  "choose_subject (demo_env d) () False (waiting_write i) =
     Some (Some (Exact (ProcessIdentity 42 7)), waiting_write i, None, False)"
  by (simp add: choose_subject_def exact_subject_def exact_identity_def get_or_insert_identity_def)

lemma busy_identified: "identified (waiting_write 4) busy_world = busy_world"
  by (simp add: identified_def with_registry_def insert_pending_read_write_request_def busy_world_def)

lemma busy_pattern: "grant_pattern_matches (env_glob (demo_env d)) [''data'', ''doc''] [''data'', ''doc'']"
  by (simp add: eval_simps demo_env_def simple_glob_def grant_pattern_matches_def)

lemma busy_clock: "clock_ok (os_now (env_os (demo_env d)) ())"
  by (simp add: clock_ok_def demo_env_def demo_host_def empty_host_def unix_epoch_def)

lemma busy_covered:
  assumes "g = grant_for n ''box'' options [''data'', ''doc''] (Exact (ProcessIdentity 42 7)) (waiting_write 4) now"
    and "clock_ok now" and "opt_lifetime options \<noteq> DurationRequest 0"
  shows "covered (demo_env d) g now busy_world = {3, 4}"
proof -
  have "matches_request (env_glob (demo_env d)) g (waiting_write 4) now"
    unfolding assms(1) using assms(2,3) by (intro grant_for_matches) (simp_all add: busy_pattern)
  then have "matches_request (env_glob (demo_env d)) g (waiting_write i) now" for i
    by (simp add: matches_request_def)
  then show ?thesis by (auto simp: covered_def busy_world_simps split: if_splits)
qed

section \<open>Properties\<close>

text \<open>
  C19: Allowing a pending read or write with a duration grant returns (when the process tree
  can be walked); the grant covers the request it was made for, every pending request it
  covers is released and its caller told to go on, no other request or caller is affected,
  and the grant is stored. The identity of the requester is filled in on the selected
  request before the matching.
\<close>

theorem duration_grant_releases_covered:
  assumes "wf_world w" and "om_get (rg_pending_read_write (w_registry w)) i = Some q"
    and "get_sandbox (prw_sandbox q) w = Some s"
    and "p = (case opt_path options of Some p \<Rightarrow> p | None \<Rightarrow> prw_path q)"
    and "grant_pattern_matches (env_glob E) p (prw_path q)"
    and "now = os_now (env_os E) (w_host w)" and "clock_ok now"
    and "opt_lifetime options = DurationRequest secs" and "0 < secs"
    and "choose_subject E (w_host w) (opt_tree options) q = Some (Some subject, q', warning, dg)"
    and "g = grant_for (Suc (rg_next_operation_id (w_registry w))) (prw_sandbox q) options p subject q' now"
  shows "\<exists>r w'. allow_read_write_grant E (prw_sandbox q) i options w = Some (r, w')
    \<and> i \<in> covered E g now (identified q' w)
    \<and> settled (covered E g now (identified q' w)) Apply (identified q' w) w'
    \<and> rg_read_write_grants (w_registry w') = om_insert (grant_id g) g (rg_read_write_grants (w_registry w))
    \<and> rg_sandboxes (w_registry w') = rg_sandboxes (w_registry w) \<and> wf_world w'"
proof -
  obtain r w' where run: "allow_read_write_grant E (prw_sandbox q) i options w = Some (r, w')"
    using allow_with_grant_returns [OF assms(1,2) refl assms(3,4,5,10)] .
  have life: "opt_lifetime options \<noteq> DurationRequest 0" "grant_lifetime_of g \<noteq> OneShot"
    using assms(8,9,11) by (simp_all add: grant_for_def)
  from allow_with_grant_settles [OF assms(1,2) refl assms(3,4,5,6,7) life(1) assms(10) run refl assms(11)] run life(2)
  show ?thesis by auto
qed

theorem duration_grant_releases_covered_witness:
  "\<exists>r w'. allow_read_write_grant (demo_env Apply) ''box'' 4
       \<lparr>opt_path = None, opt_lifetime = DurationRequest 60, opt_tree = False\<rparr> busy_world = Some (r, w')
     \<and> pending_of w' 3 = None \<and> pending_of w' 4 = None
     \<and> w_cells w' 0 = Some Apply \<and> w_cells w' 1 = Some Apply \<and> rg_read_write_grants (w_registry w') \<noteq> []"
proof -
  let ?o = "\<lparr>opt_path = None, opt_lifetime = DurationRequest 60, opt_tree = False\<rparr>"
  let ?now = "os_now (env_os (demo_env Apply)) ()"
  let ?g = "grant_for 6 ''box'' ?o [''data'', ''doc''] (Exact (ProcessIdentity 42 7)) (waiting_write 4) ?now"
  have cov: "covered (demo_env Apply) ?g ?now busy_world = {3, 4}"
    by (rule busy_covered [OF refl]) (simp_all add: busy_clock)
  from duration_grant_releases_covered [OF wf_busy_world, of 4 "waiting_write 4" attached_sandbox "[''data'', ''doc'']" ?o
      "demo_env Apply" ?now 60 "Exact (ProcessIdentity 42 7)" "waiting_write 4" None False ?g]
  obtain r w' where run: "allow_read_write_grant (demo_env Apply) ''box'' 4 ?o busy_world = Some (r, w')"
    and st: "settled {3, 4} Apply busy_world w'"
    and gr: "rg_read_write_grants (w_registry w') = [(6, ?g)]"
    by (auto simp: busy_world_simps busy_pattern busy_clock busy_subject busy_identified cov)
  from st gr have "pending_of w' 3 = None" "pending_of w' 4 = None" "w_cells w' 0 = Some Apply" "w_cells w' 1 = Some Apply"
    "rg_read_write_grants (w_registry w') \<noteq> []"
    by (simp_all add: settled_def busy_world_simps)
  with run show ?thesis by blast
qed

text \<open>
  C20: Allowing with a one-shot grant releases exactly one request, the earliest pending
  request the grant covers (which may be another one than the selected one); all others,
  the selected one included, keep waiting, and no grant is stored.
\<close>

theorem one_shot_grant_releases_earliest:
  assumes "wf_world w" and "om_get (rg_pending_read_write (w_registry w)) i = Some q"
    and "get_sandbox (prw_sandbox q) w = Some s"
    and "p = (case opt_path options of Some p \<Rightarrow> p | None \<Rightarrow> prw_path q)"
    and "grant_pattern_matches (env_glob E) p (prw_path q)"
    and "now = os_now (env_os E) (w_host w)" and "clock_ok now"
    and "opt_lifetime options = OneShotRequest"
    and "choose_subject E (w_host w) (opt_tree options) q = Some (Some subject, q', warning, dg)"
    and "g = grant_for (Suc (rg_next_operation_id (w_registry w))) (prw_sandbox q) options p subject q' now"
  shows "\<exists>r w'. allow_read_write_grant E (prw_sandbox q) i options w = Some (r, w')
    \<and> i \<in> covered E g now (identified q' w)
    \<and> settled {Min (covered E g now (identified q' w))} Apply (identified q' w) w'
    \<and> rg_read_write_grants (w_registry w') = rg_read_write_grants (w_registry w)
    \<and> rg_sandboxes (w_registry w') = rg_sandboxes (w_registry w) \<and> wf_world w'"
proof -
  obtain r w' where run: "allow_read_write_grant E (prw_sandbox q) i options w = Some (r, w')"
    using allow_with_grant_returns [OF assms(1,2) refl assms(3,4,5,9)] .
  have life: "opt_lifetime options \<noteq> DurationRequest 0" "grant_lifetime_of g = OneShot"
    using assms(8,10) by (simp_all add: grant_for_def)
  from allow_with_grant_settles [OF assms(1,2) refl assms(3,4,5,6,7) life(1) assms(9) run refl assms(10)] run life(2)
  show ?thesis by auto
qed

theorem one_shot_grant_releases_earliest_witness:
  "\<exists>r w'. allow_read_write_grant (demo_env Apply) ''box'' 4
       \<lparr>opt_path = None, opt_lifetime = OneShotRequest, opt_tree = False\<rparr> busy_world = Some (r, w')
     \<and> pending_of w' 3 = None \<and> w_cells w' 0 = Some Apply
     \<and> pending_of w' 4 = Some (PendingReadWrite (waiting_write 4)) \<and> w_cells w' 1 = None
     \<and> rg_read_write_grants (w_registry w') = []"
proof -
  let ?o = "\<lparr>opt_path = None, opt_lifetime = OneShotRequest, opt_tree = False\<rparr>"
  let ?now = "os_now (env_os (demo_env Apply)) ()"
  let ?g = "grant_for 6 ''box'' ?o [''data'', ''doc''] (Exact (ProcessIdentity 42 7)) (waiting_write 4) ?now"
  have cov: "covered (demo_env Apply) ?g ?now busy_world = {3, 4}"
    by (rule busy_covered [OF refl]) (simp_all add: busy_clock)
  from one_shot_grant_releases_earliest [OF wf_busy_world, of 4 "waiting_write 4" attached_sandbox "[''data'', ''doc'']" ?o
      "demo_env Apply" ?now "Exact (ProcessIdentity 42 7)" "waiting_write 4" None False ?g]
  obtain r w' where run: "allow_read_write_grant (demo_env Apply) ''box'' 4 ?o busy_world = Some (r, w')"
    and st: "settled {3} Apply busy_world w'" and gr: "rg_read_write_grants (w_registry w') = []"
    by (auto simp: busy_world_simps busy_pattern busy_clock busy_subject busy_identified cov)
  from st have "pending_of w' 3 = None" "w_cells w' 0 = Some Apply"
    "pending_of w' 4 = Some (PendingReadWrite (waiting_write 4))" "w_cells w' 1 = None"
    by (simp_all add: settled_def busy_world_simps)
  with run gr show ?thesis by blast
qed

text \<open>
  C21: A grant that cannot be made leaves the requests waiting: with a path that does not
  cover the request the allow fails, every request and waiter is still there and only an
  operation id is used up; for a metadata request, and for a duration of zero, it fails and
  changes nothing. When the requester cannot be identified the selected request alone
  is released and no grant is made.
\<close>

theorem grant_that_cannot_be_made:
  assumes "wf_world w" and "pending_of w i = Some (PendingReadWrite q)"
    and "get_sandbox (prw_sandbox q) w = Some s" and "opt_lifetime options \<noteq> DurationRequest 0"
    and "p = (case opt_path options of Some p \<Rightarrow> p | None \<Rightarrow> prw_path q)"
  shows "(\<not> grant_pattern_matches (env_glob E) p (prw_path q) \<longrightarrow>
      (\<exists>m. allow_read_write_grant E (prw_sandbox q) i options w = Some (Inl (Message m), snd (fresh_operation_id w))))
    \<and> (grant_pattern_matches (env_glob E) p (prw_path q) \<longrightarrow>
       choose_subject E (w_host w) (opt_tree options) q = Some (None, q', warning, dg) \<longrightarrow>
      (\<exists>r w'. allow_read_write_grant E (prw_sandbox q) i options w = Some (r, w') \<and> settled {i} Apply w w'
         \<and> rg_read_write_grants (w_registry w') = rg_read_write_grants (w_registry w) \<and> wf_world w'))
    \<and> allow_read_write_grant E name j (options\<lparr>opt_lifetime := DurationRequest 0\<rparr>) w =
       Some (Inl (Message ''duration must be greater than zero''), w)
    \<and> (\<forall>m. pending_of w j = Some (PendingMetadata m) \<longrightarrow>
         (\<exists>t. allow_read_write_grant E (pm_sandbox m) j options w = Some (Inl (Message t), w)))"
proof (intro conjI impI allI)
  have q: "om_get (rg_pending_read_write (w_registry w)) i = Some q"
    using assms(2) by (auto simp: get_any_pending_def split: option.splits)
  { assume m: "\<not> grant_pattern_matches (env_glob E) p (prw_path q)"
    show "\<exists>m. allow_read_write_grant E (prw_sandbox q) i options w = Some (Inl (Message m), snd (fresh_operation_id w))"
      using decide_grant_mismatch [OF assms(1) q refl assms(3,5) m, of "os_now (env_os E) (w_host w)"] assms(4)
      by (auto simp: allow_read_write_grant_def) }
  { assume m: "grant_pattern_matches (env_glob E) p (prw_path q)"
      and sub: "choose_subject E (w_host w) (opt_tree options) q = Some (None, q', warning, dg)"
    obtain r w' where run: "allow_read_write_grant E (prw_sandbox q) i options w = Some (r, w')"
      using allow_with_grant_returns [OF assms(1) q refl assms(3,5) m sub] .
    with allow_downgraded [OF assms(1) q refl assms(3,5) m assms(4) sub run]
    show "\<exists>r w'. allow_read_write_grant E (prw_sandbox q) i options w = Some (r, w') \<and> settled {i} Apply w w'
         \<and> rg_read_write_grants (w_registry w') = rg_read_write_grants (w_registry w) \<and> wf_world w'" by blast }
  show "allow_read_write_grant E name j (options\<lparr>opt_lifetime := DurationRequest 0\<rparr>) w =
       Some (Inl (Message ''duration must be greater than zero''), w)" by (simp add: allow_read_write_grant_def)
  { fix m assume "pending_of w j = Some (PendingMetadata m)"
    from decide_grant_metadata [OF assms(1) this, of E options "os_now (env_os E) (w_host w)"] assms(4)
    show "\<exists>t. allow_read_write_grant E (pm_sandbox m) j options w = Some (Inl (Message t), w)"
      by (auto simp: allow_read_write_grant_def) }
qed

theorem grant_that_cannot_be_made_witness:
  "\<exists>m. allow_read_write_grant (demo_env Apply) ''box'' 4
     \<lparr>opt_path = Some [''other''], opt_lifetime = OneShotRequest, opt_tree = False\<rparr> busy_world =
     Some (Inl (Message m), snd (fresh_operation_id busy_world))"
proof -
  have "\<not> grant_pattern_matches (env_glob (demo_env Apply)) [''other''] [''data'', ''doc'']"
    by (simp add: eval_simps demo_env_def simple_glob_def grant_pattern_matches_def)
  with grant_that_cannot_be_made [OF wf_busy_world, of 4 "waiting_write 4" attached_sandbox
      "\<lparr>opt_path = Some [''other''], opt_lifetime = OneShotRequest, opt_tree = False\<rparr>" "[''other'']" "demo_env Apply"]
  show ?thesis by (simp add: busy_world_simps)
qed

end
