(* ===== verification/Session_Safety.thy ===== *)
theory Session_Safety
  imports Session_Grants
begin

text \<open>
  The invariant of a session and that every request of the protocol keeps it: the shared
  state is well-formed, every pending request belongs to a sandbox, a mount point belongs to
  one sandbox only, and every mounted file system is recorded as an attach of its sandbox.
\<close>

section \<open>The invariant\<close>

definition attach_of :: "'h world \<Rightarrow> string \<Rightarrow> component list \<Rightarrow> attach_mount option" where
  "attach_of w name key =
     (case get_sandbox name w of None \<Rightarrow> None | Some s \<Rightarrow> om_get (sb_attaches s) key)"

definition attaches_ok :: "'h world \<Rightarrow> bool" where
  "attaches_ok w \<longleftrightarrow>
     (\<forall>n n' key. attach_of w n key \<noteq> None \<longrightarrow> attach_of w n' key \<noteq> None \<longrightarrow> n = n')
     \<and> (\<forall>n key a. attach_of w n key = Some a \<longrightarrow>
          components (at_mountpoint a) = key \<and> at_id a < rg_next_operation_id (w_registry w))"

definition world_ok :: "'h world \<Rightarrow> bool" where
  "world_ok w \<longleftrightarrow> wf_world w \<and> requests_homed w \<and> attaches_ok w"

definition mount_recorded :: "'h world \<Rightarrow> mounted_session \<Rightarrow> bool" where
  "mount_recorded w m \<longleftrightarrow>
     (\<exists>a. attach_of w (ms_sandbox m) (components (ms_mountpoint m)) = Some a \<and> at_id a = ms_attach_id m)"

definition session_ok :: "'h session \<Rightarrow> bool" where
  "session_ok S \<longleftrightarrow> world_ok (ss_world S) \<and> (\<forall>m \<in> set (ss_mounts S). mount_recorded (ss_world S) m)
     \<and> distinct (map (\<lambda>m. components (ms_mountpoint m)) (ss_mounts S))"

text \<open>
  No caller is forgotten: a waiter leaves the table only when its cell is decided, a cell is
  decided only for a waiter of the table and keeps its decision, and waiters are only added for
  new requests and new cells.
\<close>

definition wakes :: "'h world \<Rightarrow> 'h world \<Rightarrow> bool" where
  "wakes w w' \<longleftrightarrow>
     w_next_cell w \<le> w_next_cell w'
     \<and> rg_next_operation_id (w_registry w) \<le> rg_next_operation_id (w_registry w')
     \<and> (\<forall>c < w_next_cell w. \<forall>d. w_cells w c = Some d \<longrightarrow> w_cells w' c = Some d)
     \<and> (\<forall>i. \<forall>c < w_next_cell w. waiter_of w i = Some c \<longrightarrow> waiter_of w' i = Some c \<or> w_cells w' c \<noteq> None)
     \<and> (\<forall>i < rg_next_operation_id (w_registry w). \<forall>c. waiter_of w' i = Some c \<longrightarrow> waiter_of w i = Some c)
     \<and> (\<forall>c < w_next_cell w. w_cells w c = None \<longrightarrow> w_cells w' c \<noteq> None \<longrightarrow> (\<exists>i. waiter_of w i = Some c))
     \<and> (\<forall>i. \<forall>c < w_next_cell w. waiter_of w' i = Some c \<longrightarrow> waiter_of w i = Some c)"

lemma wakes_refl [simp]: "wakes w w"
  by (simp add: wakes_def)

lemma wakes_trans:
  assumes "wakes w w1" and "wakes w1 w2"
  shows "wakes w w2"
proof -
  have "waiter_of w2 i = Some c \<or> w_cells w2 c \<noteq> None" if "c < w_next_cell w" "waiter_of w i = Some c" for i c
  proof -
    have below: "c < w_next_cell w1" using assms(1) that(1) unfolding wakes_def by linarith
    have "waiter_of w1 i = Some c \<or> w_cells w1 c \<noteq> None" using assms(1) that unfolding wakes_def by blast
    then show ?thesis using assms(2) below unfolding wakes_def by blast
  qed
  moreover have "w_cells w2 c = Some d" if "c < w_next_cell w" "w_cells w c = Some d" for c d
    using assms that unfolding wakes_def by (meson less_le_trans)
  moreover have "waiter_of w i = Some c"
    if "i < rg_next_operation_id (w_registry w)" "waiter_of w2 i = Some c" for i c
    using assms that unfolding wakes_def by (meson less_le_trans)
  moreover have old: "waiter_of w1 i = Some c \<Longrightarrow> waiter_of w i = Some c" "waiter_of w2 i = Some c \<Longrightarrow> waiter_of w1 i = Some c"
    if "c < w_next_cell w" for i c
    using assms that unfolding wakes_def by (meson less_le_trans)+
  moreover have "\<exists>i. waiter_of w i = Some c"
    if c: "c < w_next_cell w" "w_cells w c = None" "w_cells w2 c \<noteq> None" for c
  proof (cases "w_cells w1 c")
    case None
    have "c < w_next_cell w1" using assms(1) c(1) unfolding wakes_def by linarith
    then obtain i where "waiter_of w1 i = Some c" using assms(2) None c(3) unfolding wakes_def by blast
    with old(1) c(1) show ?thesis by blast
  next
    case (Some d)
    with assms(1) c(1,2) show ?thesis unfolding wakes_def by blast
  qed
  moreover have "w_next_cell w \<le> w_next_cell w2"
    "rg_next_operation_id (w_registry w) \<le> rg_next_operation_id (w_registry w2)"
    using assms unfolding wakes_def by (meson order_trans)+
  ultimately show ?thesis unfolding wakes_def by blast
qed

lemma wakes_same:
  assumes "waiter_of w' = waiter_of w" "w_cells w' = w_cells w" "w_next_cell w' = w_next_cell w"
    and "rg_next_operation_id (w_registry w) \<le> rg_next_operation_id (w_registry w')"
  shows "wakes w w'"
  using assms by (simp add: wakes_def)

lemma wakes_settled:
  assumes "settled I d w w'" and "rg_next_operation_id (w_registry w) \<le> rg_next_operation_id (w_registry w')"
    and "wf_world w"
  shows "wakes w w'"
proof -
  have "w_cells w c = None" if "waiter_of w i = Some c" for i c
    using assms(3) that by (simp add: wf_world_def waiters_exact_def)
  then show ?thesis using assms(1,2) by (auto simp: wakes_def settled_def split: if_splits)
qed

text \<open>
  The same for a thread of the server that holds waiters it took out of the table and has not
  told yet: \<open>ws\<close> before the step and \<open>ws'\<close> after it.
\<close>

definition hands :: "pending_waiter list \<Rightarrow> 'h world \<Rightarrow> pending_waiter list \<Rightarrow> 'h world \<Rightarrow> bool" where
  "hands ws w ws' w' \<longleftrightarrow>
     w_next_cell w \<le> w_next_cell w'
     \<and> rg_next_operation_id (w_registry w) \<le> rg_next_operation_id (w_registry w')
     \<and> (\<forall>c < w_next_cell w. \<forall>d. w_cells w c = Some d \<longrightarrow> w_cells w' c = Some d)
     \<and> (\<forall>i. \<forall>c < w_next_cell w. waiter_of w i = Some c \<longrightarrow>
          waiter_of w' i = Some c \<or> w_cells w' c \<noteq> None \<or> c \<in> set ws')
     \<and> (\<forall>c \<in> set ws. w_cells w' c \<noteq> None \<or> c \<in> set ws')
     \<and> (\<forall>i < rg_next_operation_id (w_registry w). \<forall>c. waiter_of w' i = Some c \<longrightarrow> waiter_of w i = Some c)
     \<and> (\<forall>c < w_next_cell w. w_cells w c = None \<longrightarrow> w_cells w' c \<noteq> None \<longrightarrow>
          c \<in> set ws \<or> (\<exists>i. waiter_of w i = Some c))
     \<and> (\<forall>i. \<forall>c < w_next_cell w. waiter_of w' i = Some c \<longrightarrow> waiter_of w i = Some c)
     \<and> (\<forall>c \<in> set ws'. c \<in> set ws \<or> (\<exists>i. waiter_of w i = Some c))"

lemma wakes_hands: "wakes w w' \<Longrightarrow> hands ws w ws w'"
  unfolding wakes_def hands_def by blast

text \<open>A step of the shared state that keeps sandboxes and attaches in place.\<close>

definition tame :: "'h world \<Rightarrow> 'h world \<Rightarrow> bool" where
  "tame w w' \<longleftrightarrow>
     (world_ok w \<longrightarrow> world_ok w' \<and> attach_of w' = attach_of w
        \<and> (\<forall>n. get_sandbox n w' = None \<longleftrightarrow> get_sandbox n w = None)
        \<and> wakes w w')"

lemma tame_refl [simp]: "tame w w"
  by (simp add: tame_def)

lemma tame_trans: "tame w w1 \<Longrightarrow> tame w1 w2 \<Longrightarrow> tame w w2"
  by (simp add: tame_def) (meson wakes_trans)

lemma tame_session:
  assumes "tame (ss_world S) w'" and "session_ok S"
  shows "session_ok (S\<lparr>ss_world := w'\<rparr>)"
  using assms by (simp add: tame_def session_ok_def mount_recorded_def)

lemma get_sandbox_cong:
  "rg_sandboxes (w_registry w') = rg_sandboxes (w_registry w) \<Longrightarrow> get_sandbox n w' = get_sandbox n w"
  by (simp add: get_sandbox_def)

lemma attach_of_cong:
  "rg_sandboxes (w_registry w') = rg_sandboxes (w_registry w) \<Longrightarrow> attach_of w' = attach_of w"
  by (simp add: attach_of_def get_sandbox_def fun_eq_iff)

lemma tame_registry:
  assumes "w_registry w' = w_registry w" "w_cells w' = w_cells w" "w_next_cell w' = w_next_cell w"
  shows "tame w w'"
proof -
  have "get_sandbox n w' = get_sandbox n w" for n using assms by (simp add: get_sandbox_def)
  moreover have "attach_of w' = attach_of w" using assms by (intro attach_of_cong) simp
  ultimately show ?thesis
    using wf_world_cong [OF assms] assms
    by (simp add: tame_def world_ok_def attaches_ok_def requests_homed_def wakes_same)
qed

text \<open>The sandboxes stay as they are and requests only leave.\<close>

lemma tame_settled:
  assumes "wf_world w \<Longrightarrow> wf_world w'" and "rg_sandboxes (w_registry w') = rg_sandboxes (w_registry w)"
    and "\<And>i q. pending_of w' i = Some q \<Longrightarrow> \<exists>p. pending_of w i = Some p \<and> pending_sandbox p = pending_sandbox q"
    and "wakes w w'"
  shows "tame w w'"
proof -
  note same = get_sandbox_cong [OF assms(2)] attach_of_cong [OF assms(2)]
  have "requests_homed w'" if "requests_homed w"
    using that assms(3) unfolding requests_homed_def same by metis
  moreover have "attaches_ok w'" if "attaches_ok w"
    using that assms(4) unfolding attaches_ok_def wakes_def same by (meson less_le_trans)
  ultimately show ?thesis using assms(1,4) by (simp add: tame_def world_ok_def same)
qed

lemma tame_fresh: "tame w (snd (fresh_operation_id w))"
  by (rule tame_settled) (auto simp: wf_world_fresh_id next_operation_id_def intro!: wakes_same)

lemma tame_append: "tame w (snd (append_event E p i b w))"
  by (rule tame_registry) simp_all

lemma tame_log_then_ok: "tame w (snd (log_then_ok E p i b w))"
proof -
  have "snd (log_then_ok E p i b w) = snd (append_event E p i b w)"
    by (simp add: log_then_ok_def split_beta split: sum.splits)
  then show ?thesis using tame_append by simp
qed

lemma get_put_sandbox: "get_sandbox n (put_sandbox name s w) = (if n = name then Some s else get_sandbox n w)"
  by (simp add: get_sandbox_def put_sandbox_def)

lemma tame_put_sandbox:
  assumes "get_sandbox name w = Some s" and "wf_sandbox s \<Longrightarrow> wf_sandbox s'" and "sb_attaches s' = sb_attaches s"
  shows "tame w (put_sandbox name s' w)"
proof -
  have att: "attach_of (put_sandbox name s' w) = attach_of w"
    using assms by (auto simp: attach_of_def get_put_sandbox fun_eq_iff)
  have "wf_world (put_sandbox name s' w)" if "wf_world w"
  proof -
    have "wf_sandbox s" using that assms(1) by (auto simp: wf_world_def wf_registry_def get_sandbox_def)
    then have "wf_registry (w_registry (put_sandbox name s' w))"
      using that assms(2) wf_registry_sandboxes by (auto simp: wf_world_def put_sandbox_def)
    then show ?thesis
      using wf_world_registry [OF that] by (simp add: put_sandbox_def with_registry_def)
  qed
  moreover have "requests_homed (put_sandbox name s' w)" if "requests_homed w"
    using that by (simp add: requests_homed_def get_put_sandbox) (simp add: put_sandbox_def)
  moreover have "attaches_ok (put_sandbox name s' w)" if "attaches_ok w"
    using that by (simp add: attaches_ok_def att) (simp add: put_sandbox_def)
  ultimately show ?thesis
    using att assms(1) by (simp add: tame_def world_ok_def get_put_sandbox) (intro impI wakes_same, simp_all add: put_sandbox_def)
qed

lemma tame_change_sandbox:
  assumes "\<And>s b s'. f s = Inr (b, s') \<Longrightarrow> (wf_sandbox s \<longrightarrow> wf_sandbox s') \<and> sb_attaches s' = sb_attaches s"
  shows "tame w (snd (change_sandbox E name f w))"
proof -
  obtain i w1 where f: "fresh_operation_id w = (i, w1)" by fastforce
  have t1: "tame w w1" using tame_fresh [of w] by (simp add: f)
  show ?thesis
  proof (cases "get_sandbox name w1")
    case None
    then show ?thesis using t1 by (simp add: change_sandbox_def f)
  next
    case (Some s)
    show ?thesis
    proof (cases "f s")
      case (Inl e)
      then show ?thesis using t1 Some by (simp add: change_sandbox_def f)
    next
      case (Inr x)
      obtain b s' where x: "x = (b, s')" by fastforce
      have "tame w1 (put_sandbox name s' w1)"
        using assms [of s b s'] Inr x by (intro tame_put_sandbox [OF Some]) auto
      then show ?thesis
        using tame_trans [OF tame_trans [OF t1] tame_log_then_ok] Some Inr x by (simp add: change_sandbox_def f)
    qed
  qed
qed

lemma tame_in_world:
  "tame (ss_world S) (snd (f (ss_world S))) \<Longrightarrow> session_ok S \<Longrightarrow> session_ok (snd (in_world f S))"
  using tame_session [of S "snd (f (ss_world S))"] by (simp add: in_world_def split_beta)

section \<open>Commands on one sandbox\<close>

lemma rule_attaches [simp]:
  "sb_attaches (snd (add_bypass k p s)) = sb_attaches s" "sb_attaches (snd (remove_bypass k p s)) = sb_attaches s"
  by (simp_all add: add_bypass_def remove_bypass_def split: option.splits)

lemma tame_rules:
  "tame w (snd (session_protect E name kind pattern w))" "tame w (snd (session_unprotect E name kind pattern w))"
  "tame w (snd (session_bypass E name kind pattern w))" "tame w (snd (session_unbypass E name kind pattern w))"
proof -
  have "(wf_sandbox s \<longrightarrow> wf_sandbox s') \<and> sb_attaches s' = sb_attaches s"
    if "s' \<in> {snd (protect kind pattern s), snd (unprotect kind pattern s),
          snd (add_bypass kind pattern s), snd (remove_bypass kind pattern s)}" for s s'
    using that wf_sandbox_rules [of s kind pattern] by auto
  note keep = this
  show "tame w (snd (session_protect E name kind pattern w))" unfolding session_protect_def
    by (rule tame_change_sandbox, rule keep) (auto simp: split_beta)
  show "tame w (snd (session_unprotect E name kind pattern w))" unfolding session_unprotect_def
    by (rule tame_change_sandbox, rule keep) (auto simp: split_beta)
  show "tame w (snd (session_bypass E name kind pattern w))" unfolding session_bypass_def
    by (rule tame_change_sandbox, rule keep) (auto simp: split_beta)
  show "tame w (snd (session_unbypass E name kind pattern w))" unfolding session_unbypass_def
    by (rule tame_change_sandbox, rule keep) (auto simp: split_beta)
qed

lemma tame_umount: "tame w (snd (session_umount_layer E name on_fs w))"
  unfolding session_umount_layer_def
proof (rule tame_change_sandbox)
  fix s b s'
  assume "(case remove_layer on_fs s of (False, _) \<Rightarrow> Inl (Message (''no mount at '' @ display_path on_fs))
            | (True, s') \<Rightarrow> Inr (''umount path='' @ display_path on_fs, s')) = Inr (b, s')"
  then have "s' = snd (remove_layer on_fs s)" by (auto split: prod.splits bool.splits)
  then show "(wf_sandbox s \<longrightarrow> wf_sandbox s') \<and> sb_attaches s' = sb_attaches s"
    by (simp add: wf_sandbox_remove_layer)
qed

lemma tame_hide: "wf_path on_fs \<Longrightarrow> tame w (snd (session_hide E name on_fs w))"
  unfolding session_hide_def by (rule tame_change_sandbox) (auto simp: wf_sandbox_add_hide add_hide_simps)

lemma tame_mount_layer:
  assumes "wf_path on_fs" and "\<forall>c \<in> set on_fs. utf8_valid c"
  shows "tame w (snd (session_mount_layer E name local on_fs w))"
  unfolding session_mount_layer_def
  by (auto split: sum.split intro!: tame_change_sandbox simp: wf_sandbox_add_layer [OF _ assms] add_layer_simps)

lemma look_unchanged [simp]: "snd (look_at_sandbox name f w) = w"
  by (simp add: look_at_sandbox_def split: option.split)

section \<open>Decisions\<close>

lemma tame_taken:
  assumes "wf_world w \<Longrightarrow> taken I ws w v" and "w_registry w' = w_registry v"
    and "wf_world w \<Longrightarrow> wf_world w'" and "wf_world w \<Longrightarrow> settled I d w w'"
  shows "tame w w'"
proof (cases "wf_world w")
  case True
  note t = assms(1) [OF True]
  show ?thesis
    using t assms(2,3) by (intro tame_settled wakes_settled [OF assms(4)])
      (auto simp: taken_def fun_eq_iff True split: if_splits)
next
  case False
  then show ?thesis by (simp add: tame_def world_ok_def)
qed

lemma tame_decide: "tame w (snd (session_decide E d name i w))"
proof (cases "wf_world w \<and> requests_homed w")
  case True
  then have wf: "wf_world w" and homed: "requests_homed w" by simp_all
  show ?thesis
  proof (cases "\<exists>q. pending_of w i = Some q \<and> pending_sandbox q = name")
    case True
    then obtain q where q: "pending_of w i = Some q" "pending_sandbox q = name" by blast
    then obtain s where s: "get_sandbox name w = Some s" using homed by (auto simp: requests_homed_def)
    obtain log_path body where w': "snd (session_decide E d name i w) = notify_all [waiter_of w i] d
        (snd (append_event E log_path (rg_next_operation_id (w_registry w)) body (request_out i w)))"
      using decide_found [OF wf q s, of E d] by auto
    have t: "taken {i} [waiter_of w i] w (request_out i w)" using wf by (rule request_out_taken)
    have st: "settled {i} d w (snd (session_decide E d name i w))"
      unfolding w' by (rule taken_settled [OF t]) simp_all
    then have "wf_world (snd (session_decide E d name i w))"
      using t by (rule_tac wf_world_settled [OF wf]) (simp_all add: w' taken_def)
    then show ?thesis using t by (intro tame_taken [where v = "request_out i w", OF _ _ _ st]) (simp_all add: w')
  next
    case False
    then show ?thesis using decide_refused [OF wf, of i name E d] by auto
  qed
next
  case False
  then show ?thesis by (auto simp: tame_def world_ok_def)
qed

lemma tame_cancel_scope: "tame w (snd (cancel_scope E name in_scope scope attach_id reason w))"
proof (cases "wf_world w \<and> get_sandbox name w \<noteq> None")
  case True
  then obtain s where wf: "wf_world w" and s: "get_sandbox name w = Some s" by auto
  obtain r w' where run: "cancel_scope E name in_scope scope attach_id reason w = (r, w')" by fastforce
  note c = cancel_scope_settled [OF wf s run]
  have "tame w w'"
    using c(1,2,3) by (intro tame_settled wakes_settled [OF c(1,6) wf]) (auto simp: settled_def split: if_splits)
  then show ?thesis by (simp add: run)
next
  case False
  then show ?thesis by (auto simp: tame_def world_ok_def cancel_scope_def)
qed

lemma tame_cancel_all: "tame w (snd (cancel_all E name mountpoint w))"
  by (auto simp: cancel_all_def cancel_attached_view_def tame_cancel_scope split: option.split sum.split)

lemma session_allow_cases:
  "session_allow E name i do_nothing grant w =
     (if do_nothing \<and> grant \<noteq> None
      then Some (Inl (Message ''allow --do-nothing cannot be combined with read/write grant options''), w)
      else case grant of
        Some options \<Rightarrow> allow_read_write_grant E name i options w
      | None \<Rightarrow> Some (session_decide E (if do_nothing then DoNothing else Apply) name i w))"
  by (cases grant) (auto simp: session_allow_def session_decide_def)

lemma tame_grant_found:
  assumes wf: "wf_world w" and q: "om_get (rg_pending_read_write (w_registry w)) i = Some q" "prw_sandbox q = name"
    and s: "get_sandbox name w = Some s" and life: "opt_lifetime options \<noteq> DurationRequest 0"
    and run: "allow_read_write_grant E name i options w = Some (r, w')"
    and clock: "clock_ok (os_now (env_os E) (w_host w))" and pend: "pending_of w i = Some (PendingReadWrite q)"
  shows "tame w w'"
proof -
  let ?now = "os_now (env_os E) (w_host w)"
  define p where "p = (case opt_path options of Some p \<Rightarrow> p | None \<Rightarrow> prw_path q)"
  show ?thesis
  proof (cases "grant_pattern_matches (env_glob E) p (prw_path q)")
    case False
    from decide_grant_mismatch [OF wf q s p_def False, of ?now] run life have "w' = snd (fresh_operation_id w)"
      by (auto simp: allow_read_write_grant_def)
    then show ?thesis by (simp add: tame_fresh)
  next
    case m: True
    show ?thesis
    proof (cases "choose_subject E (w_host w) (opt_tree options) q")
      case None
      with run life decide_grant_found [OF wf q s p_def m refl, of ?now] show ?thesis
        by (simp add: allow_read_write_grant_def)
    next
      case (Some choice)
      obtain subject q' warning dg where choice: "choice = (subject, q', warning, dg)" by (cases choice)
      show ?thesis
      proof (cases subject)
        case None
        note d = allow_downgraded [OF wf q s p_def m life Some [unfolded choice None] run]
        show ?thesis using d(1,2,4) by (intro tame_settled wakes_settled [OF d(1,5) wf]) (auto simp: settled_def split: if_splits)
      next
        case sub: (Some sj)
        note d = allow_with_grant_settles [OF wf q s p_def m refl clock life Some [unfolded choice sub] run refl refl]
        obtain ident where q': "q' = get_or_insert_identity ident q"
          using choose_subject_covers [OF Some [unfolded choice sub]] by blast
        have id: "prw_id q' = i" using wf q q' by (simp add: wf_world_def wf_registry_def)
        note v = identified_world(5) [OF wf q(1) id]
        have "wakes w (identified q' w)"
          by (rule wakes_same) (simp_all add: identified_def insert_pending_read_write_request_def)
        moreover have "wakes (identified q' w) w'"
          using d(6) by (intro wakes_settled [OF d(3) _ identified_world(1) [OF wf q(1) id]])
            (simp add: identified_def insert_pending_read_write_request_def)
        ultimately show ?thesis
          using d(2,3,5) v pend q' by (intro tame_settled) (auto simp: settled_def intro: wakes_trans split: if_splits)
      qed
    qed
  qed
qed

lemma tame_grant:
  assumes run: "allow_read_write_grant E name i options w = Some (r, w')"
    and clock: "clock_ok (os_now (env_os E) (w_host w))"
  shows "tame w w'"
proof (cases "wf_world w \<and> requests_homed w \<and> opt_lifetime options \<noteq> DurationRequest 0")
  case False
  with run show ?thesis by (auto simp: tame_def world_ok_def allow_read_write_grant_def)
next
  case True
  then have wf: "wf_world w" and homed: "requests_homed w" and life: "opt_lifetime options \<noteq> DurationRequest 0" by simp_all
  let ?now = "os_now (env_os E) (w_host w)"
  show ?thesis
  proof (cases "\<exists>q. pending_of w i = Some (PendingReadWrite q) \<and> prw_sandbox q = name")
    case False
    from decide_grant_refused [OF wf this, of E options ?now] run life show ?thesis
      by (auto simp: allow_read_write_grant_def)
  next
    case True
    then obtain q where pend: "pending_of w i = Some (PendingReadWrite q)" and name: "prw_sandbox q = name" by blast
    have q: "om_get (rg_pending_read_write (w_registry w)) i = Some q"
      using pend by (auto simp: get_any_pending_def split: option.splits)
    obtain s where s: "get_sandbox name w = Some s" using homed pend name by (force simp: requests_homed_def)
    from tame_grant_found [OF wf q name s life run clock] pend show ?thesis by simp
  qed
qed

end
