(* ===== verification/Session_Attach.thy ===== *)
theory Session_Attach
  imports Session_Safety
begin

text \<open>
  Attaching, detaching, destroying and trusted operations (\<^verbatim>\<open>src/session.rs\<close>): each keeps the
  invariant of the session, detaching removes exactly one attach together with its mounted
  file system and its pending requests, and destroying leaves nothing of the sandbox behind.
\<close>

section \<open>Changing attaches\<close>

lemma attach_of_put:
  "attach_of (put_sandbox name s w) n key = (if n = name then om_get (sb_attaches s) key else attach_of w n key)"
  by (simp add: attach_of_def get_put_sandbox)

lemma put_sandbox_next [simp]:
  "rg_next_operation_id (w_registry (put_sandbox name s w)) = rg_next_operation_id (w_registry w)"
  "pending_of (put_sandbox name s w) = pending_of w"
  by (simp_all add: put_sandbox_def)

lemma wakes_put_sandbox: "wakes w (put_sandbox name s w)"
  by (rule wakes_same) (simp_all add: put_sandbox_def)

lemma wakes_remove_attach: "wakes w (remove_attach name mp w)"
  by (simp add: remove_attach_def wakes_put_sandbox split: option.split)

text \<open>
  An attach is orphaned when it is recorded and no file system of its mount point is in the list of
  the server. A step keeps an orphan when the attach stays recorded and the list does not get one.
\<close>

definition orphan :: "string \<Rightarrow> component list \<Rightarrow> attach_mount \<Rightarrow> 'h session \<Rightarrow> bool" where
  "orphan name key a S \<longleftrightarrow>
     attach_of (ss_world S) name key = Some a \<and> (\<forall>m \<in> set (ss_mounts S). components (ms_mountpoint m) \<noteq> key)"

definition keeps_orphans :: "'h session \<Rightarrow> 'h session \<Rightarrow> bool" where
  "keeps_orphans S S' \<longleftrightarrow> (\<forall>name key a. orphan name key a S \<longrightarrow> orphan name key a S')"

lemma keeps_orphansI [intro?]:
  assumes "\<And>n k a. attach_of (ss_world S) n k = Some a \<Longrightarrow>
      (\<forall>m \<in> set (ss_mounts S). components (ms_mountpoint m) \<noteq> k) \<Longrightarrow> attach_of (ss_world S') n k = Some a"
    and "\<And>n k a m. attach_of (ss_world S) n k = Some a \<Longrightarrow> m \<in> set (ss_mounts S') \<Longrightarrow> m \<notin> set (ss_mounts S) \<Longrightarrow>
      components (ms_mountpoint m) \<noteq> k"
  shows "keeps_orphans S S'"
  using assms unfolding keeps_orphans_def orphan_def by metis

lemma keeps_orphans_refl [simp]: "keeps_orphans S S"
  by (simp add: keeps_orphans_def)

text \<open>A step of the session that keeps its invariant, forgets no caller and keeps orphans.\<close>

definition safe_step :: "'h session \<Rightarrow> 'h session \<Rightarrow> bool" where
  "safe_step S S' \<longleftrightarrow> session_ok S' \<and> wakes (ss_world S) (ss_world S') \<and> keeps_orphans S S'"

lemma safe_step_refl: "session_ok S \<Longrightarrow> safe_step S S"
  by (simp add: safe_step_def keeps_orphans_def)

lemma safe_step_trans: "safe_step S S1 \<Longrightarrow> safe_step S1 S2 \<Longrightarrow> safe_step S S2"
  by (auto simp: safe_step_def keeps_orphans_def intro: wakes_trans)

lemma wf_world_put_sandbox:
  assumes "wf_world w" and "wf_sandbox s"
  shows "wf_world (put_sandbox name s w)"
  using wf_world_registry [OF assms(1)] wf_registry_sandboxes [OF _ assms(2)] assms(1)
  by (simp add: put_sandbox_def with_registry_def wf_world_def)

lemma sandbox_wf: "wf_world w \<Longrightarrow> get_sandbox name w = Some s \<Longrightarrow> wf_sandbox s"
  by (auto simp: wf_world_def wf_registry_def get_sandbox_def)

lemma wf_sandbox_attaches: "wf_sandbox s \<Longrightarrow> om_wf m \<Longrightarrow> wf_sandbox (s\<lparr>sb_attaches := m\<rparr>)"
  by (simp add: wf_sandbox_def wf_overlay_def overlay_ids_def overlay_bound_def)

lemma world_ok_add_attach:
  assumes ok: "world_ok w" and s: "get_sandbox name w = Some s"
    and free: "\<And>n. n \<noteq> name \<Longrightarrow> attach_of w n key = None"
    and a: "components (at_mountpoint a) = key" "at_id a < rg_next_operation_id (w_registry w)"
  shows "world_ok (put_sandbox name (s\<lparr>sb_attaches := om_insert key a (sb_attaches s)\<rparr>) w)" (is "world_ok ?w")
proof -
  have wf: "wf_sandbox s" using ok s by (auto simp: world_ok_def intro: sandbox_wf)
  then have "om_wf (sb_attaches s)" by (simp add: wf_sandbox_def)
  with ok wf have "wf_world ?w"
    by (intro wf_world_put_sandbox wf_sandbox_attaches) (simp_all add: world_ok_def)
  moreover have "requests_homed ?w"
    using ok by (simp add: world_ok_def requests_homed_def get_put_sandbox)
  moreover have "attaches_ok ?w"
  proof -
    have att: "attach_of ?w n k = (if n = name \<and> k = key then Some a else attach_of w n k)" for n k
      using s by (simp add: attach_of_put) (simp add: attach_of_def)
    show ?thesis
      using ok free a unfolding world_ok_def attaches_ok_def att put_sandbox_next by auto
  qed
  ultimately show ?thesis by (simp add: world_ok_def)
qed

lemma remove_attach_attaches:
  "attach_of (remove_attach name mp w) n key =
     (if n = name \<and> key = components mp then None else attach_of w n key)"
proof (cases "get_sandbox name w")
  case None
  then show ?thesis by (simp add: remove_attach_def) (simp add: attach_of_def)
next
  case (Some s)
  then show ?thesis by (simp add: remove_attach_def attach_of_put) (simp add: attach_of_def)
qed

lemma world_ok_remove_attach:
  assumes "world_ok w"
  shows "world_ok (remove_attach name mp w)"
proof (cases "get_sandbox name w")
  case None
  then show ?thesis using assms by (simp add: remove_attach_def)
next
  case (Some s)
  have wf: "wf_sandbox s" using assms Some by (auto simp: world_ok_def intro: sandbox_wf)
  then have "wf_world (remove_attach name mp w)"
    using assms Some
    by (auto simp: remove_attach_def world_ok_def wf_sandbox_def [of s] intro!: wf_world_put_sandbox wf_sandbox_attaches)
  moreover have "requests_homed (remove_attach name mp w)"
    using assms Some by (simp add: world_ok_def requests_homed_def remove_attach_def get_put_sandbox)
  moreover have "attaches_ok (remove_attach name mp w)"
  proof -
    have n: "rg_next_operation_id (w_registry (remove_attach name mp w)) = rg_next_operation_id (w_registry w)"
      using Some by (simp add: remove_attach_def)
    show ?thesis
      using assms unfolding world_ok_def attaches_ok_def remove_attach_attaches n by auto
  qed
  ultimately show ?thesis by (simp add: world_ok_def)
qed

lemma mountpoint_conflict_none:
  assumes "mountpoint_conflict name mp (w_registry w) = None"
  shows "attach_of w n (components mp) = None"
proof -
  have "\<forall>(n, s) \<in> set (rg_sandboxes (w_registry w)). om_get (sb_attaches s) (components mp) = None"
    using assms by (auto simp: mountpoint_conflict_def find_None_iff)
  then show ?thesis
    by (auto simp: attach_of_def get_sandbox_def split: option.splits dest!: map_of_SomeD)
qed

section \<open>Attaching\<close>

text \<open>The outcomes of \<^verbatim>\<open>attach\<close>: nothing is mounted and only ids may be used up, or the
  file system is mounted and recorded.\<close>

lemma attach_cases:
  assumes run: "session_attach E name mountpoint temporary S = (r, S')" and ok: "session_ok S"
  obtains (failed) e where "r = Inl e" "tame (ss_world S) (ss_world S')" "ss_mounts S' = ss_mounts S"
  | (attached) mp s a w1 m where
      "canonicalize_existing_dir (env_os E) (w_host (ss_world S)) mountpoint = Inr mp"
      "\<And>n. attach_of (ss_world S) n (components mp) = None"
      "tame (ss_world S) w1" "get_sandbox name w1 = Some s" "get_sandbox name (ss_world S) = Some s"
      "components (at_mountpoint a) = components mp" "at_id a < rg_next_operation_id (w_registry w1)"
      "tame (put_sandbox name (s\<lparr>sb_attaches := om_insert (components mp) a (sb_attaches s)\<rparr>) w1) (ss_world S')"
      "ss_mounts S' = ss_mounts S @ [m]" "ms_sandbox m = name" "ms_attach_id m = at_id a" "ms_mountpoint m = mp"
proof (cases "canonicalize_existing_dir (env_os E) (w_host (ss_world S)) mountpoint")
  case (Inl e)
  with run show ?thesis by (intro failed [of e]) (simp_all add: session_attach_def Let_def)
next
  case mp: (Inr mp)
  show ?thesis
  proof (cases "get_sandbox name (ss_world S)")
    case None
    with run mp show ?thesis by (intro failed [of "sandbox_not_found name"]) (simp_all add: session_attach_def Let_def)
  next
    case s: (Some s)
    show ?thesis
    proof (cases "mountpoint_conflict name mp (w_registry (ss_world S))")
      case (Some e)
      with run mp s show ?thesis by (intro failed [of e]) (simp_all add: session_attach_def Let_def)
    next
      case free: None
      let ?w = "ss_world S"
      obtain i1 w1 where f1: "fresh_operation_id ?w = (i1, w1)" by fastforce
      obtain i2 w2 where f2: "fresh_operation_id w1 = (i2, w2)" by fastforce
      have t2: "tame ?w w2"
        using tame_fresh [of ?w] tame_fresh [of w1] tame_trans [of ?w w1 w2] by (simp add: f1 f2)
      have i1: "i1 < rg_next_operation_id (w_registry w2)" and s2: "get_sandbox name w2 = Some s"
        using f1 f2 s by (auto simp: fresh_operation_id_def next_operation_id_def get_sandbox_def)
      obtain res h where spawn: "os_spawn_mount (env_os E) (w_host w2) (''gatefs:'' @ name) mp = (res, h)" by fastforce
      have th: "tame w2 (w2\<lparr>w_host := h\<rparr>)" by (rule tame_registry) simp_all
      show ?thesis
      proof (cases res)
        case (Inl e)
        with run mp s free f1 f2 spawn tame_trans [OF t2 th] show ?thesis
          by (intro failed [of "Io e"]) (auto simp: session_attach_def Let_def)
      next
        case (Inr u)
        let ?w2 = "w2\<lparr>w_host := h\<rparr>"
        let ?a = "\<lparr>at_id = i1, at_mountpoint = mp, at_temporary = temporary, at_active = True\<rparr>"
        let ?w3 = "put_sandbox name (s\<lparr>sb_attaches := om_insert (components mp) ?a (sb_attaches s)\<rparr>) ?w2"
        have S': "ss_world S' = snd (log_then_ok E (sb_log_path s) i2
              (''attach attach='' @ show_nat i1 @ '' mountpoint='' @ to_string_lossy mp) ?w3)"
          "ss_mounts S' = ss_mounts S @ [new_mounted name i1 mp temporary ?w2]"
          using run mp s free f1 f2 spawn Inr by (auto simp: session_attach_def Let_def split: prod.splits)
        have "get_sandbox name ?w2 = Some s" using s2 by (simp add: get_sandbox_def)
        moreover have "tame ?w3 (ss_world S')" unfolding S' by (rule tame_log_then_ok)
        ultimately show ?thesis
          using mountpoint_conflict_none [OF free] tame_trans [OF t2 th] s i1 S'(2) mp
          by (intro attached [of mp ?w2 s ?a "new_mounted name i1 mp temporary ?w2"]) (simp_all add: new_mounted_def Let_def)
      qed
    qed
  qed
qed

lemma session_okD:
  assumes "session_ok S"
  shows "world_ok (ss_world S)" and "m \<in> set (ss_mounts S) \<Longrightarrow> mount_recorded (ss_world S) m"
    and "distinct (map (\<lambda>m. components (ms_mountpoint m)) (ss_mounts S))"
  using assms by (simp_all add: session_ok_def)

lemma tameD:
  assumes "tame w w'" and "world_ok w"
  shows "world_ok w'" and "attach_of w' = attach_of w" and "get_sandbox n w' = None \<longleftrightarrow> get_sandbox n w = None"
    and "wakes w w'"
  using assms by (simp_all add: tame_def)

lemma session_ok_tame:
  assumes "tame (ss_world S) (ss_world S')" and "ss_mounts S' = ss_mounts S" and "session_ok S"
  shows "safe_step S S'"
  using assms by (simp add: tame_def safe_step_def session_ok_def mount_recorded_def keeps_orphans_def orphan_def)

lemma safe_tame:
  assumes "tame (ss_world S) w'" and "session_ok S"
  shows "safe_step S (S\<lparr>ss_world := w'\<rparr>)"
  using assms by (intro session_ok_tame) simp_all

lemma attach_keeps_session_ok:
  assumes run: "session_attach E name mountpoint temporary S = (r, S')" and ok: "session_ok S"
  shows "safe_step S S'"
  using run ok
proof (cases rule: attach_cases)
  case (failed e)
  then show ?thesis using ok session_ok_tame by blast
next
  case (attached mp s a w1 m)
  let ?w2 = "put_sandbox name (s\<lparr>sb_attaches := om_insert (components mp) a (sb_attaches s)\<rparr>) w1"
  note t1 = tameD [OF attached(3) session_okD(1) [OF ok]]
  have ok2: "world_ok ?w2"
    using attached(2) t1(2) by (intro world_ok_add_attach [OF t1(1) attached(4) _ attached(6,7)]) simp
  note t2 = tameD [OF attached(8) ok2]
  have att: "attach_of (ss_world S') n k =
      (if n = name \<and> k = components mp then Some a else attach_of (ss_world S) n k)" for n k
    using attached(5) t1(2) t2(2) by (simp add: attach_of_put) (simp add: attach_of_def)
  have rec: "mount_recorded (ss_world S') m'" if "m' \<in> set (ss_mounts S)" for m'
    using session_okD(2) [OF ok that] attached(2) unfolding mount_recorded_def att by auto
  have new: "components mp \<notin> (\<lambda>m. components (ms_mountpoint m)) ` set (ss_mounts S)"
    using session_okD(2) [OF ok] attached(2) unfolding mount_recorded_def by fastforce
  have "mount_recorded (ss_world S') m" unfolding mount_recorded_def att using attached(10,11,12) by simp
  with rec new t2(1) session_okD(3) [OF ok] attached(9,12) have "session_ok S'"
    unfolding session_ok_def by auto
  moreover have "wakes (ss_world S) (ss_world S')"
    by (rule wakes_trans [OF t1(4) wakes_trans [OF wakes_put_sandbox t2(4)]])
  moreover have "keeps_orphans S S'" using attached(2,9,12) by (intro keeps_orphansI) (auto simp: att)
  ultimately show ?thesis by (simp add: safe_step_def)
qed

section \<open>Detaching\<close>

text \<open>Requests leave but none enters, and grants and trusted operations stay.\<close>

definition only_releases :: "'h world \<Rightarrow> 'h world \<Rightarrow> bool" where
  "only_releases w w' \<longleftrightarrow>
     (\<forall>i q. pending_of w' i = Some q \<longrightarrow> pending_of w i = Some q)
     \<and> rg_read_write_grants (w_registry w') = rg_read_write_grants (w_registry w)
     \<and> rg_trusted (w_registry w') = rg_trusted (w_registry w)"

lemma only_releases_trans: "only_releases w w1 \<Longrightarrow> only_releases w1 w2 \<Longrightarrow> only_releases w w2"
  by (simp add: only_releases_def)

lemma cancel_scope_only_releases:
  assumes "wf_world w"
  shows "only_releases w (snd (cancel_scope E name in_scope scope attach_id reason w))"
proof (cases "get_sandbox name w")
  case None
  then show ?thesis by (simp add: cancel_scope_def only_releases_def)
next
  case (Some s)
  from cancel_scope_settled(1,4,5) [OF assms Some prod.collapse [symmetric]] show ?thesis
    by (auto simp: only_releases_def settled_def split: if_splits)
qed

lemma cancel_scope_sandboxes:
  assumes "wf_world w"
  shows "get_sandbox n (snd (cancel_scope E name in_scope scope attach_id reason w)) = get_sandbox n w"
proof (cases "get_sandbox name w")
  case None
  then show ?thesis by (simp add: cancel_scope_def)
next
  case (Some s)
  from cancel_scope_settled(3) [OF assms Some prod.collapse [symmetric]] show ?thesis
    by (simp add: get_sandbox_def)
qed

lemma append_pending [simp]: "pending_of (snd (append_event E p i b w)) = pending_of w" by simp

lemma log_then_ok_registry [simp]:
  "w_registry (snd (log_then_ok E p i b w)) = w_registry w"
  "w_cells (snd (log_then_ok E p i b w)) = w_cells w"
  "w_next_cell (snd (log_then_ok E p i b w)) = w_next_cell w"
  by (simp_all add: log_then_ok_def split_beta split: sum.splits)

text \<open>The outcomes of \<^verbatim>\<open>detach\<close> in a well-formed session: the mount point is not attached or
  the file system is not mounted (nothing but the cancellation happened), the unmount failed
  (the mounted session is gone and the attach stays), or the attach is gone.\<close>

lemma detach_cases:
  assumes run: "session_detach E name mountpoint S = (r, S')" and ok: "session_ok S"
  obtains (refused) e where "r = Inl e" "tame (ss_world S) (ss_world S')" "ss_mounts S' = ss_mounts S"
      "only_releases (ss_world S) (ss_world S')"
  | (stuck) e idx where "r = Inl e" "tame (ss_world S) (ss_world S')" "idx < length (ss_mounts S)"
      "ss_mounts S' = vec_remove idx (ss_mounts S)" "only_releases (ss_world S) (ss_world S')"
  | (detached) mp s a idx w1 where
      "canonicalize_maybe_existing (env_os E) (w_host (ss_world S)) mountpoint = Inr mp"
      "get_sandbox name (ss_world S) = Some s" "om_get (sb_attaches s) (components mp) = Some a"
      "tame (ss_world S) w1" "idx < length (ss_mounts S)" "mount_matches name (at_id a) mp (ss_mounts S ! idx)"
      "ss_mounts S' = vec_remove idx (ss_mounts S)" "tame (remove_attach name mp w1) (ss_world S')"
      "get_sandbox name (ss_world S') = Some (s\<lparr>sb_attaches := om_remove (components mp) (sb_attaches s)\<rparr>)"
      "only_releases (ss_world S) (ss_world S')"
      "\<And>i q. pending_of (ss_world S') i = Some q \<Longrightarrow> pending_sandbox q = name \<Longrightarrow> pending_attach_id q \<noteq> Some (at_id a)"
      "settled (scope_ids name (\<lambda>q. pending_attach_id q = Some (at_id a)) (ss_world S)) Cancel (ss_world S) (ss_world S')"
      "\<And>n. n \<noteq> name \<Longrightarrow> get_sandbox n (ss_world S') = get_sandbox n (ss_world S)"
proof -
  let ?w = "ss_world S"
  show ?thesis
  proof (cases "canonicalize_maybe_existing (env_os E) (w_host ?w) mountpoint")
    case (Inl e)
    with run show ?thesis by (intro refused [of e]) (simp_all add: session_detach_def Let_def only_releases_def)
  next
    case mp: (Inr mp)
    show ?thesis
    proof (cases "get_attach name mp ?w")
      case (Inl e)
      with run mp show ?thesis by (intro refused [of e]) (simp_all add: session_detach_def Let_def only_releases_def)
    next
      case (Inr sa)
      obtain s a where sa: "sa = (s, a)" by fastforce
      have s: "get_sandbox name ?w = Some s" and a: "om_get (sb_attaches s) (components mp) = Some a"
        using Inr sa by (auto simp: get_attach_def split: option.splits)
      let ?c = "snd (cancel_attached_view E name (at_id a) ''detach'' ?w)"
      have wf: "wf_world ?w" using session_okD(1) [OF ok] by (simp add: world_ok_def)
      have tc: "tame ?w ?c" and nc: "only_releases ?w ?c" and sc: "get_sandbox n ?c = get_sandbox n ?w" for n
        unfolding cancel_attached_view_def
        by (rule tame_cancel_scope cancel_scope_only_releases [OF wf] cancel_scope_sandboxes [OF wf])+
      have told: "settled (scope_ids name (\<lambda>q. pending_attach_id q = Some (at_id a)) ?w) Cancel ?w ?c"
        unfolding cancel_attached_view_def by (rule cancel_scope_settled(1) [OF wf s prod.collapse [symmetric]])
      have gone: "pending_attach_id q \<noteq> Some (at_id a)" if "pending_of ?c i = Some q" "pending_sandbox q = name" for i q
        using cancel_scope_settled(1) [OF wf s prod.collapse [symmetric]] that
        by (fastforce simp: cancel_attached_view_def settled_def scope_ids_def split: if_splits)
      show ?thesis
      proof (cases "list_position (mount_matches name (at_id a) mp) (ss_mounts S)")
        case None
        with run mp Inr sa tc nc show ?thesis
          by (intro refused) (auto simp: session_detach_def Let_def simp del: list_position_None)
      next
        case idx: (Some idx)
        note pos = list_position_SomeD [OF idx]
        obtain res h where um: "os_umount_and_join (env_os E) (w_host ?c) mp = (res, h)" by fastforce
        let ?w1 = "?c\<lparr>w_host := h\<rparr>"
        have t1: "tame ?w ?w1" by (rule tame_trans [OF tc]) (rule tame_registry; simp)
        have n1: "only_releases ?w ?w1" using nc by (simp add: only_releases_def)
        show ?thesis
        proof (cases res)
          case res: (Inl e)
          with run mp Inr sa idx um t1 n1 pos show ?thesis
            by (intro stuck [of "Io e" idx]) (auto simp: session_detach_def Let_def)
        next
          case res: (Inr u)
          obtain i w2 where f: "fresh_operation_id ?w1 = (i, w2)" by fastforce
          have w2: "tame ?w w2" "get_sandbox n w2 = get_sandbox n ?w" "pending_of w2 = pending_of ?c" for n
            using tame_trans [OF t1 tame_fresh] f sc
            by (auto simp: fresh_operation_id_def next_operation_id_def get_sandbox_def)
          have S': "ss_mounts S' = vec_remove idx (ss_mounts S)"
            "ss_world S' = snd (log_then_ok E (sb_log_path s) i (''detach attach='' @ show_nat (at_id a)) (remove_attach name mp w2))"
            using run mp Inr sa idx um res f by (auto simp: session_detach_def Let_def split: prod.splits)
          have reg: "w_registry (ss_world S') = w_registry (remove_attach name mp w2)" by (simp add: S')
          have p: "pending_of (ss_world S') = pending_of ?c"
            unfolding reg using w2(3) s w2(2) by (simp add: remove_attach_def)
          have gt: "rg_read_write_grants (w_registry (ss_world S')) = rg_read_write_grants (w_registry ?c)"
            "rg_trusted (w_registry (ss_world S')) = rg_trusted (w_registry ?c)"
            unfolding reg using f s w2(2)
            by (auto simp: remove_attach_def put_sandbox_def fresh_operation_id_def next_operation_id_def)
          have g: "get_sandbox name (ss_world S') = Some (s\<lparr>sb_attaches := om_remove (components mp) (sb_attaches s)\<rparr>)"
            using get_sandbox_cong [of "ss_world S'" "remove_attach name mp w2"] reg s w2(2)
            by (simp add: remove_attach_def get_put_sandbox)
          have cells: "waiter_of (ss_world S') = waiter_of ?c" "w_cells (ss_world S') = w_cells ?c"
            "w_next_cell (ss_world S') = w_next_cell ?c"
            unfolding reg S'(2) using f s w2(2)
            by (auto simp: remove_attach_def put_sandbox_def with_registry_def fresh_operation_id_def next_operation_id_def)
          show ?thesis
          proof (rule detached [OF mp s a w2(1) _ _ S'(1) _ g])
            show "idx < length (ss_mounts S)" "mount_matches name (at_id a) mp (ss_mounts S ! idx)" using pos by simp_all
            show "tame (remove_attach name mp w2) (ss_world S')" unfolding S' by (rule tame_log_then_ok)
            show "only_releases ?w (ss_world S')" using nc unfolding only_releases_def p gt .
            show "pending_attach_id q \<noteq> Some (at_id a)"
              if "pending_of (ss_world S') j = Some q" "pending_sandbox q = name" for j q
              using gone [of j q] that unfolding p .
            show "settled (scope_ids name (\<lambda>q. pending_attach_id q = Some (at_id a)) ?w) Cancel ?w (ss_world S')"
              using told by (simp add: settled_def p cells)
            show "get_sandbox n (ss_world S') = get_sandbox n ?w" if "n \<noteq> name" for n
              using get_sandbox_cong [of "ss_world S'" "remove_attach name mp w2"] reg s w2(2) that
              by (simp add: remove_attach_def get_put_sandbox)
          qed
        qed
      qed
    qed
  qed
qed

lemma vec_remove_other:
  assumes "distinct (map f xs)" and "i < length xs" and "x \<in> set (vec_remove i xs)"
  shows "f x \<noteq> f (xs ! i)"
proof -
  have "map f xs = map f (take i xs) @ f (xs ! i) # map f (drop (Suc i) xs)"
    using arg_cong [OF id_take_nth_drop [OF assms(2)], of "map f"] by simp
  then have "f (xs ! i) \<notin> set (map f (take i xs)) \<union> set (map f (drop (Suc i) xs))"
    using assms(1) by (metis distinct_append not_distinct_conv_prefix Un_iff distinct.simps(2) disjoint_iff list.set_intros(1))
  moreover have "f x \<in> set (map f (take i xs)) \<union> set (map f (drop (Suc i) xs))"
    using assms(3) by (auto simp: vec_remove_def)
  ultimately show ?thesis by metis
qed

lemma distinct_vec_remove: "distinct xs \<Longrightarrow> distinct (vec_remove i xs)"
proof (cases "i < length xs")
  case True
  assume "distinct xs"
  then have "distinct (take i xs @ xs ! i # drop (Suc i) xs)" by (subst id_take_nth_drop [OF True, symmetric])
  then show ?thesis by (simp add: vec_remove_def)
qed (simp add: vec_remove_def)

lemma session_ok_fewer:
  assumes "session_ok S" and "tame (ss_world S) (ss_world S')" and "ss_mounts S' = vec_remove idx (ss_mounts S)"
  shows "safe_step S S'"
proof -
  have "distinct (map (\<lambda>m. components (ms_mountpoint m)) (ss_mounts S'))"
    unfolding assms(3) map_vec_remove using session_okD(3) [OF assms(1)] by (rule distinct_vec_remove)
  moreover have "mount_recorded (ss_world S') m" if "m \<in> set (ss_mounts S')" for m
    using session_okD(2) [OF assms(1)] that set_vec_remove_subset [of idx "ss_mounts S"]
      tameD(2) [OF assms(2) session_okD(1) [OF assms(1)]]
    by (auto simp: mount_recorded_def assms(3))
  ultimately show ?thesis
    using tameD(1,2,4) [OF assms(2) session_okD(1) [OF assms(1)]] set_vec_remove_subset [of idx "ss_mounts S"]
    by (auto simp: safe_step_def session_ok_def keeps_orphans_def orphan_def assms(3))
qed

lemma detach_keeps_session_ok:
  assumes run: "session_detach E name mountpoint S = (r, S')" and ok: "session_ok S"
  shows "safe_step S S'"
  using run ok
proof (cases rule: detach_cases)
  case (refused e)
  then show ?thesis using ok session_ok_tame by blast
next
  case (stuck e idx)
  then show ?thesis using ok session_ok_fewer by blast
next
  case (detached mp s a idx w1)
  note t1 = tameD [OF detached(4) session_okD(1) [OF ok]]
  note t2 = tameD [OF detached(8) world_ok_remove_attach [OF t1(1)]]
  have "mount_recorded (ss_world S') m" if "m \<in> set (ss_mounts S')" for m
  proof -
    have "components (ms_mountpoint m) \<noteq> components (ms_mountpoint (ss_mounts S ! idx))"
      using vec_remove_other [OF session_okD(3) [OF ok] detached(5)] that by (simp add: detached(7))
    then have "components (ms_mountpoint m) \<noteq> components mp" using detached(6) by (simp add: mount_matches_def)
    moreover have "m \<in> set (ss_mounts S)" using that set_vec_remove_subset by (fastforce simp: detached(7))
    ultimately show ?thesis
      using session_okD(2) [OF ok] unfolding mount_recorded_def t2(2) remove_attach_attaches t1(2) by simp
  qed
  moreover have "distinct (map (\<lambda>m. components (ms_mountpoint m)) (ss_mounts S'))"
    unfolding detached(7) map_vec_remove using session_okD(3) [OF ok] by (rule distinct_vec_remove)
  moreover have "wakes (ss_world S) (ss_world S')"
    by (rule wakes_trans [OF t1(4) wakes_trans [OF wakes_remove_attach t2(4)]])
  moreover have "keeps_orphans S S'"
  proof
    show "attach_of (ss_world S') n k = Some b"
      if "attach_of (ss_world S) n k = Some b" "\<forall>m \<in> set (ss_mounts S). components (ms_mountpoint m) \<noteq> k" for n k b
      using that nth_mem [OF detached(5)] detached(6) by (auto simp: t2(2) remove_attach_attaches t1(2) mount_matches_def)
    show "components (ms_mountpoint m) \<noteq> k" if "m \<in> set (ss_mounts S')" "m \<notin> set (ss_mounts S)" for m k
      using that set_vec_remove_subset [of idx "ss_mounts S"] by (auto simp: detached(7))
  qed
  ultimately show ?thesis using t2(1) by (simp add: safe_step_def session_ok_def)
qed

section \<open>Destroying\<close>

lemma length_om_remove:
  assumes "om_wf m" and "om_get m k = Some v"
  shows "Suc (length (om_remove k m)) = length m"
proof -
  have "length (filter (\<lambda>x. fst x = k) m) = 1"
    using om_wf_distinct [OF assms(1)] assms(2)
  proof (induction m)
    case (Cons x m)
    then show ?case by (auto simp: om_keys_def filter_empty_conv rev_image_eqI split: if_splits)
  qed simp
  moreover have "length (filter (\<lambda>x. fst x = k) m) + length (filter (\<lambda>x. fst x \<noteq> k) m) = length m"
    by (rule sum_length_filter_compl)
  ultimately show ?thesis by (simp add: om_remove_def)
qed

text \<open>When all detaches succeed, as many attaches of the sandbox are gone.\<close>

lemma detach_all_success:
  assumes "detach_all E name mps S = (Inr u, S')" and "session_ok S" and "get_sandbox name (ss_world S) = Some s"
  shows "only_releases (ss_world S) (ss_world S')
    \<and> (\<exists>s'. get_sandbox name (ss_world S') = Some s' \<and> length (sb_attaches s') + length mps = length (sb_attaches s))"
  using assms
proof (induction mps arbitrary: S s)
  case Nil
  then show ?case by (simp add: only_releases_def)
next
  case (Cons mp mps)
  obtain r S1 where run: "session_detach E name mp S = (r, S1)" by fastforce
  with Cons.prems(1) obtain resp where r: "r = Inr resp" and rest: "detach_all E name mps S1 = (Inr u, S')"
    by (auto split: sum.splits)
  have ok1: "session_ok S1" using detach_keeps_session_ok [OF run Cons.prems(2)] by (simp add: safe_step_def)
  from run Cons.prems(2) show ?case
  proof (cases rule: detach_cases)
    case (detached mpc s0 a idx w1)
    let ?s1 = "s\<lparr>sb_attaches := om_remove (components mpc) (sb_attaches s)\<rparr>"
    have s0: "s0 = s" using detached(2) Cons.prems(3) by simp
    have "om_wf (sb_attaches s)"
      using sandbox_wf [OF _ Cons.prems(3)] session_okD(1) [OF Cons.prems(2)]
      by (simp add: wf_sandbox_def world_ok_def)
    from length_om_remove [OF this] detached(3) have len: "Suc (length (sb_attaches ?s1)) = length (sb_attaches s)"
      by (simp add: s0)
    from Cons.IH [OF rest ok1 detached(9) [unfolded s0]] len detached(10) only_releases_trans
    show ?thesis by fastforce
  qed (simp_all add: r)
qed

lemma detach_all_keeps:
  "detach_all E name mps S = (r, S') \<Longrightarrow> session_ok S \<Longrightarrow> safe_step S S'"
proof (induction mps arbitrary: S)
  case Nil
  then show ?case by (simp add: safe_step_def)
next
  case (Cons mp mps)
  obtain r1 S1 where run: "session_detach E name mp S = (r1, S1)" by fastforce
  have s1: "safe_step S S1" by (rule detach_keeps_session_ok [OF run Cons.prems(2)])
  then have "session_ok S1" by (simp add: safe_step_def)
  with Cons run s1 show ?case by (cases r1) (auto intro: safe_step_trans)
qed

lemma tame_trusted:
  assumes "wf_world w \<Longrightarrow> om_wf m \<and> (\<forall>t \<in> set (om_values m). tr_id t < rg_next_operation_id (w_registry w))"
  shows "tame w (with_registry (\<lambda>r. r\<lparr>rg_trusted := m\<rparr>) w)"
proof (rule tame_settled)
  assume wf: "wf_world w"
  then have "wf_registry ((w_registry w)\<lparr>rg_trusted := m\<rparr>)"
    using assms unfolding wf_world_def wf_registry_def wf_maps_def
    by (auto simp: index_exact_def used_ids_def request_ids_def)
  then show "wf_world (with_registry (\<lambda>r. r\<lparr>rg_trusted := m\<rparr>) w)"
    unfolding with_registry_def by (intro wf_world_registry [OF wf]) simp_all
qed (simp_all add: wakes_same)

lemma trusted_bounds:
  assumes "wf_world w"
  shows "om_wf (rg_trusted (w_registry w))"
    and "t \<in> set (om_values (rg_trusted (w_registry w))) \<Longrightarrow> tr_id t < rg_next_operation_id (w_registry w)"
  using assms by (auto simp: wf_world_def wf_registry_def wf_maps_def used_ids_def)

lemma tame_retain_trusted:
  "tame w (with_registry (\<lambda>r. r\<lparr>rg_trusted := filter p (rg_trusted r)\<rparr>) w)"
proof -
  have "tame w (with_registry (\<lambda>r. r\<lparr>rg_trusted := filter p (rg_trusted (w_registry w))\<rparr>) w)"
    using trusted_bounds [of w] by (intro tame_trusted) (force simp: om_wf_filter om_values_def)
  then show ?thesis by (simp add: with_registry_def)
qed

lemma values_of_map: "v \<in> set (om_values (om_remove k m)) \<Longrightarrow> v \<in> set (om_values m)"
  by (auto simp: om_values_def om_remove_def)

lemma values_of_insert: "om_wf m \<Longrightarrow> v \<in> set (om_values (om_insert k x m)) \<Longrightarrow> v = x \<or> v \<in> set (om_values m)"
  by (auto simp: om_values_iff om_wf_insert split: if_splits)

lemma tame_remove_trusted: "tame w (with_registry (\<lambda>r. r\<lparr>rg_trusted := om_remove token (rg_trusted r)\<rparr>) w)"
  using tame_retain_trusted by (simp add: om_remove_def)

lemma tame_insert_trusted:
  assumes "wf_world w \<Longrightarrow> tr_id t < rg_next_operation_id (w_registry w)"
  shows "tame w (with_registry (\<lambda>r. r\<lparr>rg_trusted := om_insert token t (rg_trusted r)\<rparr>) w)"
proof -
  have "tame w (with_registry (\<lambda>r. r\<lparr>rg_trusted := om_insert token t (rg_trusted (w_registry w))\<rparr>) w)"
    using trusted_bounds [of w] assms by (intro tame_trusted) (auto dest: values_of_insert)
  then show ?thesis by (simp add: with_registry_def)
qed

text \<open>A sandbox without pending requests can be removed.\<close>

lemma remove_sandbox_ok:
  assumes ok: "world_ok w" and quiet: "\<And>i q. pending_of w i = Some q \<Longrightarrow> pending_sandbox q \<noteq> name"
    and w': "w' = with_registry (\<lambda>r. r\<lparr>rg_sandboxes := om_remove name (rg_sandboxes r)\<rparr>) w"
  shows "world_ok w'" and "attach_of w' n key = (if n = name then None else attach_of w n key)"
    and "get_sandbox n w' = (if n = name then None else get_sandbox n w)"
proof -
  show g: "get_sandbox n w' = (if n = name then None else get_sandbox n w)" for n
    by (simp add: w' get_sandbox_def)
  show a: "attach_of w' n key = (if n = name then None else attach_of w n key)" for n key
    by (simp add: attach_of_def g)
  have p: "pending_of w' = pending_of w" by (simp add: w')
  have wf: "wf_world w" using ok by (simp add: world_ok_def)
  then have "wf_registry ((w_registry w)\<lparr>rg_sandboxes := om_remove name (rg_sandboxes (w_registry w))\<rparr>)"
    unfolding wf_world_def wf_registry_def wf_maps_def
    by (auto simp: index_exact_def used_ids_def request_ids_def)
  then have "wf_world w'" unfolding w' with_registry_def by (intro wf_world_registry [OF wf]) simp_all
  moreover have "requests_homed w'"
    using ok quiet unfolding requests_homed_def world_ok_def p g by auto
  moreover have "attaches_ok w'"
    using ok unfolding world_ok_def attaches_ok_def a by (auto simp: w')
  ultimately show "world_ok w'" by (simp add: world_ok_def)
qed

text \<open>The outcomes of \<^verbatim>\<open>destroy\<close> in a well-formed session.\<close>

lemma destroy_cases:
  fixes S :: "'h session"
  assumes run: "session_destroy E name S = (r, S')" and ok: "session_ok S"
  obtains (failed) e where "r = Inl e" "safe_step S S'"
  | (removed) S1 :: "'h session" and s' where "safe_step S S1" "get_sandbox name (ss_world S1) = Some s'" "sb_attaches s' = []"
      "\<And>i q. pending_of (ss_world S1) i = Some q \<Longrightarrow> pending_sandbox q \<noteq> name"
      "w_registry (ss_world S') = (w_registry (ss_world S1))\<lparr>rg_sandboxes := om_remove name (rg_sandboxes (w_registry (ss_world S1)))\<rparr>"
      "w_cells (ss_world S') = w_cells (ss_world S1)" "w_next_cell (ss_world S') = w_next_cell (ss_world S1)"
      "ss_mounts S' = ss_mounts S1"
      "rg_read_write_grants (w_registry (ss_world S1)) = rg_read_write_grants (w_registry (ss_world S))"
      "rg_trusted (w_registry (ss_world S1)) = filter (\<lambda>(_, t). tr_sandbox t \<noteq> name) (rg_trusted (w_registry (ss_world S)))"
proof (cases "get_sandbox name (ss_world S)")
  case None
  with run ok show ?thesis
    by (intro failed [of "sandbox_not_found name"]) (simp_all add: session_destroy_def safe_step_def)
next
  case (Some s)
  let ?w = "ss_world S"
  let ?w1 = "with_registry (\<lambda>r. r\<lparr>rg_trusted := filter (\<lambda>(_, t). tr_sandbox t \<noteq> name) (rg_trusted r)\<rparr>) ?w"
  let ?w2 = "snd (cancel_all E name None ?w1)"
  let ?mps = "map at_mountpoint (om_values (sb_attaches s))"
  have t1: "tame ?w ?w1" by (rule tame_retain_trusted)
  have wf1: "wf_world ?w1" using tameD(1) [OF t1 session_okD(1) [OF ok]] by (simp add: world_ok_def)
  have s1: "get_sandbox name ?w1 = Some s" using Some by (simp add: get_sandbox_def)
  have c: "?w2 = snd (cancel_scope E name (\<lambda>_. True) ''sandbox'' None ''cancel-all'' ?w1)" by (simp add: cancel_all_def)
  have "cancel_scope E name (\<lambda>_. True) ''sandbox'' None ''cancel-all'' ?w1 =
      (fst (cancel_scope E name (\<lambda>_. True) ''sandbox'' None ''cancel-all'' ?w1), ?w2)"
    unfolding c by (rule prod.collapse [symmetric])
  note cs = cancel_scope_settled [OF wf1 s1 this]
  have t2: "tame ?w ?w2" unfolding c by (rule tame_trans [OF t1 tame_cancel_scope])
  have s2: "get_sandbox name ?w2 = Some s" using cs(3) s1 by (simp add: get_sandbox_def)
  have quiet: "pending_sandbox q \<noteq> name" if "pending_of ?w2 i = Some q" for i q
    using cs(1) that by (fastforce simp: settled_def scope_ids_def split: if_splits)
  have keep: "rg_read_write_grants (w_registry ?w2) = rg_read_write_grants (w_registry ?w)"
    "rg_trusted (w_registry ?w2) = filter (\<lambda>(_, t). tr_sandbox t \<noteq> name) (rg_trusted (w_registry ?w))"
    using cs(4,5) by simp_all
  obtain rd S1 where d: "detach_all E name ?mps (S\<lparr>ss_world := ?w2\<rparr>) = (rd, S1)" by fastforce
  have st2: "safe_step S (S\<lparr>ss_world := ?w2\<rparr>)" using safe_tame [OF t2 ok] .
  then have ok2: "session_ok (S\<lparr>ss_world := ?w2\<rparr>)" by (simp add: safe_step_def)
  have st1: "safe_step S S1" using safe_step_trans [OF st2 detach_all_keeps [OF d ok2]] .
  show ?thesis
  proof (cases rd)
    case (Inl e)
    with run Some d have "r = Inl e" "S' = S1" by (auto simp: session_destroy_def Let_def)
    with st1 show ?thesis by (intro failed [of e]) simp_all
  next
    case (Inr u)
    note succ = detach_all_success [OF d [unfolded Inr] ok2, of s]
    then obtain s' where s': "get_sandbox name (ss_world S1) = Some s'" "length (sb_attaches s') + length ?mps = length (sb_attaches s)"
      and rel: "only_releases ?w2 (ss_world S1)"
      using s2 by auto
    have none: "sb_attaches s' = []" using s'(2) by (simp add: om_values_def)
    have q1: "pending_sandbox q \<noteq> name" if "pending_of (ss_world S1) i = Some q" for i q
      using rel quiet that unfolding only_releases_def by blast
    have reg: "w_registry (ss_world S') = (w_registry (ss_world S1))\<lparr>rg_sandboxes := om_remove name (rg_sandboxes (w_registry (ss_world S1)))\<rparr>"
      "w_cells (ss_world S') = w_cells (ss_world S1)" "w_next_cell (ss_world S') = w_next_cell (ss_world S1)"
      "ss_mounts S' = ss_mounts S1"
      using run Some d Inr s'(1) by (auto simp: session_destroy_def Let_def split: prod.splits)
    have kept: "rg_read_write_grants (w_registry (ss_world S1)) = rg_read_write_grants (w_registry ?w)"
      "rg_trusted (w_registry (ss_world S1)) = filter (\<lambda>(_, t). tr_sandbox t \<noteq> name) (rg_trusted (w_registry ?w))"
      using rel keep by (simp_all add: only_releases_def)
    show ?thesis by (rule removed [OF st1 s'(1) none _ reg kept]) (rule q1)
  qed
qed

lemma removed_sandbox_session_ok:
  fixes S1 S' :: "'h session"
  assumes ok: "session_ok S1" and s: "get_sandbox name (ss_world S1) = Some s'" "sb_attaches s' = []"
    and quiet: "\<And>i q. pending_of (ss_world S1) i = Some q \<Longrightarrow> pending_sandbox q \<noteq> name"
    and reg: "w_registry (ss_world S') = (w_registry (ss_world S1))\<lparr>rg_sandboxes := om_remove name (rg_sandboxes (w_registry (ss_world S1)))\<rparr>"
      "w_cells (ss_world S') = w_cells (ss_world S1)" "w_next_cell (ss_world S') = w_next_cell (ss_world S1)"
      "ss_mounts S' = ss_mounts S1"
  shows "session_ok S'" and "\<forall>m \<in> set (ss_mounts S'). ms_sandbox m \<noteq> name"
    and "get_sandbox name (ss_world S') = None" and "keeps_orphans S1 S'"
proof -
  define v where "v = with_registry (\<lambda>r. r\<lparr>rg_sandboxes := om_remove name (rg_sandboxes r)\<rparr>) (ss_world S1)"
  have rs: "world_ok v" "attach_of v n key = (if n = name then None else attach_of (ss_world S1) n key)"
    "get_sandbox n v = (if n = name then None else get_sandbox n (ss_world S1))" for n key
    by (rule remove_sandbox_ok [OF session_okD(1) [OF ok] _ v_def], erule quiet)+
  have t: "tame v (ss_world S')" by (rule tame_registry) (simp_all add: reg v_def)
  note tv = tameD [OF t rs(1)]
  have none: "attach_of (ss_world S1) name key = None" for key using s by (simp add: attach_of_def)
  have m: "ms_sandbox m \<noteq> name" if "m \<in> set (ss_mounts S1)" for m
    using session_okD(2) [OF ok that] none unfolding mount_recorded_def by auto
  have "mount_recorded (ss_world S') m" if "m \<in> set (ss_mounts S1)" for m
    using session_okD(2) [OF ok that] m [OF that] rs(2) [of "ms_sandbox m" "components (ms_mountpoint m)"]
    by (simp add: mount_recorded_def tv(2))
  then show "session_ok S'" using tv(1) session_okD(3) [OF ok] by (simp add: session_ok_def reg(4))
  show "\<forall>m \<in> set (ss_mounts S'). ms_sandbox m \<noteq> name" using m by (simp add: reg(4))
  show "get_sandbox name (ss_world S') = None" using tv(3) rs(3) by simp
  show "keeps_orphans S1 S'" using none by (intro keeps_orphansI) (auto simp: tv(2) rs(2) reg(4))
qed

lemma destroy_keeps_session_ok:
  assumes run: "session_destroy E name S = (r, S')" and ok: "session_ok S"
  shows "safe_step S S'"
  using run ok
proof (cases rule: destroy_cases)
  case (removed S1 s')
  then have ok1: "session_ok S1" by (simp add: safe_step_def)
  note left = removed_sandbox_session_ok [OF ok1 removed(2,3) removed(4) removed(5,6,7,8)]
  have "session_ok S'" by (rule left(1))
  moreover have "wakes (ss_world S1) (ss_world S')" by (rule wakes_same) (simp_all add: removed(5,6,7))
  ultimately have "safe_step S1 S'" using left(4) by (simp add: safe_step_def)
  with removed(1) show ?thesis by (rule safe_step_trans)
qed (simp_all add: safe_step_def)

text \<open>A sandbox with an orphaned attach cannot be destroyed.\<close>

lemma destroy_with_orphan:
  assumes "orphan name key a S" and "session_ok S"
  shows "\<exists>e. fst (session_destroy E name S) = Inl e"
proof -
  obtain r S' where run: "session_destroy E name S = (r, S')" by fastforce
  from run assms(2) show ?thesis
  proof (cases rule: destroy_cases)
    case (removed S1 s')
    then have "orphan name key a S1" using assms(1) by (simp add: safe_step_def keeps_orphans_def)
    then show ?thesis using removed(2,3) by (simp add: orphan_def attach_of_def)
  qed (simp add: run)
qed

text \<open>An orphaned attach cannot be detached.\<close>

lemma detach_orphan:
  assumes "orphan name (components mp) a S" and "canonicalize_maybe_existing (env_os E) (w_host (ss_world S)) path = Inr mp"
  shows "fst (session_detach E name path S) = Inl (Message (''mount session not found: '' @ to_string_lossy mp))"
proof -
  obtain s where s: "get_attach name mp (ss_world S) = Inr (s, a)"
    using assms(1) by (auto simp: orphan_def attach_of_def get_attach_def split: option.splits)
  have "\<forall>m \<in> set (ss_mounts S). \<not> mount_matches name (at_id a) mp m"
    using assms(1) by (auto simp: orphan_def mount_matches_def)
  then have "list_position (mount_matches name (at_id a) mp) (ss_mounts S) = None" by simp
  then show ?thesis using s assms(2) by (simp add: session_detach_def Let_def del: list_position_None)
qed

section \<open>Trusted operations\<close>

lemma tame_host: "tame w (w\<lparr>w_host := h\<rparr>)"
  by (rule tame_registry) simp_all

lemma begin_trusted_keeps_session_ok:
  assumes run: "begin_trusted E name command mountpoint paths S = (r, S')" and ok: "session_ok S"
  shows "safe_step S S'"
proof (cases "get_sandbox name (ss_world S)")
  case None
  with run ok show ?thesis by (simp add: begin_trusted_def safe_step_def)
next
  case (Some s)
  obtain i w1 where f: "fresh_operation_id (ss_world S) = (i, w1)" by fastforce
  obtain rc h where c: "os_create_dir_all (env_os E) (w_host w1) mountpoint = (rc, h)" by fastforce
  let ?S1 = "S\<lparr>ss_world := w1\<lparr>w_host := h\<rparr>\<rparr>"
  have i: "i < rg_next_operation_id (w_registry w1)" using f by (auto simp: fresh_operation_id_def next_operation_id_def)
  have "tame (ss_world S) w1" using tame_fresh [of "ss_world S"] by (simp add: f)
  then have st1: "safe_step S ?S1" using safe_tame [OF tame_trans [OF _ tame_host] ok] by blast
  then have ok1: "session_ok ?S1" by (simp add: safe_step_def)
  show ?thesis
  proof (cases rc)
    case (Inl e)
    with run Some f c st1 show ?thesis by (auto simp: begin_trusted_def Let_def)
  next
    case (Inr u)
    obtain ra S2 where a: "session_attach E name mountpoint True ?S1 = (ra, S2)" by fastforce
    note a1 = attach_keeps_session_ok [OF a ok1]
    note st2 = safe_step_trans [OF st1 a1]
    from a1 have ok2: "session_ok S2"
      and n: "rg_next_operation_id (w_registry w1) \<le> rg_next_operation_id (w_registry (ss_world S2))"
      by (simp_all add: safe_step_def wakes_def)
    show ?thesis
    proof (cases ra)
      case (Inl e)
      with run Some f c Inr a st2 show ?thesis by (auto simp: begin_trusted_def Let_def)
    next
      case (Inr u')
      obtain token t where "S' = S2\<lparr>ss_world := with_registry (\<lambda>r. r\<lparr>rg_trusted := om_insert token t (rg_trusted r)\<rparr>) (ss_world S2)\<rparr>"
        and "tr_id t = i"
        using run Some f c \<open>rc = Inr u\<close> a Inr by (auto simp: begin_trusted_def Let_def)
      then show ?thesis
        using safe_step_trans [OF st2 safe_tame [OF tame_insert_trusted ok2]] i n by auto
    qed
  qed
qed

lemma end_trusted_keeps_session_ok:
  assumes run: "end_trusted E token S = (r, S')" and ok: "session_ok S"
  shows "safe_step S S'"
proof -
  let ?S1 = "S\<lparr>ss_world := with_registry (\<lambda>r. r\<lparr>rg_trusted := om_remove token (rg_trusted r)\<rparr>) (ss_world S)\<rparr>"
  have st1: "safe_step S ?S1" by (rule safe_tame [OF tame_remove_trusted ok])
  then have ok1: "session_ok ?S1" by (simp add: safe_step_def)
  show ?thesis
  proof (cases "om_get (rg_trusted (w_registry (ss_world S))) token")
    case None
    with run st1 show ?thesis by (auto simp: end_trusted_def Let_def)
  next
    case (Some t)
    obtain rd S2 where d: "session_detach E (tr_sandbox t) (tr_mountpoint t) ?S1 = (rd, S2)" by fastforce
    note st2 = safe_step_trans [OF st1 detach_keeps_session_ok [OF d ok1]]
    then have ok2: "session_ok S2" by (simp add: safe_step_def)
    show ?thesis
    proof (cases rd)
      case (Inl e)
      with run Some d st2 show ?thesis by (auto simp: end_trusted_def Let_def)
    next
      case (Inr u)
      with run Some d have "\<exists>h. S' = S2\<lparr>ss_world := (ss_world S2)\<lparr>w_host := h\<rparr>\<rparr>"
        by (auto simp: end_trusted_def Let_def split: prod.splits)
      then show ?thesis using safe_step_trans [OF st2 safe_tame [OF tame_host ok2]] by blast
    qed
  qed
qed

lemma tame_register_trusted: "tame w (snd (register_trusted_pid token pid uid w))"
proof (cases "om_get (rg_trusted (w_registry w)) token")
  case None
  then show ?thesis by (simp add: register_trusted_pid_def)
next
  case (Some t)
  have "tr_id t < rg_next_operation_id (w_registry w)" if "wf_world w"
    using trusted_bounds [OF that] Some om_values_iff by metis
  then show ?thesis using Some by (simp add: register_trusted_pid_def tame_insert_trusted)
qed

section \<open>Every request keeps the invariant\<close>

text \<open>The paths of a request read from its JSON form are normalised and valid UTF-8.\<close>

fun wf_request :: "request \<Rightarrow> bool" where
  "wf_request (Mount _ _ on_fs) \<longleftrightarrow> wf_path on_fs \<and> (\<forall>c \<in> set on_fs. utf8_valid c)"
| "wf_request (Hide _ on_fs) \<longleftrightarrow> wf_path on_fs"
| "wf_request _ \<longleftrightarrow> True"

lemma tame_session_allow:
  assumes "session_allow E name i do_nothing grant w = Some (r, w')" and "\<And>h. clock_ok (os_now (env_os E) h)"
  shows "tame w w'"
  using assms tame_grant [of E name i _ w r w'] tame_decide [of w E _ name i]
  by (auto simp: session_allow_cases split: if_splits option.splits) (metis snd_conv)+

text \<open>The requests that neither mount nor unmount keep the attaches as they are.\<close>

fun moves_mounts :: "request \<Rightarrow> bool" where
  "moves_mounts (Shutdown _) \<longleftrightarrow> True"
| "moves_mounts (Attach _ _ _) \<longleftrightarrow> True"
| "moves_mounts (Detach _ _) \<longleftrightarrow> True"
| "moves_mounts (BeginTrustedOperation _ _ _ _) \<longleftrightarrow> True"
| "moves_mounts (EndTrustedOperation _) \<longleftrightarrow> True"
| "moves_mounts _ \<longleftrightarrow> False"

lemma handle_tame:
  assumes "handle_result E q S = Some (r, S')" and "wf_request q" and "\<And>h. clock_ok (os_now (env_os E) h)"
    and "\<not> moves_mounts q"
  shows "tame (ss_world S) (ss_world S') \<and> S' = S\<lparr>ss_world := ss_world S'\<rparr>"
proof -
  have in_tame: "tame (ss_world S) (ss_world S') \<and> S' = S\<lparr>ss_world := ss_world S'\<rparr>"
    if "in_world f S = (r, S')" "tame (ss_world S) (snd (f (ss_world S)))" for f
    using that by (auto simp: in_world_def split_beta)
  show ?thesis
  proof (cases q)
    case (Allow name i do_nothing grant)
    then obtain w' where run: "session_allow E name i do_nothing grant (ss_world S) = Some (r, w')"
      and S': "S' = S\<lparr>ss_world := w'\<rparr>" using assms(1) by auto
    from tame_session_allow [OF run assms(3)] show ?thesis by (simp add: S')
  next
    case (DenyRequest name i)
    then show ?thesis using assms(1) tame_decide [of "ss_world S" E Deny name i]
      by (intro in_tame [of "session_deny E name i"]) (simp_all add: session_decide_def)
  next
    case (CancelRequest name i)
    then show ?thesis using assms(1) tame_decide [of "ss_world S" E Cancel name i]
      by (intro in_tame [of "session_cancel E name i ''explicit''"]) (simp_all add: session_decide_def)
  qed (use assms in
      \<open>auto intro!: in_tame tame_mount_layer tame_umount tame_hide tame_rules tame_register_trusted tame_cancel_all
        simp: list_protection_def list_bypass_def list_mounts_def session_metadata_def session_log_path_def session_pending_def\<close>)
qed

lemma handle_keeps_session_ok:
  assumes "handle_result E q S = Some (r, S')" and ok: "session_ok S" and "wf_request q"
    and "\<And>h. clock_ok (os_now (env_os E) h)"
  shows "safe_step S S'"
proof (cases "moves_mounts q")
  case False
  from handle_tame [OF assms(1,3,4) False] ok show ?thesis by (intro session_ok_tame) (auto dest: arg_cong [where f = ss_mounts])
next
  case True
  then show ?thesis
    using assms(1) ok destroy_keeps_session_ok attach_keeps_session_ok detach_keeps_session_ok
      begin_trusted_keeps_session_ok end_trusted_keeps_session_ok
    by (cases q) (simp_all, blast+)
qed

lemma new_session_ok:
  assumes "new_session E rt name h = Inr S"
  shows "session_ok S"
proof -
  obtain log_path h' where S: "S = (new_state rt h)\<lparr>ss_world := put_sandbox name (new_sandbox name log_path)
      ((ss_world (new_state rt h))\<lparr>w_host := h'\<rparr>)\<rparr>"
    using assms by (auto simp: new_session_def create_initial_def Let_def split: sum.splits prod.splits)
  let ?w = "(ss_world (new_state rt h))\<lparr>w_host := h'\<rparr>"
  have "wf_world ?w"
    by (simp add: new_state_def wf_world_def waiters_exact_def wf_new_registry) (simp add: new_registry_def request_ids_def om_keys_def)
  then have "wf_world (ss_world S)" unfolding S by (simp add: wf_world_put_sandbox wf_new_sandbox)
  moreover have "pending_of (ss_world S) i = None" for i
    by (simp add: S new_state_def new_registry_def get_any_pending_def)
  moreover have "attach_of (ss_world S) n key = None" for n key
    by (simp add: S attach_of_put new_sandbox_def) (simp add: attach_of_def get_sandbox_def new_state_def new_registry_def)
  ultimately show ?thesis
    by (simp add: session_ok_def world_ok_def requests_homed_def attaches_ok_def) (simp add: S new_state_def)
qed

text \<open>A detach whose unmount fails leaves an orphan: the mounted session is gone, the attach stays.\<close>

lemma failed_unmount_orphan:
  assumes ok: "session_ok S" and run: "session_detach E name mountpoint S = (r, S')"
    and canon: "canonicalize_maybe_existing (env_os E) (w_host (ss_world S)) mountpoint = Inr mp"
    and att: "get_attach name mp (ss_world S) = Inr (s, a)"
    and um: "os_umount_and_join (env_os E) (w_host (snd (cancel_attached_view E name (at_id a) ''detach'' (ss_world S)))) mp = (Inl e, h)"
  shows "orphan name (components mp) a S'"
proof -
  let ?w = "ss_world S"
  let ?c = "snd (cancel_attached_view E name (at_id a) ''detach'' ?w)"
  have wf: "wf_world ?w" using session_okD(1) [OF ok] by (simp add: world_ok_def)
  have sc: "get_sandbox n ?c = get_sandbox n ?w" for n
    unfolding cancel_attached_view_def by (rule cancel_scope_sandboxes [OF wf])
  have same: "get_sandbox n (ss_world S') = get_sandbox n ?w" for n
    using run sc um by (auto simp: session_detach_def canon att Let_def get_sandbox_def split: option.splits)
  have here: "attach_of ?w name (components mp) = Some a"
    using att by (auto simp: get_attach_def attach_of_def split: option.splits)
  have only: "mount_matches name (at_id a) mp m" if m: "m \<in> set (ss_mounts S)" "components (ms_mountpoint m) = components mp" for m
  proof -
    obtain b where b: "attach_of ?w (ms_sandbox m) (components mp) = Some b" "at_id b = ms_attach_id m"
      using session_okD(2) [OF ok m(1)] m(2) by (auto simp: mount_recorded_def)
    have "ms_sandbox m = name" using session_okD(1) [OF ok] here b(1) unfolding world_ok_def attaches_ok_def by blast
    then show ?thesis using here b m(2) by (simp add: mount_matches_def)
  qed
  have "components (ms_mountpoint m) \<noteq> components mp" if "m \<in> set (ss_mounts S')" for m
  proof (cases "list_position (mount_matches name (at_id a) mp) (ss_mounts S)")
    case None
    with run have "ss_mounts S' = ss_mounts S"
      by (auto simp: session_detach_def canon att Let_def simp del: list_position_None)
    then show ?thesis using None only that by auto
  next
    case (Some idx)
    note pos = list_position_SomeD [OF Some]
    have "ss_mounts S' = vec_remove idx (ss_mounts S)"
      using run um Some by (auto simp: session_detach_def canon att Let_def)
    then show ?thesis using vec_remove_other [OF session_okD(3) [OF ok], of idx m] pos that by (auto simp: mount_matches_def)
  qed
  then show ?thesis using here same by (simp add: orphan_def attach_of_def)
qed

section \<open>A small session for evaluation\<close>

definition busy_session :: "unit session" where
  "busy_session = \<lparr>ss_world = busy_world,
     ss_mounts = [\<lparr>ms_sandbox = ''box'', ms_attach_id = 2, ms_mountpoint = ''/mnt'', ms_temporary = False,
       ms_inodes = [(1, [])], ms_handles = [], ms_next_handle = 1\<rparr>],
     ss_runtime = \<lparr>rt_runtime_dir = ''/run'', rt_log_dir = ''/run'', rt_socket_override = None\<rparr>\<rparr>"

text \<open>A host on which unmounting and removing files work.\<close>

definition calm_env :: "unit env" where
  "calm_env = (demo_env Apply)\<lparr>env_os := (env_os (demo_env Apply))\<lparr>os_umount_and_join := (\<lambda>h _. (Inr (), h)),
     os_remove_file := (\<lambda>h _. (Inr (), h))\<rparr>\<rparr>"

lemma busy_attach:
  "attach_of busy_world n key = (if n = ''box'' \<and> key = components ''/mnt''
     then Some \<lparr>at_id = 2, at_mountpoint = ''/mnt'', at_temporary = False, at_active = True\<rparr> else None)"
  by (auto simp: attach_of_def get_sandbox_def busy_world_def new_registry_def attached_sandbox_def)

lemma busy_session_ok: "session_ok busy_session"
proof -
  have "requests_homed busy_world"
    by (auto simp: requests_homed_def busy_world_simps split: if_splits)
  moreover have "attaches_ok busy_world" by (auto simp: attaches_ok_def busy_attach busy_world_simps split: if_splits)
  ultimately show ?thesis
    by (simp add: session_ok_def world_ok_def wf_busy_world mount_recorded_def busy_session_def busy_attach)
qed

lemma calm_append [simp]: "w_log_running w \<Longrightarrow> append_event calm_env p i b w = (Inr (), w)" for w :: "unit world"
  by (simp add: append_event_def log_append_def log_request_def append_log_file_def create_parent_def
      calm_env_def demo_env_def demo_host_def split: option.splits)

text \<open>Cancelling does not stop the log writer.\<close>

lemma log_running_and_log [simp]: "w_log_running (snd (and_log E p i b acc)) = w_log_running (snd acc)"
  by (simp add: and_log_def split_beta)

lemma log_running_registry [simp]: "w_log_running (with_registry f w) = w_log_running w"
  by (simp add: with_registry_def)

lemma log_running_fresh [simp]: "w_log_running (snd (fresh_operation_id w)) = w_log_running w"
  by (simp add: fresh_operation_id_def split_beta)

lemma log_running_simps [simp]:
  "w_log_running (snd (take_canceled at ids w)) = w_log_running w"
  "w_log_running (snd (log_canceled E p reason items acc)) = w_log_running (snd acc)"
  "w_log_running (notify_all ws d w) = w_log_running w"
proof -
  show "w_log_running (snd (log_canceled E p reason items acc)) = w_log_running (snd acc)"
    by (induction items arbitrary: acc) simp_all
  show "w_log_running (snd (take_canceled at ids w)) = w_log_running w"
    by (induction ids arbitrary: w) (simp_all add: Let_def split_beta take_waiter_def with_registry_def)
  show "w_log_running (notify_all ws d w) = w_log_running w"
    by (induction ws arbitrary: w) (simp_all add: notify_all_def notify_waiter_def split: option.splits)
qed

lemma log_running_cancel:
  "w_log_running (snd (cancel_scope E name in_scope scope attach_id reason w)) = w_log_running w"
  by (simp add: cancel_scope_def finish_cancel_scope_def Let_def split_beta split: option.split)

lemma calm_detach:
  assumes "w_log_running (ss_world S)" and "get_attach name ''/mnt'' (ss_world S) = Inr (s, a)"
    and "list_position (mount_matches name (at_id a) ''/mnt'') (ss_mounts S) = Some idx"
  shows "fst (session_detach calm_env name ''/mnt'' S) = Inr ResponseOk"
    and "w_log_running (ss_world (snd (session_detach calm_env name ''/mnt'' S)))"
proof -
  have c: "canonicalize_maybe_existing (env_os calm_env) h ''/mnt'' = Inr ''/mnt''" for h
    by (simp add: canonicalize_maybe_existing_def calm_env_def demo_env_def demo_host_def empty_host_def eval_simps)
  have u: "os_umount_and_join (env_os calm_env) h mp = (Inr (), h)" for h mp
    by (simp add: calm_env_def)
  let ?c = "snd (cancel_attached_view calm_env name (at_id a) ''detach'' (ss_world S))"
  obtain i w2 where f: "fresh_operation_id (?c\<lparr>w_host := w_host ?c\<rparr>) = (i, w2)" by fastforce
  have "w_log_running ?c" using assms(1) by (simp add: cancel_attached_view_def log_running_cancel)
  then have run: "w_log_running (remove_attach name ''/mnt'' w2)"
    using f by (auto simp: fresh_operation_id_def remove_attach_def put_sandbox_def with_registry_def split: option.split prod.splits)
  then show "fst (session_detach calm_env name ''/mnt'' S) = Inr ResponseOk"
    "w_log_running (ss_world (snd (session_detach calm_env name ''/mnt'' S)))"
    using assms f by (simp_all add: session_detach_def c u Let_def log_then_ok_def)
qed

lemma calm_destroy: "fst (session_destroy calm_env ''box'' busy_session) = Inr ResponseOk"
proof -
  let ?w2 = "snd (cancel_all calm_env ''box'' None busy_world)"
  let ?S2 = "busy_session\<lparr>ss_world := ?w2\<rparr>"
  have tr: "with_registry (\<lambda>r. r\<lparr>rg_trusted := filter (\<lambda>(_, t). tr_sandbox t \<noteq> ''box'') (rg_trusted r)\<rparr>) busy_world = busy_world"
    by (simp add: with_registry_def busy_world_def new_registry_def)
  have c: "?w2 = snd (cancel_scope calm_env ''box'' (\<lambda>_. True) ''sandbox'' None ''cancel-all'' busy_world)"
    by (simp add: cancel_all_def)
  have s2: "get_sandbox n ?w2 = get_sandbox n busy_world" for n
    unfolding c by (rule cancel_scope_sandboxes [OF wf_busy_world])
  have log: "w_log_running (ss_world ?S2)" unfolding c by (simp add: log_running_cancel) (simp add: busy_world_def)
  have mps: "map at_mountpoint (om_values (sb_attaches attached_sandbox)) = [''/mnt'']"
    by (simp add: attached_sandbox_def om_values_def)
  obtain a where att: "get_attach ''box'' ''/mnt'' (ss_world ?S2) = Inr (attached_sandbox, a)" "at_id a = 2"
    by (simp add: get_attach_def s2 busy_world_simps) (simp add: attached_sandbox_def)
  have pos: "list_position (mount_matches ''box'' (at_id a) ''/mnt'') (ss_mounts ?S2) = Some 0"
    by (simp add: att(2) busy_session_def mount_matches_def)
  note d = calm_detach [OF log att(1) pos]
  obtain S3 where run: "session_detach calm_env ''box'' ''/mnt'' ?S2 = (Inr ResponseOk, S3)"
    using d(1) by (metis prod.collapse)
  have log3: "w_log_running (ss_world S3)" using d(2) by (simp add: run)
  have rm: "log_remove (env_os calm_env) True p h = (Inr (), h)" for p h
    by (simp add: log_remove_def log_request_def remove_log_file_def calm_env_def)
  show ?thesis
    using run log3 by (auto simp: session_destroy_def busy_session_def busy_world_simps tr mps rm Let_def split: option.split)
qed

section \<open>Properties\<close>

text \<open>
  C10: The invariant of a session (well-formed shared state with exactly one waiter per
  pending request, every request in a sandbox, each mount point attached to one sandbox
  only, every mounted file system recorded as an attach) holds in a new session and is kept
  by every request of the protocol, whether it succeeds or fails part way.
\<close>

theorem session_invariant:
  assumes "\<And>h. clock_ok (os_now (env_os E) h)"
  shows "(new_session E rt name h = Inr S0 \<longrightarrow> session_ok S0)
    \<and> (session_ok S \<longrightarrow> wf_request q \<longrightarrow> handle_result E q S = Some (r, S') \<longrightarrow> session_ok S')"
  using handle_keeps_session_ok [OF _ _ _ assms, of q S r S']
  by (intro conjI impI) (erule new_session_ok, simp add: safe_step_def)

theorem session_invariant_witness:
  "\<exists>r S'. handle_result (demo_env Apply) (CancelRequest ''box'' 3) busy_session = Some (r, S') \<and> session_ok S'"
proof -
  obtain r S' where run: "handle_result (demo_env Apply) (CancelRequest ''box'' 3) busy_session = Some (r, S')"
    by (cases "in_world (session_cancel (demo_env Apply) ''box'' 3 ''explicit'') busy_session") simp
  have "clock_ok (os_now (env_os (demo_env Apply)) h)" for h by (simp add: busy_clock)
  from session_invariant [of "demo_env Apply" _ _ _ _ busy_session "CancelRequest ''box'' 3" r S', OF this] run
  show ?thesis using busy_session_ok by auto
qed

text \<open>
  C23: A successful detach removes exactly one attach and its mounted file system, and cancels
  exactly the pending requests of that view: the callers of these are told so, every other
  request keeps its place and its waiter, no other cell changes, and the other attaches and
  sandboxes, the other mounted file systems, the grants and the trusted operations stay.
\<close>

theorem detach_removes_the_view:
  assumes "session_ok S" and "session_detach E name mountpoint S = (Inr resp, S')"
  shows "\<exists>mp s a. canonicalize_maybe_existing (env_os E) (w_host (ss_world S)) mountpoint = Inr mp
    \<and> get_sandbox name (ss_world S) = Some s \<and> om_get (sb_attaches s) (components mp) = Some a
    \<and> get_sandbox name (ss_world S') = Some (s\<lparr>sb_attaches := om_remove (components mp) (sb_attaches s)\<rparr>)
    \<and> (\<forall>n. n \<noteq> name \<longrightarrow> get_sandbox n (ss_world S') = get_sandbox n (ss_world S))
    \<and> (\<exists>i < length (ss_mounts S). mount_matches name (at_id a) mp (ss_mounts S ! i)
         \<and> ss_mounts S' = vec_remove i (ss_mounts S))
    \<and> settled (scope_ids name (\<lambda>q. pending_attach_id q = Some (at_id a)) (ss_world S)) Cancel (ss_world S) (ss_world S')
    \<and> rg_read_write_grants (w_registry (ss_world S')) = rg_read_write_grants (w_registry (ss_world S))
    \<and> rg_trusted (w_registry (ss_world S')) = rg_trusted (w_registry (ss_world S))"
  using assms(2,1)
proof (cases rule: detach_cases)
  case (detached mp s a idx w1)
  then show ?thesis unfolding only_releases_def by blast
qed simp_all

theorem detach_removes_the_view_witness:
  "\<exists>S'. session_detach calm_env ''box'' ''/mnt'' busy_session = (Inr ResponseOk, S')
     \<and> ss_mounts S' = [] \<and> w_cells (ss_world S') 0 = Some Cancel \<and> pending_of (ss_world S') 3 = None"
proof -
  obtain s a where att: "get_attach ''box'' ''/mnt'' (ss_world busy_session) = Inr (s, a)" "at_id a = 2"
    by (simp add: get_attach_def busy_session_def busy_world_simps attached_sandbox_def)
  have pos: "list_position (mount_matches ''box'' (at_id a) ''/mnt'') (ss_mounts busy_session) = Some 0"
    by (simp add: att(2) busy_session_def mount_matches_def)
  have log: "w_log_running (ss_world busy_session)" by (simp add: busy_session_def busy_world_def)
  obtain S' where run: "session_detach calm_env ''box'' ''/mnt'' busy_session = (Inr ResponseOk, S')"
    using calm_detach(1) [OF log att(1) pos] by (metis prod.collapse)
  have one: "length (ss_mounts busy_session) = 1" by (simp add: busy_session_def)
  from detach_removes_the_view [OF busy_session_ok run] obtain mp s' b i where
    d: "get_sandbox ''box'' (ss_world busy_session) = Some s'" "om_get (sb_attaches s') (components mp) = Some b"
      "i < length (ss_mounts busy_session)" "ss_mounts S' = vec_remove i (ss_mounts busy_session)"
      "settled (scope_ids ''box'' (\<lambda>q. pending_attach_id q = Some (at_id b)) (ss_world busy_session)) Cancel (ss_world busy_session) (ss_world S')"
    by blast
  have "s' = attached_sandbox" using d(1) by (simp add: busy_session_def busy_world_simps)
  then have "at_id b = 2" using d(2) by (auto simp: attached_sandbox_def split: if_splits)
  then have "3 \<in> scope_ids ''box'' (\<lambda>q. pending_attach_id q = Some (at_id b)) (ss_world busy_session)"
    by (simp add: scope_ids_def busy_session_def busy_world_simps)
  moreover have "waiter_of (ss_world busy_session) 3 = Some 0" by (simp add: busy_session_def busy_world_simps)
  ultimately have "w_cells (ss_world S') 0 = Some Cancel" "pending_of (ss_world S') 3 = None"
    using d(5) by (auto simp: settled_def)
  with run d(3,4) one show ?thesis by (simp add: vec_remove_def)
qed

text \<open>
  The code leaves the grants of a destroyed sandbox in the registry, although the documents say
  that they are discarded.
\<close>

lemma destroy_keeps_grants:
  assumes "session_ok S" and "session_destroy E name S = (Inr resp, S')"
  shows "rg_read_write_grants (w_registry (ss_world S')) = rg_read_write_grants (w_registry (ss_world S))"
  using assms(2,1) by (cases rule: destroy_cases) simp_all

text \<open>
  C22: After a destroy that succeeds nothing of the sandbox is left: no sandbox, no pending
  request, no mounted file system and no trusted operation; the invariant holds. Grants are
  not among what is removed (lemma \<open>destroy_keeps_grants\<close>, a divergence from the documents).
\<close>

theorem destroy_leaves_nothing:
  assumes "session_ok S" and "session_destroy E name S = (Inr resp, S')"
  shows "session_ok S' \<and> get_sandbox name (ss_world S') = None
    \<and> (\<forall>i q. pending_of (ss_world S') i = Some q \<longrightarrow> pending_sandbox q \<noteq> name)
    \<and> (\<forall>m \<in> set (ss_mounts S'). ms_sandbox m \<noteq> name)
    \<and> (\<forall>t \<in> set (om_values (rg_trusted (w_registry (ss_world S')))). tr_sandbox t \<noteq> name)"
  using assms(2,1)
proof (cases rule: destroy_cases)
  case (removed S1 s')
  have ok1: "session_ok S1" using removed(1) by (simp add: safe_step_def)
  note r = removed_sandbox_session_ok [OF ok1 removed(2,3) removed(4) removed(5,6,7,8)]
  have "pending_of (ss_world S') = pending_of (ss_world S1)" by (simp add: removed(5))
  with r removed(4) show ?thesis by (auto simp: removed(5,9,10) om_values_def)
qed simp

theorem destroy_leaves_nothing_witness:
  "\<exists>S'. session_destroy calm_env ''box'' busy_session = (Inr ResponseOk, S')
     \<and> get_sandbox ''box'' (ss_world S') = None \<and> (\<forall>m \<in> set (ss_mounts S'). ms_sandbox m \<noteq> ''box'')"
proof -
  obtain S' where run: "session_destroy calm_env ''box'' busy_session = (Inr ResponseOk, S')"
    using calm_destroy by (metis prod.collapse)
  from destroy_leaves_nothing [OF busy_session_ok run] run show ?thesis by blast
qed

end
