(* ===== verification/System.thy ===== *)
theory System
  imports Fs_Handlers Session_Attach
begin

text \<open>
  The running system: the session server and the calls of the mounted file systems share the
  registry and interleave between their critical sections. A call that waits holds the cells
  its decisions will be put into; the steps are the requests of the protocol, the entry of a
  call up to its wait, and its return once it is decided. The invariant shows that no wakeup
  is ever lost: a blocked call always has its request pending, where a decision, a
  cancellation, a detach or the end of the sandbox reaches it.
\<close>

section \<open>Queueing\<close>

text \<open>No caller is forgotten, and only requests of the sandbox \<open>name\<close> enter.\<close>

definition queues :: "string \<Rightarrow> 'h world \<Rightarrow> 'h world \<Rightarrow> bool" where
  "queues name w w' \<longleftrightarrow> wakes w w'
     \<and> (\<forall>i q. pending_of w' i = Some q \<longrightarrow> pending_of w i = Some q \<or> pending_sandbox q = name)"

lemma queues_trans: "queues name w w1 \<Longrightarrow> queues name w1 w2 \<Longrightarrow> queues name w w2"
  unfolding queues_def by (blast intro: wakes_trans)

lemma queues_same:
  assumes "pending_of w' = pending_of w" "waiter_of w' = waiter_of w" "w_cells w' = w_cells w"
    "w_next_cell w' = w_next_cell w" and "rg_next_operation_id (w_registry w) \<le> rg_next_operation_id (w_registry w')"
  shows "queues name w w'"
  using assms by (simp add: queues_def wakes_same)

lemma queues_tame:
  assumes "queues name w w'" and "wf_world w'" and "rg_sandboxes (w_registry w') = rg_sandboxes (w_registry w)"
    and "get_sandbox name w \<noteq> None"
  shows "tame w w'"
proof -
  note same = get_sandbox_cong [OF assms(3)] attach_of_cong [OF assms(3)]
  have "requests_homed w'" if "requests_homed w"
    using that assms(1,4) unfolding requests_homed_def queues_def same by blast
  moreover have "attaches_ok w'" if "attaches_ok w"
    using that assms(1) unfolding attaches_ok_def queues_def wakes_def same by (meson less_le_trans)
  ultimately show ?thesis using assms(1,2) by (simp add: tame_def world_ok_def same queues_def)
qed

text \<open>A request enters with a fresh id and a fresh cell.\<close>

lemma waiter_id_below:
  assumes "wf_world w" and "waiter_of w i = Some c"
  shows "i < rg_next_operation_id (w_registry w)" and "c < w_next_cell w"
proof -
  have "i \<in> request_ids (w_registry w)" using assms unfolding wf_world_def waiters_exact_def by blast
  then show "i < rg_next_operation_id (w_registry w)"
    using assms(1) by (auto simp: wf_world_def wf_registry_def used_ids_def)
  show "c < w_next_cell w" using assms unfolding wf_world_def waiters_exact_def by blast
qed

lemma queue_effect_queues:
  assumes wf: "wf_world w" and run: "queue_effect E F identity process oper log_path e w = (res, w')"
  shows "queues (mt_sandbox_name F) w w'"
  using run
proof (cases rule: queue_effect_cases)
  case failed
  have "wakes w w'" using failed by (auto simp: wakes_def next_operation_id_def)
  then show ?thesis by (simp add: queues_def failed(2) next_operation_id_def)
next
  case (queued request)
  let ?n = "rg_next_operation_id (w_registry w)"
  have waiters: "waiter_of w' = (waiter_of w)(?n \<mapsto> w_next_cell w)" by (auto simp: queued(3) fun_eq_iff)
  have "wakes w w'"
    using waiter_id_below [OF wf] queued(4,5) unfolding wakes_def waiters
    by (auto simp: queued(3) insert_pending_read_write_request_def next_operation_id_def)
  moreover have "pending_of w i = Some q \<or> pending_sandbox q = mt_sandbox_name F" if "pending_of w' i = Some q" for i q
    using that queued(1)
    by (auto simp: queued(3) get_any_pending_def insert_pending_read_write_request_def next_operation_id_def
        with_process_identity_def new_with_attach_effect_def split: option.splits if_splits)
  ultimately show ?thesis by (simp add: queues_def)
qed

lemma match_grant_queues:
  assumes "wf_world w"
    and m: "match_read_write_grant_for_intent G sandbox kind path identity now (w_registry w) = (outcome, r)"
  shows "queues name w (w\<lparr>w_registry := r\<rparr>)" and "wf_world (w\<lparr>w_registry := r\<rparr>)"
proof -
  have wfr: "wf_registry (w_registry w)" using assms(1) by (simp add: wf_world_def)
  note mg = match_grant_step [OF wfr m]
  have "rg_next_operation_id r = rg_next_operation_id (w_registry w)"
    using match_grant_cases [of "w_registry w" G sandbox kind path identity now, unfolded m] wfr
    by (auto simp: wf_registry_def wf_maps_def split: if_splits)
  moreover have "get_any_pending r = get_any_pending (w_registry w)"
    using mg(2,3) by (intro get_any_pending_cong) (simp_all add: gate_step_def)
  ultimately show "queues name w (w\<lparr>w_registry := r\<rparr>)" using mg(4) by (intro queues_same) simp_all
  show "wf_world (w\<lparr>w_registry := r\<rparr>)"
    using mg assms(1) by (intro wf_world_registry) (simp_all add: gate_step_def)
qed

lemma queues_fresh: "queues name w (snd (fresh_operation_id w))"
  by (rule queues_same) (simp_all add: next_operation_id_def)

lemma authorize_effects_queues:
  assumes "wf_world w"
    and "authorize_effects E F identity process now oper log_path es consumed queued w = (res, w')"
  shows "queues (mt_sandbox_name F) w w'"
  using assms
proof (induction es arbitrary: consumed queued w)
  case Nil
  then show ?case by (simp add: queues_same)
next
  case (Cons e es)
  show ?case
  proof (cases "fs_sandbox F w")
    case None
    with Cons.prems show ?thesis by (simp add: queues_same)
  next
    case (Some s)
    obtain outcome r where m: "match_read_write_grant_for_intent (env_glob E) (mt_sandbox_name F) (eff_kind e)
      (eff_path e) process now (w_registry w) = (outcome, r)" by fastforce
    note mq = match_grant_queues [OF Cons.prems(1) m]
    show ?thesis
    proof (cases "effect_passes E w s oper e")
      case True
      with Cons.prems Some show ?thesis by (auto intro: Cons.IH)
    next
      case closed: False
      show ?thesis
      proof (cases outcome)
        case (Matched gid once)
        show ?thesis
        proof (cases once)
          case True
          let ?w1 = "snd (fresh_operation_id (w\<lparr>w_registry := r\<rparr>))"
          have "\<exists>c'. authorize_effects E F identity process now oper log_path es c' queued ?w1 = (res, w')"
            using Cons.prems(2) Some closed m Matched True by (auto simp: split_beta)
          then have "queues (mt_sandbox_name F) ?w1 w'" using Cons.IH [OF wf_world_fresh_id [OF mq(2)]] by blast
          then show ?thesis using queues_trans [OF queues_trans [OF mq(1) queues_fresh]] by blast
        next
          case False
          with Cons.prems(2) Some closed m Matched Cons.IH [OF mq(2)] queues_trans [OF mq(1)] show ?thesis by auto
        qed
      next
        case NotMatched
        obtain qr w1 where q: "queue_effect E F identity process oper log_path e (w\<lparr>w_registry := r\<rparr>) = (qr, w1)" by fastforce
        have q1: "queues (mt_sandbox_name F) w w1"
          by (rule queues_trans [OF mq(1) queue_effect_queues [OF mq(2) q]])
        have wf1: "wf_world w1" by (rule queue_effect_wf [OF mq(2) q])
        show ?thesis
          using Cons.prems(2) Some closed m NotMatched q q1 Cons.IH [OF wf1] queues_trans [OF q1]
          by (cases qr) auto
      qed
    qed
  qed
qed

lemma assign_event_ids_next:
  "rg_next_operation_id r \<le> rg_next_operation_id (snd (assign_event_ids gs r))"
proof (induction gs arbitrary: r)
  case (Cons g gs)
  from Cons.IH [of "snd (next_operation_id r)"] show ?case by (simp add: split_beta next_operation_id_def)
qed simp

lemma prune_next:
  assumes "wf_registry r"
  shows "rg_next_operation_id (snd (prune_expired_read_write_grants_for_sandbox n now r)) = rg_next_operation_id r"
  using assms by (simp add: prune_state wf_registry_def wf_maps_def)

lemma authorize_begin_queues:
  assumes wf: "wf_world w" and run: "authorize_begin E F identity oper w = (res, w')"
  shows "queues (mt_sandbox_name F) w w'"
proof (cases "fs_sandbox F w")
  case None
  with run show ?thesis by (simp add: authorize_begin_def queues_same)
next
  case (Some s)
  let ?p = "requester_process E identity w" and ?now = "os_now (env_os E) (w_host w)"
  obtain pruned r1 where p: "prune_expired_read_write_grants_for_sandbox (mt_sandbox_name F) ?now (w_registry w)
      = (pruned, r1)" by fastforce
  obtain expired r where x: "assign_event_ids pruned r1 = (expired, r)" by fastforce
  have rg: "wf_registry (w_registry w)" using wf by (simp add: wf_world_def)
  have r1: "wf_registry r1" "gate_step (w_registry w) r1" "rg_pending_waiters r1 = rg_pending_waiters (w_registry w)"
    "rg_pending_read_write r1 = rg_pending_read_write (w_registry w)"
    "rg_next_operation_id r1 = rg_next_operation_id (w_registry w)"
    using prune_step [OF rg, of "mt_sandbox_name F" ?now] prune_next [OF rg, of "mt_sandbox_name F" ?now] by (simp_all add: p)
  have r: "wf_registry r" "gate_step r1 r" "rg_pending_waiters r = rg_pending_waiters (w_registry w)"
    "rg_pending_read_write r = rg_pending_read_write (w_registry w)"
    "rg_next_operation_id (w_registry w) \<le> rg_next_operation_id r"
    using assign_event_ids_step [OF r1(1), of pruned] assign_event_ids_next [of r1 pruned] r1 by (simp_all add: x)
  have pend: "rg_pending r = rg_pending (w_registry w)" using r1(2) r(2) by (simp add: gate_step_def)
  have w0: "wf_world (w\<lparr>w_registry := r\<rparr>)" using wf r pend by (intro wf_world_registry) simp_all
  have "get_any_pending r = get_any_pending (w_registry w)" using pend r(4) by (intro get_any_pending_cong)
  then have q0: "queues (mt_sandbox_name F) w (w\<lparr>w_registry := r\<rparr>)" using r by (intro queues_same) simp_all
  obtain out w1 where a: "authorize_effects E F identity ?p ?now oper (sb_log_path s) (effects oper) [] []
      (w\<lparr>w_registry := r\<rparr>) = (out, w1)" by fastforce
  have q1: "queues (mt_sandbox_name F) w w1"
    by (rule queues_trans [OF q0 authorize_effects_queues [OF w0 a]])
  have "queues (mt_sandbox_name F) w1 (append_events E p es w1)" for p es by (rule queues_same) simp_all
  then show ?thesis
    using run Some p x a q1 queues_trans [OF q1]
    by (auto simp: authorize_begin_def Let_def requester_process_def split: sum.splits)
qed

section \<open>Metadata requests\<close>

lemma tame_apply_to_registry:
  assumes "apply_to_registry_object F object path oper w = (res, w')"
  shows "tame w w'"
  using assms
proof (cases rule: apply_to_registry_cases)
  case (applied s s')
  have "sb_attaches s' = sb_attaches s"
    using applied(3) by (auto simp: apply_metadata_override_to_object_def Let_def split: if_splits)
  then show ?thesis
    using tame_put_sandbox [of "mt_sandbox_name F" w s s'] applied(2,4) wf_sandbox_apply_to_object [OF _ applied(3)]
    by (simp add: put_sandbox_def get_sandbox_def fs_sandbox_def)
qed simp

lemma tame_attr: "attr_for_path E F path w = (res, w') \<Longrightarrow> tame w w'"
  by (rule tame_registry) (simp_all add: attr_for_path_frame)

lemma tame_apply_and_reread:
  assumes "apply_and_reread E F object path oper w = (res, w')"
  shows "tame w w'"
  using assms tame_apply_to_registry tame_attr tame_trans
  by (auto simp: apply_and_reread_def split: prod.splits sum.splits) blast+

lemma tame_begin_trusted:
  assumes "begin_trusted_metadata E F identity path oper object w = (res, w')"
  shows "tame w w'"
proof -
  obtain i w1 where f: "fresh_operation_id w = (i, w1)" by fastforce
  have t1: "tame w w1" using tame_fresh [of w] by (simp add: f)
  have t2: "tame w w2" if "append_event E p j b w1 = (x, w2)" for p j b x w2
    using tame_trans [OF t1 tame_append [of w1 E p j b]] that by simp
  show ?thesis
    using assms f t1 t2 tame_apply_and_reread tame_trans
    by (auto simp: begin_trusted_metadata_def Let_def split: option.splits prod.splits sum.splits if_splits) blast+
qed

lemma queue_metadata_queues:
  assumes wf: "wf_world w"
    and run: "queue_metadata_request E F identity path oper object unchanged log_path w = (res, w')"
  shows "queues (mt_sandbox_name F) w w'"
proof -
  define ks where "ks = pending_metadata_keys (mt_sandbox_name F) object (pending_kinds oper)"
  obtain ids r ws f w2 w4 where t: "take_index_keys ks (w_registry (snd (new_waiter w))) = (ids, r)"
    and s: "supersede E log_path (unique_ids ids) False ((snd (new_waiter w))\<lparr>w_registry := r\<rparr>) = (ws, f, w2)"
    and w4: "w_registry w4 = snd (next_operation_id (w_registry w2))" "w_cells w4 = w_cells w2" "w_next_cell w4 = w_next_cell w2"
    and eq: "(res, w') = (Inl EIO, notify_all ws Deny w4) \<or>
      (res, w') = (Inr (MetadataPending \<lparr>po_unchanged_attr = unchanged, po_path = path, po_object = object,
          po_operation = oper, po_waiter = w_next_cell w\<rparr>),
        with_registry (\<lambda>r. r\<lparr>rg_pending_waiters := om_insert (rg_next_operation_id (w_registry w2)) (w_next_cell w) (rg_pending_waiters r)\<rparr>)
          (with_registry (insert_pending_request (metadata_request_of F identity oper object (rg_next_operation_id (w_registry w2))))
            (notify_all ws Deny w4)))"
    by (rule queue_metadata_run [OF run, folded ks_def])
  let ?nw = "snd (new_waiter w)" and ?n = "rg_next_operation_id (w_registry w2)" and ?w5 = "notify_all ws Deny w4"
  note d = replace_rivals(2) [OF wf_world_new_waiter [OF wf] t s, unfolded dropped_def]
  have c2: "w_cells w2 = (w_cells w)(w_next_cell w := None)" using d by simp
  have cells5: "w_cells ?w5 c = (if Some c \<in> set ws then Some Deny else ((w_cells w)(w_next_cell w := None)) c)" for c
    using w4(2) by (simp add: c2)
  have n2: "rg_next_operation_id (w_registry w) \<le> ?n" using d by simp
  have waiters5: "waiter_of ?w5 i = (if i \<in> rivals (w_registry w) (set ks) then None else waiter_of w i)" for i
    using d w4 by (auto simp: next_operation_id_def rivals_def)
  have ws: "Some c \<in> set ws" if "i \<in> rivals (w_registry w) (set ks)" "waiter_of w i = Some c" for i c
    using d that by (auto simp: rivals_def)
  have q5: "queues (mt_sandbox_name F) w ?w5"
  proof -
    have "w_cells w c = None" if "waiter_of w i = Some c" for i c
      using wf that by (simp add: wf_world_def waiters_exact_def)
    then have "wakes w ?w5"
      unfolding wakes_def waiters5 cells5 using d w4 n2 ws by (auto simp: next_operation_id_def split: if_splits)
    moreover have "pending_of w i = Some q" if "pending_of ?w5 i = Some q" for i q
    proof -
      have "om_get (rg_pending (w_registry w)) i = None \<or> om_get (rg_pending_read_write (w_registry w)) i = None"
        using wf by (simp add: wf_world_def wf_registry_def)
      then show ?thesis
        using that d w4(1) by (auto simp: get_any_pending_def next_operation_id_def split: option.splits if_splits)
    qed
    ultimately show ?thesis by (simp add: queues_def)
  qed
  let ?q = "metadata_request_of F identity oper object ?n"
  let ?w6 = "with_registry (\<lambda>r. r\<lparr>rg_pending_waiters := om_insert ?n (w_next_cell w) (rg_pending_waiters r)\<rparr>)
    (with_registry (insert_pending_request ?q) ?w5)"
  have "queues (mt_sandbox_name F) w ?w6"
  proof -
    have w6: "waiter_of ?w6 i = (if i = ?n then Some (w_next_cell w) else waiter_of ?w5 i)" for i
      by (simp add: insert_pending_request_def)
    have fresh: "waiter_of w ?n = None" using waiter_id_below(1) [OF wf, of ?n] n2 by (cases "waiter_of w ?n") auto
    have "wakes w ?w6"
      using q5 n2 fresh unfolding wakes_def queues_def w6 by (auto simp: insert_pending_request_def split: if_splits)
    moreover have "pending_of ?w5 i = Some q \<or> pending_sandbox q = mt_sandbox_name F" if "pending_of ?w6 i = Some q" for i q
      using that
      by (auto simp: get_any_pending_def insert_pending_request_def metadata_request_of_def split: option.splits if_splits)
    ultimately show ?thesis using q5 unfolding queues_def by blast
  qed
  with q5 eq show ?thesis by auto
qed

lemma tame_begin_metadata:
  assumes wf: "wf_world w" and run: "begin_metadata_request E F identity path oper w = (res, w')"
  shows "tame w w'"
proof -
  obtain at w1 where a: "attr_for_path E F path w = (at, w1)" by fastforce
  have t1: "tame w w1" by (rule tame_attr [OF a])
  have wf1: "wf_world w1" using attr_for_path_frame(5) [OF a] wf by simp
  have q: "tame w1 w'"
    if "queue_metadata_request E F identity path oper object unchanged lp w1 = (res, w')" "fs_sandbox F w1 = Some s"
    for object unchanged lp s
    using that by (intro queues_tame [OF queue_metadata_queues [OF wf1 that(1)] queue_metadata_spec(1,2) [OF wf1 that(1)]])
      (simp add: fs_sandbox_def get_sandbox_def)
  have "tame w1 w'"
    using run a q tame_begin_trusted tame_apply_and_reread
    by (auto simp: begin_metadata_request_def split: sum.splits option.splits if_splits)
  then show ?thesis by (rule tame_trans [OF t1])
qed

lemma tame_authorize:
  assumes wf: "wf_world w" and run: "authorize_begin E F identity oper w = (res, w')"
  shows "tame w w'"
proof (cases "fs_sandbox F w")
  case None
  with run show ?thesis by (simp add: authorize_begin_def)
next
  case (Some s)
  note spec = authorize_begin_spec [OF wf Some run]
  show ?thesis
    using spec Some by (intro queues_tame [OF authorize_begin_queues [OF wf run]])
      (simp_all add: gate_step_def fs_sandbox_def get_sandbox_def)
qed

section \<open>Calls that wait\<close>

text \<open>A call of a mounted file system that waits: the requests of a read or write with their
  cells, or a metadata change with its cell.\<close>

datatype call = ReadWriteCall "(nat \<times> pending_waiter) list" | MetadataCall mount pending_metadata_outcome

record 'h system =
  sy_session :: "'h session"
  sy_calls :: "call list"

definition mount_of :: "mounted_session \<Rightarrow> mount" where
  "mount_of m = \<lparr>mt_sandbox_name = ms_sandbox m, mt_attach_id = Some (ms_attach_id m)\<rparr>"

abbreviation sy_world :: "'h system \<Rightarrow> 'h world" where
  "sy_world y \<equiv> ss_world (sy_session y)"

definition with_world :: "'h system \<Rightarrow> 'h world \<Rightarrow> 'h system" where
  "with_world y w = y\<lparr>sy_session := (sy_session y)\<lparr>ss_world := w\<rparr>\<rparr>"

text \<open>The answer a waiting read or write gets from the cells, \<open>None\<close> while it is blocked.\<close>

fun answer :: "(pending_waiter \<Rightarrow> pending_decision option) \<Rightarrow> (nat \<times> pending_waiter) list \<Rightarrow> read_write_decision option" where
  "answer cells [] = Some Proceed"
| "answer cells ((i, c) # qs) =
     (case cells c of
        None \<Rightarrow> None
      | Some Deny \<Rightarrow> Some Denied
      | Some Cancel \<Rightarrow> Some Canceled
      | Some _ \<Rightarrow> answer cells qs)"

lemma await_answer:
  "answer (w_cells w) qs = Some d \<Longrightarrow> await_decisions E (map snd qs) w = Some (d, w)"
  by (induction "w_cells w" qs rule: answer.induct)
     (auto simp: wait_for_decision_def split: option.splits pending_decision.splits)

text \<open>A metadata call whose cell is decided returns without the help of other threads.\<close>

lemma finish_decided:
  assumes "w_cells w (po_waiter p) \<noteq> None" and "finish_pending_attr E F p w = Some (res, w')"
  shows "tame w w'"
proof -
  obtain d where d: "w_cells w (po_waiter p) = Some d" using assms(1) by blast
  have wait: "wait_for_decision E (po_waiter p) w = Some (d, w)" using d by (simp add: wait_for_decision_def)
  show ?thesis
  proof (cases "d = Apply")
    case True
    obtain ra w1 where a: "apply_pending_operation F (po_operation p) (po_object p) w = (ra, w1)" by fastforce
    have t1: "tame w w1" using a tame_apply_to_registry by (simp add: apply_pending_operation_def)
    show ?thesis
      using assms(2) True wait a t1 tame_trans [OF t1 tame_attr]
      by (auto simp: finish_pending_attr_def split: sum.splits)
  next
    case False
    then show ?thesis
      using assms(2) wait by (auto simp: finish_pending_attr_def split: pending_decision.splits)
  qed
qed

lemma ioctl_decided:
  assumes "w_cells w (po_waiter p) \<noteq> None" and "spawn_ioctl_waiter E F p w = Some (rep, w')"
  shows "tame w w'"
proof -
  obtain ra w1 where a: "apply_pending_operation F (po_operation p) (po_object p) w = (ra, w1)" by fastforce
  then have "tame w w1" using tame_apply_to_registry by (simp add: apply_pending_operation_def)
  then show ?thesis
    using assms a by (auto simp: spawn_ioctl_waiter_def wait_for_decision_def split: pending_decision.splits sum.splits)
qed

lemma own_step_tame: "own_step w w' \<Longrightarrow> tame w w'"
  by (rule tame_registry) (simp_all add: own_step_def)

text \<open>
  The steps. Between a handler's gate and its reply, and in the handlers that do not ask, only
  the host and the tables of a mount change (\<open>act\<close>, which covers what other processes do to
  the host as well).
\<close>

inductive call_step :: "'h env \<Rightarrow> 'h system \<Rightarrow> 'h system \<Rightarrow> bool" for E where
  enter_read_write: "m \<in> set (ss_mounts (sy_session y)) \<Longrightarrow>
    authorize_begin E (mount_of m) identity oper (sy_world y) = (Inr queued, w') \<Longrightarrow>
    call_step E y ((with_world y w')\<lparr>sy_calls := ReadWriteCall queued # sy_calls y\<rparr>)"
| fail_read_write: "m \<in> set (ss_mounts (sy_session y)) \<Longrightarrow>
    authorize_begin E (mount_of m) identity oper (sy_world y) = (Inl e, w') \<Longrightarrow>
    call_step E y (with_world y w')"
| return_read_write: "ReadWriteCall queued \<in> set (sy_calls y) \<Longrightarrow>
    answer (w_cells (sy_world y)) queued = Some d \<Longrightarrow>
    w' = (if d = Proceed then sy_world y else cancel_unresolved_read_write_effects queued (sy_world y)) \<Longrightarrow>
    call_step E y ((with_world y w')\<lparr>sy_calls := remove1 (ReadWriteCall queued) (sy_calls y)\<rparr>)"
| enter_metadata: "m \<in> set (ss_mounts (sy_session y)) \<Longrightarrow>
    begin_metadata_request E (mount_of m) identity path oper (sy_world y) = (Inr (MetadataPending p), w') \<Longrightarrow>
    call_step E y ((with_world y w')\<lparr>sy_calls := MetadataCall (mount_of m) p # sy_calls y\<rparr>)"
| answer_metadata: "m \<in> set (ss_mounts (sy_session y)) \<Longrightarrow>
    begin_metadata_request E (mount_of m) identity path oper (sy_world y) = (res, w') \<Longrightarrow>
    (\<And>p. res \<noteq> Inr (MetadataPending p)) \<Longrightarrow>
    call_step E y (with_world y w')"
| return_metadata: "MetadataCall F p \<in> set (sy_calls y) \<Longrightarrow>
    w_cells (sy_world y) (po_waiter p) \<noteq> None \<Longrightarrow>
    finish_pending_attr E F p (sy_world y) = Some (res, w') \<Longrightarrow>
    call_step E y ((with_world y w')\<lparr>sy_calls := remove1 (MetadataCall F p) (sy_calls y)\<rparr>)"
| return_ioctl: "MetadataCall F p \<in> set (sy_calls y) \<Longrightarrow>
    w_cells (sy_world y) (po_waiter p) \<noteq> None \<Longrightarrow>
    spawn_ioctl_waiter E F p (sy_world y) = Some (rep, w') \<Longrightarrow>
    call_step E y ((with_world y w')\<lparr>sy_calls := remove1 (MetadataCall F p) (sy_calls y)\<rparr>)"
| act: "own_step (sy_world y) w' \<Longrightarrow> call_step E y (with_world y w')"

text \<open>A step of the system is one of these or a request to the server.\<close>

inductive system_step :: "'h env \<Rightarrow> 'h system \<Rightarrow> 'h system \<Rightarrow> bool" for E where
  serve: "wf_request q \<Longrightarrow> handle_result E q (sy_session y) = Some (r, S') \<Longrightarrow>
    system_step E y (y\<lparr>sy_session := S'\<rparr>)"
| call: "call_step E y z \<Longrightarrow> system_step E y z"

section \<open>No lost wakeups\<close>

text \<open>
  A call is served in a state when each of its cells is decided, or its waiter is in the table,
  or it is one of the cells of \<open>J\<close>, which somebody else is about to decide.
\<close>

fun call_served :: "pending_waiter set \<Rightarrow> 'h world \<Rightarrow> call \<Rightarrow> bool" where
  "call_served J w (ReadWriteCall queued) \<longleftrightarrow>
     (\<forall>(i, c) \<in> set queued. c < w_next_cell w \<and> i < rg_next_operation_id (w_registry w)
        \<and> (w_cells w c = None \<longrightarrow> waiter_of w i = Some c \<or> c \<in> J) \<and> (\<forall>c'. waiter_of w i = Some c' \<longrightarrow> c' = c))"
| "call_served J w (MetadataCall F p) \<longleftrightarrow>
     po_waiter p < w_next_cell w
     \<and> (w_cells w (po_waiter p) = None \<longrightarrow> (\<exists>i. waiter_of w i = Some (po_waiter p)) \<or> po_waiter p \<in> J)"

abbreviation call_ok :: "'h world \<Rightarrow> call \<Rightarrow> bool" where
  "call_ok \<equiv> call_served {}"

lemma call_served_mono: "call_served J w call \<Longrightarrow> J \<subseteq> J' \<Longrightarrow> call_served J' w call"
  by (cases call) auto

definition system_ok :: "'h system \<Rightarrow> bool" where
  "system_ok y \<longleftrightarrow> session_ok (sy_session y) \<and> (\<forall>call \<in> set (sy_calls y). call_ok (sy_world y) call)"

lemma call_served_hands:
  assumes "hands ws w ws' w'" and "call_served (set ws \<union> J) w call"
  shows "call_served (set ws' \<union> J) w' call"
proof -
  have kept: "waiter_of w' i = Some c \<or> c \<in> set ws' \<union> J"
    if "c < w_next_cell w" "w_cells w' c = None" "waiter_of w i = Some c \<or> c \<in> set ws \<union> J" for i c
    using assms(1) that unfolding hands_def by blast
  have open_before: "w_cells w c = None" if "c < w_next_cell w" "w_cells w' c = None" for c
    using assms(1) that unfolding hands_def by (cases "w_cells w c") auto
  show ?thesis
  proof (cases call)
    case (ReadWriteCall queued)
    have "c < w_next_cell w' \<and> i < rg_next_operation_id (w_registry w')
        \<and> (w_cells w' c = None \<longrightarrow> waiter_of w' i = Some c \<or> c \<in> set ws' \<union> J) \<and> (\<forall>c'. waiter_of w' i = Some c' \<longrightarrow> c' = c)"
      if "(i, c) \<in> set queued" for i c
    proof -
      have *: "c < w_next_cell w" "i < rg_next_operation_id (w_registry w)"
        "w_cells w c = None \<longrightarrow> waiter_of w i = Some c \<or> c \<in> set ws \<union> J" "\<forall>c'. waiter_of w i = Some c' \<longrightarrow> c' = c"
        using assms(2) that ReadWriteCall by auto
      have "c < w_next_cell w'" "i < rg_next_operation_id (w_registry w')"
        using assms(1) *(1,2) unfolding hands_def by linarith+
      moreover have "\<forall>c'. waiter_of w' i = Some c' \<longrightarrow> c' = c" using assms(1) *(2,4) unfolding hands_def by blast
      ultimately show ?thesis using kept [OF *(1)] open_before [OF *(1)] *(3) by blast
    qed
    then show ?thesis using ReadWriteCall by auto
  next
    case (MetadataCall F p)
    then have *: "po_waiter p < w_next_cell w"
      "w_cells w (po_waiter p) = None \<longrightarrow> (\<exists>i. waiter_of w i = Some (po_waiter p)) \<or> po_waiter p \<in> set ws \<union> J"
      using assms(2) by simp_all
    have "po_waiter p < w_next_cell w'" using assms(1) *(1) unfolding hands_def by linarith
    moreover have "(\<exists>i. waiter_of w' i = Some (po_waiter p)) \<or> po_waiter p \<in> set ws' \<union> J" if "w_cells w' (po_waiter p) = None"
      using kept [OF *(1) that] open_before [OF *(1) that] *(2) by blast
    ultimately show ?thesis using MetadataCall by simp
  qed
qed

lemma call_served_wakes: "wakes w w' \<Longrightarrow> call_served J w call \<Longrightarrow> call_served J w' call"
  using call_served_hands [OF wakes_hands, of w w' "[]" J call] by simp

text \<open>Giving up: the requests of the call that are still pending leave.\<close>

lemma cancel_unresolved_tame:
  assumes "world_ok w" and "call_served J w (ReadWriteCall queued)"
  shows "tame w (cancel_unresolved_read_write_effects queued w)"
  using assms
proof (induction queued arbitrary: w)
  case Nil
  then show ?case by simp
next
  case (Cons ic queued)
  obtain i c where ic: "ic = (i, c)" by fastforce
  have wf: "wf_world w" and wfr: "wf_registry (w_registry w)" using Cons.prems(1) by (simp_all add: world_ok_def wf_world_def)
  show ?case
  proof (cases "om_get (rg_pending_read_write (w_registry w)) i")
    case None
    then have "cancel_unresolved_read_write_effects (ic # queued) w = cancel_unresolved_read_write_effects queued w"
      using remove_read_write_absent [OF wfr, of i] by (simp add: ic)
    with Cons show ?thesis by simp
  next
    case (Some q)
    note rem = remove_any_read_write(1) [OF wfr Some]
    let ?r = "snd (remove_pending_read_write_request i (w_registry w))"
    let ?w1 = "w\<lparr>w_registry := ?r\<lparr>rg_pending_waiters := om_remove i (rg_pending_waiters ?r)\<rparr>\<rparr>"
    let ?w2 = "notify_waiter (Some c) Cancel ?w1"
    have "i \<in> request_ids (w_registry w)" using Some by (auto simp: request_ids_def om_keys_dom)
    then obtain c' where c': "waiter_of w i = Some c'" using wf unfolding wf_world_def waiters_exact_def by blast
    then have wait: "waiter_of w i = Some c" using Cons.prems(2) by (simp add: ic)
    have t: "taken {i} [waiter_of w i] w ?w1"
      using wf rem by (intro take_one [where n = "rg_next_operation_id (w_registry w)"])
        (simp_all add: remove_pending_read_write_request_def Some)
    have st: "settled {i} Cancel w ?w2"
      using taken_settled [OF t refl refl refl, of Cancel] by (simp add: wait notify_all_def)
    have wf2: "wf_world ?w2" using wf_world_settled [OF wf st] t by (simp add: taken_def)
    have t2: "tame w ?w2"
      using t st wf2 by (intro tame_taken [where v = ?w1 and d = Cancel]) simp_all
    note w2 = tameD [OF t2 Cons.prems(1)]
    have "call_served J ?w2 (ReadWriteCall queued)"
      using Cons.prems(2) by (intro call_served_wakes [OF w2(4)]) simp
    from Cons.IH [OF w2(1) this] have "tame ?w2 (cancel_unresolved_read_write_effects queued ?w2)" .
    moreover have "cancel_unresolved_read_write_effects (ic # queued) w = cancel_unresolved_read_write_effects queued ?w2"
      using Some by (simp add: ic remove_pending_read_write_request_def)
    ultimately show ?thesis using tame_trans [OF t2] by simp
  qed
qed

lemma enter_read_write_ok:
  assumes wf: "wf_world w" and run: "authorize_begin E F identity oper w = (Inr queued, w')"
  shows "call_ok w' (ReadWriteCall queued)"
proof (cases "fs_sandbox F w")
  case None
  with run show ?thesis by (simp add: authorize_begin_def)
next
  case (Some s)
  note spec = authorize_begin_spec [OF wf Some run]
  then have wf': "wf_world w'" and q: "queued_in (w_registry w') queued" by simp_all
  have "waiter_of w' i = Some c" if "(i, c) \<in> set queued" for i c using q that by (auto simp: queued_in_def)
  then show ?thesis using waiter_id_below [OF wf'] by fastforce
qed

lemma enter_metadata_ok:
  assumes wf: "wf_world w" and run: "begin_metadata_request E F identity path oper w = (Inr (MetadataPending p), w')"
  shows "call_ok w' (MetadataCall F p)"
proof -
  obtain at w1 where a: "attr_for_path E F path w = (at, w1)" by fastforce
  have wf1: "wf_world w1" using attr_for_path_frame(5) [OF a] wf by simp
  have no: "apply_and_reread E F object path oper v \<noteq> (Inr (MetadataPending p), w')" for object v
    by (auto simp: apply_and_reread_def split: prod.splits sum.splits)
  have no2: "begin_trusted_metadata E F identity path oper object v \<noteq> (Inr (MetadataPending p), w')" for object v
    using no by (auto simp: begin_trusted_metadata_def Let_def split: option.splits prod.splits sum.splits if_splits)
  obtain object unchanged lp where q: "queue_metadata_request E F identity path oper object unchanged lp w1 = (Inr (MetadataPending p), w')"
    using run a no no2 by (auto simp: begin_metadata_request_def split: sum.splits option.splits if_splits)
  note spec = queue_metadata_spec [OF wf1 q]
  obtain i where "waiter_of w' i = Some (po_waiter p)" using spec(4) by (auto simp: request_queued_def)
  then show ?thesis using waiter_id_below(2) [OF spec(1)] by auto
qed

section \<open>The invariant\<close>

text \<open>Machines whose steps keep an invariant.\<close>

locale invariant_machine =
  fixes start :: "'s \<Rightarrow> bool" and step :: "'s \<Rightarrow> 's \<Rightarrow> bool" and inv :: "'s \<Rightarrow> bool"
  assumes start_inv: "start s \<Longrightarrow> inv s"
    and step_inv: "inv s \<Longrightarrow> step s t \<Longrightarrow> inv t"
begin

lemma steps_inv:
  assumes "step\<^sup>*\<^sup>* s t" and "inv s"
  shows "inv t"
  using assms by (induction rule: rtranclp_induct) (auto intro: step_inv)

lemma reachable_inv: "start s \<Longrightarrow> step\<^sup>*\<^sup>* s t \<Longrightarrow> inv t"
  by (rule steps_inv [OF _ start_inv])

end

definition fresh_system :: "'h env \<Rightarrow> 'h system \<Rightarrow> bool" where
  "fresh_system E y \<longleftrightarrow> sy_calls y = [] \<and> (\<exists>rt name h. new_session E rt name h = Inr (sy_session y))"

text \<open>The steps on a host whose clock shows a time in range.\<close>

definition timed_step :: "'h env \<Rightarrow> 'h system \<Rightarrow> 'h system \<Rightarrow> bool" where
  "timed_step E y z \<longleftrightarrow> (\<forall>h. clock_ok (os_now (env_os E) h)) \<and> system_step E y z"

text \<open>A step of a file system changes the shared state in a tame way and nothing else of the session.\<close>

lemma call_step_tame:
  assumes "call_step E y z" and W: "world_ok (sy_world y)" and served: "\<forall>call \<in> set (sy_calls y). call_served J (sy_world y) call"
  shows "tame (sy_world y) (sy_world z)" and "sy_session z = (sy_session y)\<lparr>ss_world := sy_world z\<rparr>"
proof -
  have wf: "wf_world (sy_world y)" using W by (simp add: world_ok_def)
  show "sy_session z = (sy_session y)\<lparr>ss_world := sy_world z\<rparr>" using assms(1) by cases (simp_all add: with_world_def)
  from assms(1) show "tame (sy_world y) (sy_world z)"
  proof cases
    case (enter_read_write m identity oper queued w')
    then show ?thesis using tame_authorize [OF wf enter_read_write(3)] by (simp add: with_world_def)
  next
    case (fail_read_write m identity oper e w')
    then show ?thesis using tame_authorize [OF wf fail_read_write(3)] by (simp add: with_world_def)
  next
    case (return_read_write queued d w')
    have "call_served J (sy_world y) (ReadWriteCall queued)" using served return_read_write(2) by blast
    from cancel_unresolved_tame [OF W this] show ?thesis
      using return_read_write(4) by (simp add: return_read_write(1) with_world_def)
  next
    case (enter_metadata m identity path oper p w')
    then show ?thesis using tame_begin_metadata [OF wf enter_metadata(3)] by (simp add: with_world_def)
  next
    case (answer_metadata m identity path oper res w')
    then show ?thesis using tame_begin_metadata [OF wf answer_metadata(3)] by (simp add: with_world_def)
  next
    case (return_metadata F p res w')
    from finish_decided [OF return_metadata(3,4)] show ?thesis by (simp add: return_metadata(1) with_world_def)
  next
    case (return_ioctl F p rep w')
    from ioctl_decided [OF return_ioctl(3,4)] show ?thesis by (simp add: return_ioctl(1) with_world_def)
  next
    case (act w')
    from own_step_tame [OF act(2)] show ?thesis by (simp add: act(1) with_world_def)
  qed
qed

text \<open>The calls that wait after a step: those before it, and at most one that has just entered.\<close>

lemma call_step_calls:
  assumes "call_step E y z" and wf: "wf_world (sy_world y)" and "call \<in> set (sy_calls z)"
  shows "call \<in> set (sy_calls y) \<or> call_ok (sy_world z) call"
  using assms(1)
proof cases
  case (enter_read_write m identity oper queued w')
  then show ?thesis using assms(3) enter_read_write_ok [OF wf enter_read_write(3)] by (auto simp: with_world_def)
next
  case (enter_metadata m identity path oper p w')
  then show ?thesis using assms(3) enter_metadata_ok [OF wf enter_metadata(3)] by (auto simp: with_world_def)
qed (use assms(3) in \<open>auto simp: with_world_def dest: set_remove1_subset [THEN subsetD]\<close>)

lemma system_step_safe:
  assumes "system_step E y z" and ok: "system_ok y" and clock: "\<And>h. clock_ok (os_now (env_os E) h)"
  shows "safe_step (sy_session y) (sy_session z)"
proof -
  have S: "session_ok (sy_session y)" and W: "world_ok (sy_world y)"
    and calls: "\<forall>call \<in> set (sy_calls y). call_ok (sy_world y) call"
    using ok by (simp_all add: system_ok_def session_ok_def)
  from assms(1) show ?thesis
  proof cases
    case (serve q r S')
    from handle_keeps_session_ok [OF serve(3) S serve(2) clock] show ?thesis by (simp add: serve(1))
  next
    case call
    from safe_tame [OF call_step_tame(1) [OF call W calls] S] call_step_tame(2) [OF call W calls] show ?thesis by simp
  qed
qed

lemma system_step_calls:
  assumes "system_step E y z" and "wf_world (sy_world y)" and "call \<in> set (sy_calls z)"
  shows "call \<in> set (sy_calls y) \<or> call_ok (sy_world z) call"
  using assms call_step_calls by (cases rule: system_step.cases) auto

lemma system_step_ok:
  assumes "system_step E y z" and ok: "system_ok y" and clock: "\<And>h. clock_ok (os_now (env_os E) h)"
  shows "system_ok z"
proof -
  have safe: "safe_step (sy_session y) (sy_session z)" by (rule system_step_safe [OF assms])
  have wf: "wf_world (sy_world y)" using ok by (simp add: system_ok_def session_ok_def world_ok_def)
  have "call_ok (sy_world z) call" if "call \<in> set (sy_calls z)" for call
    using system_step_calls [OF assms(1) wf that] ok safe call_served_wakes [of "sy_world y" "sy_world z" "{}"]
    by (auto simp: system_ok_def safe_step_def)
  with safe show ?thesis by (simp add: system_ok_def safe_step_def)
qed

interpretation gate: invariant_machine "fresh_system E" "timed_step E" system_ok for E :: "'h env"
proof
  show "system_ok y" if "fresh_system E y" for y
    using that new_session_ok by (auto simp: fresh_system_def system_ok_def)
  show "system_ok z" if "system_ok y" "timed_step E y z" for y z
    using that system_step_ok by (auto simp: timed_step_def)
qed

lemma reachable_safe:
  assumes "system_ok y" and "(timed_step E)\<^sup>*\<^sup>* y z"
  shows "system_ok z \<and> wakes (sy_world y) (sy_world z)"
  using assms(2,1)
proof (induction rule: rtranclp_induct)
  case (step z z')
  then have ok: "system_ok z" and w: "wakes (sy_world y) (sy_world z)" by simp_all
  have "system_step E z z'" and clock: "\<And>h. clock_ok (os_now (env_os E) h)"
    using step.hyps(2) by (simp_all add: timed_step_def)
  from system_step_ok [OF this(1) ok clock] system_step_safe [OF this(1) ok clock] show ?case
    using w by (auto simp: safe_step_def intro: wakes_trans)
qed simp

lemma reachable_safe_step:
  assumes "system_ok y" and "(timed_step E)\<^sup>*\<^sup>* y z"
  shows "system_ok z \<and> safe_step (sy_session y) (sy_session z)"
  using assms(2,1)
proof (induction rule: rtranclp_induct)
  case base
  then show ?case by (simp add: system_ok_def safe_step_refl)
next
  case (step z z')
  then have ok: "system_ok z" and w: "safe_step (sy_session y) (sy_session z)" by simp_all
  have "system_step E z z'" and clock: "\<And>h. clock_ok (os_now (env_os E) h)"
    using step.hyps(2) by (simp_all add: timed_step_def)
  from system_step_ok [OF this(1) ok clock] safe_step_trans [OF w system_step_safe [OF this(1) ok clock]]
  show ?case by simp
qed

text \<open>A call is blocked while its first undecided cell is empty.\<close>

fun call_cells :: "call \<Rightarrow> pending_waiter set" where
  "call_cells (ReadWriteCall queued) = snd ` set queued"
| "call_cells (MetadataCall F p) = {po_waiter p}"

fun blocked :: "(pending_waiter \<Rightarrow> pending_decision option) \<Rightarrow> call \<Rightarrow> bool" where
  "blocked cells (ReadWriteCall queued) \<longleftrightarrow> answer cells queued = None"
| "blocked cells (MetadataCall F p) \<longleftrightarrow> cells (po_waiter p) = None"

lemma call_cells_below:
  assumes "call_ok w call" and "c \<in> call_cells call"
  shows "c < w_next_cell w"
proof (cases call)
  case (ReadWriteCall queued)
  with assms(2) obtain i where "(i, c) \<in> set queued" by auto
  with assms(1) show ?thesis by (simp add: ReadWriteCall) blast
qed (use assms in simp)

lemma answer_keeps:
  assumes "\<And>i c d. (i, c) \<in> set queued \<Longrightarrow> cells c = Some d \<Longrightarrow> cells' c = Some d" and "answer cells queued = Some v"
  shows "answer cells' queued = Some v"
  using assms
proof (induction queued)
  case (Cons ic queued)
  obtain i c where ic: "ic = (i, c)" by fastforce
  from Cons.prems(2) obtain d where d: "cells c = Some d" by (auto simp: ic split: option.splits)
  then have d': "cells' c = Some d" using Cons.prems(1) [of i c d] by (simp add: ic)
  have "answer cells queued = Some v \<Longrightarrow> answer cells' queued = Some v"
    by (rule Cons.IH) (rule Cons.prems(1), auto)
  with d d' Cons.prems(2) show ?case by (cases d) (simp_all add: ic)
qed simp

lemma answer_none: "answer cells queued = None \<Longrightarrow> \<exists>(i, c) \<in> set queued. cells c = None"
  by (induction cells queued rule: answer.induct) (auto split: option.splits pending_decision.splits)

lemma blocked_waiter:
  assumes "call_ok w call" and "blocked (w_cells w) call"
  obtains i c where "c \<in> call_cells call" "w_cells w c = None" "waiter_of w i = Some c"
proof (cases call)
  case (ReadWriteCall queued)
  then obtain i c where ic: "(i, c) \<in> set queued" "w_cells w c = None" using assms(2) answer_none [of "w_cells w" queued] by auto
  then have "waiter_of w i = Some c" using assms(1) ReadWriteCall by auto
  with ic ReadWriteCall show ?thesis by (intro that [of c i]) force+
next
  case (MetadataCall F p)
  with assms that show ?thesis by auto
qed

lemma decision_reaches:
  assumes ok: "world_ok w" and "waiter_of w i = Some c" and "pending_of w i = Some q"
  shows "w_cells (snd (session_decide E d (pending_sandbox q) i w)) c = Some d"
proof -
  obtain s where "get_sandbox (pending_sandbox q) w = Some s"
    using ok assms(3) unfolding world_ok_def requests_homed_def by blast
  from decide_settled(1) [OF _ assms(3) this prod.collapse [symmetric], where E = E and d = d] ok assms(2) show ?thesis
    by (simp add: world_ok_def settled_def)
qed

text \<open>What a waiting call has been told stays.\<close>

lemma decided_stays:
  assumes "system_ok y" and "(timed_step E)\<^sup>*\<^sup>* y z" and "call \<in> set (sy_calls y)"
    and "c \<in> call_cells call" and "w_cells (sy_world y) c = Some d"
  shows "w_cells (sy_world z) c = Some d"
proof -
  have "wakes (sy_world y) (sy_world z)" using reachable_safe [OF assms(1,2)] by blast
  moreover have "call_ok (sy_world y) call" using assms(1,3) by (simp add: system_ok_def)
  ultimately show ?thesis using assms(4,5) call_cells_below unfolding wakes_def by blast
qed

lemma verdict_stays:
  assumes "system_ok y" and "(timed_step E)\<^sup>*\<^sup>* y z" and "ReadWriteCall queued \<in> set (sy_calls y)"
    and "set qs \<subseteq> set queued" and "answer (w_cells (sy_world y)) qs = Some v"
  shows "answer (w_cells (sy_world z)) qs = Some v"
  using assms(5) by (rule answer_keeps [rotated]) (use assms(4) decided_stays [OF assms(1-3)] in force)

section \<open>A small system for evaluation\<close>

definition live_env :: "unit env" where
  "live_env = calm_env\<lparr>env_os := (env_os calm_env)\<lparr>os_truncate_file := (\<lambda>h _. (Inr (), h))\<rparr>\<rparr>"

definition demo_runtime :: runtime_paths where
  "demo_runtime = \<lparr>rt_runtime_dir = ''/run'', rt_log_dir = ''/run'', rt_socket_override = None\<rparr>"

lemma live_clock: "clock_ok (os_now (env_os live_env) h)"
  using busy_clock [of Apply] by (simp add: live_env_def calm_env_def)

lemma live_session: "\<exists>S. new_session live_env demo_runtime ''box'' () = Inr S"
  by (simp add: new_session_def create_initial_def validate_name_def log_reset_def log_request_def reset_log_file_def
      create_parent_def live_env_def calm_env_def demo_env_def demo_host_def new_state_def Let_def eval_simps
      split: option.splits)

definition busy_system :: "unit system" where
  "busy_system = \<lparr>sy_session = busy_session, sy_calls = [ReadWriteCall [(3, 0)], ReadWriteCall [(4, 1)]]\<rparr>"

lemma busy_system_ok: "system_ok busy_system"
  using busy_session_ok
  by (simp add: system_ok_def busy_system_def busy_session_def busy_world_simps) (simp add: busy_world_def)

text \<open>A client that sends requests one after the other.\<close>

fun serve_all :: "'h env \<Rightarrow> request list \<Rightarrow> 'h session \<Rightarrow> 'h session option" where
  "serve_all E [] S = Some S"
| "serve_all E (q # qs) S =
     (case handle_result E q S of None \<Rightarrow> None | Some (_, S) \<Rightarrow> serve_all E qs S)"

lemma serve_all_reachable:
  assumes "serve_all E qs S = Some S'" and "\<forall>q \<in> set qs. wf_request q" and "\<And>h. clock_ok (os_now (env_os E) h)"
  shows "(timed_step E)\<^sup>*\<^sup>* \<lparr>sy_session = S, sy_calls = []\<rparr> \<lparr>sy_session = S', sy_calls = []\<rparr>"
  using assms(1,2)
proof (induction qs arbitrary: S)
  case (Cons q qs)
  then obtain r S1 where q: "handle_result E q S = Some (r, S1)" and rest: "serve_all E qs S1 = Some S'"
    by (auto split: option.splits)
  have "timed_step E \<lparr>sy_session = S, sy_calls = []\<rparr> \<lparr>sy_session = S1, sy_calls = []\<rparr>"
    using system_step.serve [of q E "\<lparr>sy_session = S, sy_calls = []\<rparr>" r S1] q Cons.prems(2) assms(3)
    by (simp add: timed_step_def)
  moreover have "(timed_step E)\<^sup>*\<^sup>* \<lparr>sy_session = S1, sy_calls = []\<rparr> \<lparr>sy_session = S', sy_calls = []\<rparr>"
    using Cons.IH [OF rest] Cons.prems(2) by simp
  ultimately show ?case by (rule converse_rtranclp_into_rtranclp)
qed simp

section \<open>Properties\<close>

text \<open>
  C4: Server requests and file system calls interleave: in every state reachable from a new
  session the invariant of the session holds, and every waiting call is either decided or
  still has its request in the table of waiters.
\<close>

theorem system_invariant:
  assumes "fresh_system E s" and "(timed_step E)\<^sup>*\<^sup>* s y"
  shows "session_ok (sy_session y) \<and> (\<forall>call \<in> set (sy_calls y). call_ok (sy_world y) call)"
  using gate.reachable_inv [OF assms] by (simp add: system_ok_def)

theorem system_invariant_witness:
  "\<exists>S r S'. new_session live_env demo_runtime ''box'' () = Inr S
     \<and> handle_result live_env (Hide ''box'' [''key'']) S = Some (r, S') \<and> session_ok S'"
proof -
  obtain S where S: "new_session live_env demo_runtime ''box'' () = Inr S" using live_session by blast
  let ?s = "\<lparr>sy_session = S, sy_calls = []\<rparr>"
  obtain r S' where h: "handle_result live_env (Hide ''box'' [''key'']) S = Some (r, S')"
    by (cases "in_world (session_hide live_env ''box'' [''key'']) S") simp
  have "wf_request (Hide ''box'' [''key''])" by (simp add: eval_simps)
  then have "timed_step live_env ?s (?s\<lparr>sy_session := S'\<rparr>)"
    using system_step.serve [of "Hide ''box'' [''key'']" live_env ?s r S'] h live_clock by (simp add: timed_step_def)
  then have run: "(timed_step live_env)\<^sup>*\<^sup>* ?s (?s\<lparr>sy_session := S'\<rparr>)" by (rule r_into_rtranclp)
  have "fresh_system live_env ?s" using S by (auto simp: fresh_system_def)
  from system_invariant [OF this run] S h show ?thesis by auto
qed

text \<open>
  C5: No wakeup is lost. Where the invariant holds, a blocked call has a request that is
  still pending and that the server can decide, and each of the four decisions on it is put
  into the very cell the call waits for.
\<close>

theorem no_lost_wakeup:
  assumes "system_ok y" and "call \<in> set (sy_calls y)" and "blocked (w_cells (sy_world y)) call"
  shows "\<exists>i c q. c \<in> call_cells call \<and> w_cells (sy_world y) c = None \<and> pending_of (sy_world y) i = Some q
    \<and> (\<forall>E d. w_cells (snd (session_decide E d (pending_sandbox q) i (sy_world y))) c = Some d)"
proof -
  have ok: "world_ok (sy_world y)" and c: "call_ok (sy_world y) call"
    using assms(1,2) by (simp_all add: system_ok_def session_ok_def)
  obtain i c where ic: "c \<in> call_cells call" "w_cells (sy_world y) c = None" "waiter_of (sy_world y) i = Some c"
    using blocked_waiter [OF c assms(3)] by blast
  then obtain q where q: "pending_of (sy_world y) i = Some q"
    using ok unfolding world_ok_def wf_world_def waiters_exact_def request_ids_get_any by blast
  show ?thesis using ic q decision_reaches [OF ok ic(3) q] by blast
qed

theorem no_lost_wakeup_witness:
  "\<exists>i. \<exists>q. pending_of busy_world i = Some q
     \<and> w_cells (snd (session_decide (demo_env Apply) Deny (pending_sandbox q) i busy_world)) 0 = Some Deny"
proof -
  have "blocked (w_cells (sy_world busy_system)) (ReadWriteCall [(3, 0)])"
    by (simp add: busy_system_def busy_session_def busy_world_simps)
  from no_lost_wakeup [OF busy_system_ok _ this] show ?thesis
    by (auto simp: busy_system_def busy_session_def)
qed

text \<open>
  C6: Decisions are final. Whatever the server and the other callers do after a waiting call has
  been told its decision, be it a second answer or the cancellation of the whole sandbox, the
  call reads the decision it was given first, and so comes to the same verdict.
\<close>

theorem decisions_are_final:
  assumes "system_ok y" and "(timed_step E)\<^sup>*\<^sup>* y z" and "call \<in> set (sy_calls y)"
  shows "(\<forall>c \<in> call_cells call. \<forall>d. w_cells (sy_world y) c = Some d \<longrightarrow> w_cells (sy_world z) c = Some d)
    \<and> (\<forall>queued v. call = ReadWriteCall queued \<longrightarrow>
          answer (w_cells (sy_world y)) queued = Some v \<longrightarrow> answer (w_cells (sy_world z)) queued = Some v)"
  using decided_stays [OF assms] verdict_stays [OF assms(1,2)] assms(3) by blast

theorem decisions_are_final_witness:
  "\<exists>S r r' S'. handle_result live_env (DenyRequest ''box'' 3) busy_session = Some (r, S)
     \<and> handle_result live_env (CancelAll ''box'' None) S = Some (r', S') \<and> w_cells (ss_world S') 0 = Some Deny"
proof -
  obtain r S where deny: "handle_result live_env (DenyRequest ''box'' 3) busy_session = Some (r, S)"
    by (cases "in_world (session_deny live_env ''box'' 3) busy_session") simp
  obtain r' S' where cancel: "handle_result live_env (CancelAll ''box'' None) S = Some (r', S')"
    by (cases "in_world (cancel_all live_env ''box'' None) S") simp
  let ?y = "busy_system\<lparr>sy_session := S\<rparr>" and ?z = "busy_system\<lparr>sy_session := S'\<rparr>"
  have busy: "sy_session busy_system = busy_session" by (simp add: busy_system_def)
  have first: "system_step live_env busy_system ?y"
    using system_step.serve [of "DenyRequest ''box'' 3" live_env busy_system r S] deny by (simp add: busy)
  have "system_step live_env ?y ?z"
    using system_step.serve [of "CancelAll ''box'' None" live_env ?y r' S'] cancel by simp
  then have run: "(timed_step live_env)\<^sup>*\<^sup>* ?y ?z" using live_clock by (auto simp: timed_step_def)
  have ok: "system_ok ?y" by (rule system_step_ok [OF first busy_system_ok live_clock])
  have "w_cells (ss_world S) 0 = Some Deny"
    using decision_reaches [of busy_world 3 0 "PendingReadWrite (waiting_write 3)" live_env Deny] busy_system_ok deny
    by (auto simp: system_ok_def session_ok_def busy_system_def busy_session_def busy_world_simps session_decide_def in_world_def
        split: prod.splits)
  with decisions_are_final [OF ok run, of "ReadWriteCall [(3, 0)]"] deny cancel show ?thesis
    by (auto simp: busy_system_def)
qed

text \<open>
  C25: A failed unmount cannot be repaired. When the unmount of a detach fails once, its mounted
  session has already been dropped; whatever requests and calls follow, and whether later unmounts
  would work or not, the attach stays recorded, every detach of that mount point, by whatever path
  leads to it, fails because no mounted session is found, and the sandbox cannot be destroyed.
\<close>

theorem failed_unmount_blocks_detach:
  assumes "system_ok y" and "session_detach E name mountpoint (sy_session y) = (r, S')"
    and "canonicalize_maybe_existing (env_os E) (w_host (sy_world y)) mountpoint = Inr mp"
    and "get_attach name mp (sy_world y) = Inr (s, a)"
    and "os_umount_and_join (env_os E) (w_host (snd (cancel_attached_view E name (at_id a) ''detach'' (sy_world y)))) mp = (Inl e, h)"
    and "(timed_step E)\<^sup>*\<^sup>* (y\<lparr>sy_session := S'\<rparr>) z"
  shows "attach_of (sy_world z) name (components mp) = Some a
    \<and> (\<forall>path mp'. canonicalize_maybe_existing (env_os E) (w_host (sy_world z)) path = Inr mp' \<longrightarrow>
         components mp' = components mp \<longrightarrow>
         fst (session_detach E name path (sy_session z)) = Inl (Message (''mount session not found: '' @ to_string_lossy mp')))
    \<and> (\<exists>err. fst (session_destroy E name (sy_session z)) = Inl err)"
proof -
  have S: "session_ok (sy_session y)" using assms(1) by (simp add: system_ok_def)
  have st: "safe_step (sy_session y) S'" by (rule detach_keeps_session_ok [OF assms(2) S])
  then have "system_ok (y\<lparr>sy_session := S'\<rparr>)"
    using assms(1) call_served_wakes [of "sy_world y" "ss_world S'" "{}"] by (auto simp: system_ok_def safe_step_def)
  from reachable_safe_step [OF this assms(6)] have z: "session_ok (sy_session z)" "keeps_orphans S' (sy_session z)"
    by (simp_all add: safe_step_def)
  have "orphan name (components mp) a S'" by (rule failed_unmount_orphan [OF S assms(2-5)])
  with z(2) have o: "orphan name (components mp) a (sy_session z)" by (simp add: keeps_orphans_def)
  have "fst (session_detach E name path (sy_session z)) = Inl (Message (''mount session not found: '' @ to_string_lossy mp'))"
    if "canonicalize_maybe_existing (env_os E) (w_host (sy_world z)) path = Inr mp'" "components mp' = components mp" for path mp'
    by (rule detach_orphan [OF _ that(1)]) (use o that(2) in simp)
  with destroy_with_orphan [OF o z(1)] o show ?thesis by (auto simp: orphan_def)
qed

theorem failed_unmount_blocks_detach_witness:
  "\<exists>r S' r' S'' m err. session_detach (demo_env Apply) ''box'' ''/mnt'' busy_session = (r, S')
     \<and> handle_result (demo_env Apply) (Hide ''box'' [''key'']) S' = Some (r', S'')
     \<and> fst (session_detach (demo_env Apply) ''box'' ''/mnt'' S'') = Inl (Message m)
     \<and> fst (session_destroy (demo_env Apply) ''box'' S'') = Inl err"
proof -
  let ?E = "demo_env Apply" and ?w = "sy_world busy_system"
  have busy: "sy_session busy_system = busy_session" by (simp add: busy_system_def)
  obtain r S' where run: "session_detach ?E ''box'' ''/mnt'' (sy_session busy_system) = (r, S')" by fastforce
  have c: "canonicalize_maybe_existing (env_os ?E) h ''/mnt'' = Inr ''/mnt''" for h
    by (simp add: canonicalize_maybe_existing_def demo_env_def demo_host_def empty_host_def eval_simps)
  have u: "\<exists>e h'. os_umount_and_join (env_os ?E) h ''/mnt'' = (Inl e, h')" for h
    by (simp add: demo_env_def demo_host_def empty_host_def)
  obtain s a where att: "get_attach ''box'' ''/mnt'' ?w = Inr (s, a)"
    by (simp add: busy get_attach_def busy_session_def busy_world_simps attached_sandbox_def)
  obtain e h where um: "os_umount_and_join (env_os ?E) (w_host (snd (cancel_attached_view ?E ''box'' (at_id a) ''detach'' ?w))) ''/mnt'' = (Inl e, h)"
    using u by blast
  obtain r' S'' where hide: "handle_result ?E (Hide ''box'' [''key'']) S' = Some (r', S'')"
    by (cases "in_world (session_hide ?E ''box'' [''key'']) S'") simp
  let ?y = "busy_system\<lparr>sy_session := S'\<rparr>" and ?z = "busy_system\<lparr>sy_session := S''\<rparr>"
  have "wf_request (Hide ''box'' [''key''])" by (simp add: eval_simps)
  then have "timed_step ?E ?y ?z"
    using system_step.serve [of "Hide ''box'' [''key'']" ?E ?y r' S''] hide by (simp add: timed_step_def busy_clock)
  then have reach: "(timed_step ?E)\<^sup>*\<^sup>* ?y ?z" by (rule r_into_rtranclp)
  from failed_unmount_blocks_detach [OF busy_system_ok run c att um reach] c run hide busy show ?thesis by auto
qed

end
