(* ===== verification/Threads.thy ===== *)
theory Threads
  imports System
begin

text \<open>
  The threads of the server (\<^verbatim>\<open>src/session.rs\<close>). Every connection is served by a thread of its own,
  and a request that locks the registry several times lets other threads and file systems in
  between. Here each request is a sequence of sections, one per critical section or call of the
  operating system, with what the thread carries from one to the next. Run alone, the
  sections are the functions of \<open>Session\<close>; run in any order with the sections of other threads
  and the steps of the file systems they keep the shared state well-formed, and every waiter that
  a thread has taken out of the table is told by that thread.
\<close>

section \<open>Sections\<close>

text \<open>
  A thread has answered, or goes on with a section. The waiters it holds, having taken them out of
  the table, are part of it, with the decision it is going to tell them. A section that does not
  end (a process table with a cycle) has no result.
\<close>

datatype 'h thread =
    Answered "response res"
  | Section "(pending_waiter \<times> pending_decision) list" "'h session \<Rightarrow> ('h thread \<times> 'h session) option"

fun held :: "'h thread \<Rightarrow> (pending_waiter \<times> pending_decision) list" where
  "held (Answered r) = []"
| "held (Section ws f) = ws"

text \<open>A thread run to its end without interruption.\<close>

primrec run_thread :: "'h thread \<Rightarrow> 'h session \<Rightarrow> (response res \<times> 'h session) option" where
  "run_thread (Answered r) = (\<lambda>S. Some (r, S))"
| "run_thread (Section ws f) =
     (\<lambda>S. case map_option (map_prod run_thread id) (f S) of None \<Rightarrow> None | Some (rest, S') \<Rightarrow> rest S')"

lemma run_section [simp]:
  "run_thread (Section ws f) S = (case f S of None \<Rightarrow> None | Some (t, S') \<Rightarrow> run_thread t S')"
  by (simp split: option.split)

declare run_thread.simps(2) [simp del]

definition look :: "('h session \<Rightarrow> 'h thread) \<Rightarrow> 'h thread" where
  "look f = Section [] (\<lambda>S. Some (f S, S))"

definition locked :: "('h world \<Rightarrow> 'a \<times> 'h world) \<Rightarrow> ('a \<Rightarrow> 'h thread) \<Rightarrow> 'h thread" where
  "locked f k = Section [] (\<lambda>S. case in_world f S of (x, S) \<Rightarrow> Some (k x, S))"

lemma run_look [simp]: "run_thread (look f) S = run_thread (f S) S"
  by (simp add: look_def)

lemma run_locked [simp]: "run_thread (locked f k) S = (case in_world f S of (x, S) \<Rightarrow> run_thread (k x) S)"
  by (simp add: locked_def split: prod.split)

section \<open>Cancelling\<close>

definition promises :: "pending_waiter option list \<Rightarrow> pending_decision \<Rightarrow> (pending_waiter \<times> pending_decision) list" where
  "promises ws d = List.map_filter (map_option (\<lambda>c. (c, d))) ws"

fun notify_thread :: "pending_waiter option list \<Rightarrow> pending_decision \<Rightarrow> 'h thread \<Rightarrow> 'h thread" where
  "notify_thread [] d t = t"
| "notify_thread (c # cs) d t =
     Section (promises (c # cs) d)
       (\<lambda>S. Some (notify_thread cs d t, S\<lparr>ss_world := notify_waiter c d (ss_world S)\<rparr>))"

text \<open>\<^verbatim>\<open>cancel_all\<close> and \<^verbatim>\<open>cancel_attached_view\<close>: the requests are taken out under the lock; the log lines
  are written and the callers told after it has been released (\<^verbatim>\<open>finish_cancel_scope\<close>).\<close>

definition finish_cancel_thread ::
  "'h env \<Rightarrow> nat \<Rightarrow> string \<Rightarrow> canceled_pending list \<Rightarrow> string \<Rightarrow> nat option \<Rightarrow> string \<Rightarrow>
   (response res \<Rightarrow> 'h thread) \<Rightarrow> 'h thread"
where
  "finish_cancel_thread E scope_event_id log_path canceled scope attach_id reason k =
     Section (promises (map cp_waiter canceled) Cancel)
       (\<lambda>S. case log_canceled E log_path reason canceled
                  (append_event E log_path scope_event_id
                     (''cancel'' @ format_attach_field attach_id @ '' scope='' @ scope @ '' reason='' @ reason
                      @ '' count='' @ show_nat (length canceled)) (ss_world S)) of
              (logged, w) \<Rightarrow>
                Some (notify_thread (map cp_waiter canceled) Cancel
                        (k (case logged of Inl e \<Rightarrow> Inl e | Inr _ \<Rightarrow> Inr ResponseOk)),
                      S\<lparr>ss_world := w\<rparr>))"

definition cancel_thread ::
  "'h env \<Rightarrow> string \<Rightarrow> (pending_request \<Rightarrow> bool) \<Rightarrow> string \<Rightarrow> nat option \<Rightarrow> string \<Rightarrow>
   (response res \<Rightarrow> 'h thread) \<Rightarrow> 'h thread"
where
  "cancel_thread E name in_scope scope attach_id reason k =
     Section []
       (\<lambda>S. case get_sandbox name (ss_world S) of
              None \<Rightarrow> Some (k (Inl (sandbox_not_found name)), S)
            | Some s \<Rightarrow>
                let w = ss_world S;
                    ids = map pending_id (filter in_scope (pending_requests_for_sandbox name (w_registry w)));
                    (scope_event_id, w) = fresh_operation_id w;
                    (canceled, w) = take_canceled attach_id ids w
                in Some (finish_cancel_thread E scope_event_id (sb_log_path s) canceled scope attach_id reason k,
                         S\<lparr>ss_world := w\<rparr>))"

definition cancel_view_thread ::
  "'h env \<Rightarrow> string \<Rightarrow> nat \<Rightarrow> string \<Rightarrow> (response res \<Rightarrow> 'h thread) \<Rightarrow> 'h thread"
where
  "cancel_view_thread E name attach_id reason =
     cancel_thread E name (\<lambda>q. pending_attach_id q = Some attach_id) ''attached-view'' (Some attach_id) reason"

definition cancel_all_thread ::
  "'h env \<Rightarrow> string \<Rightarrow> string option \<Rightarrow> (response res \<Rightarrow> 'h thread) \<Rightarrow> 'h thread"
where
  "cancel_all_thread E name mountpoint k =
     (case mountpoint of
        Some path \<Rightarrow>
          look (\<lambda>S. case canonicalize_maybe_existing (env_os E) (w_host (ss_world S)) path of
                      Inl e \<Rightarrow> k (Inl e)
                    | Inr mp \<Rightarrow>
                        look (\<lambda>S. case get_attach name mp (ss_world S) of
                                    Inl e \<Rightarrow> k (Inl e)
                                  | Inr (s, a) \<Rightarrow> cancel_view_thread E name (at_id a) ''cancel-all'' k))
      | None \<Rightarrow> cancel_thread E name (\<lambda>_. True) ''sandbox'' None ''cancel-all'' k)"

text \<open>\<^verbatim>\<open>cancel\<close>: unlike \<^verbatim>\<open>allow\<close> and \<^verbatim>\<open>deny\<close> it gives the lock back before it writes the log line and tells
  the caller.\<close>

definition tell_canceled_thread ::
  "'h env \<Rightarrow> string \<Rightarrow> nat \<Rightarrow> string \<Rightarrow> pending_waiter option \<Rightarrow> 'h thread"
where
  "tell_canceled_thread E log_path event_id body waiter =
     Section (promises [waiter] Cancel)
       (\<lambda>S. case append_event E log_path event_id body (ss_world S) of
              (logged, w) \<Rightarrow>
                Some (notify_thread [waiter] Cancel
                        (Answered (case logged of Inl e \<Rightarrow> Inl e | Inr _ \<Rightarrow> Inr ResponseOk)),
                      S\<lparr>ss_world := w\<rparr>))"

definition cancel_request_thread :: "'h env \<Rightarrow> string \<Rightarrow> nat \<Rightarrow> string \<Rightarrow> 'h thread" where
  "cancel_request_thread E name i reason =
     Section []
       (\<lambda>S. case take_request name i (ss_world S) of
              (Inl e, w) \<Rightarrow> Some (Answered (Inl e), S\<lparr>ss_world := w\<rparr>)
            | (Inr pending, w) \<Rightarrow>
                let (event_id, w) = fresh_operation_id w
                in case get_sandbox name w of
                     None \<Rightarrow> Some (Answered (Inl (sandbox_not_found name)), S\<lparr>ss_world := w\<rparr>)
                   | Some s \<Rightarrow>
                       let (waiter, w) = take_waiter i w
                       in Some (tell_canceled_thread E (sb_log_path s) event_id
                                  (''cancel request='' @ show_nat i @ format_attach_field (pending_attach_id pending)
                                   @ '' reason='' @ reason) waiter,
                                S\<lparr>ss_world := w\<rparr>))"

section \<open>Granting\<close>

definition grant_events :: "'h env \<Rightarrow> grant_allow_outcome \<Rightarrow> 'h world \<Rightarrow> unit res \<times> 'h world" where
  "grant_events E oc w =
     (let log_path = go_log_path oc;
          acc = append_event E log_path (go_decision_id oc) (decision_body oc) w;
          acc = (case (go_grant_event_id oc, go_grant oc) of
                   (Some i, Some g) \<Rightarrow> and_log E log_path i (format_grant_created_body g) acc
                 | _ \<Rightarrow> acc)
      in (case (go_consumed_event_id oc, go_grant oc) of
            (Some i, Some g) \<Rightarrow> and_log E log_path i (format_grant_consumed_body (grant_id g)) acc
          | _ \<Rightarrow> acc))"

definition grant_answer :: "grant_allow_outcome \<Rightarrow> unit res \<Rightarrow> response res" where
  "grant_answer oc logged =
     (case logged of
        Inl e \<Rightarrow> Inl e
      | Inr _ \<Rightarrow> Inr (case go_warning oc of Some t \<Rightarrow> ResponseWarning t | None \<Rightarrow> ResponseOk))"

text \<open>The log line and the notification of one released request.\<close>

definition announce_one ::
  "'h env \<Rightarrow> grant_allow_outcome \<Rightarrow> released_pending \<Rightarrow> unit res \<times> 'h world \<Rightarrow> unit res \<times> 'h world"
where
  "announce_one E oc rel acc =
     (case (case rel_event_id rel of
              None \<Rightarrow> acc
            | Some event_id \<Rightarrow>
                and_log E (go_log_path oc) event_id
                  (''grant-release request='' @ show_nat (rel_id rel) @ format_attach_field (rel_attach_id rel)
                   @ '' decision='' @ show_nat (go_request_id oc)) acc) of
        (logged, w) \<Rightarrow> (logged, notify_waiter (rel_waiter rel) Apply w))"

fun release_thread :: "'h env \<Rightarrow> grant_allow_outcome \<Rightarrow> released_pending list \<Rightarrow> unit res \<Rightarrow> 'h thread" where
  "release_thread E oc [] logged = Answered (grant_answer oc logged)"
| "release_thread E oc (rel # rels) logged =
     Section (promises (map rel_waiter (rel # rels)) Apply)
       (\<lambda>S. case announce_one E oc rel (logged, ss_world S) of
              (logged, w) \<Rightarrow> Some (release_thread E oc rels logged, S\<lparr>ss_world := w\<rparr>))"

definition finish_grant_thread :: "'h env \<Rightarrow> grant_allow_outcome \<Rightarrow> 'h thread" where
  "finish_grant_thread E oc =
     Section (promises (map rel_waiter (go_released oc)) Apply)
       (\<lambda>S. case grant_events E oc (ss_world S) of
              (logged, w) \<Rightarrow> Some (release_thread E oc (go_released oc) logged, S\<lparr>ss_world := w\<rparr>))"

definition allow_grant_thread :: "'h env \<Rightarrow> string \<Rightarrow> nat \<Rightarrow> read_write_grant_options \<Rightarrow> 'h thread" where
  "allow_grant_thread E name i options =
     (if opt_lifetime options = DurationRequest 0
      then Answered (Inl (Message ''duration must be greater than zero''))
      else look (\<lambda>S. let now = os_now (env_os E) (w_host (ss_world S)) in
             Section []
               (\<lambda>S. case decide_grant E name i options now (ss_world S) of
                      None \<Rightarrow> None
                    | Some (Inl e, w) \<Rightarrow> Some (Answered (Inl e), S\<lparr>ss_world := w\<rparr>)
                    | Some (Inr oc, w) \<Rightarrow> Some (finish_grant_thread E oc, S\<lparr>ss_world := w\<rparr>))))"

definition allow_thread ::
  "'h env \<Rightarrow> string \<Rightarrow> nat \<Rightarrow> bool \<Rightarrow> read_write_grant_options option \<Rightarrow> 'h thread"
where
  "allow_thread E name i do_nothing grant =
     (if do_nothing \<and> grant \<noteq> None
      then Answered (Inl (Message ''allow --do-nothing cannot be combined with read/write grant options''))
      else case grant of
             Some options \<Rightarrow> allow_grant_thread E name i options
           | None \<Rightarrow> locked (allow_plain E name i do_nothing) Answered)"

section \<open>Attaching and detaching\<close>

text \<open>\<^verbatim>\<open>attach\<close>: the check, the ids, the mount and the record of it are under locks of their own.\<close>

definition attach_ids :: "string \<Rightarrow> 'h world \<Rightarrow> (nat \<times> nat \<times> string) res \<times> 'h world" where
  "attach_ids name w =
     (let (attach_id, w) = fresh_operation_id w;
          (event_id, w) = fresh_operation_id w
      in case get_sandbox name w of
           None \<Rightarrow> (Inl (sandbox_not_found name), w)
         | Some s \<Rightarrow> (Inr (attach_id, event_id, sb_log_path s), w))"

definition record_attach ::
  "'h env \<Rightarrow> string \<Rightarrow> string \<Rightarrow> bool \<Rightarrow> nat \<Rightarrow> nat \<Rightarrow> string \<Rightarrow> 'h world \<Rightarrow> response res \<times> 'h world"
where
  "record_attach E name mp temporary attach_id event_id log_path w =
     (case get_sandbox name w of
        None \<Rightarrow> (Inl (sandbox_not_found name), w)
      | Some s \<Rightarrow>
          let attach = \<lparr>at_id = attach_id, at_mountpoint = mp, at_temporary = temporary, at_active = True\<rparr>
          in log_then_ok E log_path event_id
               (''attach attach='' @ show_nat attach_id @ '' mountpoint='' @ to_string_lossy mp)
               (put_sandbox name (s\<lparr>sb_attaches := om_insert (components mp) attach (sb_attaches s)\<rparr>) w))"

definition push_mount_thread :: "string \<Rightarrow> nat \<Rightarrow> string \<Rightarrow> bool \<Rightarrow> 'h thread \<Rightarrow> 'h thread" where
  "push_mount_thread name attach_id mp temporary t =
     Section []
       (\<lambda>S. Some (t, S\<lparr>ss_mounts := ss_mounts S @ [new_mounted name attach_id mp temporary (ss_world S)]\<rparr>))"

definition mount_thread ::
  "'h env \<Rightarrow> string \<Rightarrow> string \<Rightarrow> bool \<Rightarrow> nat \<Rightarrow> nat \<Rightarrow> string \<Rightarrow> (response res \<Rightarrow> 'h thread) \<Rightarrow> 'h thread"
where
  "mount_thread E name mp temporary attach_id event_id log_path k =
     Section []
       (\<lambda>S. case os_spawn_mount (env_os E) (w_host (ss_world S)) (''gatefs:'' @ name) mp of
              (Inl e, h) \<Rightarrow> Some (k (Inl (Io e)), S\<lparr>ss_world := (ss_world S)\<lparr>w_host := h\<rparr>\<rparr>)
            | (Inr _, h) \<Rightarrow>
                Some (push_mount_thread name attach_id mp temporary
                        (locked (record_attach E name mp temporary attach_id event_id log_path) k),
                      S\<lparr>ss_world := (ss_world S)\<lparr>w_host := h\<rparr>\<rparr>))"

definition attach_thread ::
  "'h env \<Rightarrow> string \<Rightarrow> string \<Rightarrow> bool \<Rightarrow> (response res \<Rightarrow> 'h thread) \<Rightarrow> 'h thread"
where
  "attach_thread E name mountpoint temporary k =
     look (\<lambda>S. case canonicalize_existing_dir (env_os E) (w_host (ss_world S)) mountpoint of
       Inl e \<Rightarrow> k (Inl e)
     | Inr mp \<Rightarrow>
         look (\<lambda>S. if get_sandbox name (ss_world S) = None then k (Inl (sandbox_not_found name))
           else case mountpoint_conflict name mp (w_registry (ss_world S)) of
             Some e \<Rightarrow> k (Inl e)
           | None \<Rightarrow>
               locked (attach_ids name)
                 (\<lambda>ids. case ids of
                    Inl e \<Rightarrow> k (Inl e)
                  | Inr (attach_id, event_id, log_path) \<Rightarrow>
                      mount_thread E name mp temporary attach_id event_id log_path k)))"

text \<open>\<^verbatim>\<open>detach\<close>: the attach is looked up, its requests are cancelled, the mounted session is taken out,
  unmounted, and at last the attach is removed.\<close>

definition unrecord_attach :: "string \<Rightarrow> string \<Rightarrow> 'h world \<Rightarrow> nat \<times> 'h world" where
  "unrecord_attach name mp w =
     (case fresh_operation_id w of (event_id, w) \<Rightarrow> (event_id, remove_attach name mp w))"

definition unmount_thread ::
  "'h env \<Rightarrow> string \<Rightarrow> string \<Rightarrow> nat \<Rightarrow> string \<Rightarrow> (response res \<Rightarrow> 'h thread) \<Rightarrow> 'h thread"
where
  "unmount_thread E name mp attach_id log_path k =
     Section []
       (\<lambda>S. case os_umount_and_join (env_os E) (w_host (ss_world S)) mp of
              (r, h) \<Rightarrow>
                Some (case r of
                        Inl e \<Rightarrow> k (Inl (Io e))
                      | Inr _ \<Rightarrow>
                          locked (unrecord_attach name mp)
                            (\<lambda>event_id. locked
                               (log_then_ok E log_path event_id (''detach attach='' @ show_nat attach_id)) k),
                      S\<lparr>ss_world := (ss_world S)\<lparr>w_host := h\<rparr>\<rparr>))"

definition take_mount_thread ::
  "'h env \<Rightarrow> string \<Rightarrow> string \<Rightarrow> nat \<Rightarrow> string \<Rightarrow> (response res \<Rightarrow> 'h thread) \<Rightarrow> 'h thread"
where
  "take_mount_thread E name mp attach_id log_path k =
     Section []
       (\<lambda>S. case list_position (mount_matches name attach_id mp) (ss_mounts S) of
              None \<Rightarrow> Some (k (Inl (Message (''mount session not found: '' @ to_string_lossy mp))), S)
            | Some idx \<Rightarrow>
                Some (unmount_thread E name mp attach_id log_path k, S\<lparr>ss_mounts := vec_remove idx (ss_mounts S)\<rparr>))"

definition detach_thread ::
  "'h env \<Rightarrow> string \<Rightarrow> string \<Rightarrow> (response res \<Rightarrow> 'h thread) \<Rightarrow> 'h thread"
where
  "detach_thread E name mountpoint k =
     look (\<lambda>S. case canonicalize_maybe_existing (env_os E) (w_host (ss_world S)) mountpoint of
       Inl e \<Rightarrow> k (Inl e)
     | Inr mp \<Rightarrow>
         look (\<lambda>S. case get_attach name mp (ss_world S) of
           Inl e \<Rightarrow> k (Inl e)
         | Inr (s, a) \<Rightarrow>
             cancel_view_thread E name (at_id a) ''detach''
               (\<lambda>_. take_mount_thread E name mp (at_id a) (sb_log_path s) k)))"

fun detach_all_thread :: "'h env \<Rightarrow> string \<Rightarrow> string list \<Rightarrow> (unit res \<Rightarrow> 'h thread) \<Rightarrow> 'h thread" where
  "detach_all_thread E name [] k = k (Inr ())"
| "detach_all_thread E name (mp # mps) k =
     detach_thread E name mp (\<lambda>r. case r of Inl e \<Rightarrow> k (Inl e) | Inr _ \<Rightarrow> detach_all_thread E name mps k)"

text \<open>\<^verbatim>\<open>destroy\<close>: the trusted operations go first, the sandbox itself last.\<close>

definition begin_destroy :: "string \<Rightarrow> 'h world \<Rightarrow> string list res \<times> 'h world" where
  "begin_destroy name w =
     (case get_sandbox name w of
        None \<Rightarrow> (Inl (sandbox_not_found name), w)
      | Some s \<Rightarrow>
          (Inr (map at_mountpoint (om_values (sb_attaches s))),
           with_registry (\<lambda>r. r\<lparr>rg_trusted := filter (\<lambda>(_, t). tr_sandbox t \<noteq> name) (rg_trusted r)\<rparr>) w))"

definition remove_sandbox :: "'h env \<Rightarrow> string \<Rightarrow> 'h world \<Rightarrow> response res \<times> 'h world" where
  "remove_sandbox E name w =
     (case get_sandbox name w of
        None \<Rightarrow> (Inr ResponseOk, w)
      | Some s \<Rightarrow>
          let w = with_registry (\<lambda>r. r\<lparr>rg_sandboxes := om_remove name (rg_sandboxes r)\<rparr>) w
          in case log_remove (env_os E) (w_log_running w) (sb_log_path s) (w_host w) of
               (r, h) \<Rightarrow> ((case r of Inl e \<Rightarrow> Inl e | Inr _ \<Rightarrow> Inr ResponseOk), w\<lparr>w_host := h\<rparr>))"

definition destroy_thread :: "'h env \<Rightarrow> string \<Rightarrow> 'h thread" where
  "destroy_thread E name =
     locked (begin_destroy name)
       (\<lambda>r. case r of
          Inl e \<Rightarrow> Answered (Inl e)
        | Inr mountpoints \<Rightarrow>
            cancel_all_thread E name None
              (\<lambda>_. detach_all_thread E name mountpoints
                 (\<lambda>r. case r of
                    Inl e \<Rightarrow> Answered (Inl e)
                  | Inr _ \<Rightarrow> locked (remove_sandbox E name) Answered)))"

text \<open>\<^verbatim>\<open>mount_layer\<close> looks at the host before it takes the lock.\<close>

definition mount_layer_thread :: "'h env \<Rightarrow> string \<Rightarrow> string \<Rightarrow> sandbox_path \<Rightarrow> 'h thread" where
  "mount_layer_thread E name local on_fs =
     look (\<lambda>S. case os_canonicalize (env_os E) (w_host (ss_world S)) local of
       Inl e \<Rightarrow> Answered (Inl (Io e))
     | Inr local \<Rightarrow>
         look (\<lambda>S. if \<not> os_exists (env_os E) (w_host (ss_world S)) local
           then Answered (Inl (Message (''local path does not exist: '' @ to_string_lossy local)))
           else locked (change_sandbox E name
                  (\<lambda>s. Inr (''mount local='' @ to_string_lossy local @ '' path='' @ display_path on_fs,
                            snd (add_layer local on_fs s)))) Answered))"

section \<open>Trusted operations\<close>

definition trusted_id :: "string \<Rightarrow> 'h world \<Rightarrow> nat res \<times> 'h world" where
  "trusted_id name w =
     (if get_sandbox name w = None then (Inl (sandbox_not_found name), w)
      else case fresh_operation_id w of (i, w) \<Rightarrow> (Inr i, w))"

definition record_trusted ::
  "'h env \<Rightarrow> string \<Rightarrow> string \<Rightarrow> string \<Rightarrow> trusted_path_scope list \<Rightarrow> nat \<Rightarrow> 'h world \<Rightarrow> response res \<times> 'h world"
where
  "record_trusted E name command mountpoint paths operation_id w =
     (let token = name @ ''-'' @ show_nat operation_id @ ''-'' @ show_nat (unat (os_process_id (env_os E)));
          trusted = \<lparr>tr_id = operation_id, tr_sandbox = name, tr_token = token, tr_pid = None, tr_uid = None,
            tr_mountpoint = mountpoint, tr_command = command, tr_paths = paths\<rparr>
      in (Inr (ResponseTrusted token operation_id (to_string_lossy mountpoint)),
          with_registry (\<lambda>r. r\<lparr>rg_trusted := om_insert token trusted (rg_trusted r)\<rparr>) w))"

definition on_host_world :: "('h \<Rightarrow> 'a \<times> 'h) \<Rightarrow> 'h world \<Rightarrow> 'a \<times> 'h world" where
  "on_host_world f w = (case f (w_host w) of (x, h) \<Rightarrow> (x, w\<lparr>w_host := h\<rparr>))"

definition begin_trusted_thread ::
  "'h env \<Rightarrow> string \<Rightarrow> string \<Rightarrow> string \<Rightarrow> trusted_path_scope list \<Rightarrow> 'h thread"
where
  "begin_trusted_thread E name command mountpoint paths =
     locked (trusted_id name)
       (\<lambda>r. case r of
          Inl e \<Rightarrow> Answered (Inl e)
        | Inr operation_id \<Rightarrow>
            locked (on_host_world (\<lambda>h. os_create_dir_all (env_os E) h mountpoint))
              (\<lambda>made. case made of
                 Inl e \<Rightarrow> Answered (Inl (Io e))
               | Inr _ \<Rightarrow>
                   attach_thread E name mountpoint True
                     (\<lambda>r. case r of
                        Inl e \<Rightarrow> Answered (Inl e)
                      | Inr _ \<Rightarrow> locked (record_trusted E name command mountpoint paths operation_id) Answered)))"

definition take_trusted :: "string \<Rightarrow> 'h world \<Rightarrow> trusted_operation option \<times> 'h world" where
  "take_trusted token w =
     (om_get (rg_trusted (w_registry w)) token,
      with_registry (\<lambda>r. r\<lparr>rg_trusted := om_remove token (rg_trusted r)\<rparr>) w)"

definition end_trusted_thread :: "'h env \<Rightarrow> string \<Rightarrow> 'h thread" where
  "end_trusted_thread E token =
     locked (take_trusted token)
       (\<lambda>found. case found of
          None \<Rightarrow> Answered (Inl (trusted_not_found token))
        | Some t \<Rightarrow>
            detach_thread E (tr_sandbox t) (tr_mountpoint t)
              (\<lambda>r. case r of
                 Inl e \<Rightarrow> Answered (Inl e)
               | Inr _ \<Rightarrow>
                   locked (on_host_world (\<lambda>h. os_remove_dir (env_os E) h (tr_mountpoint t)))
                     (\<lambda>removed. Answered (case removed of Inl e \<Rightarrow> Inl (Io e) | Inr _ \<Rightarrow> Inr ResponseOk))))"

section \<open>The dispatch\<close>

text \<open>The requests that hold the lock of the registry once are one section.\<close>

definition one_section :: "'h env \<Rightarrow> request \<Rightarrow> 'h thread" where
  "one_section E q = Section [] (\<lambda>S. map_option (\<lambda>(r, S). (Answered r, S)) (handle_result E q S))"

fun request_thread :: "'h env \<Rightarrow> request \<Rightarrow> 'h thread" where
  "request_thread E (Shutdown name) = destroy_thread E name"
| "request_thread E (Attach name mountpoint temporary) = attach_thread E name mountpoint temporary Answered"
| "request_thread E (Detach name mountpoint) = detach_thread E name mountpoint Answered"
| "request_thread E (BeginTrustedOperation name command mountpoint paths) =
     begin_trusted_thread E name command mountpoint paths"
| "request_thread E (EndTrustedOperation token) = end_trusted_thread E token"
| "request_thread E (Allow name i do_nothing grant) = allow_thread E name i do_nothing grant"
| "request_thread E (Mount name local on_fs) = mount_layer_thread E name local on_fs"
| "request_thread E (CancelRequest name i) = cancel_request_thread E name i ''explicit''"
| "request_thread E (CancelAll name mountpoint) = cancel_all_thread E name mountpoint Answered"
| "request_thread E q = one_section E q"

section \<open>Run alone, the sections are the request\<close>

lemma run_notify_thread [simp]:
  "run_thread (notify_thread ws d t) S = run_thread t (S\<lparr>ss_world := notify_all ws d (ss_world S)\<rparr>)"
  by (induction ws d t arbitrary: S rule: notify_thread.induct) (simp_all add: notify_all_def)

lemma run_cancel_thread [simp]:
  "run_thread (cancel_thread E name in_scope scope attach_id reason k) S =
     (case in_world (cancel_scope E name in_scope scope attach_id reason) S of (r, S') \<Rightarrow> run_thread (k r) S')"
  by (auto simp: cancel_thread_def finish_cancel_thread_def cancel_scope_def finish_cancel_scope_def in_world_def Let_def
      split: option.split prod.split)

lemma run_cancel_view_thread [simp]:
  "run_thread (cancel_view_thread E name attach_id reason k) S =
     (case in_world (cancel_attached_view E name attach_id reason) S of (r, S') \<Rightarrow> run_thread (k r) S')"
  by (simp add: cancel_view_thread_def cancel_attached_view_def)

lemma run_cancel_all_thread [simp]:
  "run_thread (cancel_all_thread E name mountpoint k) S =
     (case in_world (cancel_all E name mountpoint) S of (r, S') \<Rightarrow> run_thread (k r) S')"
  by (auto simp: cancel_all_thread_def cancel_all_def in_world_def result_bind_def split: option.split sum.split)

lemma announce_released_one:
  "announce_released E (go_log_path oc) (go_request_id oc) (rel # rels) acc =
     announce_released E (go_log_path oc) (go_request_id oc) rels (announce_one E oc rel acc)"
  by (simp add: announce_one_def split_beta Let_def)

lemma run_release_thread:
  "run_thread (release_thread E oc rels logged) S =
     (case announce_released E (go_log_path oc) (go_request_id oc) rels (logged, ss_world S) of
        (logged, w) \<Rightarrow> Some (grant_answer oc logged, S\<lparr>ss_world := w\<rparr>))"
proof (induction rels arbitrary: logged S)
  case (Cons rel rels)
  obtain l w where one: "announce_one E oc rel (logged, ss_world S) = (l, w)" by fastforce
  show ?case using Cons.IH [of l "S\<lparr>ss_world := w\<rparr>"] one by (simp del: announce_released.simps add: announce_released_one)
qed simp

lemma finish_grant_split:
  "finish_read_write_grant_allow E oc w =
     (case announce_released E (go_log_path oc) (go_request_id oc) (go_released oc) (grant_events E oc w) of
        (logged, w) \<Rightarrow> (grant_answer oc logged, w))"
  by (simp add: finish_read_write_grant_allow_def grant_events_def grant_answer_def Let_def)

lemma run_allow_thread:
  "run_thread (allow_thread E name i do_nothing grant) S =
     map_option (\<lambda>(r, w). (r, S\<lparr>ss_world := w\<rparr>)) (session_allow E name i do_nothing grant (ss_world S))"
  by (auto simp: allow_thread_def allow_grant_thread_def finish_grant_thread_def session_allow_def
      allow_read_write_grant_def finish_grant_split run_release_thread in_world_def Let_def
      split: option.split prod.split sum.split)

lemma run_attach_thread [simp]:
  "run_thread (attach_thread E name mountpoint temporary k) S =
     (case session_attach E name mountpoint temporary S of (r, S') \<Rightarrow> run_thread (k r) S')"
proof -
  have same: "get_sandbox name (snd (fresh_operation_id w)) = get_sandbox name w"
    "get_sandbox name (w\<lparr>w_host := h\<rparr>) = get_sandbox name w" for w :: "'a world" and h
    by (simp_all add: get_sandbox_def next_operation_id_def)
  show ?thesis
    by (auto simp: attach_thread_def mount_thread_def push_mount_thread_def attach_ids_def record_attach_def session_attach_def in_world_def
        same Let_def split_beta split: option.split sum.split)
qed

lemma run_unmount_thread:
  "run_thread (unmount_thread E name mp attach_id log_path k) S =
     (case os_umount_and_join (env_os E) (w_host (ss_world S)) mp of
        (Inl e, h) \<Rightarrow> run_thread (k (Inl (Io e))) (S\<lparr>ss_world := (ss_world S)\<lparr>w_host := h\<rparr>\<rparr>)
      | (Inr _, h) \<Rightarrow>
          (case unrecord_attach name mp ((ss_world S)\<lparr>w_host := h\<rparr>) of
             (event_id, w) \<Rightarrow>
               (case log_then_ok E log_path event_id (''detach attach='' @ show_nat attach_id) w of
                  (r, w) \<Rightarrow> run_thread (k r) (S\<lparr>ss_world := w\<rparr>))))"
  by (simp add: unmount_thread_def in_world_def split: prod.split sum.split)

lemma run_detach_thread [simp]:
  "run_thread (detach_thread E name mountpoint k) S =
     (case session_detach E name mountpoint S of (r, S') \<Rightarrow> run_thread (k r) S')"
  by (auto simp: detach_thread_def take_mount_thread_def run_unmount_thread unrecord_attach_def session_detach_def
      in_world_def Let_def split_beta simp del: list_position_None split: option.split sum.split)

lemma run_detach_all_thread [simp]:
  "run_thread (detach_all_thread E name mountpoints k) S =
     (case detach_all E name mountpoints S of (r, S') \<Rightarrow> run_thread (k r) S')"
  by (induction E name mountpoints k arbitrary: S rule: detach_all_thread.induct)
     (auto split: sum.split prod.split)

lemma run_destroy_thread: "run_thread (destroy_thread E name) S = Some (session_destroy E name S)"
  by (auto simp: destroy_thread_def begin_destroy_def remove_sandbox_def session_destroy_def in_world_def Let_def
      split_beta split: option.split sum.split)

lemma run_begin_trusted_thread:
  "run_thread (begin_trusted_thread E name command mountpoint paths) S =
     Some (begin_trusted E name command mountpoint paths S)"
  by (auto simp: begin_trusted_thread_def trusted_id_def on_host_world_def record_trusted_def begin_trusted_def
      in_world_def Let_def split_beta split: sum.split)

lemma run_end_trusted_thread: "run_thread (end_trusted_thread E token) S = Some (end_trusted E token S)"
  by (auto simp: end_trusted_thread_def take_trusted_def on_host_world_def end_trusted_def in_world_def Let_def
      split_beta split: option.split sum.split)

lemma run_cancel_request_thread:
  "run_thread (cancel_request_thread E name i reason) S = Some (in_world (session_cancel E name i reason) S)"
  by (auto simp: cancel_request_thread_def tell_canceled_thread_def session_cancel_def log_and_notify_def notify_all_def
      in_world_def Let_def split: option.split prod.split sum.split)

lemma run_mount_layer_thread:
  "run_thread (mount_layer_thread E name local on_fs) S = Some (in_world (session_mount_layer E name local on_fs) S)"
  by (auto simp: mount_layer_thread_def session_mount_layer_def in_world_def split: sum.split prod.split)

lemma run_one_section: "run_thread (one_section E q) S = handle_result E q S"
  by (cases "handle_result E q S") (auto simp: one_section_def)

lemmas run_requests = run_destroy_thread run_begin_trusted_thread run_end_trusted_thread run_allow_thread
  run_cancel_request_thread run_mount_layer_thread run_one_section

section \<open>Properties\<close>

text \<open>
  The sections of a request, run by its thread without interruption, are the request: they
  give the response and the state that the handler of the dispatch gives.
\<close>

lemma sections_are_the_request: "run_thread (request_thread E q) S = handle_result E q S"
  by (cases q) (simp_all add: run_requests split_beta)

end
