(* ===== verification/Interleaving.thy ===== *)
theory Interleaving
  imports Threads
begin

text \<open>
  The server under every interleaving of its threads with each other and with the calls of the file
  systems, lock by lock. While the sandbox lives, the shared state stays well-formed, and a waiter
  whose caller is blocked is in the table of waiters or held by a thread that goes on to tell it.
\<close>

section \<open>What a section guarantees\<close>

text \<open>The server of a sandbox has no other sandbox.\<close>

definition one_sandbox :: "'h world \<Rightarrow> bool" where
  "one_sandbox w \<longleftrightarrow> (\<forall>n n'. get_sandbox n w \<noteq> None \<longrightarrow> get_sandbox n' w \<noteq> None \<longrightarrow> n = n')"

definition shared_ok :: "'h world \<Rightarrow> bool" where
  "shared_ok w \<longleftrightarrow> world_ok w \<and> one_sandbox w"

text \<open>The last section of \<^verbatim>\<open>destroy\<close>: a sandbox leaves the registry.\<close>

definition removes :: "'h world \<Rightarrow> 'h world \<Rightarrow> bool" where
  "removes w w' \<longleftrightarrow> (\<exists>n \<in> set (om_keys (rg_sandboxes (w_registry w))). get_sandbox n w' = None)"

text \<open>A thread may rely on it that ids it has drawn stay drawn.\<close>

definition later :: "'h world \<Rightarrow> 'h world \<Rightarrow> bool" where
  "later w w' \<longleftrightarrow> rg_next_operation_id (w_registry w) \<le> rg_next_operation_id (w_registry w')"

text \<open>The waiters of a list are out of the table, and nobody has told them anything else.\<close>

definition holds :: "(pending_waiter \<times> pending_decision) list \<Rightarrow> 'h world \<Rightarrow> bool" where
  "holds ws w \<longleftrightarrow>
     (\<forall>(c, d) \<in> set ws. c < w_next_cell w \<and> (w_cells w c = None \<or> w_cells w c = Some d) \<and> (\<forall>i. waiter_of w i \<noteq> Some c))"

definition guarantee ::
  "(pending_waiter \<times> pending_decision) list \<Rightarrow> 'h world \<Rightarrow> (pending_waiter \<times> pending_decision) list \<Rightarrow> 'h world \<Rightarrow> bool"
where
  "guarantee ws w ws' w' \<longleftrightarrow>
     shared_ok w' \<and> hands (map fst ws) w (map fst ws') w' \<and> holds ws' w'
     \<and> (\<forall>(c, d) \<in> set ws. w_cells w' c = Some d \<or> (c, d) \<in> set ws')"

definition calm :: "'h world \<Rightarrow> 'h world \<Rightarrow> bool" where
  "calm w w' \<longleftrightarrow> (shared_ok w \<longrightarrow> shared_ok w' \<and> wakes w w')"

lemma later_refl [simp]: "later w w"
  by (simp add: later_def)

lemma later_trans: "later w w1 \<Longrightarrow> later w1 w2 \<Longrightarrow> later w w2"
  by (simp add: later_def)

lemma calm_refl [simp]: "calm w w"
  by (simp add: calm_def)

lemma calm_trans: "calm w w1 \<Longrightarrow> calm w1 w2 \<Longrightarrow> calm w w2"
  unfolding calm_def by (blast intro: wakes_trans)

lemma calm_tame: "tame w w' \<Longrightarrow> calm w w'"
  by (simp add: tame_def calm_def shared_ok_def one_sandbox_def)

lemma calm_later: "calm w w' \<Longrightarrow> shared_ok w \<Longrightarrow> later w w'"
  by (simp add: calm_def wakes_def later_def)

lemma guarantee_later: "guarantee ws w ws' w' \<Longrightarrow> later w w'"
  by (simp add: guarantee_def hands_def later_def)

text \<open>What a thread holds is left alone by the sections of others.\<close>

lemma holds_hands:
  assumes "hands us w us' w'" and "holds ws w" and "fst ` set ws \<inter> set us = {}"
  shows "holds ws w'"
proof -
  have "c < w_next_cell w' \<and> (w_cells w' c = None \<or> w_cells w' c = Some d) \<and> waiter_of w' i \<noteq> Some c"
    if "(c, d) \<in> set ws" for c d i
  proof -
    have c: "c < w_next_cell w" "w_cells w c = None \<or> w_cells w c = Some d" "\<And>i. waiter_of w i \<noteq> Some c"
      using assms(2) that by (auto simp: holds_def)
    have out: "c \<notin> set us" using assms(3) that by force
    have "c < w_next_cell w'" using assms(1) c(1) unfolding hands_def by linarith
    moreover have "w_cells w' c = None \<or> w_cells w' c = Some d" using assms(1) c out unfolding hands_def by blast
    moreover have "waiter_of w' i \<noteq> Some c" using assms(1) c(1,3) unfolding hands_def by blast
    ultimately show ?thesis by blast
  qed
  then show ?thesis by (auto simp: holds_def)
qed

lemma holds_wakes: "wakes w w' \<Longrightarrow> holds ws w \<Longrightarrow> holds ws w'"
  using holds_hands [OF wakes_hands, of w w' ws "[]"] by simp

lemma guarantee_calm:
  assumes "calm w w'" and "shared_ok w" and "holds ws w"
  shows "guarantee ws w ws w'"
proof -
  have "shared_ok w'" "wakes w w'" using assms(1,2) by (simp_all add: calm_def)
  then show ?thesis using holds_wakes [OF _ assms(3)] wakes_hands by (auto simp: guarantee_def)
qed

section \<open>Threads that keep the guarantee\<close>

text \<open>
  What a thread knows when it is suspended stays true, since only ids are drawn from then on; so a
  thread is good from a state on, when in every later state its next section ends if there is a
  waiter to tell, and either removes the sandbox or gives the guarantee and leaves a good thread.
\<close>

inductive good_thread :: "'h thread \<Rightarrow> 'h world \<Rightarrow> bool" where
  answered: "good_thread (Answered r) w"
| running: "(\<And>S. later w (ss_world S) \<Longrightarrow> shared_ok (ss_world S) \<Longrightarrow> holds ws (ss_world S) \<Longrightarrow>
      (ws \<noteq> [] \<longrightarrow> f S \<noteq> None)
      \<and> (\<forall>t S'. f S = Some (t, S') \<longrightarrow>
           ws = [] \<and> removes (ss_world S) (ss_world S')
           \<or> guarantee ws (ss_world S) (held t) (ss_world S') \<and> good_thread t (ss_world S'))) \<Longrightarrow>
    good_thread (Section ws f) w"

inductive_cases good_sectionE: "good_thread (Section ws f) w"

lemma good_later: "good_thread t w \<Longrightarrow> later w w' \<Longrightarrow> good_thread t w'"
  by (erule good_thread.cases) (auto intro!: good_thread.intros dest: later_trans)

text \<open>A thread that starts afresh: it holds nothing and is good.\<close>

definition ready :: "'h thread \<Rightarrow> 'h world \<Rightarrow> bool" where
  "ready t w \<longleftrightarrow> held t = [] \<and> (\<forall>w'. later w w' \<longrightarrow> good_thread t w')"

lemma ready_later: "ready t w \<Longrightarrow> later w w' \<Longrightarrow> ready t w'"
  by (auto simp: ready_def dest: later_trans)

lemma ready_answered [simp]: "ready (Answered r) w"
  by (simp add: ready_def good_thread.answered)

lemma ready_good: "ready t w \<Longrightarrow> good_thread t w"
  by (simp add: ready_def)

lemma holds_nothing [simp]: "holds [] w"
  by (simp add: holds_def)

text \<open>Sections of a thread that holds nothing.\<close>

lemma ready_section:
  assumes "\<And>S t S'. later w (ss_world S) \<Longrightarrow> shared_ok (ss_world S) \<Longrightarrow> f S = Some (t, S') \<Longrightarrow>
    removes (ss_world S) (ss_world S') \<or> guarantee [] (ss_world S) (held t) (ss_world S') \<and> good_thread t (ss_world S')"
  shows "ready (Section [] f) w"
  using assms by (auto simp: ready_def intro!: good_thread.running dest: later_trans)

lemma ready_calm_section:
  assumes "\<And>S t S'. later w (ss_world S) \<Longrightarrow> shared_ok (ss_world S) \<Longrightarrow> f S = Some (t, S') \<Longrightarrow>
    calm (ss_world S) (ss_world S') \<and> (later (ss_world S) (ss_world S') \<longrightarrow> ready t (ss_world S'))"
  shows "ready (Section [] f) w"
proof (rule ready_section)
  fix S t S' assume S: "later w (ss_world S)" "shared_ok (ss_world S)" "f S = Some (t, S')"
  from assms [OF this] have calm: "calm (ss_world S) (ss_world S')" and t: "later (ss_world S) (ss_world S') \<longrightarrow> ready t (ss_world S')"
    by simp_all
  from t calm_later [OF calm S(2)] have "ready t (ss_world S')" by blast
  with guarantee_calm [OF calm S(2), of "[]"] show "removes (ss_world S) (ss_world S') \<or> guarantee [] (ss_world S) (held t) (ss_world S') \<and> good_thread t (ss_world S')"
    by (simp add: ready_def)
qed

lemma ready_look: "(\<And>S. later w (ss_world S) \<Longrightarrow> shared_ok (ss_world S) \<Longrightarrow> ready (f S) (ss_world S)) \<Longrightarrow> ready (look f) w"
  unfolding look_def by (rule ready_calm_section) auto

lemma ready_locked:
  assumes "\<And>w1 x w2. later w w1 \<Longrightarrow> shared_ok w1 \<Longrightarrow> f w1 = (x, w2) \<Longrightarrow> calm w1 w2 \<and> (later w1 w2 \<longrightarrow> ready (k x) w2)"
  shows "ready (locked f k) w"
  unfolding locked_def
proof (rule ready_calm_section)
  fix S t S' assume S: "later w (ss_world S)" "shared_ok (ss_world S)"
    "(case in_world f S of (x, S) \<Rightarrow> Some (k x, S)) = Some (t, S')"
  then have "f (ss_world S) = (fst (f (ss_world S)), ss_world S')" "t = k (fst (f (ss_world S)))"
    by (auto simp: in_world_def split_beta)
  with assms [OF S(1,2)] show "calm (ss_world S) (ss_world S') \<and> (later (ss_world S) (ss_world S') \<longrightarrow> ready t (ss_world S'))"
    by blast
qed

section \<open>Taking waiters and telling them\<close>

lemma promises_simps [simp]:
  "promises [] d = []" "promises (None # ws) d = promises ws d" "promises (Some c # ws) d = (c, d) # promises ws d"
  by (simp_all add: promises_def List.map_filter_def)

lemma set_promises: "(c, e) \<in> set (promises ws d) \<longleftrightarrow> e = d \<and> Some c \<in> set ws"
proof (induction ws)
  case (Cons x ws)
  then show ?case by (cases x) auto
qed simp

lemma promised_waiters: "c \<in> set (map fst (promises ws d)) \<longleftrightarrow> Some c \<in> set ws"
  using set_promises [of c _ ws d] by (auto simp: image_iff Bex_def)

lemma holds_promises:
  "holds (promises ws d) w \<longleftrightarrow>
     (\<forall>c. Some c \<in> set ws \<longrightarrow> c < w_next_cell w \<and> (w_cells w c = None \<or> w_cells w c = Some d) \<and> (\<forall>i. waiter_of w i \<noteq> Some c))"
proof (induction ws)
  case (Cons x ws)
  then show ?case by (cases x) (auto simp: holds_def)
qed simp

text \<open>A section that takes requests out hands their waiters to its thread.\<close>

lemma guarantee_out:
  assumes ok: "shared_ok w" and wf': "wf_world w'"
    and sandboxes: "rg_sandboxes (w_registry w') = rg_sandboxes (w_registry w)"
    and pend: "\<And>i q. pending_of w' i = Some q \<Longrightarrow> \<exists>p. pending_of w i = Some p \<and> pending_sandbox p = pending_sandbox q"
    and out: "waiter_of w' = (\<lambda>i. if i \<in> I then None else waiter_of w i)"
    and cells: "w_cells w' = w_cells w" "w_next_cell w' = w_next_cell w"
    and ids: "rg_next_operation_id (w_registry w) \<le> rg_next_operation_id (w_registry w')"
    and ws: "\<And>c. Some c \<in> set ws \<longleftrightarrow> (\<exists>i \<in> I. waiter_of w i = Some c)"
  shows "guarantee [] w (promises ws d) w'"
proof -
  have W: "requests_homed w" "attaches_ok w" and exact: "waiters_exact w"
    using ok by (simp_all add: shared_ok_def world_ok_def wf_world_def)
  note same = get_sandbox_cong [OF sandboxes] attach_of_cong [OF sandboxes]
  have "requests_homed w'"
    unfolding requests_homed_def same
  proof (intro allI impI)
    fix i q assume "pending_of w' i = Some q"
    from pend [OF this] obtain p where "pending_of w i = Some p" "pending_sandbox p = pending_sandbox q" by blast
    with W(1) show "get_sandbox (pending_sandbox q) w \<noteq> None" unfolding requests_homed_def by fastforce
  qed
  moreover have "attaches_ok w'"
    using W(2) ids unfolding attaches_ok_def same by (meson less_le_trans)
  ultimately have "shared_ok w'"
    using ok wf' by (simp add: shared_ok_def one_sandbox_def world_ok_def same)
  moreover have w: "c < w_next_cell w" "w_cells w c = None" if "waiter_of w i = Some c" for i c
    using exact that unfolding waiters_exact_def by blast+
  have gone: "waiter_of w' j \<noteq> Some c" if "Some c \<in> set ws" for j c
  proof
    assume "waiter_of w' j = Some c"
    then have j: "j \<notin> I" "waiter_of w j = Some c" by (simp_all add: out split: if_splits)
    from that obtain i where i: "i \<in> I" "waiter_of w i = Some c" unfolding ws by blast
    have "i = j" by (rule exact [unfolded waiters_exact_def, THEN conjunct2, THEN conjunct2, rule_format, OF i(2) j(2)])
    with i j show False by simp
  qed
  have source: "\<exists>i. waiter_of w i = Some c" if "Some c \<in> set ws" for c using that unfolding ws by blast
  have taken: "Some c \<in> set ws" if "waiter_of w i = Some c" "waiter_of w' i \<noteq> Some c" for i c
    unfolding ws using that by (auto simp: out split: if_splits)
  have same_waiter: "waiter_of w i = Some c" if "waiter_of w' i = Some c" for i c
    using that by (simp add: out split: if_splits)
  have "hands [] w (map fst (promises ws d)) w'"
    unfolding hands_def promised_waiters using cells ids source taken same_waiter by (auto simp: set_promises)
  moreover have "holds (promises ws d) w'"
    unfolding holds_promises
  proof (intro allI impI)
    fix c assume c: "Some c \<in> set ws"
    then obtain i where "waiter_of w i = Some c" using source by blast
    with w gone [OF c] cells show "c < w_next_cell w' \<and> (w_cells w' c = None \<or> w_cells w' c = Some d) \<and> (\<forall>i. waiter_of w' i \<noteq> Some c)"
      by simp
  qed
  ultimately show ?thesis by (simp add: guarantee_def)
qed

lemma guarantee_taken:
  assumes ok: "shared_ok w" and t: "taken I ws w w'"
  shows "guarantee [] w (promises ws d) w'"
proof (rule guarantee_out [where I = I])
  have "wf_world w" using ok by (simp add: shared_ok_def world_ok_def)
  from wf_world_taken [OF this t] show "wf_world w'" .
qed (use ok t in \<open>auto simp: taken_def split: if_splits\<close>)

lemma shared_ok_told:
  assumes "shared_ok w" and "\<And>i. waiter_of w i \<noteq> Some c"
  shows "shared_ok (w\<lparr>w_cells := (w_cells w)(c := Some d)\<rparr>)"
  using assms
  by (auto simp: shared_ok_def one_sandbox_def world_ok_def wf_world_def waiters_exact_def requests_homed_def attaches_ok_def
      attach_of_def get_sandbox_def)

lemma guarantee_told:
  assumes ok: "shared_ok w" and h: "holds (promises (x # ws) d) w"
  shows "guarantee (promises (x # ws) d) w (promises ws d) (notify_waiter x d w)"
proof (cases x)
  case None
  with guarantee_calm [OF calm_refl ok h] show ?thesis by (simp add: notify_waiter_def)
next
  case (Some c)
  have c: "c < w_next_cell w" "w_cells w c = None \<or> w_cells w c = Some d" "\<And>i. waiter_of w i \<noteq> Some c"
    using h by (auto simp: holds_def Some)
  let ?w' = "w\<lparr>w_cells := (w_cells w)(c := Some d)\<rparr>"
  have "hands (c # map fst (promises ws d)) w (map fst (promises ws d)) ?w'"
    using c by (auto simp: hands_def)
  moreover have "holds (promises ws d) ?w'"
    using h unfolding holds_promises Some by auto
  ultimately show ?thesis
    using shared_ok_told [OF ok c(3)] by (auto simp: guarantee_def Some notify_waiter_def)
qed

text \<open>The section of a thread that holds waiters always ends.\<close>

lemma good_section:
  assumes "\<And>S. later w (ss_world S) \<Longrightarrow> shared_ok (ss_world S) \<Longrightarrow> holds ws (ss_world S) \<Longrightarrow>
    \<exists>t S'. f S = Some (t, S') \<and> guarantee ws (ss_world S) (held t) (ss_world S') \<and> good_thread t (ss_world S')"
  shows "good_thread (Section ws f) w"
proof (rule good_thread.running)
  fix S :: "'a session" assume "later w (ss_world S)" "shared_ok (ss_world S)" "holds ws (ss_world S)"
  from assms [OF this] obtain t S' where "f S = Some (t, S')"
    "guarantee ws (ss_world S) (held t) (ss_world S')" "good_thread t (ss_world S')" by blast
  then show "(ws \<noteq> [] \<longrightarrow> f S \<noteq> None) \<and> (\<forall>t S'. f S = Some (t, S') \<longrightarrow>
      ws = [] \<and> removes (ss_world S) (ss_world S') \<or> guarantee ws (ss_world S) (held t) (ss_world S') \<and> good_thread t (ss_world S'))" by simp
qed

lemma held_notify_thread: "held t = [] \<Longrightarrow> held (notify_thread ws d t) = promises ws d"
  by (cases ws) simp_all

lemma good_notify_thread:
  assumes "\<And>w'. later w w' \<Longrightarrow> ready t w'"
  shows "good_thread (notify_thread ws d t) w"
  using assms
proof (induction ws arbitrary: w)
  case Nil
  then show ?case by (simp add: ready_good)
next
  case (Cons x ws)
  have held: "held (notify_thread ws d t) = promises ws d"
    using Cons.prems [OF later_refl] by (intro held_notify_thread) (simp add: ready_def)
  show ?case
    unfolding notify_thread.simps
  proof (rule good_section)
    fix S :: "'a session" assume S: "later w (ss_world S)" "shared_ok (ss_world S)" "holds (promises (x # ws) d) (ss_world S)"
    note g = guarantee_told [OF S(2,3)]
    have "good_thread (notify_thread ws d t) (notify_waiter x d (ss_world S))"
      using Cons.IH Cons.prems later_trans [OF S(1)] later_trans [OF guarantee_later [OF g]] by blast
    with g show "\<exists>t' S'. Some (notify_thread ws d t, S\<lparr>ss_world := notify_waiter x d (ss_world S)\<rparr>) = Some (t', S')
        \<and> guarantee (promises (x # ws) d) (ss_world S) (held t') (ss_world S') \<and> good_thread t' (ss_world S')"
      by (simp add: held)
  qed
qed

text \<open>Lines of the log change neither the registry nor a cell.\<close>

lemma calm_registry: "w_registry w' = w_registry w \<Longrightarrow> w_cells w' = w_cells w \<Longrightarrow> w_next_cell w' = w_next_cell w \<Longrightarrow> calm w w'"
  by (rule calm_tame) (rule tame_registry)

lemma good_finish_cancel_thread:
  assumes k: "\<And>r w'. later w w' \<Longrightarrow> ready (k r) w'"
  shows "good_thread (finish_cancel_thread E event_id log_path canceled scope attach_id reason k) w"
  unfolding finish_cancel_thread_def
proof (rule good_section)
  fix S :: "'a session"
  assume S: "later w (ss_world S)" "shared_ok (ss_world S)" "holds (promises (map cp_waiter canceled) Cancel) (ss_world S)"
  let ?log = "log_canceled E log_path reason canceled (append_event E log_path event_id
    (''cancel'' @ format_attach_field attach_id @ '' scope='' @ scope @ '' reason='' @ reason
      @ '' count='' @ show_nat (length canceled)) (ss_world S))"
  let ?t = "notify_thread (map cp_waiter canceled) Cancel (k (case fst ?log of Inl e \<Rightarrow> Inl e | Inr _ \<Rightarrow> Inr ResponseOk))"
  have calm: "calm (ss_world S) (snd ?log)" by (rule calm_registry) simp_all
  have after: "later w (snd ?log)" using later_trans [OF S(1) calm_later [OF calm S(2)]] .
  have held: "held ?t = promises (map cp_waiter canceled) Cancel"
    using k [OF after] by (intro held_notify_thread) (simp add: ready_def)
  have "good_thread ?t (snd ?log)" by (rule good_notify_thread) (rule k, rule later_trans [OF after])
  with guarantee_calm [OF calm S(2,3)] held
  show "\<exists>t S'. (case ?log of (logged, w) \<Rightarrow>
        Some (notify_thread (map cp_waiter canceled) Cancel (k (case logged of Inl e \<Rightarrow> Inl e | Inr _ \<Rightarrow> Inr ResponseOk)),
          S\<lparr>ss_world := w\<rparr>)) = Some (t, S')
      \<and> guarantee (promises (map cp_waiter canceled) Cancel) (ss_world S) (held t) (ss_world S') \<and> good_thread t (ss_world S')"
    by (simp add: split_beta)
qed

text \<open>The first section of a cancellation takes the requests of the scope out.\<close>

lemma cancel_section:
  assumes wf: "wf_world (ss_world S)" and s: "get_sandbox name (ss_world S) = Some s"
  obtains f event_id items w where
    "cancel_thread E name in_scope scope attach_id reason k = Section [] f"
    "f S = Some (finish_cancel_thread E event_id (sb_log_path s) items scope attach_id reason k, S\<lparr>ss_world := w\<rparr>)"
    "taken (scope_ids name in_scope (ss_world S)) (map cp_waiter items) (ss_world S) w"
proof -
  let ?ids = "map pending_id (filter in_scope (pending_requests_for_sandbox name (w_registry (ss_world S))))"
  let ?w1 = "snd (fresh_operation_id (ss_world S))"
  obtain items w2 where t: "take_canceled attach_id ?ids ?w1 = (items, w2)" by fastforce
  from take_canceled_taken [OF wf_world_fresh_id [OF wf] t]
  have "taken (set ?ids) (map cp_waiter items) (ss_world S) w2"
    by (auto simp: taken_def next_operation_id_def)
  moreover have "set ?ids = scope_ids name in_scope (ss_world S)"
    using wf by (intro scope_ids_list) (simp add: wf_world_def)
  ultimately show ?thesis
    by (intro that [OF cancel_thread_def, where items = items and w = w2]) (simp_all add: s t split_beta Let_def)
qed

lemma ready_cancel_thread:
  assumes k: "\<And>r w'. later w w' \<Longrightarrow> ready (k r) w'"
  shows "ready (cancel_thread E name in_scope scope attach_id reason k) w"
proof -
  obtain f where f: "cancel_thread E name in_scope scope attach_id reason k = Section [] f"
    by (simp add: cancel_thread_def)
  show ?thesis
    unfolding f
  proof (rule ready_section)
    fix S :: "'a session" and t S'
    assume S: "later w (ss_world S)" "shared_ok (ss_world S)" and run: "f S = Some (t, S')"
    show "removes (ss_world S) (ss_world S') \<or> guarantee [] (ss_world S) (held t) (ss_world S') \<and> good_thread t (ss_world S')"
    proof (cases "get_sandbox name (ss_world S)")
      case None
      then have "t = k (Inl (sandbox_not_found name))" "S' = S" using f run by (auto simp: cancel_thread_def)
      with k [OF S(1)] guarantee_calm [OF calm_refl S(2), of "[]"] show ?thesis by (simp add: ready_def)
    next
      case (Some s)
      have wf: "wf_world (ss_world S)" using S(2) by (simp add: shared_ok_def world_ok_def)
      obtain event_id items w2 where t: "t = finish_cancel_thread E event_id (sb_log_path s) items scope attach_id reason k"
        and S': "S' = S\<lparr>ss_world := w2\<rparr>" and "taken (scope_ids name in_scope (ss_world S)) (map cp_waiter items) (ss_world S) w2"
        using cancel_section [OF wf Some, of E in_scope scope attach_id reason k] f run by (metis Pair_inject option.inject thread.inject(2))
      then have g: "guarantee [] (ss_world S) (promises (map cp_waiter items) Cancel) w2" by (intro guarantee_taken [OF S(2)])
      have "good_thread t w2"
        unfolding t by (rule good_finish_cancel_thread) (rule k, rule later_trans [OF later_trans [OF S(1) guarantee_later [OF g]]])
      with g show ?thesis by (simp add: t S' finish_cancel_thread_def)
    qed
  qed
qed

text \<open>One request is cancelled.\<close>

lemma good_tell_canceled_thread: "good_thread (tell_canceled_thread E log_path event_id body waiter) w"
  unfolding tell_canceled_thread_def
proof (rule good_section)
  fix S :: "'a session" assume S: "shared_ok (ss_world S)" "holds (promises [waiter] Cancel) (ss_world S)"
  let ?log = "append_event E log_path event_id body (ss_world S)"
  let ?t = "notify_thread [waiter] Cancel (Answered (case fst ?log of Inl e \<Rightarrow> Inl e | Inr _ \<Rightarrow> Inr ResponseOk)) :: 'a thread"
  have "calm (ss_world S) (snd ?log)" by (rule calm_registry) simp_all
  moreover have "held ?t = promises [waiter] Cancel" by (rule held_notify_thread) simp
  moreover have "good_thread ?t (snd ?log)" by (rule good_notify_thread) simp
  ultimately show "\<exists>t S'. (case ?log of (logged, w) \<Rightarrow>
        Some (notify_thread [waiter] Cancel (Answered (case logged of Inl e \<Rightarrow> Inl e | Inr _ \<Rightarrow> Inr ResponseOk)), S\<lparr>ss_world := w\<rparr>))
        = Some (t, S')
      \<and> guarantee (promises [waiter] Cancel) (ss_world S) (held t) (ss_world S') \<and> good_thread t (ss_world S')"
    using guarantee_calm [OF _ S, of "snd ?log"] by (simp add: split_beta del: notify_thread.simps)
qed

lemma ready_cancel_request_thread: "ready (cancel_request_thread E name i reason) w"
  unfolding cancel_request_thread_def
proof (rule ready_section, goal_cases)
  case (1 S t S')
  have wf: "wf_world (ss_world S)" using 1(2) by (simp add: shared_ok_def world_ok_def)
  show ?case
    using wf
  proof (cases rule: take_request_cases [where name = name and i = i])
    case (found q)
    let ?w1 = "(ss_world S)\<lparr>w_registry := snd (remove_any_pending_request i (w_registry (ss_world S)))\<rparr>"
    obtain w2 where f: "fresh_operation_id ?w1 = (rg_next_operation_id (w_registry (ss_world S)), w2)"
      and w2: "snd (fresh_operation_id ?w1) = w2"
      by (rule that [OF _ refl]) (simp add: prod_eq_iff)
    have tw: "take_waiter i w2 = (waiter_of (ss_world S) i, request_out i (ss_world S))"
      unfolding w2 [symmetric] take_waiter_pair take_fresh_out [OF found(3)] by (simp add: next_operation_id_def)
    obtain s where s: "get_sandbox name (ss_world S) = Some s"
      using 1(2) found by (force simp: shared_ok_def world_ok_def requests_homed_def)
    then have s2: "get_sandbox name w2 = Some s" by (simp add: w2 [symmetric])
    from guarantee_taken [OF 1(2) request_out_taken [OF wf, of i], of Cancel] 1(3) good_tell_canceled_thread
    show ?thesis by (auto simp: found(3) f tw s2 tell_canceled_thread_def)
  qed (use 1 guarantee_calm [OF calm_refl 1(2), of "[]"] in \<open>auto simp: good_thread.answered\<close>)
qed

section \<open>Granting\<close>

lemma announce_one_told:
  assumes "shared_ok w" and "holds (promises (map rel_waiter (rel # rels)) Apply) w"
  shows "guarantee (promises (map rel_waiter (rel # rels)) Apply) w (promises (map rel_waiter rels) Apply)
    (snd (announce_one E oc rel (logged, w)))"
proof -
  obtain w1 where w1: "snd (announce_one E oc rel (logged, w)) = notify_waiter (rel_waiter rel) Apply w1"
    and same: "w_registry w1 = w_registry w" "w_cells w1 = w_cells w" "w_next_cell w1 = w_next_cell w"
    by (cases "rel_event_id rel") (auto simp: announce_one_def split_beta)
  have calm: "calm w w1" by (rule calm_registry [OF same])
  have "guarantee (promises (map rel_waiter (rel # rels)) Apply) w1 (promises (map rel_waiter rels) Apply)
      (notify_waiter (rel_waiter rel) Apply w1)"
    using guarantee_told [of w1 "rel_waiter rel" "map rel_waiter rels" Apply] guarantee_calm [OF calm assms]
    by (simp add: guarantee_def)
  then show ?thesis unfolding w1 guarantee_def hands_def by (simp add: same)
qed

lemma held_release_thread: "held (release_thread E oc rels logged) = promises (map rel_waiter rels) Apply"
  by (cases rels) simp_all

lemma good_release_thread: "good_thread (release_thread E oc rels logged) w"
proof (induction rels arbitrary: logged w)
  case (Cons rel rels)
  show ?case
    unfolding release_thread.simps
  proof (rule good_section)
    fix S :: "'a session"
    assume S: "shared_ok (ss_world S)" "holds (promises (map rel_waiter (rel # rels)) Apply) (ss_world S)"
    from announce_one_told [OF this, where E = E and oc = oc and logged = logged] Cons.IH
    show "\<exists>t S'. (case announce_one E oc rel (logged, ss_world S) of
          (logged, w) \<Rightarrow> Some (release_thread E oc rels logged, S\<lparr>ss_world := w\<rparr>)) = Some (t, S')
        \<and> guarantee (promises (map rel_waiter (rel # rels)) Apply) (ss_world S) (held t) (ss_world S')
        \<and> good_thread t (ss_world S')"
      by (simp add: split_beta held_release_thread)
  qed
qed (simp add: good_thread.answered)

lemma held_finish_grant_thread: "held (finish_grant_thread E oc) = promises (map rel_waiter (go_released oc)) Apply"
  by (simp add: finish_grant_thread_def)

lemma good_finish_grant_thread: "good_thread (finish_grant_thread E oc) w"
  unfolding finish_grant_thread_def
proof (rule good_section)
  fix S :: "'a session"
  assume S: "shared_ok (ss_world S)" "holds (promises (map rel_waiter (go_released oc)) Apply) (ss_world S)"
  have "calm (ss_world S) (snd (grant_events E oc (ss_world S)))"
    by (rule calm_registry) (simp_all add: grant_events_def Let_def split: option.split)
  from guarantee_calm [OF this S] show "\<exists>t S'. (case grant_events E oc (ss_world S) of
        (logged, w) \<Rightarrow> Some (release_thread E oc (go_released oc) logged, S\<lparr>ss_world := w\<rparr>)) = Some (t, S')
      \<and> guarantee (promises (map rel_waiter (go_released oc)) Apply) (ss_world S) (held t) (ss_world S')
      \<and> good_thread t (ss_world S')"
    by (simp add: split_beta held_release_thread good_release_thread)
qed

lemma calm_fresh: "calm w (snd (fresh_operation_id w))"
  by (rule calm_tame) (rule tame_fresh)

text \<open>What the critical section of a grant hands to its thread: the waiters of the released requests.\<close>

lemma place_grant_guarantee:
  assumes ok: "shared_ok w" and q: "om_get (rg_pending_read_write (w_registry w)) i = Some q" "prw_sandbox q = name"
    and p: "grant_pattern_matches (env_glob E) p (prw_path q)"
    and clock: "clock_ok now" and life: "opt_lifetime options \<noteq> DurationRequest 0"
    and sub: "choose_subject E h tree q = Some (Some subject, q', warning, dg)"
    and own: "rel_id own = i" "rel_waiter own = waiter_of w i"
    and run: "place_grant E name options p now subject q' own log_path d warning (request_out i w) = (oc, w2)"
  shows "guarantee [] w (promises (map rel_waiter (go_released oc)) Apply) w2"
proof -
  have wf: "wf_world w" using ok by (simp add: shared_ok_def world_ok_def)
  obtain ident where q': "q' = get_or_insert_identity ident q" "subject_matches subject (prw_process_identity q')"
    using choose_subject_covers [OF sub] by blast
  have id: "prw_id q' = i" using wf q q'(1) by (simp add: wf_world_def wf_registry_def)
  let ?v = "identified q' w" and ?g = "grant_for (Suc (rg_next_operation_id (w_registry w))) name options p subject q' now"
  note idw = identified_world [OF wf q(1) id]
  have same: "rg_sandboxes (w_registry ?v) = rg_sandboxes (w_registry w)" "w_cells ?v = w_cells w" "w_next_cell ?v = w_next_cell w"
    "rg_next_operation_id (w_registry ?v) = rg_next_operation_id (w_registry w)"
    by (simp_all add: identified_def insert_pending_read_write_request_def)
  have pend: "pending_of w i = Some (PendingReadWrite q)"
    using wf_registryD(5) [of "w_registry w" i] wf q(1) by (simp add: get_any_pending_def wf_world_def)
  from place_grant_settles [OF wf q p q' clock life own refl refl run]
  obtain I w1 where t: "taken I (map rel_waiter (go_released oc)) ?v w1"
    and w2: "w2 = (if grant_lifetime_of ?g = OneShot then w1 else with_registry (insert_read_write_grant ?g) w1)"
    and gid: "grant_lifetime_of ?g \<noteq> OneShot \<longrightarrow> grant_id ?g < rg_next_operation_id (w_registry w1)"
    by blast
  have wf1: "wf_world w1" using wf_world_taken [OF idw(1) t] .
  have wf2: "wf_world w2"
    using wf1 gid wf_registry_insert_grant [of "w_registry w1" ?g] wf_world_registry [OF wf1, of "insert_read_write_grant ?g (w_registry w1)"]
    by (auto simp: w2 wf_world_def with_registry_def insert_read_write_grant_def)
  have w2_same: "w_cells w2 = w_cells w1" "w_next_cell w2 = w_next_cell w1" "pending_of w2 = pending_of w1"
    "waiter_of w2 = waiter_of w1" "rg_sandboxes (w_registry w2) = rg_sandboxes (w_registry w1)"
    "rg_next_operation_id (w_registry w2) = rg_next_operation_id (w_registry w1)"
    by (simp_all add: w2)
  have home: "prw_sandbox q' = prw_sandbox q" using q' by simp
  show ?thesis
    by (rule guarantee_out [OF ok wf2, where I = I])
      (use t pend home idw(4,5) in \<open>auto simp: taken_def w2_same same split: if_splits\<close>)
qed

lemma decide_grant_guarantee:
  assumes ok: "shared_ok w" and clock: "clock_ok now" and life: "opt_lifetime options \<noteq> DurationRequest 0"
    and run: "decide_grant E name i options now w = Some (r, w')"
  shows "case r of Inl e \<Rightarrow> calm w w'
    | Inr oc \<Rightarrow> guarantee [] w (promises (map rel_waiter (go_released oc)) Apply) w'"
proof (cases "\<exists>q. pending_of w i = Some (PendingReadWrite q) \<and> prw_sandbox q = name")
  case False
  have "wf_world w" using ok by (simp add: shared_ok_def world_ok_def)
  from decide_grant_refused [OF this False, of E options now] run show ?thesis by auto
next
  case True
  then obtain q where pend: "pending_of w i = Some (PendingReadWrite q)" and name: "prw_sandbox q = name" by blast
  have wf: "wf_world w" and homed: "requests_homed w" using ok by (simp_all add: shared_ok_def world_ok_def)
  have q: "om_get (rg_pending_read_write (w_registry w)) i = Some q"
    using pend by (auto simp: get_any_pending_def split: option.splits)
  obtain s where s: "get_sandbox name w = Some s" using homed pend name by (force simp: requests_homed_def)
  define p where "p = (case opt_path options of Some p \<Rightarrow> p | None \<Rightarrow> prw_path q)"
  show ?thesis
  proof (cases "grant_pattern_matches (env_glob E) p (prw_path q)")
    case False
    from decide_grant_mismatch [OF wf q name s p_def False, of now] run show ?thesis by (auto simp: calm_fresh)
  next
    case m: True
    note d = decide_grant_found [OF wf q name s p_def m refl, of now]
    show ?thesis
    proof (cases "choose_subject E (w_host w) (opt_tree options) q")
      case None
      with run d show ?thesis by simp
    next
      case (Some choice)
      obtain subject q' warning dg where choice: "choice = (subject, q', warning, dg)" by (cases choice)
      show ?thesis
      proof (cases subject)
        case None
        with run d Some choice guarantee_taken [OF ok request_out_taken [OF wf, of i], of Apply] show ?thesis by auto
      next
        case (Some sj)
        let ?own = "\<lparr>rel_id = i, rel_attach_id = prw_attach_id q, rel_event_id = None, rel_waiter = waiter_of w i\<rparr>"
        obtain oc w2 where pg: "place_grant E name options p now sj q' ?own (sb_log_path s)
            (rg_next_operation_id (w_registry w)) warning (request_out i w) = (oc, w2)" by fastforce
        have "r = Inr oc" "w' = w2"
          using run d pg \<open>choose_subject E (w_host w) (opt_tree options) q = Some choice\<close> choice Some by simp_all
        with place_grant_guarantee [OF ok q name m clock life _ _ _ pg] \<open>choose_subject E (w_host w) (opt_tree options) q = Some choice\<close>
          choice Some show ?thesis by simp
      qed
    qed
  qed
qed

lemma ready_allow_grant_thread:
  assumes "\<And>h. clock_ok (os_now (env_os E) h)"
  shows "ready (allow_grant_thread E name i options) w"
proof (cases "opt_lifetime options = DurationRequest 0")
  case True
  then show ?thesis by (simp add: allow_grant_thread_def)
next
  case life: False
  have "ready (Section [] (\<lambda>S. case decide_grant E name i options now (ss_world S) of
                      None \<Rightarrow> None
                    | Some (Inl e, w) \<Rightarrow> Some (Answered (Inl e), S\<lparr>ss_world := w\<rparr>)
                    | Some (Inr oc, w) \<Rightarrow> Some (finish_grant_thread E oc, S\<lparr>ss_world := w\<rparr>))) w1"
    if clock: "clock_ok now" for now and w1 :: "'a world"
  proof (rule ready_section)
    fix S :: "'a session" and t S'
    assume ok: "shared_ok (ss_world S)" and run: "(case decide_grant E name i options now (ss_world S) of
                      None \<Rightarrow> None
                    | Some (Inl e, w) \<Rightarrow> Some (Answered (Inl e), S\<lparr>ss_world := w\<rparr>)
                    | Some (Inr oc, w) \<Rightarrow> Some (finish_grant_thread E oc, S\<lparr>ss_world := w\<rparr>)) = Some (t, S')"
    then obtain r w' where d: "decide_grant E name i options now (ss_world S) = Some (r, w')"
      by (auto split: option.splits)
    from decide_grant_guarantee [OF ok clock life d] run d
    show "removes (ss_world S) (ss_world S') \<or> guarantee [] (ss_world S) (held t) (ss_world S') \<and> good_thread t (ss_world S')"
      using guarantee_calm [OF _ ok, of _ "[]"]
      by (cases r) (auto simp: good_thread.answered good_finish_grant_thread held_finish_grant_thread)
  qed
  then show ?thesis using life assms by (simp add: allow_grant_thread_def Let_def) (intro ready_look, simp)
qed

section \<open>Attaching and detaching\<close>

lemma one_sandbox_put: "get_sandbox name w \<noteq> None \<Longrightarrow> one_sandbox (put_sandbox name s w) \<longleftrightarrow> one_sandbox w"
  by (auto simp: one_sandbox_def get_put_sandbox)

lemma calm_log_then_ok: "calm w (snd (log_then_ok E p i b w))"
  by (rule calm_tame) (rule tame_log_then_ok)

lemma calm_host: "calm w (w\<lparr>w_host := h\<rparr>)"
  by (rule calm_tame) (rule tame_host)

lemma calm_add_attach:
  assumes s: "get_sandbox name w = Some s" and i: "at_id a < rg_next_operation_id (w_registry w)"
  shows "calm w (put_sandbox name (s\<lparr>sb_attaches := om_insert (components (at_mountpoint a)) a (sb_attaches s)\<rparr>) w)"
  unfolding calm_def
proof (intro impI conjI)
  assume ok: "shared_ok w"
  have "attach_of w n key = None" if "n \<noteq> name" for n key
    using ok s that unfolding shared_ok_def one_sandbox_def attach_of_def by (cases "get_sandbox n w") auto
  from world_ok_add_attach [OF _ s this refl i] ok s
  show "shared_ok (put_sandbox name (s\<lparr>sb_attaches := om_insert (components (at_mountpoint a)) a (sb_attaches s)\<rparr>) w)"
    by (simp add: shared_ok_def one_sandbox_put)
qed (rule wakes_put_sandbox)

lemma calm_record_attach:
  assumes "attach_id < rg_next_operation_id (w_registry w)"
  shows "calm w (snd (record_attach E name mp temporary attach_id event_id log_path w))"
proof (cases "get_sandbox name w")
  case (Some s)
  from calm_trans [OF calm_add_attach [OF Some, where a = "\<lparr>at_id = attach_id, at_mountpoint = mp, at_temporary = temporary, at_active = True\<rparr>"]
      calm_log_then_ok] assms Some show ?thesis by (simp add: record_attach_def)
qed (simp add: record_attach_def)

lemma calm_unrecord_attach: "calm w (snd (unrecord_attach name mp w))"
proof -
  have "calm w1 (remove_attach name mp w1)" for w1 :: "'a world"
    using world_ok_remove_attach [of w1 name mp]
    by (auto simp: calm_def shared_ok_def wakes_remove_attach) (auto simp: remove_attach_def one_sandbox_put split: option.split)
  from calm_trans [OF calm_fresh this] show ?thesis by (simp add: unrecord_attach_def split_beta)
qed

lemma attach_ids_fresh:
  assumes "attach_ids name w = (r, w')"
  shows "calm w w'" and "r = Inr (attach_id, event_id, log_path) \<Longrightarrow> attach_id < rg_next_operation_id (w_registry w')"
proof -
  let ?w2 = "snd (fresh_operation_id (snd (fresh_operation_id w)))"
  have "w' = ?w2" using assms by (simp add: attach_ids_def split_beta Let_def split: option.splits)
  then show "calm w w'" using calm_trans [OF calm_fresh calm_fresh] by simp
  show "attach_id < rg_next_operation_id (w_registry w')" if "r = Inr (attach_id, event_id, log_path)"
    using assms that by (auto simp: attach_ids_def fresh_operation_id_def next_operation_id_def Let_def split: option.splits)
qed

lemma ready_mount_thread:
  assumes k: "\<And>r w'. later w w' \<Longrightarrow> ready (k r) w'" and i: "attach_id < rg_next_operation_id (w_registry w)"
  shows "ready (mount_thread E name mp temporary attach_id event_id log_path k) w"
  unfolding mount_thread_def
proof (rule ready_calm_section, goal_cases)
  case (1 S t S')
  have after: "ready (locked (record_attach E name mp temporary attach_id event_id log_path) k) w1" if "later w w1" for w1
  proof (rule ready_locked)
    fix w2 x w3 assume w2: "later w1 w2" "shared_ok w2" and run: "record_attach E name mp temporary attach_id event_id log_path w2 = (x, w3)"
    have "attach_id < rg_next_operation_id (w_registry w2)" using i later_trans [OF that w2(1)] by (simp add: later_def)
    from calm_record_attach [OF this, of E name mp temporary event_id log_path] run have calm: "calm w2 w3" by simp
    from k [OF later_trans [OF later_trans [OF that w2(1)]]] calm
    show "calm w2 w3 \<and> (later w2 w3 \<longrightarrow> ready (k x) w3)" by blast
  qed
  have "ready (push_mount_thread name attach_id mp temporary
      (locked (record_attach E name mp temporary attach_id event_id log_path) k)) w1" if "later w w1" for w1
    unfolding push_mount_thread_def by (rule ready_calm_section) (auto intro: after later_trans [OF that])
  moreover obtain res h where "os_spawn_mount (env_os E) (w_host (ss_world S)) (''gatefs:'' @ name) mp = (res, h)" by fastforce
  ultimately show ?case
    using 1 calm_host [of "ss_world S" h] k by (cases res) (auto dest: later_trans)
qed

lemma ready_attach_thread:
  assumes k: "\<And>r w'. later w w' \<Longrightarrow> ready (k r) w'"
  shows "ready (attach_thread E name mountpoint temporary k) w"
proof -
  have mount: "ready (locked (attach_ids name) (\<lambda>ids. case ids of
                    Inl e \<Rightarrow> k (Inl e)
                  | Inr (attach_id, event_id, log_path) \<Rightarrow>
                      mount_thread E name mp temporary attach_id event_id log_path k)) w1" if "later w w1" for mp w1
  proof (rule ready_locked)
    fix w2 x w3 assume w2: "later w1 w2" and run: "attach_ids name w2 = (x, w3)"
    have "ready (case x of Inl e \<Rightarrow> k (Inl e) | Inr (attach_id, event_id, log_path) \<Rightarrow>
        mount_thread E name mp temporary attach_id event_id log_path k) w3" if w3: "later w2 w3"
    proof -
      have now: "later w w3" using later_trans [OF later_trans [OF \<open>later w w1\<close> w2] w3] .
      show ?thesis
        using k [OF now] k [OF later_trans [OF now]] attach_ids_fresh(2) [OF run]
        by (auto split: sum.split intro!: ready_mount_thread)
    qed
    with attach_ids_fresh(1) [OF run] show "calm w2 w3 \<and> (later w2 w3 \<longrightarrow> ready (case x of Inl e \<Rightarrow> k (Inl e)
        | Inr (attach_id, event_id, log_path) \<Rightarrow> mount_thread E name mp temporary attach_id event_id log_path k) w3)" by blast
  qed
  show ?thesis
    unfolding attach_thread_def
    by (rule ready_look) (auto intro!: ready_look k mount split: sum.split option.split dest: later_trans)
qed

lemma ready_unmount_thread:
  assumes k: "\<And>r w'. later w w' \<Longrightarrow> ready (k r) w'"
  shows "ready (unmount_thread E name mp attach_id log_path k) w"
  unfolding unmount_thread_def
proof (rule ready_calm_section, goal_cases)
  case (1 S t S')
  have log: "ready (locked (log_then_ok E log_path event_id b) k) w1" if "later w w1" for event_id b w1
  proof (rule ready_locked)
    fix w2 x w3 assume w2: "later w1 w2" and run: "log_then_ok E log_path event_id b w2 = (x, w3)"
    from calm_log_then_ok [of w2 E log_path event_id b] k [OF later_trans [OF later_trans [OF that w2]]] run
    show "calm w2 w3 \<and> (later w2 w3 \<longrightarrow> ready (k x) w3)" by simp
  qed
  have "ready (locked (unrecord_attach name mp)
      (\<lambda>event_id. locked (log_then_ok E log_path event_id (''detach attach='' @ show_nat attach_id)) k)) w1" if "later w w1" for w1
  proof (rule ready_locked)
    fix w2 x w3 assume w2: "later w1 w2" and run: "unrecord_attach name mp w2 = (x, w3)"
    from calm_unrecord_attach [of w2 name mp] log [OF later_trans [OF later_trans [OF that w2]]] run
    show "calm w2 w3 \<and> (later w2 w3 \<longrightarrow>
        ready (locked (log_then_ok E log_path x (''detach attach='' @ show_nat attach_id)) k) w3)" by simp
  qed
  moreover obtain res h where "os_umount_and_join (env_os E) (w_host (ss_world S)) mp = (res, h)" by fastforce
  ultimately show ?case
    using 1 calm_host [of "ss_world S" h] k by (cases res) (auto dest: later_trans)
qed

lemma ready_take_mount_thread:
  assumes k: "\<And>r w'. later w w' \<Longrightarrow> ready (k r) w'"
  shows "ready (take_mount_thread E name mp attach_id log_path k) w"
  unfolding take_mount_thread_def
proof (rule ready_calm_section, goal_cases)
  case (1 S t S')
  have "ready (unmount_thread E name mp attach_id log_path k) w1" if "later w w1" for w1
    by (rule ready_unmount_thread) (rule k, rule later_trans [OF that])
  then show ?case using 1 k by (auto simp del: list_position_None split: option.splits)
qed

lemma ready_detach_thread:
  assumes k: "\<And>r w'. later w w' \<Longrightarrow> ready (k r) w'"
  shows "ready (detach_thread E name mountpoint k) w"
proof -
  have "ready (cancel_view_thread E name attach_id ''detach'' (\<lambda>_. take_mount_thread E name mp attach_id log_path k)) w1"
    if "later w w1" for attach_id mp log_path w1
    unfolding cancel_view_thread_def
    by (rule ready_cancel_thread, rule ready_take_mount_thread, rule k) (blast intro: later_trans that)
  then show ?thesis
    unfolding detach_thread_def
    by (intro ready_look) (auto intro!: ready_look k split: sum.split dest: later_trans)
qed

section \<open>Every request\<close>

lemma ready_cancel_all_thread:
  assumes k: "\<And>r w'. later w w' \<Longrightarrow> ready (k r) w'"
  shows "ready (cancel_all_thread E name mountpoint k) w"
proof -
  have cancel: "ready (cancel_thread E name in_scope scope attach_id reason k) w1" if "later w w1" for in_scope scope attach_id reason w1
    by (rule ready_cancel_thread) (blast intro: k later_trans that)
  show ?thesis
    unfolding cancel_all_thread_def cancel_view_thread_def
    by (auto intro!: ready_look k cancel split: option.split sum.split) (erule (1) later_trans)+
qed

lemma ready_on_host:
  assumes k: "\<And>r w'. later w w' \<Longrightarrow> ready (k r) w'"
  shows "ready (locked (on_host_world f) k) w"
proof (rule ready_locked)
  fix w2 x w3 assume w2: "later w w2" and run: "on_host_world f w2 = (x, w3)"
  then have "calm w2 w3" using calm_host by (auto simp: on_host_world_def split: prod.splits)
  with k [OF later_trans [OF w2]] show "calm w2 w3 \<and> (later w2 w3 \<longrightarrow> ready (k x) w3)" by blast
qed

lemma ready_begin_trusted_thread: "ready (begin_trusted_thread E name command mountpoint paths) w"
proof -
  have "ready (locked (record_trusted E name command mountpoint paths i) Answered) w1"
    if i: "i < rg_next_operation_id (w_registry w1)" for i and w1 :: "'a world"
  proof (rule ready_locked)
    fix w2 x w3 assume w2: "later w1 w2" and run: "record_trusted E name command mountpoint paths i w2 = (x, w3)"
    have "i < rg_next_operation_id (w_registry w2)" using i w2 by (simp add: later_def)
    then have "calm w2 w3" using run by (auto simp: record_trusted_def Let_def intro!: calm_tame tame_insert_trusted)
    then show "calm w2 w3 \<and> (later w2 w3 \<longrightarrow> ready (Answered x) w3)" by simp
  qed
  note recorded = this
  have rest: "ready (locked (on_host_world (\<lambda>h. os_create_dir_all (env_os E) h mountpoint))
              (\<lambda>made. case made of
                 Inl e \<Rightarrow> Answered (Inl (Io e))
               | Inr _ \<Rightarrow>
                   attach_thread E name mountpoint True
                     (\<lambda>r. case r of
                        Inl e \<Rightarrow> Answered (Inl e)
                      | Inr _ \<Rightarrow> locked (record_trusted E name command mountpoint paths i) Answered))) w1"
    if i: "i < rg_next_operation_id (w_registry w1)" for i and w1 :: "'a world"
    by (rule ready_on_host)
      (use i in \<open>auto simp: later_def intro!: ready_attach_thread recorded split: sum.split\<close>)
  show ?thesis
    unfolding begin_trusted_thread_def
  proof (rule ready_locked)
    fix w2 :: "'a world" and x w3 assume run: "trusted_id name w2 = (x, w3)"
    then have calm: "calm w2 w3" using calm_fresh [of w2] by (auto simp: trusted_id_def split: if_splits prod.splits)
    have "i < rg_next_operation_id (w_registry w3)" if "x = Inr i" for i
      using run that by (auto simp: trusted_id_def fresh_operation_id_def next_operation_id_def split: if_splits)
    with calm rest show "calm w2 w3 \<and> (later w2 w3 \<longrightarrow> ready (case x of Inl e \<Rightarrow> Answered (Inl e) | Inr operation_id \<Rightarrow>
            locked (on_host_world (\<lambda>h. os_create_dir_all (env_os E) h mountpoint))
              (\<lambda>made. case made of
                 Inl e \<Rightarrow> Answered (Inl (Io e))
               | Inr _ \<Rightarrow>
                   attach_thread E name mountpoint True
                     (\<lambda>r. case r of
                        Inl e \<Rightarrow> Answered (Inl e)
                      | Inr _ \<Rightarrow> locked (record_trusted E name command mountpoint paths operation_id) Answered))) w3)"
      by (cases x) simp_all
  qed
qed

lemma ready_end_trusted_thread: "ready (end_trusted_thread E token) w"
  unfolding end_trusted_thread_def
proof (rule ready_locked, goal_cases)
  case (1 w1 x w2)
  then have "calm w1 w2" by (auto simp: take_trusted_def intro!: calm_tame tame_remove_trusted)
  then show ?case
    by (auto intro!: ready_detach_thread ready_on_host split: option.split sum.split)
qed

lemma ready_plain:
  assumes "\<And>w. tame w (snd (f w))" and k: "\<And>r w. ready (k r) w"
  shows "ready (locked f k) w"
proof (rule ready_locked)
  fix w1 x w2 assume "f w1 = (x, w2)"
  with calm_tame [OF assms(1) [of w1]] k show "calm w1 w2 \<and> (later w1 w2 \<longrightarrow> ready (k x) w2)" by simp
qed

lemma ready_allow_thread:
  assumes "\<And>h. clock_ok (os_now (env_os E) h)"
  shows "ready (allow_thread E name i do_nothing grant) w"
  using ready_allow_grant_thread [OF assms] tame_decide [of _ E Apply name i] tame_decide [of _ E DoNothing name i]
  by (cases do_nothing) (auto simp: allow_thread_def session_decide_def intro!: ready_plain split: option.split)

lemma ready_one_section:
  assumes "wf_request q" and "\<not> moves_mounts q" and "\<And>h. clock_ok (os_now (env_os E) h)"
  shows "ready (one_section E q) w"
  unfolding one_section_def
proof (rule ready_calm_section, goal_cases)
  case (1 S t S')
  then obtain r where "handle_result E q S = Some (r, S')" "t = Answered r" by auto
  with handle_tame [OF this(1) assms(1,3,2)] calm_tame show ?case by auto
qed

lemma ready_mount_layer_thread:
  assumes "wf_path on_fs" and "\<forall>c \<in> set on_fs. utf8_valid c"
  shows "ready (mount_layer_thread E name local on_fs) w"
  unfolding mount_layer_thread_def
  by (intro ready_look) (auto intro!: ready_look ready_plain tame_change_sandbox split: sum.split
      simp: wf_sandbox_add_layer [OF _ assms] add_layer_simps)

text \<open>\<^verbatim>\<open>destroy\<close> is a good thread up to the removal of the sandbox.\<close>

lemma ready_detach_all_thread:
  assumes "\<And>r w'. later w w' \<Longrightarrow> ready (k r) w'"
  shows "ready (detach_all_thread E name mountpoints k) w"
  using assms
proof (induction mountpoints arbitrary: w)
  case (Cons mp mps)
  have "ready (detach_all_thread E name mps k) w1" if "later w w1" for w1
    by (rule Cons.IH) (rule Cons.prems, rule later_trans [OF that])
  with Cons.prems show ?case by (auto intro!: ready_detach_thread split: sum.split)
qed simp

lemma ready_remove_sandbox: "ready (locked (remove_sandbox E name) Answered) w"
  unfolding locked_def
proof (rule ready_section, goal_cases)
  case (1 S t S')
  show ?case
  proof (cases "get_sandbox name (ss_world S)")
    case None
    then have "S' = S" "t = Answered (Inr ResponseOk)" using 1(3) by (auto simp: remove_sandbox_def in_world_def)
    with guarantee_calm [OF calm_refl 1(2), of "[]"] show ?thesis by (simp add: good_thread.answered)
  next
    case (Some s)
    then have "get_sandbox name (ss_world S') = None"
      using 1(3) by (auto simp: remove_sandbox_def in_world_def get_sandbox_def Let_def split: prod.splits)
    then show ?thesis using Some by (auto simp: removes_def get_sandbox_def om_keys_dom)
  qed
qed

lemma ready_destroy_thread: "ready (destroy_thread E name) w"
  unfolding destroy_thread_def
proof (rule ready_locked, goal_cases)
  case (1 w1 x w2)
  then have "calm w1 w2" by (auto simp: begin_destroy_def tame_retain_trusted intro!: calm_tame split: option.splits)
  then show ?case
    by (auto intro!: ready_cancel_all_thread ready_detach_all_thread ready_remove_sandbox split: sum.split)
qed

text \<open>Every request starts a good thread.\<close>

lemma ready_request:
  assumes "wf_request q" and "\<And>h. clock_ok (os_now (env_os E) h)"
  shows "ready (request_thread E q) w"
  using assms
  by (cases q) (auto intro!: ready_destroy_thread ready_attach_thread ready_detach_thread ready_begin_trusted_thread ready_end_trusted_thread
      ready_allow_thread ready_cancel_all_thread
      ready_cancel_request_thread ready_mount_layer_thread ready_one_section)

end
