(* ===== verification/Server.thy ===== *)
theory Server
  imports Interleaving
begin

text \<open>
  The server with its threads as a state machine: requests arrive at any time, and the sections of
  the threads and the steps of the file systems run in any order. The invariant of the shared
  state, and that a caller which waits is always in somebody's hands.
\<close>

section \<open>The machine\<close>

record 'h server =
  sv_system :: "'h system"
  sv_threads :: "'h thread list"

abbreviation sv_world :: "'h server \<Rightarrow> 'h world" where
  "sv_world v \<equiv> sy_world (sv_system v)"

definition with_mounts :: "mounted_session list \<Rightarrow> 'h system \<Rightarrow> 'h system" where
  "with_mounts ms y = y\<lparr>sy_session := (sy_session y)\<lparr>ss_mounts := ms\<rparr>\<rparr>"

text \<open>
  A file system answers from the moment it is mounted, before its session is in the list of the
  server, and until it is unmounted, after its session has left the list; so the steps of the file
  systems are those of any list of mounts. The machine stops before the sandbox is removed.
\<close>

inductive server_step :: "'h env \<Rightarrow> 'h server \<Rightarrow> 'h server \<Rightarrow> bool" for E where
  arrive: "wf_request q \<Longrightarrow>
    server_step E v (v\<lparr>sv_threads := request_thread E q # sv_threads v\<rparr>)"
| go_on: "sv_threads v = us @ Section ws f # vs \<Longrightarrow> f (sy_session (sv_system v)) = Some (t, S') \<Longrightarrow>
    \<not> removes (sv_world v) (ss_world S') \<Longrightarrow>
    server_step E v \<lparr>sv_system = (sv_system v)\<lparr>sy_session := S'\<rparr>, sv_threads = us @ t # vs\<rparr>"
| call: "call_step E (with_mounts ms (sv_system v)) y \<Longrightarrow>
    server_step E v (v\<lparr>sv_system := with_mounts (ss_mounts (sy_session (sv_system v))) y\<rparr>)"

definition fresh_server :: "'h env \<Rightarrow> 'h server \<Rightarrow> bool" where
  "fresh_server E v \<longleftrightarrow> fresh_system E (sv_system v) \<and> sv_threads v = []"

definition timed_server_step :: "'h env \<Rightarrow> 'h server \<Rightarrow> 'h server \<Rightarrow> bool" where
  "timed_server_step E v v' \<longleftrightarrow> (\<forall>h. clock_ok (os_now (env_os E) h)) \<and> server_step E v v'"

section \<open>Its invariant\<close>

definition cells_held :: "'h thread list \<Rightarrow> pending_waiter set" where
  "cells_held ts = (\<Union>t \<in> set ts. fst ` set (held t))"

text \<open>No two threads hold the same waiter.\<close>

primrec apart :: "'h thread list \<Rightarrow> bool" where
  "apart [] \<longleftrightarrow> True"
| "apart (t # ts) \<longleftrightarrow> fst ` set (held t) \<inter> cells_held ts = {} \<and> apart ts"

definition server_ok :: "'h server \<Rightarrow> bool" where
  "server_ok v \<longleftrightarrow>
     shared_ok (sv_world v)
     \<and> (\<forall>t \<in> set (sv_threads v). holds (held t) (sv_world v) \<and> good_thread t (sv_world v))
     \<and> apart (sv_threads v)
     \<and> (\<forall>call \<in> set (sy_calls (sv_system v)). call_served (cells_held (sv_threads v)) (sv_world v) call)"

lemma cells_held_simps [simp]:
  "cells_held [] = {}" "cells_held (t # ts) = fst ` set (held t) \<union> cells_held ts"
  "cells_held (ts @ us) = cells_held ts \<union> cells_held us"
  by (auto simp: cells_held_def)

lemma apart_append [simp]:
  "apart (ts @ us) \<longleftrightarrow> apart ts \<and> apart us \<and> cells_held ts \<inter> cells_held us = {}"
  by (induction ts) auto

lemma holds_held:
  assumes "\<forall>t \<in> set ts. holds (held t) w" and "c \<in> cells_held ts"
  shows "c < w_next_cell w" and "waiter_of w i \<noteq> Some c"
  using assms unfolding cells_held_def holds_def by fastforce+

lemma server_okD:
  assumes "server_ok v"
  shows "shared_ok (sv_world v)" "world_ok (sv_world v)" "wf_world (sv_world v)"
  using assms by (simp_all add: server_ok_def shared_ok_def world_ok_def)

text \<open>A section of one thread.\<close>

lemma good_section_step:
  assumes "good_thread (Section ws f) (ss_world S)" and "shared_ok (ss_world S)" "holds ws (ss_world S)"
    and "f S = Some (t, S')" and "\<not> removes (ss_world S) (ss_world S')"
  shows "guarantee ws (ss_world S) (held t) (ss_world S') \<and> good_thread t (ss_world S')"
  by (rule good_sectionE [OF assms(1)]) (use assms(2-5) later_refl in blast)

lemma go_on_ok:
  assumes ok: "server_ok v" and ts: "sv_threads v = us @ Section ws f # vs"
    and run: "f (sy_session (sv_system v)) = Some (t, S')" and lives: "\<not> removes (sv_world v) (ss_world S')"
  shows "server_ok \<lparr>sv_system = (sv_system v)\<lparr>sy_session := S'\<rparr>, sv_threads = us @ t # vs\<rparr>"
    and "guarantee ws (sv_world v) (held t) (ss_world S')"
proof -
  let ?w = "sv_world v"
  have good: "good_thread (Section ws f) ?w" and h: "holds ws ?w"
    using ok by (auto simp: server_ok_def ts)
  have W: "shared_ok ?w" using ok by (rule server_okD)
  from good_section_step [OF good W h run lives]
  have t: "good_thread t (ss_world S')" by simp
  from good_section_step [OF good W h run lives] show g: "guarantee ws ?w (held t) (ss_world S')" by simp
  have hands: "hands (map fst ws) ?w (map fst (held t)) (ss_world S')" and later: "later ?w (ss_world S')"
    using g guarantee_later [OF g] by (simp_all add: guarantee_def)
  have others: "holds (held u) (ss_world S') \<and> good_thread u (ss_world S')" if "u \<in> set us \<union> set vs" for u
  proof
    have "fst ` set (held u) \<subseteq> cells_held us \<union> cells_held vs" using that by (auto simp: cells_held_def)
    moreover have "fst ` set ws \<inter> (cells_held us \<union> cells_held vs) = {}" using ok by (auto simp: server_ok_def ts)
    ultimately have "fst ` set (held u) \<inter> set (map fst ws) = {}" by (simp only: set_map) blast
    moreover have "holds (held u) ?w" "good_thread u ?w" using ok that by (auto simp: server_ok_def ts)
    ultimately show "holds (held u) (ss_world S')" by (intro holds_hands [OF hands])
    show "good_thread u (ss_world S')" using \<open>good_thread u ?w\<close> later by (rule good_later)
  qed
  have new: "c \<in> fst ` set ws \<or> (\<exists>i. waiter_of ?w i = Some c)" if "c \<in> fst ` set (held t)" for c
    using hands that by (auto simp: hands_def)
  have "c \<notin> cells_held us \<union> cells_held vs" if "c \<in> fst ` set (held t)" for c
    using new [OF that] ok holds_held(2) [of us ?w c] holds_held(2) [of vs ?w c] by (auto simp: server_ok_def ts)
  then have "apart (us @ t # vs)" using ok by (auto simp: server_ok_def ts)
  moreover have "call_served (cells_held (us @ t # vs)) (ss_world S') call"
    if "call \<in> set (sy_calls (sv_system v))" for call
  proof -
    have "call_served (set (map fst ws) \<union> (cells_held us \<union> cells_held vs)) ?w call"
      using ok that by (auto simp: server_ok_def ts elim: call_served_mono)
    from call_served_hands [OF hands this] show ?thesis by (rule call_served_mono) auto
  qed
  ultimately show "server_ok \<lparr>sv_system = (sv_system v)\<lparr>sy_session := S'\<rparr>, sv_threads = us @ t # vs\<rparr>"
    using g t others by (auto simp: server_ok_def guarantee_def)
qed

lemma arrive_ok:
  assumes ok: "server_ok v" and "wf_request q" and "\<And>h. clock_ok (os_now (env_os E) h)"
  shows "server_ok (v\<lparr>sv_threads := request_thread E q # sv_threads v\<rparr>)"
  using ready_good [OF ready_request [OF assms(2,3)]] ready_request [OF assms(2,3)] ok
  by (auto simp: server_ok_def ready_def)

lemma call_ok_step:
  assumes ok: "server_ok v" and step: "call_step E (with_mounts ms (sv_system v)) y"
  shows "server_ok (v\<lparr>sv_system := with_mounts (ss_mounts (sy_session (sv_system v))) y\<rparr>)"
    and "wakes (sv_world v) (sy_world y)"
proof -
  let ?w = "sv_world v"
  have same: "sy_world (with_mounts ms z) = sy_world z" "sy_calls (with_mounts ms z) = sy_calls z" for ms and z :: "'a system"
    by (simp_all add: with_mounts_def)
  have served: "\<forall>call \<in> set (sy_calls (with_mounts ms (sv_system v))). call_served (cells_held (sv_threads v)) (sy_world (with_mounts ms (sv_system v))) call"
    using ok by (simp add: same server_ok_def)
  have "tame ?w (sy_world y)" using call_step_tame(1) [OF step _ served] server_okD(2) [OF ok] by (simp add: same)
  then have calm: "calm ?w (sy_world y)" by (rule calm_tame)
  have W: "shared_ok ?w" using ok by (rule server_okD)
  with calm show wakes: "wakes ?w (sy_world y)" by (simp add: calm_def)
  have "holds (held t) (sy_world y) \<and> good_thread t (sy_world y)" if "t \<in> set (sv_threads v)" for t
    using ok that holds_wakes [OF wakes] good_later [OF _ calm_later [OF calm W]] by (simp add: server_ok_def)
  moreover have "call_served (cells_held (sv_threads v)) (sy_world y) call" if "call \<in> set (sy_calls y)" for call
    using call_step_calls [OF step _ that] server_okD(3) [OF ok] ok call_served_wakes [OF wakes]
      call_served_mono [of "{}" "sy_world y" call]
    by (auto simp: same server_ok_def)
  ultimately show "server_ok (v\<lparr>sv_system := with_mounts (ss_mounts (sy_session (sv_system v))) y\<rparr>)"
    using ok calm by (simp add: server_ok_def same calm_def)
qed

lemma server_step_ok:
  assumes "server_step E v v'" and ok: "server_ok v" and clock: "\<And>h. clock_ok (os_now (env_os E) h)"
  shows "server_ok v'"
  using assms(1)
proof cases
  case (arrive q)
  with arrive_ok [OF ok _ clock] show ?thesis by simp
next
  case go_on
  with go_on_ok(1) [OF ok] show ?thesis by simp
next
  case call
  with call_ok_step(1) [OF ok] show ?thesis by simp
qed

lemma new_session_one_sandbox:
  assumes "new_session E rt name h = Inr S"
  shows "one_sandbox (ss_world S)"
  using assms
  by (auto simp: new_session_def create_initial_def one_sandbox_def get_put_sandbox get_sandbox_def put_sandbox_def
      new_state_def new_registry_def Let_def split: sum.splits prod.splits if_splits)

interpretation lanes: invariant_machine "fresh_server E" "timed_server_step E" server_ok for E :: "'h env"
proof
  show "server_ok v" if fresh: "fresh_server E v" for v
  proof -
    obtain rt name h where new: "new_session E rt name h = Inr (sy_session (sv_system v))"
      using fresh by (auto simp: fresh_server_def fresh_system_def)
    from new_session_ok [OF new] new_session_one_sandbox [OF new] fresh show ?thesis
      by (simp add: server_ok_def shared_ok_def session_ok_def fresh_server_def fresh_system_def)
  qed
  show "server_ok v'" if "server_ok v" "timed_server_step E v v'" for v v'
    using that server_step_ok by (auto simp: timed_server_step_def)
qed

section \<open>Promises are kept\<close>

text \<open>A thread that is given the processor again and again.\<close>

fun run_sections :: "nat \<Rightarrow> 'h thread \<Rightarrow> 'h session \<Rightarrow> ('h thread \<times> 'h session) option" where
  "run_sections 0 t S = Some (t, S)"
| "run_sections (Suc n) (Answered r) S = Some (Answered r, S)"
| "run_sections (Suc n) (Section ws f) S = (case f S of None \<Rightarrow> None | Some (t, S') \<Rightarrow> run_sections n t S')"

lemma good_thread_tells:
  assumes "good_thread t w" and "later w (ss_world S)" "shared_ok (ss_world S)" "holds (held t) (ss_world S)"
    and "(c, d) \<in> set (held t)"
  shows "\<exists>n t' S'. run_sections n t S = Some (t', S') \<and> w_cells (ss_world S') c = Some d"
  using assms
proof (induction arbitrary: S)
  case (running w ws f)
  then obtain t S' where f: "f S = Some (t, S')" by fastforce
  have "ws \<noteq> []" using running.prems(4) by auto
  with running.IH [OF running.prems(1,2)] running.prems(3) f have g: "guarantee ws (ss_world S) (held t) (ss_world S')"
    by simp
  show ?case
  proof (cases "w_cells (ss_world S') c = Some d")
    case True
    with f have "run_sections 1 (Section ws f) S = Some (t, S')" by simp
    with True show ?thesis by blast
  next
    case False
    then have "(c, d) \<in> set (held t)" "shared_ok (ss_world S')" "holds (held t) (ss_world S')"
      using g running.prems(4) by (auto simp: guarantee_def)
    moreover have "later (ss_world S') (ss_world S') \<longrightarrow> shared_ok (ss_world S') \<longrightarrow> holds (held t) (ss_world S') \<longrightarrow>
        (c, d) \<in> set (held t) \<longrightarrow> (\<exists>n t' S''. run_sections n t S' = Some (t', S'') \<and> w_cells (ss_world S'') c = Some d)"
      using running.IH [OF running.prems(1,2)] running.prems(3) f \<open>ws \<noteq> []\<close> by simp
    ultimately obtain n t' S'' where "run_sections n t S' = Some (t', S'')" "w_cells (ss_world S'') c = Some d"
      by auto
    with f have "run_sections (Suc n) (Section ws f) S = Some (t', S'')" by simp
    with \<open>w_cells (ss_world S'') c = Some d\<close> show ?thesis by blast
  qed
qed simp

text \<open>Whatever the others do, the promise stays until it has been kept.\<close>

definition promised :: "pending_waiter \<Rightarrow> pending_decision \<Rightarrow> 'h server \<Rightarrow> bool" where
  "promised c d v \<longleftrightarrow> (\<exists>t \<in> set (sv_threads v). (c, d) \<in> set (held t))"

lemma told_stays:
  assumes "server_step E v v'" and ok: "server_ok v" and "c < w_next_cell (sv_world v)" and "w_cells (sv_world v) c = Some d"
  shows "w_cells (sv_world v') c = Some d"
  using assms(1)
proof cases
  case go_on
  from go_on_ok(2) [OF ok this(2-4)] assms(3,4) show ?thesis by (simp add: go_on(1) guarantee_def hands_def)
next
  case call
  from call_ok_step(2) [OF ok this(2)] assms(3,4) show ?thesis by (simp add: call(1) with_mounts_def wakes_def)
qed (use assms(4) in simp)

lemma promise_stays:
  assumes "server_step E v v'" and ok: "server_ok v" and p: "promised c d v"
  shows "w_cells (sv_world v') c = Some d \<or> promised c d v'"
  using assms(1)
proof cases
  case (go_on us ws f vs t S')
  from go_on_ok(2) [OF ok this(2-4)] p show ?thesis
    by (fastforce simp: go_on(1,2) promised_def guarantee_def)
qed (use p in \<open>auto simp: promised_def with_mounts_def\<close>)

lemma promise_kept:
  assumes "(timed_server_step E)\<^sup>*\<^sup>* v v'" and ok: "server_ok v" and p: "promised c d v"
  shows "server_ok v' \<and> c < w_next_cell (sv_world v') \<and> (w_cells (sv_world v') c = Some d \<or> promised c d v')"
  using assms
proof (induction rule: rtranclp_induct)
  case base
  have "c \<in> cells_held (sv_threads v)" using p by (force simp: promised_def cells_held_def)
  then have "c < w_next_cell (sv_world v)" using ok by (intro holds_held(1)) (auto simp: server_ok_def)
  with ok p show ?case by simp
next
  case (step v1 v2)
  then have v1: "server_ok v1" "c < w_next_cell (sv_world v1)" "w_cells (sv_world v1) c = Some d \<or> promised c d v1"
    and s: "server_step E v1 v2" and clock: "\<And>h. clock_ok (os_now (env_os E) h)"
    by (simp_all add: timed_server_step_def)
  have "w_next_cell (sv_world v1) \<le> w_next_cell (sv_world v2)"
    using s
  proof cases
    case go_on
    from go_on_ok(2) [OF v1(1) this(2-4)] show ?thesis by (simp add: go_on(1) guarantee_def hands_def)
  next
    case call
    from call_ok_step(2) [OF v1(1) this(2)] show ?thesis by (simp add: call(1) with_mounts_def wakes_def)
  qed simp
  with v1(2) have "c < w_next_cell (sv_world v2)" by simp
  with v1(3) server_step_ok [OF s v1(1) clock] told_stays [OF s v1(1,2)] promise_stays [OF s v1(1)] show ?case by blast
qed

lemma undecided_cell:
  assumes "call_served J w call" and "c \<in> call_cells call" and "w_cells w c = None"
  shows "(\<exists>i. waiter_of w i = Some c) \<or> c \<in> J"
proof (cases call)
  case (ReadWriteCall queued)
  with assms(2) obtain i where i: "(i, c) \<in> set queued" by auto
  from bspec [OF assms(1) [unfolded ReadWriteCall call_served.simps] i] assms(3) show ?thesis by auto
qed (use assms in auto)

section \<open>A busy server\<close>

text \<open>Two writes wait; a client cancels everything, and its thread has had its first section.\<close>

lemma busy_server_ok: "server_ok \<lparr>sv_system = busy_system, sv_threads = []\<rparr>"
proof -
  have "one_sandbox busy_world" by (auto simp: one_sandbox_def get_sandbox_def busy_world_def new_registry_def split: if_splits)
  with busy_system_ok show ?thesis
    by (simp add: server_ok_def shared_ok_def system_ok_def session_ok_def) (simp add: busy_system_def busy_session_def)
qed

lemma same_sandboxes: "rg_sandboxes (w_registry w') = rg_sandboxes (w_registry w) \<Longrightarrow> \<not> removes w w'"
  by (auto simp: removes_def om_keys_iff get_sandbox_def)

lemma tame_lives: "tame w w' \<Longrightarrow> world_ok w \<Longrightarrow> \<not> removes w w'"
  by (auto simp: removes_def tame_def om_keys_iff get_sandbox_def)

lemma arrives:
  assumes "wf_request q"
  shows "timed_server_step live_env \<lparr>sv_system = y, sv_threads = ts\<rparr> \<lparr>sv_system = y, sv_threads = request_thread live_env q # ts\<rparr>"
  using server_step.arrive [OF assms, of live_env "\<lparr>sv_system = y, sv_threads = ts\<rparr>"] live_clock
  by (simp add: timed_server_step_def)

lemma goes_on:
  assumes "u = Section ws f" and "f S = Some (t, S')" and "\<not> removes (ss_world S) (ss_world S')"
  shows "timed_server_step live_env \<lparr>sv_system = \<lparr>sy_session = S, sy_calls = cs\<rparr>, sv_threads = u # ts\<rparr>
    \<lparr>sv_system = \<lparr>sy_session = S', sy_calls = cs\<rparr>, sv_threads = t # ts\<rparr>"
  using server_step.go_on [of "\<lparr>sv_system = \<lparr>sy_session = S, sy_calls = cs\<rparr>, sv_threads = u # ts\<rparr>" "[]" ws f ts t S' live_env]
    assms live_clock by (simp add: timed_server_step_def)

definition cancel_everything :: "unit thread" where
  "cancel_everything = request_thread live_env (CancelAll ''box'' None)"

lemma cancel_lives:
  assumes f: "cancel_everything = Section [] f" and "f S = Some (t, S1)" and wf: "wf_world (ss_world S)"
  shows "\<not> removes (ss_world S) (ss_world S1)"
proof (rule same_sandboxes, cases "get_sandbox ''box'' (ss_world S)")
  case None
  then show "rg_sandboxes (w_registry (ss_world S1)) = rg_sandboxes (w_registry (ss_world S))"
    using f assms(2) by (auto simp: cancel_everything_def cancel_all_thread_def cancel_thread_def)
next
  case (Some s)
  obtain f' i items w where "cancel_thread live_env ''box'' (\<lambda>_. True) ''sandbox'' None ''cancel-all'' Answered = Section [] f'"
    and "f' S = Some (finish_cancel_thread live_env i (sb_log_path s) items ''sandbox'' None ''cancel-all'' Answered, S\<lparr>ss_world := w\<rparr>)"
    and "taken (scope_ids ''box'' (\<lambda>_. True) (ss_world S)) (map cp_waiter items) (ss_world S) w"
    by (rule cancel_section [OF wf Some])
  moreover have "f' = f" using f calculation(1) by (simp add: cancel_everything_def cancel_all_thread_def)
  ultimately show "rg_sandboxes (w_registry (ss_world S1)) = rg_sandboxes (w_registry (ss_world S))"
    using assms(2) by (auto simp: taken_def)
qed

lemma half_canceled:
  obtains t S where "run_sections 1 cancel_everything busy_session = Some (t, S)"
    "(timed_server_step live_env)\<^sup>*\<^sup>* \<lparr>sv_system = busy_system, sv_threads = []\<rparr>
       \<lparr>sv_system = busy_system\<lparr>sy_session := S\<rparr>, sv_threads = [t]\<rparr>"
    "(0, Cancel) \<in> set (held t)" "w_cells (ss_world S) 0 = None" "pending_of (ss_world S) = Map.empty"
    "\<forall>d. (0, d) \<in> set (held t) \<longrightarrow> d = Cancel"
proof -
  have box: "get_sandbox ''box'' (ss_world busy_session) = Some attached_sandbox" and wf: "wf_world (ss_world busy_session)"
    by (simp_all add: busy_session_def busy_world_simps wf_busy_world)
  have ids: "scope_ids ''box'' (\<lambda>_. True) (ss_world busy_session) = {3, 4}"
    by (auto simp: scope_ids_def busy_session_def busy_world_simps split: if_splits)
  let ?everything = "cancel_thread live_env ''box'' (\<lambda>_. True) ''sandbox'' None ''cancel-all'' Answered"
  obtain f i items w where f': "?everything = Section [] f"
    and run: "f busy_session = Some (finish_cancel_thread live_env i (sb_log_path attached_sandbox) items ''sandbox'' None ''cancel-all'' Answered,
      busy_session\<lparr>ss_world := w\<rparr>)"
    and tk': "taken (scope_ids ''box'' (\<lambda>_. True) (ss_world busy_session)) (map cp_waiter items) (ss_world busy_session) w"
    by (rule cancel_section [OF wf box])
  have f: "cancel_everything = Section [] f" using f' by (simp add: cancel_everything_def cancel_all_thread_def)
  have tk: "taken {3, 4} (map cp_waiter items) busy_world w" using tk' unfolding ids by (simp add: busy_session_def)
  let ?t = "finish_cancel_thread live_env i (sb_log_path attached_sandbox) items ''sandbox'' None ''cancel-all'' Answered"
  let ?S = "busy_session\<lparr>ss_world := w\<rparr>"
  have busy: "busy_system = \<lparr>sy_session = busy_session, sy_calls = sy_calls busy_system\<rparr>" by (simp add: busy_system_def)
  have "Some 0 \<in> set (map cp_waiter items)" using tk by (auto simp: taken_def busy_world_simps)
  then have held: "(0, Cancel) \<in> set (held ?t)" by (simp add: finish_cancel_thread_def set_promises)
  have "\<not> removes (ss_world busy_session) (ss_world ?S)"
    using tk by (intro same_sandboxes) (simp add: taken_def busy_session_def)
  then have reach: "(timed_server_step live_env)\<^sup>*\<^sup>* \<lparr>sv_system = busy_system, sv_threads = []\<rparr>
      \<lparr>sv_system = busy_system\<lparr>sy_session := ?S\<rparr>, sv_threads = [?t]\<rparr>"
    using arrives [of "CancelAll ''box'' None" busy_system "[]"]
      goes_on [OF f run, of "sy_calls busy_system" "[]"] busy
    by (simp add: cancel_everything_def [symmetric] busy_system_def del: request_thread.simps)
  have "run_sections 1 cancel_everything busy_session = Some (?t, ?S)" unfolding f by (simp add: run)
  moreover have "w_cells (ss_world ?S) 0 = None" "pending_of (ss_world ?S) = Map.empty"
    using tk by (simp_all add: taken_def busy_world_simps fun_eq_iff)
  moreover have "\<forall>d. (0, d) \<in> set (held ?t) \<longrightarrow> d = Cancel" by (simp add: finish_cancel_thread_def set_promises)
  ultimately show ?thesis using reach held by (rule_tac that)
qed

section \<open>Two attaches of one mount point\<close>

text \<open>Threads run by a schedule, which names the thread of every section.\<close>

fun run_schedule :: "nat list \<Rightarrow> 'h thread list \<Rightarrow> 'h session \<Rightarrow> ('h thread list \<times> 'h session) option" where
  "run_schedule [] ts S = Some (ts, S)"
| "run_schedule (i # is) ts S =
     (if i < length ts
      then case run_sections 1 (ts ! i) S of
             None \<Rightarrow> None
           | Some (t, S') \<Rightarrow>
               if removes (ss_world S) (ss_world S') then None else run_schedule is (ts[i := t]) S'
      else None)"

text \<open>A schedule is a run of the machine.\<close>

lemma schedule_reaches:
  assumes "run_schedule is ts S = Some (ts', S')"
  shows "(server_step E)\<^sup>*\<^sup>* \<lparr>sv_system = \<lparr>sy_session = S, sy_calls = cs\<rparr>, sv_threads = ts\<rparr>
    \<lparr>sv_system = \<lparr>sy_session = S', sy_calls = cs\<rparr>, sv_threads = ts'\<rparr>"
  using assms
proof (induction "is" arbitrary: ts S)
  case (Cons i "is")
  then obtain t S1 where i: "i < length ts" and t: "run_sections 1 (ts ! i) S = Some (t, S1)"
    and lives: "\<not> removes (ss_world S) (ss_world S1)" and rest: "run_schedule is (ts[i := t]) S1 = Some (ts', S')"
    by (auto split: if_splits option.splits)
  have "(server_step E)\<^sup>*\<^sup>* \<lparr>sv_system = \<lparr>sy_session = S, sy_calls = cs\<rparr>, sv_threads = ts\<rparr>
      \<lparr>sv_system = \<lparr>sy_session = S1, sy_calls = cs\<rparr>, sv_threads = ts[i := t]\<rparr>"
  proof (cases "ts ! i")
    case (Answered r)
    then have "t = ts ! i" "S1 = S" using t by simp_all
    then show ?thesis by simp
  next
    case (Section ws f)
    then have "f S = Some (t, S1)" using t by (auto split: option.splits)
    moreover have "ts = take i ts @ Section ws f # drop (Suc i) ts" "ts[i := t] = take i ts @ t # drop (Suc i) ts"
      using id_take_nth_drop [OF i] upd_conv_take_nth_drop [OF i] Section by simp_all
    ultimately show ?thesis
      using server_step.go_on [of "\<lparr>sv_system = \<lparr>sy_session = S, sy_calls = cs\<rparr>, sv_threads = ts\<rparr>" "take i ts" ws f "drop (Suc i) ts" t S1 E] lives
      by simp
  qed
  then show ?case using Cons.IH [OF rest] by (rule rtranclp_trans)
qed simp

definition quiet_session :: "unit session" where
  "quiet_session = busy_session\<lparr>ss_world := busy_world\<lparr>w_registry := new_registry\<lparr>rg_sandboxes := [(''box'', demo_sandbox)]\<rparr>\<rparr>,
     ss_mounts := []\<rparr>"

definition mounting_env :: "unit env" where
  "mounting_env = live_env\<lparr>env_os := (env_os live_env)\<lparr>os_spawn_mount := (\<lambda>h _ _. (Inr (), h)),
     os_canonicalize := (\<lambda>_ p. Inr p)\<rparr>\<rparr>"

fun answer_of :: "'h thread \<Rightarrow> response res option" where
  "answer_of (Answered r) = Some r"
| "answer_of (Section ws f) = None"

text \<open>
  The check for a mount point and the record of its attach are under locks of their own: two
  clients that attach one mount point at the same time can both be told that they have, when
  each has passed the check before the other records its attach. Two file systems are mounted
  then, and one of them is recorded.
\<close>

lemma racing_attaches:
  "case run_schedule ([0, 0, 1, 1] @ replicate 4 0 @ replicate 4 1)
      (replicate 2 (request_thread mounting_env (Attach ''box'' ''/mnt'' False))) quiet_session of
     None \<Rightarrow> False
   | Some (ts, S) \<Rightarrow> map answer_of ts = replicate 2 (Some (Inr ResponseOk))
       \<and> map ms_mountpoint (ss_mounts S) = [''/mnt'', ''/mnt'']
       \<and> map_option (length \<circ> sb_attaches) (get_sandbox ''box'' (ss_world S)) = Some 1"
  by code_simp

section \<open>Properties\<close>

text \<open>
  C9: Lock by lock: however the critical sections of the server's threads interleave with each other
  and with the calls of the file systems, in every state reached from a new session, up to the removal of
  the sandbox, the shared state is well-formed, no two threads hold the same waiter, and every cell a call waits for is decided,
  has its waiter in the table, or is held by a thread that is about to tell it.
\<close>

theorem interleaving_invariant:
  assumes "fresh_server E s" and "(timed_server_step E)\<^sup>*\<^sup>* s v"
  shows "world_ok (sv_world v) \<and> apart (sv_threads v)
    \<and> (\<forall>call \<in> set (sy_calls (sv_system v)). call_served (cells_held (sv_threads v)) (sv_world v) call)"
  using lanes.reachable_inv [OF assms] by (simp add: server_ok_def shared_ok_def)

theorem interleaving_invariant_witness:
  "\<exists>S t S1 r S2. new_session live_env demo_runtime ''box'' () = Inr S \<and> run_sections 1 cancel_everything S = Some (t, S1)
     \<and> handle_result live_env (Hide ''box'' [''key'']) S1 = Some (r, S2) \<and> world_ok (ss_world S2) \<and> apart [Answered r, t]"
proof -
  obtain S where S: "new_session live_env demo_runtime ''box'' () = Inr S" using live_session by blast
  let ?v = "\<lambda>S ts. \<lparr>sv_system = \<lparr>sy_session = S, sy_calls = []\<rparr>, sv_threads = ts\<rparr>"
  obtain f where f: "cancel_everything = Section [] f"
    by (simp add: cancel_everything_def cancel_all_thread_def cancel_thread_def)
  have "f S \<noteq> None"
    using f by (auto simp: cancel_everything_def cancel_all_thread_def cancel_thread_def Let_def split: option.split prod.split)
  then obtain t S1 where t: "f S = Some (t, S1)" by fastforce
  obtain r S2 where r: "handle_result live_env (Hide ''box'' [''key'']) S1 = Some (r, S2)"
    by (cases "in_world (session_hide live_env ''box'' [''key'']) S1") simp
  let ?h = "request_thread live_env (Hide ''box'' [''key''])"
  have h: "?h = Section [] (\<lambda>S. map_option (\<lambda>(r, S). (Answered r, S)) (handle_result live_env (Hide ''box'' [''key'']) S))"
    by (simp add: one_section_def)
  have fresh: "fresh_server live_env (?v S [])" using S by (auto simp: fresh_server_def fresh_system_def)
  have wf: "wf_world (ss_world S)" using new_session_ok [OF S] by (simp add: session_ok_def world_ok_def)
  have first: "(timed_server_step live_env)\<^sup>*\<^sup>* (?v S []) (?v S1 [t])"
    using arrives [of "CancelAll ''box'' None" "\<lparr>sy_session = S, sy_calls = []\<rparr>" "[]"]
      goes_on [OF f t cancel_lives [OF f t wf], of "[]" "[]"]
    by (simp add: cancel_everything_def [symmetric] del: request_thread.simps)
  have "world_ok (ss_world S1)" using server_okD(2) [OF lanes.reachable_inv [OF fresh first]] by simp
  have hide: "wf_request (Hide ''box'' [''key''])" by (simp add: eval_simps)
  with handle_tame [OF r hide live_clock] have "\<not> removes (ss_world S1) (ss_world S2)"
    using \<open>world_ok (ss_world S1)\<close> by (intro tame_lives) simp_all
  from goes_on [OF h _ this, of "Answered r" "[]" "[t]"] arrives [OF hide, of "\<lparr>sy_session = S1, sy_calls = []\<rparr>" "[t]"] r
  have "(timed_server_step live_env)\<^sup>*\<^sup>* (?v S1 [t]) (?v S2 [Answered r, t])" by (simp del: request_thread.simps)
  with first have "(timed_server_step live_env)\<^sup>*\<^sup>* (?v S []) (?v S2 [Answered r, t])" by (rule rtranclp_trans)
  from interleaving_invariant [OF fresh this] have "world_ok (ss_world S2) \<and> apart [Answered r, t]" by simp
  moreover have "run_sections 1 cancel_everything S = Some (t, S1)" unfolding f by (simp add: t)
  ultimately show ?thesis using S r by blast
qed

text \<open>
  C8: No wakeup is lost between sections: a cell that a call waits for belongs to a request that is
  still pending, and each of the four decisions on it reaches that cell, or a thread that has taken
  its waiter out of the table comes, by finitely many sections of its own, to tell it.
\<close>

theorem no_wakeup_lost_between_sections:
  assumes "server_ok v" and "call \<in> set (sy_calls (sv_system v))"
    and "c \<in> call_cells call" and "w_cells (sv_world v) c = None"
  shows "(\<exists>i q. pending_of (sv_world v) i = Some q
        \<and> (\<forall>E d. w_cells (snd (session_decide E d (pending_sandbox q) i (sv_world v))) c = Some d))
    \<or> (\<exists>t \<in> set (sv_threads v). \<exists>d n t' S'. (c, d) \<in> set (held t)
        \<and> run_sections n t (sy_session (sv_system v)) = Some (t', S') \<and> w_cells (ss_world S') c = Some d)"
proof -
  have W: "world_ok (sv_world v)" using assms(1) by (rule server_okD)
  have "call_served (cells_held (sv_threads v)) (sv_world v) call" using assms(1,2) by (simp add: server_ok_def)
  from undecided_cell [OF this assms(3,4)] show ?thesis
  proof
    assume "\<exists>i. waiter_of (sv_world v) i = Some c"
    then obtain i where i: "waiter_of (sv_world v) i = Some c" by blast
    then obtain q where "pending_of (sv_world v) i = Some q"
      using W unfolding world_ok_def wf_world_def waiters_exact_def request_ids_get_any by blast
    with decision_reaches [OF W i] show ?thesis by blast
  next
    assume "c \<in> cells_held (sv_threads v)"
    then obtain t d where t: "t \<in> set (sv_threads v)" "(c, d) \<in> set (held t)" by (auto simp: cells_held_def)
    then have "good_thread t (sv_world v)" "holds (held t) (sv_world v)" using assms(1) by (simp_all add: server_ok_def)
    from good_thread_tells [OF this(1) later_refl server_okD(1) [OF assms(1)] this(2) t(2)] t show ?thesis by blast
  qed
qed

theorem no_wakeup_lost_between_sections_witness:
  "\<exists>t S n t' S'. run_sections 1 cancel_everything busy_session = Some (t, S) \<and> w_cells (ss_world S) 0 = None
     \<and> run_sections n t S = Some (t', S') \<and> w_cells (ss_world S') 0 = Some Cancel"
proof -
  obtain t S where t: "run_sections 1 cancel_everything busy_session = Some (t, S)"
    "(timed_server_step live_env)\<^sup>*\<^sup>* \<lparr>sv_system = busy_system, sv_threads = []\<rparr>
       \<lparr>sv_system = busy_system\<lparr>sy_session := S\<rparr>, sv_threads = [t]\<rparr>"
    "(0, Cancel) \<in> set (held t)" "w_cells (ss_world S) 0 = None" "pending_of (ss_world S) = Map.empty"
    "\<forall>d. (0, d) \<in> set (held t) \<longrightarrow> d = Cancel" by (rule half_canceled)
  let ?v = "\<lparr>sv_system = busy_system\<lparr>sy_session := S\<rparr>, sv_threads = [t]\<rparr>"
  have ok: "server_ok ?v" using lanes.steps_inv [OF t(2) busy_server_ok] .
  have "ReadWriteCall [(3, 0)] \<in> set (sy_calls (sv_system ?v))" by (simp add: busy_system_def)
  from no_wakeup_lost_between_sections [OF ok this, of 0] t show ?thesis by auto
qed

text \<open>
  C11: A promise is kept whatever the others do: the decision with which a thread took a waiter out
  of the table is the only one its caller can be told, by that thread and no other, and until it
  has been told the waiter stays in the hands of a thread.
\<close>

theorem promises_are_kept:
  assumes "server_ok v" and "(timed_server_step E)\<^sup>*\<^sup>* v v'" and "t \<in> set (sv_threads v)" and "(c, d) \<in> set (held t)"
  shows "w_cells (sv_world v') c = Some d
    \<or> w_cells (sv_world v') c = None \<and> (\<exists>t' \<in> set (sv_threads v'). (c, d) \<in> set (held t'))"
proof -
  have "promised c d v" using assms(3,4) by (auto simp: promised_def)
  from promise_kept [OF assms(2,1) this]
  have "server_ok v'" "w_cells (sv_world v') c = Some d \<or> promised c d v'" by simp_all
  then show ?thesis by (auto simp: promised_def server_ok_def holds_def)
qed

theorem promises_are_kept_witness:
  "\<exists>t S r S'. run_sections 1 cancel_everything busy_session = Some (t, S)
     \<and> handle_result live_env (DenyRequest ''box'' 3) S = Some (r, S') \<and> w_cells (ss_world S') 0 \<noteq> Some Deny"
proof -
  obtain t S where t: "run_sections 1 cancel_everything busy_session = Some (t, S)"
    "(timed_server_step live_env)\<^sup>*\<^sup>* \<lparr>sv_system = busy_system, sv_threads = []\<rparr>
       \<lparr>sv_system = busy_system\<lparr>sy_session := S\<rparr>, sv_threads = [t]\<rparr>"
    "(0, Cancel) \<in> set (held t)" "w_cells (ss_world S) 0 = None" "pending_of (ss_world S) = Map.empty"
    "\<forall>d. (0, d) \<in> set (held t) \<longrightarrow> d = Cancel" by (rule half_canceled)
  let ?v = "\<lparr>sv_system = busy_system\<lparr>sy_session := S\<rparr>, sv_threads = [t]\<rparr>"
  obtain r S' where r: "handle_result live_env (DenyRequest ''box'' 3) S = Some (r, S')"
    by (cases "in_world (session_deny live_env ''box'' 3) S") simp
  let ?h = "request_thread live_env (DenyRequest ''box'' 3)"
  let ?v' = "\<lparr>sv_system = busy_system\<lparr>sy_session := S'\<rparr>, sv_threads = [Answered r, t]\<rparr>"
  have h: "?h = Section [] (\<lambda>S. map_option (\<lambda>(r, S). (Answered r, S)) (handle_result live_env (DenyRequest ''box'' 3) S))"
    by (simp add: one_section_def)
  have ok: "server_ok ?v" using lanes.steps_inv [OF t(2) busy_server_ok] .
  have "\<not> removes (ss_world S) (ss_world S')"
    using handle_tame [OF r _ live_clock] server_okD(2) [OF ok] by (intro tame_lives) simp_all
  from goes_on [OF h _ this, of "Answered r" "sy_calls busy_system" "[t]"] r
    arrives [of "DenyRequest ''box'' 3" "busy_system\<lparr>sy_session := S\<rparr>" "[t]"]
  have "(timed_server_step live_env)\<^sup>*\<^sup>* ?v ?v'" by (simp add: busy_system_def del: request_thread.simps)
  from promises_are_kept [OF ok this _ t(3)] have "w_cells (ss_world S') 0 \<noteq> Some Deny"
    by auto
  with t(1) r show ?thesis by blast
qed

end
