(* ===== verification/Fs_Safety.thy ===== *)
theory Fs_Safety
  imports Fs_Handlers Fs_Auth
begin

text \<open>
  Properties of the FUSE handlers of \<^verbatim>\<open>src/fs.rs\<close>: which call asks the gate for which operation,
  and that it does nothing before the gate lets it through; which handlers treat what a sandbox
  hides as absent; inode numbers and directory pages lead the kernel back to the same objects.
\<close>

section \<open>The calls of the kernel\<close>

text \<open>The calls of \<^verbatim>\<open>impl Filesystem for SandboxFs\<close>, all of them, with the arguments their handlers use.\<close>

datatype kernel_call =
    CallLookup u64 string
  | CallGetattr u64
  | CallReadlink u64
  | CallStatfs u64
  | CallAccess u64 u32
  | CallReaddir u64 nat "dir_entry list \<Rightarrow> bool"
  | CallOpen u64 u32
  | CallRead nat u64 u32
  | CallFlush nat
  | CallRelease nat
  | CallFsync nat
  | CallSetattr u64 "u32 option" "u32 option" "u32 option" "u64 option" "time_or_now option" "time_or_now option"
      "nat option" "u32 option"
  | CallIoctl u64 u32 string
  | CallSetxattr u64 string string int u32
  | CallGetxattr u64 string u32
  | CallListxattr u64 u32
  | CallRemovexattr u64 string
  | CallWrite nat u64 string
  | CallCreate u64 string u32 u32
  | CallMkdir u64 string u32
  | CallMknod u64 string u32 u32
  | CallSymlink u64 string string
  | CallLink u64 u64 string
  | CallUnlink u64 string
  | CallRmdir u64 string
  | CallRename u64 string u64 string

definition answered :: "(reply \<times> 'h world) option \<Rightarrow> (handler_result \<times> 'h world) option" where
  "answered = map_option (\<lambda>(r, w). (Replied r, w))"

fun kernel_handler ::
  "'h env \<Rightarrow> mount \<Rightarrow> requester_identity \<Rightarrow> kernel_call \<Rightarrow> 'h world \<Rightarrow> (handler_result \<times> 'h world) option"
where
  "kernel_handler E F req (CallLookup ino name) w = answered (Some (fs_lookup E F ino name w))"
| "kernel_handler E F req (CallGetattr ino) w = answered (Some (fs_getattr E F ino w))"
| "kernel_handler E F req (CallReadlink ino) w = answered (Some (fs_readlink E F ino w))"
| "kernel_handler E F req (CallStatfs ino) w = answered (Some (fs_statfs E F ino w))"
| "kernel_handler E F req (CallAccess ino bits) w = answered (Some (fs_access E F req ino bits w))"
| "kernel_handler E F req (CallReaddir ino offset fits) w = answered (fs_readdir E F req ino offset fits w)"
| "kernel_handler E F req (CallOpen ino flags) w = answered (fs_open E F req ino flags w)"
| "kernel_handler E F req (CallRead fh offset len) w = answered (fs_read E F req fh offset len w)"
| "kernel_handler E F req (CallFlush fh) w = answered (Some (fs_flush fh w))"
| "kernel_handler E F req (CallRelease fh) w = answered (Some (fs_release fh w))"
| "kernel_handler E F req (CallFsync fh) w = answered (Some (fs_fsync fh w))"
| "kernel_handler E F req (CallSetattr ino mode uid gid len atime mtime fh flags) w =
     fs_setattr E F req ino mode uid gid len atime mtime fh flags w"
| "kernel_handler E F req (CallIoctl ino cmd data) w = Some (fs_ioctl E F req ino cmd data w)"
| "kernel_handler E F req (CallSetxattr ino name data flags position) w =
     answered (fs_setxattr E F req ino name data flags position w)"
| "kernel_handler E F req (CallGetxattr ino name len) w = answered (fs_getxattr E F req ino name len w)"
| "kernel_handler E F req (CallListxattr ino len) w = answered (fs_listxattr E F req ino len w)"
| "kernel_handler E F req (CallRemovexattr ino name) w = answered (fs_removexattr E F req ino name w)"
| "kernel_handler E F req (CallWrite fh offset data) w = answered (fs_write E F req fh offset data w)"
| "kernel_handler E F req (CallCreate ino name mode flags) w = answered (fs_create E F req ino name mode flags w)"
| "kernel_handler E F req (CallMkdir ino name mode) w = answered (fs_mkdir E F req ino name mode w)"
| "kernel_handler E F req (CallMknod ino name mode rdev) w = answered (fs_mknod E F req ino name mode rdev w)"
| "kernel_handler E F req (CallSymlink ino name target) w = answered (fs_symlink E F req ino name target w)"
| "kernel_handler E F req (CallLink ino newparent newname) w = answered (fs_link E F req ino newparent newname w)"
| "kernel_handler E F req (CallUnlink ino name) w = answered (fs_unlink E F req ino name w)"
| "kernel_handler E F req (CallRmdir ino name) w = answered (fs_rmdir E F req ino name w)"
| "kernel_handler E F req (CallRename ino name newparent newname) w =
     answered (fs_rename E F req ino name newparent newname w)"

text \<open>
  The specification: the operation a call must ask the gate for, or nothing. A read, a write, a
  listing, an open for writing, a \<^verbatim>\<open>setattr\<close> with a size, whatever its other arguments, a creation,
  a link, a removal, a renaming and an extended attribute call ask, unless they have no object to
  act on (an unknown inode or handle, a handle not open for writing, a position that is not
  supported). Opening for reading does not ask, its reads do one by one. Changes of metadata
  (\<^verbatim>\<open>setattr\<close> without a size, \<^verbatim>\<open>ioctl\<close>) are asked for elsewhere, in \<^verbatim>\<open>begin_metadata_request\<close>. The
  code does not ask for \<^verbatim>\<open>readlink\<close> either, although the documents call it a READ effect.
\<close>

definition child_path :: "u64 \<Rightarrow> string \<Rightarrow> 'h world \<Rightarrow> sandbox_path option" where
  "child_path ino name w = (case path_child ino name w of Inr p \<Rightarrow> Some p | Inl _ \<Rightarrow> None)"

definition real_object :: "mount \<Rightarrow> u64 \<Rightarrow> 'h world \<Rightarrow> sandbox_path option" where
  "real_object F ino w = map_option fst (path_and_local_path_for_ino F ino w)"

definition both :: "('a \<Rightarrow> 'b \<Rightarrow> 'c) \<Rightarrow> 'a option \<Rightarrow> 'b option \<Rightarrow> 'c option" where
  "both f a b = (case a of None \<Rightarrow> None | Some x \<Rightarrow> map_option (f x) b)"

fun operation_of :: "mount \<Rightarrow> kernel_call \<Rightarrow> 'h world \<Rightarrow> read_write_operation option" where
  "operation_of F (CallReaddir ino offset fits) w = map_option ReadDirectory (path_for_ino ino w)"
| "operation_of F (CallOpen ino flags) w =
     (if and flags 3 = 0 then None else map_option OpenWrite (path_for_ino ino w))"
| "operation_of F (CallRead fh offset len) w = map_option (\<lambda>h. ReadFile (hi_sandbox_path h)) (om_get (w_handles w) fh)"
| "operation_of F (CallWrite fh offset data) w =
     (case om_get (w_handles w) fh of
        Some h \<Rightarrow> if hi_writable h then Some (WriteFile (hi_sandbox_path h)) else None
      | None \<Rightarrow> None)"
| "operation_of F (CallSetattr ino mode uid gid len atime mtime fh flags) w =
     (if len = None then None else map_option Truncate (path_for_ino ino w))"
| "operation_of F (CallCreate ino name mode flags) w = map_option Create (child_path ino name w)"
| "operation_of F (CallMkdir ino name mode) w = map_option Mkdir (child_path ino name w)"
| "operation_of F (CallMknod ino name mode rdev) w = map_option Mknod (child_path ino name w)"
| "operation_of F (CallSymlink ino name target) w = map_option Symlink (child_path ino name w)"
| "operation_of F (CallLink ino newparent newname) w =
     both Link (path_for_ino ino w) (child_path newparent newname w)"
| "operation_of F (CallUnlink ino name) w = map_option Unlink (child_path ino name w)"
| "operation_of F (CallRmdir ino name) w = map_option Rmdir (child_path ino name w)"
| "operation_of F (CallRename ino name newparent newname) w =
     both Rename (child_path ino name w) (child_path newparent newname w)"
| "operation_of F (CallSetxattr ino name data flags position) w =
     (if position \<noteq> 0 then None else map_option (\<lambda>p. SetXattr p (to_string_lossy name)) (real_object F ino w))"
| "operation_of F (CallGetxattr ino name len) w =
     map_option (\<lambda>p. GetXattr p (to_string_lossy name)) (real_object F ino w)"
| "operation_of F (CallListxattr ino len) w = map_option ListXattr (real_object F ino w)"
| "operation_of F (CallRemovexattr ino name) w =
     map_option (\<lambda>p. RemoveXattr p (to_string_lossy name)) (real_object F ino w)"
| "operation_of F call w = None"

text \<open>The changes of metadata.\<close>

fun metadata_call :: "kernel_call \<Rightarrow> bool" where
  "metadata_call (CallSetattr ino mode uid gid len atime mtime fh flags) \<longleftrightarrow> len = None"
| "metadata_call (CallIoctl ino cmd data) \<longleftrightarrow> True"
| "metadata_call call \<longleftrightarrow> False"

text \<open>The error a caller gets whom the gate does not let through.\<close>

fun refusal :: "errno + read_write_decision \<Rightarrow> errno" where
  "refusal (Inl e) = e"
| "refusal (Inr Canceled) = ECANCELED"
| "refusal (Inr d) = EACCES"

section \<open>The contract of a guarded handler\<close>

text \<open>
  A handler that asks: where a call has an operation, the handler is the match on the gate's
  answer around an action that leaves the shared state alone.
\<close>

locale guarded_handlers =
  fixes run :: "'c \<Rightarrow> 'h world \<Rightarrow> (handler_result \<times> 'h world) option"
    and asks :: "'c \<Rightarrow> 'h world \<Rightarrow> 'o option"
    and authorize :: "'o \<Rightarrow> 'h world \<Rightarrow> ((errno + read_write_decision) \<times> 'h world) option"
  assumes guarded: "asks c w = Some oper \<Longrightarrow>
    \<exists>act. run c w = answered (match_decision (authorize oper w) act) \<and> (\<forall>w1. own_step w1 (snd (act w1)))"
begin

lemma stopped:
  assumes "asks c w = Some oper" and "authorize oper w = Some (out, w1)" and "out \<noteq> Inr Proceed"
  shows "run c w = Some (Replied (ReplyError (refusal out)), w1)"
proof -
  obtain act where "run c w = answered (match_decision (authorize oper w) act)" using guarded [OF assms(1)] by blast
  then show ?thesis
    using assms(2,3) by (cases out rule: refusal.cases) (auto simp: answered_def match_decision_def
        split: read_write_decision.splits)
qed

lemma proceeded:
  assumes "asks c w = Some oper" and "authorize oper w = Some (Inr Proceed, w1)" and "run c w = Some (res, w')"
  shows "own_step w1 w'"
proof -
  obtain act where run: "run c w = answered (match_decision (authorize oper w) act)"
    and own: "\<And>w1. own_step w1 (snd (act w1))" using guarded [OF assms(1)] by blast
  from run assms(2,3) have "w' = snd (act w1)" by (auto simp: answered_def match_decision_def split: prod.splits)
  with own show ?thesis by blast
qed

lemma no_answer: "asks c w = Some oper \<Longrightarrow> authorize oper w = None \<Longrightarrow> run c w = None"
  using guarded [of c w oper] by (auto simp: answered_def match_decision_def)

end

section \<open>Every handler keeps the contract\<close>

lemma own_step_host: "own_step w w1 \<Longrightarrow> own_step w (snd (on_host f w1))"
  by (simp add: own_step_def on_host_def split: prod.splits)

lemma own_step_remember: "own_step w w1 \<Longrightarrow> own_step w (snd (remember p w1))"
  by (simp add: own_step_def remember_def Let_def)

lemma own_step_alloc: "own_step w w1 \<Longrightarrow> own_step w (snd (alloc_handle info w1))"
  by (simp add: own_step_def alloc_handle_def)

lemma own_step_empty_after: "own_step w (snd out) \<Longrightarrow> own_step w (snd (empty_after out))"
  by (auto simp: empty_after_def split: prod.splits sum.splits)

lemma own_step_attr_after: "own_step w (snd out) \<Longrightarrow> own_step w (snd (attr_after E path local mk out))"
  using own_step_remember [of w "snd out" path] by (auto simp: attr_after_def split: prod.splits sum.splits)

lemma own_step_attr: "own_step w w1 \<Longrightarrow> own_step w (snd (attr_for_path E F path w1))"
  using own_step_remember [of w w1 path]
  by (auto simp: attr_for_path_def split: option.splits sum.splits prod.splits)

lemma own_step_list_entries: "own_step w w1 \<Longrightarrow> own_step w (snd (list_entries E F es w1))"
proof (induction E F es w1 rule: list_entries.induct)
  case (2 E F name resolved es w1)
  obtain r w2 where a: "attr_for_path E F (resolved_sandbox_path resolved) w1 = (r, w2)" by fastforce
  obtain i w3 where m: "remember (resolved_sandbox_path resolved) w2 = (i, w3)" by fastforce
  have w2: "own_step w w2" using own_step_attr [OF 2(2)] a by (metis snd_conv)
  have w3: "own_step w w3" using own_step_remember [OF w2] m by (metis snd_conv)
  have "own_step w (snd (list_entries E F es w3))"
    by (rule 2(1) [OF refl a [symmetric] refl refl m [symmetric] refl w3])
  then show ?case by (auto simp: a m split: prod.splits)
qed simp

lemmas own_steps = own_step_host own_step_remember own_step_alloc own_step_empty_after own_step_attr_after
  own_step_attr own_step_list_entries own_step_refl

lemma own_read_directory: "own_step w (snd (read_directory E F ino dir offset fits w))"
proof -
  have "own_step w w'" if "list_entries E F es w = (xs, w')" for es xs w'
    using own_step_list_entries [OF own_step_refl, of w E F es] that by simp
  then show ?thesis by (auto simp: read_directory_def Let_def split: option.splits sum.splits prod.splits)
qed

lemma own_open_resolved: "own_step w (snd (open_resolved E F path writable appending w))"
  using own_step_alloc [OF own_step_refl, of w]
  by (auto simp: open_resolved_def split: option.splits resolved_path.splits prod.splits) (metis snd_conv)

lemma own_truncate_file: "own_step w (snd (truncate_file E F ino path len fh w))"
  by (auto simp: truncate_file_def Let_def split: option.splits intro!: own_step_attr_after own_step_host)

lemma own_create_file: "own_step w (snd (create_file E F ino name path mode flags w))"
proof (cases "local_path_for_child F ino name w")
  case (Inr local)
  obtain r w1 where h: "on_host (\<lambda>h. os_open_with (env_os E) h local (create_options mode flags)) w = (r, w1)" by fastforce
  obtain i w2 where m: "remember path w1 = (i, w2)" by fastforce
  have w1: "own_step w w1" using own_step_host [OF own_step_refl] h by (metis snd_conv)
  have w2: "own_step w w2" using own_step_remember [OF w1] m by (metis snd_conv)
  have "own_step w (snd (alloc_handle info w2))" for info by (rule own_step_alloc [OF w2])
  then show ?thesis using Inr w1 by (simp add: create_file_def h m Let_def split: sum.splits prod.splits) (metis snd_conv)
qed (simp add: create_file_def)

lemma own_make_entry: "own_step w (snd (make_entry E F ino name path call w))"
  by (auto simp: make_entry_def split: sum.splits intro!: own_step_attr_after own_step_host)

lemma own_link_file: "own_step w (snd (link_file E F ino newparent newname to_path w))"
  by (auto simp: link_file_def split: option.splits sum.splits intro!: own_step_attr_after own_step_host)

lemma own_remove_entry: "own_step w (snd (remove_entry F ino name call w))"
  by (auto simp: remove_entry_def split: sum.splits intro!: own_step_empty_after own_step_host)

lemma own_rename_entry: "own_step w (snd (rename_entry E F ino name newparent newname w))"
  by (auto simp: rename_entry_def split: sum.splits intro!: own_step_empty_after own_step_host)

lemmas own_actions = own_read_directory own_open_resolved own_truncate_file own_create_file own_make_entry
  own_link_file own_remove_entry own_rename_entry

text \<open>A gated handler asks for exactly the operation it is given.\<close>

lemma matchedI:
  assumes "\<And>w1. own_step w1 (snd (act w1))"
  shows "\<exists>act'. answered (match_decision out act) = answered (match_decision out act')
    \<and> (\<forall>w1. own_step w1 (snd (act' w1)))"
  using assms by blast

lemma gatedI:
  assumes "\<And>w1. own_step w1 (snd (act w1))"
  shows "\<exists>act'. answered (gated E F req oper act w) = answered (match_decision (authorize_read_write E F req oper w) act')
    \<and> (\<forall>w1. own_step w1 (snd (act' w1)))"
  unfolding gated_def by (rule matchedI) (rule assms)

lemma kernel_call_guarded:
  assumes "operation_of F c w = Some oper"
  shows "\<exists>act. kernel_handler E F req c w = answered (match_decision (authorize_read_write E F req oper w) act)
    \<and> (\<forall>w1. own_step w1 (snd (act w1)))"
proof (cases c)
  case (CallRead fh offset len)
  then show ?thesis using assms by (auto simp: fs_read_def intro!: gatedI split: sum.splits)
next
  case (CallWrite fh offset data)
  have "own_step w1 (snd (case on_host f w1 of (Inr written, w) \<Rightarrow> (ReplyWritten (of_nat written), w)
      | (Inl e, w) \<Rightarrow> (ReplyError (io_to_errno e), w)))" for f and w1 :: "'a world"
    using own_step_host [OF own_step_refl, of w1 f] by (auto split: prod.splits sum.splits)
  with CallWrite assms show ?thesis by (auto simp: fs_write_def intro!: gatedI split: option.splits if_splits)
next
  case (CallReaddir ino offset fits)
  then show ?thesis using assms by (auto simp: fs_readdir_def intro!: gatedI own_actions)
next
  case (CallOpen ino flags)
  then show ?thesis using assms by (auto simp: fs_open_def intro!: gatedI own_actions split: if_splits)
next
  case (CallSetattr ino mode uid gid len atime mtime fh flags)
  then obtain n path where "len = Some n" "path_for_ino ino w = Some path" "oper = Truncate path"
    using assms by (auto split: if_splits)
  then have "kernel_handler E F req c w = answered (gated E F req oper (truncate_file E F ino path n fh) w)"
    by (simp add: CallSetattr fs_setattr_def answered_def)
  with gatedI [of "truncate_file E F ino path n fh", OF own_truncate_file] show ?thesis by simp
next
  case (CallCreate ino name mode flags)
  then show ?thesis using assms
    by (auto simp: fs_create_def child_path_def intro!: gatedI own_actions split: sum.splits)
next
  case (CallMkdir ino name mode)
  then show ?thesis using assms
    by (auto simp: fs_mkdir_def child_path_def intro!: gatedI own_actions split: sum.splits)
next
  case (CallMknod ino name mode rdev)
  then show ?thesis using assms
    by (auto simp: fs_mknod_def child_path_def intro!: gatedI own_actions split: sum.splits)
next
  case (CallSymlink ino name target)
  then show ?thesis using assms
    by (auto simp: fs_symlink_def child_path_def intro!: gatedI own_actions split: sum.splits)
next
  case (CallLink ino newparent newname)
  then show ?thesis using assms
    by (auto simp: fs_link_def child_path_def both_def intro!: gatedI own_actions split: option.splits sum.splits)
next
  case (CallUnlink ino name)
  then show ?thesis using assms
    by (auto simp: fs_unlink_def child_path_def intro!: gatedI own_actions split: sum.splits)
next
  case (CallRmdir ino name)
  then show ?thesis using assms
    by (auto simp: fs_rmdir_def child_path_def intro!: gatedI own_actions split: sum.splits)
next
  case (CallRename ino name newparent newname)
  then show ?thesis using assms
    by (auto simp: fs_rename_def child_path_def both_def intro!: gatedI own_actions split: option.splits sum.splits)
next
  case (CallSetxattr ino name data flags position)
  then show ?thesis using assms
    by (auto simp: fs_setxattr_def real_object_def authorize_xattr_write_def intro!: matchedI own_step_empty_after own_step_host)
next
  case (CallGetxattr ino name len)
  then show ?thesis using assms
    by (auto simp: fs_getxattr_def real_object_def authorize_xattr_read_def intro!: matchedI)
next
  case (CallListxattr ino len)
  then show ?thesis using assms
    by (auto simp: fs_listxattr_def real_object_def authorize_xattr_read_def intro!: matchedI)
next
  case (CallRemovexattr ino name)
  then show ?thesis using assms
    by (auto simp: fs_removexattr_def real_object_def authorize_xattr_write_def intro!: matchedI own_step_empty_after own_step_host)
qed (use assms in simp_all)

interpretation fs_gate: guarded_handlers "kernel_handler E F req" "operation_of F" "authorize_read_write E F req"
  for E F req
  by unfold_locales (rule kernel_call_guarded)

text \<open>A call that asks for nothing acts on the tables of its mount only and leaves the host as it is.\<close>

definition tables_only :: "'h world \<Rightarrow> 'h world \<Rightarrow> bool" where
  "tables_only w w' \<longleftrightarrow> own_step w w' \<and> w_host w' = w_host w"

lemma tables_only_simps [simp]: "tables_only w w" "tables_only w (w\<lparr>w_handles := m\<rparr>)"
  by (simp_all add: tables_only_def own_step_def)

lemma tables_only_attr: "attr_for_path E F path w = (r, w') \<Longrightarrow> tables_only w w'"
  using own_step_attr [OF own_step_refl, of w E F path]
  by (auto simp: tables_only_def attr_for_path_def remember_def Let_def split: option.splits sum.splits prod.splits)

lemma tables_only_open: "open_resolved E F path writable appending w = (r, w') \<Longrightarrow> tables_only w w'"
  using own_open_resolved [of w E F path writable appending]
  by (auto simp: tables_only_def open_resolved_def alloc_handle_def split: option.splits resolved_path.splits if_splits)

lemma ungated_tables:
  assumes "operation_of F c w = None" and "\<not> metadata_call c" and "kernel_handler E F req c w = Some (res, w')"
  shows "tables_only w w' \<and> (\<exists>r. res = Replied r)"
proof (cases c)
  case (CallOpen ino flags)
  with assms show ?thesis
    by (auto simp: fs_open_def answered_def Let_def split: option.splits if_splits dest: tables_only_open)
qed (use assms in \<open>auto simp: fs_read_def fs_write_def fs_readdir_def fs_setattr_def fs_create_def fs_mkdir_def
      fs_mknod_def fs_symlink_def fs_link_def fs_unlink_def fs_rmdir_def fs_rename_def fs_setxattr_def fs_getxattr_def
      fs_listxattr_def fs_removexattr_def child_path_def real_object_def both_def answered_def
      fs_lookup_def fs_getattr_def fs_readlink_def fs_statfs_def fs_access_def fs_flush_def fs_release_def fs_fsync_def Let_def
      split: option.splits sum.splits if_splits prod.splits resolved_path.splits dest: tables_only_attr\<close>)

section \<open>Inodes\<close>

lemma attr_for_path_again:
  assumes "attr_for_path E F path w = (Inr attr, w')"
  shows "w_inodes w' = om_insert (fa_ino attr) path (w_inodes w)" and "fa_ino attr = stable_ino path"
    and "attr_for_path E F path w' = (Inr attr, w')"
proof -
  have ino: "fa_ino (apply_override (a\<lparr>fa_ino := i\<rparr>) ov) = i" for a i ov
    by (simp add: apply_override_def split: option.splits)
  obtain s resolved attr0 where s: "fs_sandbox F w = Some s" "resolve s path = Some resolved"
    and a: "(case resolved of VirtualDirPath _ \<Rightarrow> Inr (virtual_dir_attr (env_os E) path)
        | RealPath local _ _ \<Rightarrow> map_err io_to_errno (real_attr (env_os E) (w_host w) path local)) = Inr attr0"
    using assms by (auto simp: attr_for_path_def split: option.splits sum.splits)
  have w': "w' = w\<lparr>w_inodes := om_insert (stable_ino path) path (w_inodes w)\<rparr>"
    and attr: "attr = apply_override (attr0\<lparr>fa_ino := stable_ino path\<rparr>) (metadata_override_for_path s path)"
    using assms s a by (simp_all add: attr_for_path_def remember_def Let_def)
  show i: "fa_ino attr = stable_ino path" by (simp add: attr ino)
  show "w_inodes w' = om_insert (fa_ino attr) path (w_inodes w)" by (simp add: w' i)
  have again: "om_insert k v (om_insert k v m) = om_insert k v m" for k :: u64 and v :: sandbox_path and m
    by (induction m) auto
  have "fs_sandbox F w' = Some s" using s by (simp add: w' fs_sandbox_def)
  moreover have "(case resolved of VirtualDirPath _ \<Rightarrow> Inr (virtual_dir_attr (env_os E) path)
        | RealPath local _ _ \<Rightarrow> map_err io_to_errno (real_attr (env_os E) (w_host w') path local)) = Inr attr0"
    using a by (cases resolved) (simp_all add: w')
  ultimately show "attr_for_path E F path w' = (Inr attr, w')"
    using s by (simp add: attr_for_path_def remember_def Let_def attr) (simp add: w' again)
qed

section \<open>Directory pages\<close>

lemma fill_directory_prefix: "\<exists>k \<le> length es. fill_directory fits acc es = acc @ take k es"
proof (induction es arbitrary: acc)
  case (Cons e es)
  show ?case
  proof (cases "fits (acc @ [e])")
    case True
    obtain k where "k \<le> length es" "fill_directory fits (acc @ [e]) es = (acc @ [e]) @ take k es" using Cons by blast
    with True show ?thesis by (intro exI [of _ "Suc k"]) simp
  next
    case False
    then show ?thesis by (intro exI [of _ 0]) simp
  qed
qed simp

lemma fill_directory_progress:
  "fits (acc @ [e]) \<Longrightarrow> \<exists>k \<le> length es. fill_directory fits acc (e # es) = acc @ e # take k es"
  using fill_directory_prefix [of es fits "acc @ [e]"] by auto

definition entry_offset :: "dir_entry \<Rightarrow> nat" where
  "entry_offset e = fst (snd e)"

definition entry_name :: "dir_entry \<Rightarrow> string" where
  "entry_name e = snd (snd (snd e))"

lemma number_entries_nth:
  "i < length all \<Longrightarrow> number_entries all ! i = (fst (all ! i), i + 1, snd (all ! i))"
  by (simp add: number_entries_def split_beta)

lemma length_number_entries [simp]: "length (number_entries all) = length all"
  by (simp add: number_entries_def)

lemma number_entries_names: "map entry_name (number_entries all) = map (snd \<circ> snd) all"
  by (rule nth_equalityI) (simp_all add: number_entries_nth entry_name_def)

text \<open>A page of a listing from an offset: a stretch of the listing whose last entry carries
  the offset the next page starts at.\<close>

definition page_of :: "dir_entry list \<Rightarrow> nat \<Rightarrow> dir_entry list \<Rightarrow> bool" where
  "page_of listing offset page \<longleftrightarrow>
     page = take (length page) (drop offset listing)
     \<and> (page \<noteq> [] \<longrightarrow> entry_offset (last page) = offset + length page)"

lemma filled_page:
  "page_of (number_entries all) offset (fill_directory fits [] (drop offset (number_entries all)))"
proof -
  let ?L = "number_entries all"
  obtain k where k: "k \<le> length (drop offset ?L)" "fill_directory fits [] (drop offset ?L) = take k (drop offset ?L)"
    using fill_directory_prefix [of "drop offset ?L" fits "[]"] by auto
  have "entry_offset (last (take k (drop offset ?L))) = offset + k" if "k > 0"
  proof -
    have i: "offset + (k - 1) < length all" using k(1) that by simp
    have "last (take k (drop offset ?L)) = ?L ! (offset + (k - 1))"
      using k(1) that by (simp add: last_conv_nth min_absorb2)
    then show ?thesis using number_entries_nth [OF i] that by (simp add: entry_offset_def)
  qed
  then show ?thesis using k by (auto simp: page_of_def)
qed

lemma list_entries_names: "list_entries E F es w = (xs, w') \<Longrightarrow> map (snd \<circ> snd) xs = map fst es"
proof (induction E F es w arbitrary: xs w' rule: list_entries.induct)
  case (2 E F name resolved es w)
  obtain r w2 where a: "attr_for_path E F (resolved_sandbox_path resolved) w = (r, w2)" by fastforce
  obtain i w3 where m: "remember (resolved_sandbox_path resolved) w2 = (i, w3)" by fastforce
  obtain ys w4 where l: "list_entries E F es w3 = (ys, w4)" by fastforce
  from 2(1) [OF refl a [symmetric] refl refl m [symmetric] refl l] 2(2) show ?case by (auto simp: a m l)
qed simp

section \<open>Small worlds for evaluation\<close>

definition doc_handle :: handle_info where
  "doc_handle = \<lparr>hi_local_path = ''/srv/doc'', hi_sandbox_path = [''data'', ''doc''], hi_writable = True, hi_append = False\<rparr>"

text \<open>A host whose files can be removed, and a view of it that hides one of them.\<close>

definition removing_env :: "unit env" where
  "removing_env = (demo_env Deny)\<lparr>env_os := (env_os (demo_env Deny))\<lparr>os_remove_file := (\<lambda>h _. (Inr (), h))\<rparr>\<rparr>"

definition hiding_sandbox :: sandbox where
  "hiding_sandbox = snd (add_hide [''data'', ''key''] demo_sandbox)"

definition hiding_world :: "unit world" where
  "hiding_world = (demo_tables [(1, []), (2, [''data'']), (3, [''data'', ''key''])] [])
     \<lparr>w_registry := new_registry\<lparr>rg_sandboxes := [(''box'', hiding_sandbox)]\<rparr>\<rparr>"

lemma hiding_world_simps [simp]:
  "fs_sandbox demo_mount hiding_world = Some hiding_sandbox"
  "w_inodes hiding_world = [(1, []), (2, [''data'']), (3, [''data'', ''key''])]"
  by (simp_all add: hiding_world_def fs_sandbox_def demo_mount_def)

lemma hiding_view:
  "is_hidden hiding_sandbox [''data'', ''key'']" "resolve hiding_sandbox [''data''] = Some (RealPath ''/srv/'' 1 [''data''])"
  "resolve hiding_sandbox [] = Some (VirtualDirPath [])"
  using wf_demo_sandbox
  by (simp_all add: hiding_sandbox_def is_hidden_def resolve_def resolve_overlay_add_hide wf_sandbox_def spec_hide_def
      demo_view eval_simps)

lemma hiding_open: "\<not> is_protected G hiding_sandbox k p d"
  by (simp add: is_protected_def hiding_sandbox_def add_hide_def demo_sandbox_def add_layer_simps new_sandbox_def
      next_overlay_order_def Let_def)

lemma hiding_authorize: "authorize_read_write removing_env demo_mount demo_requester oper hiding_world = Some (Inr Proceed, hiding_world)"
proof -
  have "effect_passes E w hiding_sandbox oper e" for E and w :: "unit world" and oper e
    by (simp add: effect_passes_def hiding_open)
  then have "authorize_effects E demo_mount i pr now oper lp es [] [] hiding_world = (Inr ([], []), hiding_world)"
    for E i pr now oper lp es
    by (intro authorize_effects_open [OF hiding_world_simps(1)]) simp
  moreover have "prune_expired_read_write_grants_for_sandbox n now (w_registry hiding_world) = ([], w_registry hiding_world)" for n now
    by (simp add: prune_expired_read_write_grants_for_sandbox_def hiding_world_def new_registry_def List.map_filter_simps)
  moreover have "hiding_world\<lparr>w_registry := w_registry hiding_world\<rparr> = hiding_world" by simp
  ultimately show ?thesis by (simp add: authorize_read_write_def authorize_begin_def Let_def)
qed

text \<open>What is hidden can still be removed: the name is resolved against its directory only.\<close>

lemma unlink_reaches_hidden:
  "is_hidden hiding_sandbox [''data'', ''key'']
   \<and> fst (the (fs_unlink removing_env demo_mount demo_requester 2 ''key'' hiding_world)) = ReplyOk"
proof -
  have child: "path_child 2 ''key'' hiding_world = Inr [''data'', ''key'']"
    by (simp add: path_child_def path_for_ino_def ok_or_def result_bind_def map_err_def eval_simps)
  show ?thesis
    using hiding_view hiding_authorize
    by (simp add: fs_unlink_def child gated_def match_decision_def remove_entry_def local_path_for_child_def
        path_for_ino_def ok_or_def result_bind_def empty_after_def on_host_def hostfs_unlink_def removing_env_def)
qed

section \<open>Properties\<close>



text \<open>
  C32: What a sandbox hides is absent. A hidden path cannot be looked up and no metadata request for
  it is queued; for an inode number the kernel still has for it \<^verbatim>\<open>getattr\<close>, \<^verbatim>\<open>access\<close>, \<^verbatim>\<open>readlink\<close>,
  opening for reading and the four extended attribute calls reply ENOENT at once and change nothing.
  Listing it, opening it for writing, truncating it by path and linking to it ask the gate first; once
  the gate has let them through in a state that hides the path they reply ENOENT as well and change
  nothing more. Calls that name an entry of a directory (creation, removal, renaming) are not
  among these: they act on the name in the host directory.
\<close>

theorem hidden_is_absent:
  assumes "fs_sandbox F w = Some s" and "is_hidden s path"
  shows "(path_child p name w = Inr path \<longrightarrow> fs_lookup E F p name w = (ReplyError ENOENT, w))
    \<and> begin_metadata_request E F req path oper w = (Inl ENOENT, w)
    \<and> (path_for_ino ino w = Some path \<longrightarrow>
        fs_getattr E F ino w = (ReplyError ENOENT, w)
        \<and> fs_access E F req ino bits w = (ReplyError ENOENT, w)
        \<and> fs_readlink E F ino w = (ReplyError ENOENT, w)
        \<and> (and flags 3 = 0 \<longrightarrow> fs_open E F req ino flags w = Some (ReplyError ENOENT, w))
        \<and> fs_getxattr E F req ino key len w = Some (ReplyError ENOENT, w)
        \<and> fs_listxattr E F req ino len w = Some (ReplyError ENOENT, w)
        \<and> fs_setxattr E F req ino key data set_flags 0 w = Some (ReplyError ENOENT, w)
        \<and> fs_removexattr E F req ino key w = Some (ReplyError ENOENT, w))
    \<and> (path_for_ino ino w0 = Some path \<longrightarrow> path_for_ino ino w = Some path \<longrightarrow>
        (authorize_read_write E F req (ReadDirectory path) w0 = Some (Inr Proceed, w) \<longrightarrow>
           fs_readdir E F req ino offset fits w0 = Some (ReplyError ENOENT, w))
        \<and> (and flags 3 \<noteq> 0 \<longrightarrow> authorize_read_write E F req (OpenWrite path) w0 = Some (Inr Proceed, w) \<longrightarrow>
           fs_open E F req ino flags w0 = Some (ReplyError ENOENT, w))
        \<and> (authorize_read_write E F req (Truncate path) w0 = Some (Inr Proceed, w) \<longrightarrow>
           fs_setattr E F req ino mode uid gid (Some n) atime mtime None attr_flags w0 = Some (Replied (ReplyError ENOENT), w))
        \<and> (path_child newparent newname w0 = Inr to \<longrightarrow>
           authorize_read_write E F req (Link path to) w0 = Some (Inr Proceed, w) \<longrightarrow>
           fs_link E F req ino newparent newname w0 = Some (ReplyError ENOENT, w)))"
proof -
  have gone: "resolve s path = None" by (rule is_hidden_resolve [OF assms(2)])
  have attr: "attr_for_path E F path w = (Inl ENOENT, w)" by (simp add: attr_for_path_def assms(1) gone)
  have local: "path_for_ino ino w = Some path \<Longrightarrow> path_and_local_path_for_ino F ino w = None"
    by (simp add: path_and_local_path_for_ino_def assms(1) gone)
  have acts: "read_directory E F ino path offset fits w = (ReplyError ENOENT, w)"
    "open_resolved E F path writable appending w = (ReplyError ENOENT, w)" for writable appending
    by (simp_all add: read_directory_def open_resolved_def assms children_def gone)
  have acts_on_file: "truncate_file E F ino path n None w = (ReplyError ENOENT, w)"
    "link_file E F ino newparent newname to w = (ReplyError ENOENT, w)" if "path_for_ino ino w = Some path"
    using local [OF that] by (simp_all add: truncate_file_def link_file_def local_path_for_ino_def)
  have looks: "(path_child p name w = Inr path \<longrightarrow> fs_lookup E F p name w = (ReplyError ENOENT, w))
    \<and> begin_metadata_request E F req path oper w = (Inl ENOENT, w)"
    by (simp add: fs_lookup_def begin_metadata_request_def attr reply_result_def)
  show ?thesis
    using local looks acts acts_on_file
    by (simp add: fs_getattr_def fs_access_def fs_readlink_def fs_open_def fs_readdir_def fs_setattr_def fs_link_def
        gated_def match_decision_def attr reply_result_def assms(1) gone fs_getxattr_def fs_listxattr_def
        fs_setxattr_def fs_removexattr_def)
qed

theorem hidden_is_absent_witness:
  "fs_getattr removing_env demo_mount 3 hiding_world = (ReplyError ENOENT, hiding_world)
   \<and> fs_readdir removing_env demo_mount demo_requester 3 0 (\<lambda>_. True) hiding_world = Some (ReplyError ENOENT, hiding_world)"
proof -
  have ino: "path_for_ino 3 hiding_world = Some [''data'', ''key'']" by (simp add: path_for_ino_def)
  from hidden_is_absent [OF hiding_world_simps(1) hiding_view(1), of _ _ removing_env demo_requester _ 3 _ _ _ _ _ _ hiding_world 0 "\<lambda>_. True"]
    ino hiding_authorize show ?thesis by blast
qed

text \<open>
  C33: Inode numbers lead back. After a lookup the inode number in the reply is known for the
  path that was looked up, and asking for its attributes gives those of the lookup again
  without a change of state.
\<close>

theorem lookup_then_getattr:
  assumes "fs_lookup E F parent_ino name w = (ReplyEntry attr, w')"
  shows "fs_getattr E F (fa_ino attr) w' = (ReplyAttr attr, w')
    \<and> (\<exists>path. path_child parent_ino name w = Inr path \<and> path_for_ino (fa_ino attr) w' = Some path
        \<and> fa_ino attr = stable_ino path)"
proof -
  obtain path where child: "path_child parent_ino name w = Inr path"
    and a: "attr_for_path E F path w = (Inr attr, w')"
    using assms by (auto simp: fs_lookup_def reply_result_def split: sum.splits prod.splits)
  note again = attr_for_path_again [OF a]
  have "path_for_ino (fa_ino attr) w' = Some path" by (simp add: path_for_ino_def again(1))
  then show ?thesis using child again(2,3) by (simp add: fs_getattr_def reply_result_def)
qed

theorem lookup_then_getattr_witness:
  "\<exists>attr w'. fs_lookup (demo_env Apply) demo_mount 1 ''.'' hiding_world = (ReplyEntry attr, w')
     \<and> fs_getattr (demo_env Apply) demo_mount (fa_ino attr) w' = (ReplyAttr attr, w')"
proof -
  obtain attr w' where l: "fs_lookup (demo_env Apply) demo_mount 1 ''.'' hiding_world = (ReplyEntry attr, w')"
    by (simp add: fs_lookup_def path_child_def path_for_ino_def ok_or_def attr_for_path_def hiding_view
        reply_result_def remember_def Let_def)
  from lookup_then_getattr [OF l] l show ?thesis by blast
qed

text \<open>
  C34: Directory pages. A directory has one listing, dot, dot-dot and its children, and a read
  at any offset with any buffer returns a stretch of it from that offset whose last entry
  carries the offset to go on from; a buffer that holds one entry always makes progress.
\<close>

theorem directory_pages:
  assumes "fs_sandbox F w = Some s" and "children (env_os E) (w_host w) s dir = Inr entries"
  shows "\<exists>listing. map entry_name listing = ''.'' # ''..'' # map fst entries
    \<and> (\<forall>offset fits. \<exists>page w'. read_directory E F ino dir offset fits w = (ReplyDirectory page, w')
         \<and> page_of listing offset page
         \<and> ((\<forall>e. fits [e]) \<and> offset < length listing \<longrightarrow> page \<noteq> []))"
proof -
  obtain listed w1 where l: "list_entries E F entries w = (listed, w1)" by fastforce
  define all where "all = (ino, Directory, ''.'') # (case parent dir of Some p \<Rightarrow> stable_ino p | None \<Rightarrow> ino, Directory, ''..'') # listed"
  have run: "read_directory E F ino dir offset fits w =
      (ReplyDirectory (fill_directory fits [] (drop offset (number_entries all))), w1)" for offset fits
    using assms l by (simp add: read_directory_def all_def Let_def)
  have names: "map entry_name (number_entries all) = ''.'' # ''..'' # map fst entries"
    using list_entries_names [OF l] by (simp add: number_entries_names all_def)
  have progress: "fill_directory fits [] (drop offset (number_entries all)) \<noteq> []"
    if "\<forall>e. fits [e]" and more: "offset < length (number_entries all)" for offset fits
  proof -
    obtain e es where split: "drop offset (number_entries all) = e # es"
      using more by (cases "drop offset (number_entries all)") auto
    have "fits ([] @ [e])" using \<open>\<forall>e. fits [e]\<close> unfolding append.simps by blast
    from fill_directory_progress [of fits "[]" e es, OF this] show ?thesis
      by (auto simp: split simp del: fill_directory.simps)
  qed
  have pages: "\<forall>offset fits. \<exists>page w'. read_directory E F ino dir offset fits w = (ReplyDirectory page, w')
      \<and> page_of (number_entries all) offset page \<and> ((\<forall>e. fits [e]) \<and> offset < length (number_entries all) \<longrightarrow> page \<noteq> [])"
    using run filled_page progress by simp
  from conjI [OF names pages] show ?thesis by (rule exI)
qed

theorem directory_pages_witness:
  "\<exists>page w'. read_directory (demo_env Apply) demo_mount 1 [] 0 (\<lambda>es. length es \<le> 2) hiding_world
      = (ReplyDirectory page, w') \<and> page \<noteq> []"
proof -
  have "\<forall>l \<in> set (sb_layers hiding_sandbox). wf_layer l"
    using wf_demo_sandbox by (simp add: hiding_sandbox_def add_hide_def next_overlay_order_def wf_sandbox_def Let_def)
  then obtain m cov where "children_of_layers hiding_sandbox [] (sb_layers hiding_sandbox) [] False = Inr (m, cov)"
    using children_of_layers_total [of "sb_layers hiding_sandbox" "[]" hiding_sandbox "[]" False] by (auto simp: wf_path_def)
  moreover have "resolve_overlay hiding_sandbox [] = ResVirtualDir []"
    using wf_demo_sandbox by (simp add: hiding_sandbox_def resolve_overlay_add_hide wf_sandbox_def spec_hide_def demo_view eval_simps)
  ultimately obtain m where m: "children (env_os (demo_env Apply)) (w_host hiding_world) hiding_sandbox [] = Inr m"
    by (auto simp: children_def is_hidden_def resolve_def is_virtual_dir_def result_bind_def)
  from directory_pages [OF hiding_world_simps(1) m, of 1] obtain listing where
    L: "map entry_name listing = ''.'' # ''..'' # map fst m
      \<and> (\<forall>offset fits. \<exists>page w'. read_directory (demo_env Apply) demo_mount 1 [] offset fits hiding_world
           = (ReplyDirectory page, w') \<and> page_of listing offset page
         \<and> ((\<forall>e. fits [e]) \<and> offset < length listing \<longrightarrow> page \<noteq> []))" by (rule exE)
  from L have "0 < length listing" by auto
  with L [THEN conjunct2, THEN spec, THEN spec, of 0 "\<lambda>es. length es \<le> 2"] show ?thesis by auto
qed

end
