(* ===== verification/Refine.thy ===== *)
theory Refine
  imports System Fs_Safety
begin

text \<open>
  The handlers of \<^verbatim>\<open>src/fs.rs\<close> are functions that ask the parameter \<open>env_sched\<close> for the state in
  which a blocked caller wakes up; \<open>System\<close> has the other threads as steps. Where the scheduler
  follows these steps, a complete call of a mounted file system, with the thread it may start, is
  a sequence of steps of the system. So what holds in every reachable state of the system holds
  after every handler, however long its caller had to wait.
\<close>

section \<open>The scheduler\<close>

text \<open>What is done while a call waits is done by the system, and the call goes on waiting.\<close>

definition scheduler_follows :: "'h env \<Rightarrow> bool" where
  "scheduler_follows E \<longleftrightarrow>
     (\<forall>y call c w'. system_ok y \<longrightarrow> call \<in> set (sy_calls y) \<longrightarrow> c \<in> call_cells call \<longrightarrow>
        w_cells (sy_world y) c = None \<longrightarrow> env_sched E (sy_world y) c = Some w' \<longrightarrow>
        (\<exists>z. (timed_step E)\<^sup>*\<^sup>* y z \<and> sy_world z = w' \<and> call \<in> set (sy_calls z)))"

abbreviation reaches :: "'h env \<Rightarrow> 'h system \<Rightarrow> 'h world \<Rightarrow> bool" where
  "reaches E y w \<equiv> \<exists>z. (timed_step E)\<^sup>*\<^sup>* y z \<and> sy_world z = w"

lemma sy_world_with [simp]: "sy_world (with_world y w) = w" "sy_world (y\<lparr>sy_calls := cs\<rparr>) = sy_world y"
  by (simp_all add: with_world_def)

lemma wait_steps:
  assumes "scheduler_follows E" and "system_ok y" and "call \<in> set (sy_calls y)" and "c \<in> call_cells call"
    and "wait_for_decision E c (sy_world y) = Some (d, w')"
  obtains z where "(timed_step E)\<^sup>*\<^sup>* y z" "sy_world z = w'" "call \<in> set (sy_calls z)" "w_cells w' c = Some d" "system_ok z"
proof (cases "w_cells (sy_world y) c")
  case None
  then have sched: "env_sched E (sy_world y) c = Some w'" and d: "w_cells w' c = Some d"
    using assms(5) by (auto simp: wait_for_decision_def split: option.splits)
  obtain z where z: "(timed_step E)\<^sup>*\<^sup>* y z" "sy_world z = w'" "call \<in> set (sy_calls z)"
    using assms(1-4) None sched unfolding scheduler_follows_def by blast
  with d reachable_safe [OF assms(2) z(1)] show ?thesis by (intro that [of z]) simp_all
next
  case (Some d')
  with assms(2,3,5) show ?thesis by (intro that [of y]) (simp_all add: wait_for_decision_def)
qed

text \<open>A read or write waits for its effects one after the other.\<close>

lemma answer_append: "answer cells pre = Some Proceed \<Longrightarrow> answer cells (pre @ qs) = answer cells qs"
  by (induction cells pre rule: answer.induct) (auto split: option.splits pending_decision.splits)

lemma await_steps:
  assumes "scheduler_follows E" and "system_ok y" and "ReadWriteCall (pre @ queued) \<in> set (sy_calls y)"
    and "answer (w_cells (sy_world y)) pre = Some Proceed"
    and "await_decisions E (map snd queued) (sy_world y) = Some (v, w')"
  shows "\<exists>z. (timed_step E)\<^sup>*\<^sup>* y z \<and> sy_world z = w' \<and> ReadWriteCall (pre @ queued) \<in> set (sy_calls z)
    \<and> answer (w_cells w') (pre @ queued) = Some v"
  using assms(2-5)
proof (induction queued arbitrary: pre y)
  case Nil
  then show ?case by auto
next
  case (Cons ic queued)
  obtain i c where ic: "ic = (i, c)" by fastforce
  let ?call = "ReadWriteCall (pre @ ic # queued)"
  obtain d w1 where wait: "wait_for_decision E c (sy_world y) = Some (d, w1)"
    using Cons.prems(4) by (auto simp: ic split: option.splits)
  obtain y1 where y1: "(timed_step E)\<^sup>*\<^sup>* y y1" "sy_world y1 = w1" "?call \<in> set (sy_calls y1)" "w_cells w1 c = Some d"
      "system_ok y1"
    by (rule wait_steps [OF assms(1) Cons.prems(1,2) _ wait]) (auto simp: ic)
  have pre: "answer (w_cells w1) pre = Some Proceed"
    using verdict_stays [OF Cons.prems(1) y1(1) Cons.prems(2) _ Cons.prems(3)] y1(2) by auto
  show ?case
  proof (cases "d \<in> {Deny, Cancel}")
    case True
    then have "w' = w1" "answer (w_cells w1) (ic # queued) = Some v"
      using Cons.prems(4) wait y1(4) by (auto simp: ic)
    with y1 pre show ?thesis by (auto simp: answer_append)
  next
    case False
    then have rest: "await_decisions E (map snd queued) (sy_world y1) = Some (v, w')"
      and step: "answer (w_cells w1) (pre @ [ic]) = Some Proceed"
      using Cons.prems(4) wait y1(2,4) pre by (auto simp: ic answer_append split: pending_decision.splits)
    have "\<exists>z. (timed_step E)\<^sup>*\<^sup>* y1 z \<and> sy_world z = w' \<and> ReadWriteCall ((pre @ [ic]) @ queued) \<in> set (sy_calls z)
        \<and> answer (w_cells w') ((pre @ [ic]) @ queued) = Some v"
      by (rule Cons.IH [OF y1(5) _ _ rest]) (use y1(2,3) step in simp_all)
    then show ?thesis using rtranclp_trans [OF y1(1)] by auto
  qed
qed

section \<open>The steps of a call\<close>

lemma act_steps:
  assumes "own_step (sy_world y) w'" and "\<And>h. clock_ok (os_now (env_os E) h)"
  shows "reaches E y w'"
proof -
  have "timed_step E y (with_world y w')" using call_step.act [THEN system_step.call, OF assms(1)] assms(2) by (simp add: timed_step_def)
  then show ?thesis by (intro exI [of _ "with_world y w'"]) simp
qed

lemma reaches_trans: "(timed_step E)\<^sup>*\<^sup>* y z \<Longrightarrow> reaches E z w \<Longrightarrow> reaches E y w"
  by (blast intro: rtranclp_trans)

text \<open>The gate.\<close>

lemma gate_steps:
  assumes follows: "scheduler_follows E" and ok: "system_ok y" and m: "m \<in> set (ss_mounts (sy_session y))"
    and clock: "\<And>h. clock_ok (os_now (env_os E) h)"
    and run: "authorize_read_write E (mount_of m) req oper (sy_world y) = Some (out, w')"
  shows "reaches E y w'"
proof -
  obtain res w1 where b: "authorize_begin E (mount_of m) req oper (sy_world y) = (res, w1)" by fastforce
  show ?thesis
  proof (cases res)
    case (Inl e)
    then have "timed_step E y (with_world y w1)"
      using call_step.fail_read_write [THEN system_step.call, OF m] b clock by (auto simp: timed_step_def)
    moreover have "w' = w1" using run b Inl by (simp add: authorize_read_write_def)
    ultimately show ?thesis by (intro exI [of _ "with_world y w1"]) auto
  next
    case (Inr queued)
    let ?call = "ReadWriteCall queued" and ?y1 = "(with_world y w1)\<lparr>sy_calls := ReadWriteCall queued # sy_calls y\<rparr>"
    have enter: "timed_step E y ?y1"
      using call_step.enter_read_write [THEN system_step.call, OF m] b Inr clock by (auto simp: timed_step_def)
    then have ok1: "system_ok ?y1" using reachable_safe [OF ok r_into_rtranclp] by blast
    obtain v w2 where a: "await_decisions E (map snd queued) (sy_world ?y1) = Some (v, w2)"
      and w': "w' = (if v \<noteq> Proceed then cancel_unresolved_read_write_effects queued w2 else w2)"
      using run b Inr by (auto simp: authorize_read_write_def split: option.splits)
    obtain z where z: "(timed_step E)\<^sup>*\<^sup>* ?y1 z" "sy_world z = w2" "?call \<in> set (sy_calls z)"
        "answer (w_cells w2) queued = Some v"
      using await_steps [OF follows ok1, of "[]" queued v w2] a by auto
    have "timed_step E z ((with_world z w')\<lparr>sy_calls := remove1 ?call (sy_calls z)\<rparr>)"
      using call_step.return_read_write [THEN system_step.call, OF z(3), of v w'] z(2,4) w' clock by (simp add: timed_step_def)
    then have "reaches E z w'"
      by (intro exI [of _ "(with_world z w')\<lparr>sy_calls := remove1 ?call (sy_calls z)\<rparr>"]) auto
    with z(1) have "reaches E ?y1 w'" by (blast intro: rtranclp_trans)
    with enter show ?thesis by (blast intro: converse_rtranclp_into_rtranclp)
  qed
qed

text \<open>A metadata change, and the thread that waits for its decision.\<close>

lemma answer_metadata_steps:
  assumes m: "m \<in> set (ss_mounts (sy_session y))" and clock: "\<And>h. clock_ok (os_now (env_os E) h)"
    and run: "begin_metadata_request E (mount_of m) req path oper (sy_world y) = (res, w')"
    and "\<And>p. res \<noteq> Inr (MetadataPending p)"
  shows "reaches E y w'"
proof -
  have "timed_step E y (with_world y w')"
    using call_step.answer_metadata [THEN system_step.call, OF m run assms(4)] clock by (simp add: timed_step_def)
  then show ?thesis by (intro exI [of _ "with_world y w'"]) simp
qed

lemma return_steps:
  assumes follows: "scheduler_follows E" and ok: "system_ok y" and call: "MetadataCall F p \<in> set (sy_calls y)"
    and clock: "\<And>h. clock_ok (os_now (env_os E) h)"
    and finish: "(\<exists>res. finish_pending_attr E F p (sy_world y) = Some (res, w'))
      \<or> (\<exists>rep. spawn_ioctl_waiter E F p (sy_world y) = Some (rep, w'))"
  shows "reaches E y w'"
proof -
  obtain d w1 where wait: "wait_for_decision E (po_waiter p) (sy_world y) = Some (d, w1)"
    using finish by (auto simp: finish_pending_attr_def spawn_ioctl_waiter_def split: option.splits)
  obtain z where z: "(timed_step E)\<^sup>*\<^sup>* y z" "sy_world z = w1" "MetadataCall F p \<in> set (sy_calls z)"
      "w_cells w1 (po_waiter p) = Some d"
    by (rule wait_steps [OF follows ok call _ wait]) auto
  let ?z' = "(with_world z w')\<lparr>sy_calls := remove1 (MetadataCall F p) (sy_calls z)\<rparr>"
  have again: "wait_for_decision E (po_waiter p) w1 = Some (d, w1)" using z(4) by (simp add: wait_for_decision_def)
  have told: "w_cells (sy_world z) (po_waiter p) \<noteq> None" using z(2,4) by simp
  have "system_step E z ?z'"
    using finish
  proof (elim disjE exE)
    fix res assume "finish_pending_attr E F p (sy_world y) = Some (res, w')"
    then have "finish_pending_attr E F p (sy_world z) = Some (res, w')"
      by (simp add: finish_pending_attr_def wait again z(2))
    then show ?thesis by (rule call_step.return_metadata [THEN system_step.call, OF z(3) told])
  next
    fix rep assume "spawn_ioctl_waiter E F p (sy_world y) = Some (rep, w')"
    then have "spawn_ioctl_waiter E F p (sy_world z) = Some (rep, w')"
      by (simp add: spawn_ioctl_waiter_def wait again z(2))
    then show ?thesis by (rule call_step.return_ioctl [THEN system_step.call, OF z(3) told])
  qed
  then have "timed_step E z ?z'" using clock by (simp add: timed_step_def)
  then have "reaches E z w'" by (intro exI [of _ ?z']) auto
  with z(1) show ?thesis by (rule reaches_trans)
qed

section \<open>Complete calls\<close>

text \<open>\<open>complete\<close> runs the thread that \<^verbatim>\<open>setattr\<close> and \<^verbatim>\<open>ioctl\<close> start when the change has to wait.\<close>

definition complete :: "'h env \<Rightarrow> mount \<Rightarrow> (handler_result \<times> 'h world) option \<Rightarrow> (reply \<times> 'h world) option" where
  "complete E F out =
     (case out of
        None \<Rightarrow> None
      | Some (Replied r, w) \<Rightarrow> Some (r, w)
      | Some (SpawnedAttr p, w) \<Rightarrow> spawn_attr_waiter E F p w
      | Some (SpawnedIoctl p, w) \<Rightarrow> spawn_ioctl_waiter E F p w)"

lemma complete_answered [simp]: "complete E F (answered out) = out"
  by (cases out) (auto simp: complete_def answered_def split: prod.splits)

lemma guarded_steps:
  assumes "scheduler_follows E" and "system_ok y" and "m \<in> set (ss_mounts (sy_session y))"
    and clock: "\<And>h. clock_ok (os_now (env_os E) h)"
    and run: "match_decision (authorize_read_write E (mount_of m) req oper (sy_world y)) act = Some (r, w')"
    and own: "\<And>w1. own_step w1 (snd (act w1))"
  shows "reaches E y w'"
proof -
  obtain out w1 where a: "authorize_read_write E (mount_of m) req oper (sy_world y) = Some (out, w1)"
    using run by (auto simp: match_decision_def split: option.splits)
  have gate: "reaches E y w1" using gate_steps [OF assms(1-3) clock a] by blast
  show ?thesis
  proof (cases "out = Inr Proceed")
    case True
    then have "w' = snd (act w1)" using run a by (simp add: match_decision_def)
    then have "own_step w1 w'" using own by simp
    from gate obtain z where z: "(timed_step E)\<^sup>*\<^sup>* y z" "sy_world z = w1" by blast
    have "reaches E z w'" by (rule act_steps) (use z(2) \<open>own_step w1 w'\<close> clock in simp_all)
    with z(1) show ?thesis by (rule reaches_trans)
  next
    case False
    then have "w' = w1"
      using run a by (auto simp: match_decision_def split: sum.splits read_write_decision.splits)
    with gate show ?thesis by simp
  qed
qed

lemma request_steps:
  assumes "scheduler_follows E" and ok: "system_ok y" and m: "m \<in> set (ss_mounts (sy_session y))"
    and clock: "\<And>h. clock_ok (os_now (env_os E) h)"
    and run: "begin_metadata_request E (mount_of m) req path oper (sy_world y) = (res, w1)"
    and rest: "\<And>p. res = Inr (MetadataPending p) \<Longrightarrow>
      (\<exists>ra. finish_pending_attr E (mount_of m) p w1 = Some (ra, w'))
      \<or> (\<exists>rep. spawn_ioctl_waiter E (mount_of m) p w1 = Some (rep, w'))"
    and now: "(\<And>p. res \<noteq> Inr (MetadataPending p)) \<Longrightarrow> w' = w1"
  shows "reaches E y w'"
proof (cases "\<exists>p. res = Inr (MetadataPending p)")
  case True
  then obtain p where p: "res = Inr (MetadataPending p)" by blast
  let ?y1 = "(with_world y w1)\<lparr>sy_calls := MetadataCall (mount_of m) p # sy_calls y\<rparr>"
  have enter: "timed_step E y ?y1"
    using call_step.enter_metadata [THEN system_step.call, OF m] run p clock by (auto simp: timed_step_def)
  then have ok1: "system_ok ?y1" using reachable_safe [OF ok r_into_rtranclp] by blast
  have "reaches E ?y1 w'"
    by (rule return_steps [OF assms(1) ok1 _ clock, of "mount_of m" p]) (use rest [OF p] in simp_all)
  with enter show ?thesis by (blast intro: converse_rtranclp_into_rtranclp)
next
  case False
  with answer_metadata_steps [OF m clock run] now show ?thesis by blast
qed

lemma setattr_steps:
  assumes "scheduler_follows E" and "system_ok y" and "m \<in> set (ss_mounts (sy_session y))"
    and clock: "\<And>h. clock_ok (os_now (env_os E) h)"
    and run: "complete E (mount_of m) (fs_setattr E (mount_of m) req ino mode uid gid len atime mtime fh flags (sy_world y))
      = Some (r, w')"
  shows "reaches E y w'"
proof -
  let ?F = "mount_of m" and ?w = "sy_world y"
  note guarded = guarded_steps [OF assms(1-3) clock] and request = request_steps [OF assms(1-3) clock]
  show ?thesis
  proof (cases "path_for_ino ino ?w")
    case None
    with run have "own_step ?w w'" by (simp add: fs_setattr_def complete_def)
    then show ?thesis using act_steps clock by blast
  next
    case (Some path)
    show ?thesis
    proof (cases len)
      case (Some n)
      then have "match_decision (authorize_read_write E ?F req (Truncate path) ?w) (truncate_file E ?F ino path n fh)
          = Some (r, w')"
        using run \<open>path_for_ino ino ?w = Some path\<close> complete_answered [of E ?F]
        by (simp add: fs_setattr_def gated_def flip: answered_def)
      then show ?thesis by (rule guarded) (rule own_truncate_file)
    next
      case None
      define at mt where times: "at = map_option (resolve_time_or_now (env_os E) (w_host ?w)) atime"
        "mt = map_option (resolve_time_or_now (env_os E) (w_host ?w)) mtime"
      define oper where "oper = SetAttr path (map_option (\<lambda>m. ucast (and m 0xFFF)) mode) uid gid flags at mt"
      obtain res w1 where b: "begin_metadata_request E ?F req path oper ?w = (res, w1)" by fastforce
      have own: "own_step ?w w2" if "attr_after E path local ReplyAttr (on_host f ?w) = (reply, w2)" for local f reply w2
        using own_step_attr_after [OF own_step_host [OF own_step_refl, of ?w f], of E path local ReplyAttr] that by simp
      consider "own_step ?w w'" | "complete E ?F (case begin_metadata_request E ?F req path oper ?w of
            (Inr (Applied attr), w) \<Rightarrow> Some (Replied (ReplyAttr attr), w)
          | (Inr (MetadataPending p), w) \<Rightarrow> Some (SpawnedAttr p, w)
          | (Inl e, w) \<Rightarrow> Some (Replied (ReplyError e), w)) = Some (r, w')"
        using run \<open>path_for_ino ino ?w = Some path\<close> None own
        by (auto simp: fs_setattr_def Let_def complete_def times [symmetric] oper_def [symmetric]
            split: if_splits option.splits prod.splits)
      then show ?thesis
      proof cases
        case 1
        then show ?thesis using act_steps clock by blast
      next
        case 2
        show ?thesis
          by (rule request [OF b])
            (use 2 in \<open>auto simp: b complete_def spawn_attr_waiter_def split: sum.splits metadata_outcome.splits\<close>)
      qed
    qed
  qed
qed

lemma ioctl_steps:
  assumes "scheduler_follows E" and "system_ok y" and "m \<in> set (ss_mounts (sy_session y))"
    and clock: "\<And>h. clock_ok (os_now (env_os E) h)"
    and run: "complete E (mount_of m) (Some (fs_ioctl E (mount_of m) req ino cmd data (sy_world y))) = Some (r, w')"
  shows "reaches E y w'"
proof -
  let ?F = "mount_of m" and ?w = "sy_world y"
  have set_flags: "reaches E y w'"
    if "complete E ?F (Some (ioctl_set_flags E ?F req path flags ?w)) = Some (r, w')" for path flags
  proof -
    obtain res w1 where b: "begin_metadata_request E ?F req path (Chattr path flags) ?w = (res, w1)" by fastforce
    show ?thesis
      by (rule request_steps [OF assms(1-3) clock b])
        (use that in \<open>auto simp: ioctl_set_flags_def b complete_def split: sum.splits metadata_outcome.splits\<close>)
  qed
  have attr: "own_step ?w w2" if "attr_for_path E ?F path ?w = (ra, w2)" for path ra w2
    using own_step_attr [OF own_step_refl, of ?w E ?F path] that by simp
  have "(\<exists>path flags. fs_ioctl E ?F req ino cmd data ?w = ioctl_set_flags E ?F req path flags ?w)
      \<or> (\<exists>rep w2. fs_ioctl E ?F req ino cmd data ?w = (Replied rep, w2) \<and> own_step ?w w2)"
    using attr by (simp add: fs_ioctl_def split: option.split sum.split prod.split) blast
  then show ?thesis
  proof (elim disjE exE conjE)
    fix path flags assume "fs_ioctl E ?F req ino cmd data ?w = ioctl_set_flags E ?F req path flags ?w"
    then show ?thesis using run set_flags by simp
  next
    fix rep w2 assume "fs_ioctl E ?F req ino cmd data ?w = (Replied rep, w2)" "own_step ?w w2"
    then show ?thesis using run act_steps [of y w' E] clock by (simp add: complete_def)
  qed
qed

lemma kernel_call_steps:
  assumes "scheduler_follows E" and "system_ok y" and "m \<in> set (ss_mounts (sy_session y))"
    and clock: "\<And>h. clock_ok (os_now (env_os E) h)"
    and run: "complete E (mount_of m) (kernel_handler E (mount_of m) req call (sy_world y)) = Some (r, w')"
  shows "reaches E y w'"
proof -
  let ?F = "mount_of m" and ?w = "sy_world y"
  show ?thesis
  proof (cases "operation_of ?F call ?w")
    case (Some oper)
    obtain act where "kernel_handler E ?F req call ?w = answered (match_decision (authorize_read_write E ?F req oper ?w) act)"
      and own: "\<And>w1. own_step w1 (snd (act w1))" using kernel_call_guarded [OF Some] by blast
    with run show ?thesis by (auto intro: guarded_steps [OF assms(1-3) clock])
  next
    case None
    show ?thesis
    proof (cases "metadata_call call")
      case True
      then show ?thesis
      proof (cases call)
        case (CallSetattr ino mode uid gid len atime mtime fh flags)
        with run show ?thesis by (auto intro: setattr_steps [OF assms(1-3) clock])
      next
        case (CallIoctl ino cmd data)
        with run show ?thesis by (auto intro: ioctl_steps [OF assms(1-3) clock])
      qed simp_all
    next
      case False
      obtain res w1 where c: "kernel_handler E ?F req call ?w = Some (res, w1)"
        using run by (cases "kernel_handler E ?F req call ?w") (auto simp: complete_def)
      from ungated_tables [OF None False c] run c have "own_step ?w w'" by (auto simp: complete_def tables_only_def)
      then show ?thesis using act_steps clock by blast
    qed
  qed
qed

section \<open>A server for evaluation\<close>

text \<open>Whoever waits is refused, by a request to the server.\<close>

definition stat_env :: "unit env" where
  "stat_env = live_env\<lparr>env_os := (env_os live_env)\<lparr>os_symlink_metadata := (\<lambda>_ _. Inr file_meta)\<rparr>\<rparr>"

definition refuse :: "unit world \<Rightarrow> nat \<Rightarrow> unit world option" where
  "refuse w c =
     (case List.find (\<lambda>(i, c'). c' = c) (rg_pending_waiters (w_registry w)) of
        None \<Rightarrow> None
      | Some (i, _) \<Rightarrow>
          (case pending_of w i of
             None \<Rightarrow> None
           | Some q \<Rightarrow> Some (snd (session_deny stat_env (pending_sandbox q) i w))))"

definition refusing_env :: "unit env" where
  "refusing_env = stat_env\<lparr>env_sched := refuse\<rparr>"

lemma refusing_clock: "clock_ok (os_now (env_os refusing_env) h)"
  using live_clock by (simp add: refusing_env_def stat_env_def)

lemma session_deny_refusing: "session_deny refusing_env name i w = session_deny stat_env name i w"
proof -
  have same: "env_os refusing_env = env_os stat_env" by (simp add: refusing_env_def)
  show ?thesis unfolding session_deny_def log_and_notify_def append_event_def same ..
qed

lemma refusing_follows: "scheduler_follows refusing_env"
proof -
  have "\<exists>z. (timed_step refusing_env)\<^sup>*\<^sup>* y z \<and> sy_world z = w' \<and> call \<in> set (sy_calls z)"
    if call: "call \<in> set (sy_calls y)" and sched: "refuse (sy_world y) c = Some w'" for y :: "unit system" and call c w'
  proof -
    obtain name i where w': "w' = snd (session_deny stat_env name i (sy_world y))"
      using sched by (auto simp: refuse_def split: option.splits)
    let ?z = "with_world y w'"
    have "handle_result refusing_env (DenyRequest name i) (sy_session y)
        = Some (fst (session_deny stat_env name i (sy_world y)), (sy_session y)\<lparr>ss_world := w'\<rparr>)"
      by (simp add: in_world_def session_deny_refusing w' split_beta)
    then have "system_step refusing_env y ?z"
      using system_step.serve [of "DenyRequest name i" refusing_env y] by (simp add: with_world_def)
    then have "timed_step refusing_env y ?z" using refusing_clock by (simp add: timed_step_def)
    with call show ?thesis by (intro exI [of _ ?z]) (simp add: r_into_rtranclp, simp add: with_world_def)
  qed
  then show ?thesis by (auto simp: scheduler_follows_def refusing_env_def)
qed

definition guarded_session :: "unit session option" where
  "guarded_session = serve_all refusing_env [Protect ''box'' Metadata (PolicyPattern ''/data'' False)] busy_session"

definition demo_view_mount :: mount where
  "demo_view_mount = \<lparr>mt_sandbox_name = ''box'', mt_attach_id = Some 2\<rparr>"

definition demo_chmod :: "unit world \<Rightarrow> (reply \<times> unit world) option" where
  "demo_chmod w =
     complete refusing_env demo_view_mount
       (kernel_handler refusing_env demo_view_mount \<lparr>req_pid = 42, req_uid = 7, req_gid = 0\<rparr>
          (CallSetattr 1 (Some 384) None None None None None None None) w)"

lemma refused_evaluated:
  "case guarded_session of None \<Rightarrow> False
   | Some S \<Rightarrow> (case demo_chmod ((ss_world S)\<lparr>w_inodes := [(1, [''data''])]\<rparr>) of
       Some (ReplyError e, w) \<Rightarrow> e = EPERM \<and> w_cells w 2 = Some Deny | _ \<Rightarrow> False)"
  by code_simp

section \<open>Properties\<close>

text \<open>
  C7: The handlers refine the system. Where the scheduler follows the steps of the system, a
  complete call on an attached view, whatever handler serves it, whatever it replies and however
  often it or its thread waits, takes the state to one that the interleaved system reaches from
  it; so the invariant holds there and no waiting caller of another call has been forgotten.
\<close>

theorem handlers_refine_system:
  assumes "scheduler_follows E" and "system_ok y" and "m \<in> set (ss_mounts (sy_session y))"
    and "\<And>h. clock_ok (os_now (env_os E) h)"
    and "complete E (mount_of m) (kernel_handler E (mount_of m) req call (sy_world y)) = Some (r, w')"
  shows "\<exists>z. (timed_step E)\<^sup>*\<^sup>* y z \<and> sy_world z = w' \<and> session_ok (sy_session z)
    \<and> (\<forall>call \<in> set (sy_calls z). call_ok w' call)"
proof -
  obtain z where z: "(timed_step E)\<^sup>*\<^sup>* y z" "sy_world z = w'" using kernel_call_steps [OF assms] by blast
  with reachable_safe [OF assms(2) z(1)] show ?thesis by (auto simp: system_ok_def)
qed

theorem handlers_refine_system_witness:
  "\<exists>w w'. demo_chmod w = Some (ReplyError EPERM, w') \<and> w_cells w' 2 = Some Deny \<and> world_ok w'"
proof -
  obtain S w' where S: "guarded_session = Some S"
    and run: "demo_chmod ((ss_world S)\<lparr>w_inodes := [(1, [''data''])]\<rparr>) = Some (ReplyError EPERM, w')"
    and told: "w_cells w' 2 = Some Deny"
    using refused_evaluated by (auto split: option.splits prod.splits reply.splits)
  let ?w = "(ss_world S)\<lparr>w_inodes := [(1, [''data''])]\<rparr>"
  obtain q where q: "handle_result refusing_env (Protect ''box'' Metadata (PolicyPattern ''/data'' False)) busy_session = Some (q, S)"
    using S by (auto simp: guarded_session_def split: option.splits prod.splits)
  let ?y = "busy_system\<lparr>sy_session := S\<rparr>"
  have "wf_request (Protect ''box'' Metadata (PolicyPattern ''/data'' False))" by code_simp
  then have "system_step refusing_env busy_system ?y"
    using system_step.serve [of "Protect ''box'' Metadata (PolicyPattern ''/data'' False)" refusing_env busy_system q S] q
    by (simp add: busy_system_def)
  then have ready: "system_ok ?y" by (rule system_step_ok [OF _ busy_system_ok refusing_clock])
  have "own_step (sy_world ?y) ?w" by (simp add: own_step_def)
  from system_step_ok [OF call_step.act [THEN system_step.call, OF this] ready refusing_clock] have ok: "system_ok (with_world ?y ?w)" .
  have mounts: "ss_mounts S = ss_mounts busy_session"
    using q by (auto simp: in_world_def split: prod.splits)
  obtain m where m: "m \<in> set (ss_mounts busy_session)" "mount_of m = demo_view_mount"
    by (simp add: busy_session_def mount_of_def demo_view_mount_def)
  have mounted: "m \<in> set (ss_mounts (sy_session (with_world ?y ?w)))" using m(1) mounts by (simp add: with_world_def)
  have "complete refusing_env (mount_of m) (kernel_handler refusing_env (mount_of m) \<lparr>req_pid = 42, req_uid = 7, req_gid = 0\<rparr>
      (CallSetattr 1 (Some 384) None None None None None None None) (sy_world (with_world ?y ?w))) = Some (ReplyError EPERM, w')"
    using run m(2) by (simp add: demo_chmod_def)
  from handlers_refine_system [OF refusing_follows ok mounted refusing_clock this] have "world_ok w'"
    by (auto simp: session_ok_def)
  with run told show ?thesis by blast
qed

end
