(* ===== verification/Trust.thy ===== *)
theory Trust
  imports System
begin

text \<open>
  Who may change protected metadata without asking: the trusted operations of the registry
  through every step of the running system. Only three requests touch their table: beginning an
  operation, which trusts no process yet, registering a process for it, and ending it.
  Everything else, on the server and in the file systems, keeps the table or, with the end of a
  sandbox, drops entries from it.
\<close>

section \<open>Steps that keep the table\<close>

named_theorems keeps_trusted "operations that leave the trusted operations as they are"

abbreviation trusted_of :: "'h world \<Rightarrow> (string, trusted_operation) omap" where
  "trusted_of w \<equiv> rg_trusted (w_registry w)"

lemma registry_keeps_trusted [keeps_trusted, simp]:
  "rg_trusted (snd (next_operation_id r)) = rg_trusted r"
  "rg_trusted (insert_pending_request q r) = rg_trusted r"
  "rg_trusted (insert_pending_read_write_request x r) = rg_trusted r"
  "rg_trusted (insert_any_pending_request a r) = rg_trusted r"
  "rg_trusted (snd (remove_pending_request i r)) = rg_trusted r"
  "rg_trusted (snd (remove_pending_read_write_request i r)) = rg_trusted r"
  "rg_trusted (insert_read_write_grant g r) = rg_trusted r"
  by (cases a; simp add: next_operation_id_def registry_defs insert_read_write_grant_def split: option.splits)+

lemma grants_keep_trusted [keeps_trusted, simp]:
  "rg_trusted (snd (remove_grants ids r)) = rg_trusted r"
  "rg_trusted (snd (prune_expired_read_write_grants_for_sandbox n now r)) = rg_trusted r"
  "rg_trusted (snd (match_read_write_grant_for_intent G n k path identity now r)) = rg_trusted r"
  "rg_trusted (snd (assign_event_ids gs r)) = rg_trusted r"
  "rg_trusted (snd (take_index_keys ks r)) = rg_trusted r"
proof -
  show g: "rg_trusted (snd (remove_grants js q)) = rg_trusted q" for js q
    by (induction js q rule: remove_grants.induct) (simp_all add: split_beta Let_def)
  show "rg_trusted (snd (prune_expired_read_write_grants_for_sandbox n now r)) = rg_trusted r"
    by (simp add: prune_expired_read_write_grants_for_sandbox_def g)
  show "rg_trusted (snd (match_read_write_grant_for_intent G n k path identity now r)) = rg_trusted r"
    by (simp add: match_read_write_grant_for_intent_def Let_def split: option.splits prod.splits)
  show "rg_trusted (snd (assign_event_ids gs r)) = rg_trusted r"
    by (induction gs r rule: assign_event_ids.induct) (simp_all add: split_beta Let_def next_operation_id_def)
  show "rg_trusted (snd (take_index_keys ks r)) = rg_trusted r"
    by (induction ks r rule: take_index_keys.induct) (simp_all add: split_beta Let_def)
qed

lemma primitives_keep_trusted [keeps_trusted, simp]:
  "trusted_of (snd (take_waiter i w)) = trusted_of w"
  "trusted_of (put_sandbox name s w) = trusted_of w"
  "trusted_of (notify_all cs d w) = trusted_of w"
  "trusted_of (snd (take_request name i w)) = trusted_of w"
  "trusted_of (snd (log_then_ok E p i b w)) = trusted_of w"
  "trusted_of (snd (log_and_notify E p i b c d w)) = trusted_of w"
  "trusted_of (snd (and_log E p i b acc)) = trusted_of (snd acc)"
proof -
  show "trusted_of (notify_all cs d w) = trusted_of w" by (simp add: notify_all_def) (induction cs arbitrary: w; simp)
  show "trusted_of (snd (take_request name i w)) = trusted_of w"
    using remove_any_other(5) [of i "w_registry w"]
    by (cases "remove_any_pending_request i (w_registry w)") (auto simp: take_request_def split: option.split)
qed (simp_all add: take_waiter_def put_sandbox_def log_then_ok_def log_and_notify_def and_log_def split_beta
      split: sum.splits)

text \<open>The decisions and cancellations of the server.\<close>

lemma take_canceled_keeps_trusted [keeps_trusted, simp]: "trusted_of (snd (take_canceled a ids w)) = trusted_of w"
  by (induction ids arbitrary: w) (simp_all add: split_beta Let_def)

lemma log_canceled_keeps_trusted [keeps_trusted, simp]:
  "trusted_of (snd (log_canceled E p reason items acc)) = trusted_of (snd acc)"
  by (induction E p reason items acc rule: log_canceled.induct) simp_all

lemma apply_without_waiter_keeps_trusted [keeps_trusted, simp]:
  "trusted_of (snd (apply_without_waiter name d c q s w)) = trusted_of w"
  by (simp add: apply_without_waiter_def split: pending_request.splits sum.splits)

lemma decisions_keep_trusted [keeps_trusted, simp]:
  "trusted_of (snd (allow_plain E name i d w)) = trusted_of w"
  "trusted_of (snd (session_deny E name i w)) = trusted_of w"
  "trusted_of (snd (session_cancel E name i reason w)) = trusted_of w"
  using primitives_keep_trusted(4) [of name i w]
  by (cases "take_request name i w";
      auto simp: allow_plain_def session_deny_def session_cancel_def split_beta Let_def split: sum.split option.split)+

lemma cancellations_keep_trusted [keeps_trusted, simp]:
  "trusted_of (snd (cancel_scope E name f scope a reason w)) = trusted_of w"
  "trusted_of (snd (cancel_attached_view E name i reason w)) = trusted_of w"
  "trusted_of (snd (cancel_all E name m w)) = trusted_of w"
proof -
  show c: "trusted_of (snd (cancel_scope E name f scope a reason w)) = trusted_of w" for name f scope a reason w
    by (simp add: cancel_scope_def finish_cancel_scope_def split_beta Let_def split: option.split)
  show "trusted_of (snd (cancel_attached_view E name i reason w)) = trusted_of w" for name i reason w
    by (simp add: cancel_attached_view_def c)
  then show "trusted_of (snd (cancel_all E name m w)) = trusted_of w"
    by (simp add: cancel_all_def c split_beta split: option.split sum.split)
qed

text \<open>Allowing with a grant.\<close>

lemma release_keeps_trusted [keeps_trusted, simp]:
  "trusted_of (snd (release_pending i w)) = trusted_of w"
  "trusted_of (snd (release_each ids w)) = trusted_of w"
proof -
  show r: "trusted_of (snd (release_pending j v)) = trusted_of v" for j v
    using registry_keeps_trusted(6) [of j "w_registry v"]
    by (cases "remove_pending_read_write_request j (w_registry v)")
       (auto simp: release_pending_def split_beta Let_def split: option.split)
  show "trusted_of (snd (release_each ids w)) = trusted_of w"
    by (induction ids arbitrary: w) (simp_all add: split_beta Let_def r)
qed

lemma place_keeps_trusted [keeps_trusted, simp]:
  "trusted_of (snd (snd (snd (place_one_shot E g now q own w)))) = trusted_of w"
  "trusted_of (snd (snd (snd (place_duration E g now q own w)))) = trusted_of w"
  "trusted_of (put_back i q c w) = trusted_of w"
  by (simp_all add: place_one_shot_def place_duration_def put_back_def split_beta Let_def split: option.split)

lemma place_grant_keeps_trusted [keeps_trusted, simp]:
  "trusted_of (snd (place_grant E name opts path now subject q own p d warning w)) = trusted_of w"
  by (simp add: place_grant_def split_beta Let_def split: grant_lifetime.split)

lemma decide_grant_keeps_trusted:
  assumes "decide_grant E name i opts now w = Some (r, w')"
  shows "trusted_of w' = trusted_of w"
proof -
  obtain x v where t: "take_request name i w = (x, v)" by (rule prod.exhaust)
  then have v: "trusted_of v = trusted_of w" using primitives_keep_trusted(4) [of name i w] by simp
  show ?thesis
    using assms v
    by (auto simp: decide_grant_def t split_beta Let_def split: sum.splits pending_request.splits option.splits if_splits)
qed

lemma announce_released_keeps_trusted [keeps_trusted, simp]:
  "trusted_of (snd (announce_released E p i rels acc)) = trusted_of (snd acc)"
  by (induction rels arbitrary: acc) (simp_all add: split_beta Let_def split: option.split)

lemma finish_allow_keeps_trusted [keeps_trusted, simp]:
  "trusted_of (snd (finish_read_write_grant_allow E oc w)) = trusted_of w"
  by (simp add: finish_read_write_grant_allow_def split_beta Let_def split: option.split)

lemma session_allow_keeps_trusted:
  assumes "session_allow E name i d grant w = Some (r, w')"
  shows "trusted_of w' = trusted_of w"
proof (cases grant)
  case None
  with assms decisions_keep_trusted(1) [of E name i d w] show ?thesis by (auto simp: session_allow_def split: if_splits)
next
  case (Some opts)
  have "trusted_of v = trusted_of w" if "decide_grant E name i opts now w = Some (x, v)" for now x v
    using decide_grant_keeps_trusted that .
  moreover have "trusted_of w' = trusted_of v" if "finish_read_write_grant_allow E oc v = (r, w')" for oc v
    using finish_allow_keeps_trusted [of E oc v] that by simp
  ultimately show ?thesis
    using assms Some by (auto simp: session_allow_def allow_read_write_grant_def split: if_splits option.splits sum.splits)
qed

text \<open>The sandboxes and their mounts.\<close>

lemma change_sandbox_keeps_trusted [keeps_trusted, simp]: "trusted_of (snd (change_sandbox E name f w)) = trusted_of w"
  by (simp add: change_sandbox_def split_beta split: option.split sum.split)

lemma attach_keeps_trusted:
  assumes "session_attach E name mp temporary S = (r, S')"
  shows "trusted_of (ss_world S') = trusted_of (ss_world S)"
  using assms
  by (auto simp: session_attach_def split_beta Let_def split: sum.splits option.splits)

lemmas attach_keeps_trusted' = attach_keeps_trusted [OF prod.collapse [symmetric]]

lemma remove_attach_keeps_trusted [keeps_trusted, simp]: "trusted_of (remove_attach name mp w) = trusted_of w"
  by (simp add: remove_attach_def split: option.split)

lemma detach_keeps_trusted:
  assumes "session_detach E name mp S = (r, S')"
  shows "trusted_of (ss_world S') = trusted_of (ss_world S)"
  using assms
  by (auto simp: session_detach_def split_beta Let_def split: sum.splits option.splits prod.splits)

lemmas detach_keeps_trusted' = detach_keeps_trusted [OF prod.collapse [symmetric]]

lemma detach_all_keeps_trusted:
  "detach_all E name mps S = (r, S') \<Longrightarrow> trusted_of (ss_world S') = trusted_of (ss_world S)"
  by (induction mps arbitrary: S) (auto dest: detach_keeps_trusted split: prod.splits sum.splits)

text \<open>The file systems.\<close>

lemma apply_keeps_trusted [keeps_trusted, simp]:
  "trusted_of (snd (apply_to_registry_object F object path oper w)) = trusted_of w"
  by (simp add: apply_to_registry_object_def split: option.split sum.split)

lemma attr_for_path_keeps_trusted [keeps_trusted, simp]: "trusted_of (snd (attr_for_path E F path w)) = trusted_of w"
  using attr_for_path_frame(1) [OF prod.collapse [symmetric]] by metis

lemma apply_and_reread_keeps_trusted [keeps_trusted, simp]:
  "trusted_of (snd (apply_and_reread E F object path oper w)) = trusted_of w"
  by (simp add: apply_and_reread_def split_beta split: sum.split)

lemma begin_trusted_metadata_keeps_trusted [keeps_trusted, simp]:
  "trusted_of (snd (begin_trusted_metadata E F identity path oper object w)) = trusted_of w"
  by (simp add: begin_trusted_metadata_def split_beta Let_def split: option.split sum.split)

lemma supersede_keeps_trusted [keeps_trusted, simp]:
  "trusted_of (snd (snd (supersede E p ids failed w))) = trusted_of w"
proof (induction ids arbitrary: failed w)
  case (Cons i ids)
  obtain q r where q: "remove_pending_request i (w_registry w) = (q, r)" by (rule prod.exhaust)
  then have "rg_trusted r = trusted_of w" using registry_keeps_trusted(5) [of i "w_registry w"] by simp
  then show ?case by (cases q) (simp_all add: q Cons.IH split_beta Let_def)
qed simp

lemma queue_metadata_keeps_trusted [keeps_trusted, simp]:
  "trusted_of (snd (queue_metadata_request E F identity path oper object unchanged p w)) = trusted_of w"
  by (simp add: queue_metadata_request_def split_beta Let_def)

lemma begin_metadata_keeps_trusted:
  assumes "begin_metadata_request E F identity path oper w = (res, w')"
  shows "trusted_of w' = trusted_of w"
proof -
  obtain at v where a: "attr_for_path E F path w = (at, v)" by (rule prod.exhaust)
  then have "trusted_of v = trusted_of w" using attr_for_path_keeps_trusted [of E F path w] by simp
  moreover have "trusted_of (snd (begin_metadata_request E F identity path oper w)) = trusted_of v"
    by (simp add: begin_metadata_request_def a split: sum.split option.split)
  ultimately show ?thesis using assms by simp
qed

lemma queue_effect_keeps_trusted [keeps_trusted, simp]:
  "trusted_of (snd (queue_effect E F identity process oper p e w)) = trusted_of w"
  by (simp add: queue_effect_def split_beta Let_def split: sum.split)

lemma authorize_effects_keeps_trusted [keeps_trusted, simp]:
  "trusted_of (snd (authorize_effects E F identity process now oper p es consumed queued w)) = trusted_of w"
proof (induction es arbitrary: consumed queued w)
  case (Cons e es)
  obtain m r where m: "match_read_write_grant_for_intent (env_glob E) (mt_sandbox_name F) (eff_kind e) (eff_path e)
      process now (w_registry w) = (m, r)" by (rule prod.exhaust)
  then have r: "rg_trusted r = trusted_of w" using grants_keep_trusted(3) [of "env_glob E"] by (metis snd_conv)
  obtain x v where x: "queue_effect E F identity process oper p e (w\<lparr>w_registry := r\<rparr>) = (x, v)" by (rule prod.exhaust)
  then have "trusted_of v = trusted_of w"
    using queue_effect_keeps_trusted [of E F identity process oper p e "w\<lparr>w_registry := r\<rparr>"] r by simp
  then show ?case
    using r by (simp add: Cons.IH m x split_beta split: option.split grant_match_outcome.split bool.split sum.split)
qed simp

lemma authorize_begin_keeps_trusted:
  assumes "authorize_begin E F identity oper w = (res, w')"
  shows "trusted_of w' = trusted_of w"
  using assms by (auto simp: authorize_begin_def split_beta Let_def split: option.splits sum.splits)

lemma cancel_unresolved_keeps_trusted [keeps_trusted, simp]:
  "trusted_of (cancel_unresolved_read_write_effects qs w) = trusted_of w"
proof (induction qs arbitrary: w)
  case (Cons q qs)
  obtain i c where q: "q = (i, c)" by (rule prod.exhaust)
  obtain x r where r: "remove_pending_read_write_request i (w_registry w) = (x, r)" by (rule prod.exhaust)
  then have "rg_trusted r = trusted_of w" using registry_keeps_trusted(6) [of i "w_registry w"] by simp
  then show ?case by (cases x) (simp_all add: q r Cons.IH)
qed simp

lemma finish_pending_keeps_trusted:
  assumes "finish_pending_attr E F p w = Some (res, w')" and "w_cells w (po_waiter p) \<noteq> None"
  shows "trusted_of w' = trusted_of w"
proof -
  have "trusted_of v = trusted_of w" if "apply_to_registry_object F object path oper w = (x, v)" for object path oper x v
    using apply_keeps_trusted [of F object path oper w] that by simp
  moreover have "trusted_of w' = trusted_of v" if "attr_for_path E F path v = (x, w')" for path v x
    using attr_for_path_keeps_trusted [of E F path v] that by simp
  ultimately show ?thesis
    using assms by (auto simp: finish_pending_attr_def wait_for_decision_def apply_pending_operation_def
        split: pending_decision.splits prod.splits sum.splits)
qed

lemma ioctl_keeps_trusted:
  assumes "spawn_ioctl_waiter E F p w = Some (rep, w')" and "w_cells w (po_waiter p) \<noteq> None"
  shows "trusted_of w' = trusted_of w"
proof -
  have "trusted_of v = trusted_of w" if "apply_to_registry_object F object path oper w = (x, v)" for object path oper x v
    using apply_keeps_trusted [of F object path oper w] that by simp
  then show ?thesis
    using assms by (auto simp: spawn_ioctl_waiter_def wait_for_decision_def apply_pending_operation_def
        split: pending_decision.splits prod.splits sum.splits)
qed

section \<open>Requests\<close>

lemma om_get_filterD: "om_wf m \<Longrightarrow> om_get (filter p m) k = Some v \<Longrightarrow> om_get m k = Some v"
  by (simp add: om_get_filter split: option.splits if_splits)

lemma destroy_drops_trusted:
  assumes "session_destroy E name S = (r, S')" and "session_ok S" and "om_get (trusted_of (ss_world S')) token = Some t"
  shows "om_get (trusted_of (ss_world S)) token = Some t"
proof (cases "get_sandbox name (ss_world S)")
  case None
  with assms show ?thesis by (simp add: session_destroy_def)
next
  case (Some s)
  let ?w = "with_registry (\<lambda>r. r\<lparr>rg_trusted := filter (\<lambda>(_, t). tr_sandbox t \<noteq> name) (rg_trusted r)\<rparr>) (ss_world S)"
  let ?mps = "map at_mountpoint (om_values (sb_attaches s))"
  obtain x S1 where d: "detach_all E name ?mps (S\<lparr>ss_world := snd (cancel_all E name None ?w)\<rparr>) = (x, S1)"
    by (rule prod.exhaust)
  have "trusted_of (ss_world S1) = filter (\<lambda>(_, t). tr_sandbox t \<noteq> name) (trusted_of (ss_world S))"
    using detach_all_keeps_trusted [OF d] by simp
  moreover have "trusted_of (ss_world S') = trusted_of (ss_world S1)"
    using assms(1) Some d by (auto simp: session_destroy_def Let_def split: sum.splits option.splits prod.splits)
  ultimately show ?thesis
    using assms(2,3) trusted_bounds(1) [of "ss_world S"] om_get_filterD
    by (auto simp: session_ok_def world_ok_def)
qed

lemma begin_trusted_entry:
  assumes "begin_trusted E name command mp paths S = (r, S')" and "om_get (trusted_of (ss_world S')) token = Some t"
  shows "om_get (trusted_of (ss_world S)) token = Some t \<or> tr_pid t = None"
  using assms
  by (auto simp: begin_trusted_def split_beta Let_def attach_keeps_trusted' split: if_splits sum.splits)

lemma end_trusted_entry:
  assumes "end_trusted E token S = (r, S')"
  shows "trusted_of (ss_world S') = om_remove token (trusted_of (ss_world S))"
  using assms
  by (auto simp: end_trusted_def split_beta Let_def detach_keeps_trusted' split: option.splits sum.splits)

lemma request_trusted:
  assumes run: "handle_result E q S = Some (r, S')" and ok: "session_ok S"
    and t: "om_get (trusted_of (ss_world S')) token = Some t"
  shows "om_get (trusted_of (ss_world S)) token = Some t \<or> tr_pid t = None
    \<or> (\<exists>pid uid u. q = RegisterTrustedPid token pid uid \<and> om_get (trusted_of (ss_world S)) token = Some u
         \<and> t = u\<lparr>tr_pid := Some pid, tr_uid := Some uid\<rparr> \<and> r = Inr ResponseOk)"
proof (cases q)
  case (Shutdown name)
  with run have "session_destroy E name S = (r, S')" by simp
  from destroy_drops_trusted [OF this ok t] show ?thesis by simp
next
  case (Attach name mp temporary)
  with run t attach_keeps_trusted show ?thesis by fastforce
next
  case (Detach name mp)
  with run t detach_keeps_trusted show ?thesis by fastforce
next
  case (BeginTrustedOperation name command mp paths)
  with run have "begin_trusted E name command mp paths S = (r, S')" by simp
  from begin_trusted_entry [OF this t] show ?thesis by blast
next
  case (RegisterTrustedPid token' pid uid)
  with run t show ?thesis
    by (auto simp: in_world_def register_trusted_pid_def split: option.splits if_splits)
next
  case (EndTrustedOperation token')
  with run have "end_trusted E token' S = (r, S')" by simp
  from end_trusted_entry [OF this] t show ?thesis by (auto split: if_splits)
next
  case (Allow name i d grant)
  with run t session_allow_keeps_trusted show ?thesis by fastforce
qed (use run t in \<open>auto simp: in_world_def split_beta session_mount_layer_def session_umount_layer_def session_hide_def
    session_protect_def session_unprotect_def session_bypass_def session_unbypass_def list_protection_def list_bypass_def
    list_mounts_def session_metadata_def session_log_path_def look_at_sandbox_def session_pending_def
    split: sum.splits option.splits if_splits\<close>)

section \<open>The running system\<close>

text \<open>The step by which a process becomes trusted.\<close>

definition registers ::
  "'h env \<Rightarrow> string \<Rightarrow> u32 \<Rightarrow> u32 \<Rightarrow> sandbox_path \<Rightarrow> 'h system \<Rightarrow> 'h system \<Rightarrow> bool"
where
  "registers E name pid uid path x z \<longleftrightarrow>
     (\<exists>token t. handle_result E (RegisterTrustedPid token pid uid) (sy_session x) = Some (Inr ResponseOk, sy_session z)
        \<and> om_get (trusted_of (sy_world x)) token = Some t \<and> tr_sandbox t = name
        \<and> list_ex (scope_covers path) (tr_paths t))"

lemma call_keeps_trusted:
  assumes "call_step E y z"
  shows "trusted_of (sy_world z) = trusted_of (sy_world y)"
  using assms
proof cases
  case (enter_read_write m identity oper queued w')
  then show ?thesis using authorize_begin_keeps_trusted by (fastforce simp: with_world_def)
next
  case (fail_read_write m identity oper e w')
  then show ?thesis using authorize_begin_keeps_trusted by (fastforce simp: with_world_def)
next
  case (return_read_write queued d w')
  then show ?thesis by (simp add: with_world_def)
next
  case (enter_metadata m identity path oper p w')
  then show ?thesis using begin_metadata_keeps_trusted by (fastforce simp: with_world_def)
next
  case (answer_metadata m identity path oper res w')
  then show ?thesis using begin_metadata_keeps_trusted by (fastforce simp: with_world_def)
next
  case (return_metadata F p res w')
  then show ?thesis using finish_pending_keeps_trusted by (fastforce simp: with_world_def)
next
  case (return_ioctl F p rep w')
  then show ?thesis using ioctl_keeps_trusted by (fastforce simp: with_world_def)
next
  case (act w')
  then show ?thesis by (simp add: with_world_def own_step_def)
qed

lemma step_keeps_trusted:
  assumes "system_step E y z" and "\<And>q r S'. handle_result E q (sy_session y) = Some (r, S') \<Longrightarrow> z = y\<lparr>sy_session := S'\<rparr> \<Longrightarrow> P"
  obtains P | "trusted_of (sy_world z) = trusted_of (sy_world y)"
  using assms(1)
proof cases
  case call
  from call_keeps_trusted [OF this] show ?thesis by (rule that(2))
qed (use assms(2) that(1) in blast)

lemma trusted_get:
  assumes "wf_world w"
  shows "is_trusted_operation (w_registry w) name pid uid path \<longleftrightarrow>
    (\<exists>token t. om_get (trusted_of w) token = Some t \<and> trusted_covers name pid uid path t)"
  unfolding is_trusted_operation_def list_ex_iff Bex_def om_values_iff [OF trusted_bounds(1) [OF assms]] by blast

lemma step_trusts:
  assumes step: "system_step E y z" and ok: "system_ok y" "system_ok z"
    and trusted: "is_trusted_operation (w_registry (sy_world z)) name pid uid path"
  shows "is_trusted_operation (w_registry (sy_world y)) name pid uid path \<or> registers E name pid uid path y z"
proof -
  have wf: "wf_world (sy_world y)" "wf_world (sy_world z)" and S: "session_ok (sy_session y)"
    using ok by (simp_all add: system_ok_def session_ok_def world_ok_def)
  obtain token t where t: "om_get (trusted_of (sy_world z)) token = Some t" "trusted_covers name pid uid path t"
    using trusted trusted_get [OF wf(2)] by blast
  show ?thesis
  proof (rule step_keeps_trusted [OF step, where P = ?thesis])
    fix q r S'
    assume h: "handle_result E q (sy_session y) = Some (r, S')" and z: "z = y\<lparr>sy_session := S'\<rparr>"
    have "om_get (trusted_of (ss_world S')) token = Some t" using t(1) z by simp
    from request_trusted [OF h S this] show ?thesis
      using t(2) h z trusted_get [OF wf(1)] by (auto simp: trusted_covers_def registers_def)
  next
    assume "trusted_of (sy_world z) = trusted_of (sy_world y)"
    then show ?thesis using trusted by (simp add: is_trusted_operation_def)
  qed
qed

lemma new_session_trusts_none:
  assumes "new_session E rt name h = Inr S"
  shows "trusted_of (ss_world S) = []"
proof -
  obtain log_path h' where "S = (new_state rt h)\<lparr>ss_world := put_sandbox name (new_sandbox name log_path)
      ((ss_world (new_state rt h))\<lparr>w_host := h'\<rparr>)\<rparr>"
    using assms by (auto simp: new_session_def create_initial_def Let_def split: sum.splits prod.splits)
  then show ?thesis by (simp add: new_state_def new_registry_def)
qed

lemma trusted_was_registered:
  assumes "fresh_system E s" and "(timed_step E)\<^sup>*\<^sup>* s y"
    and "is_trusted_operation (w_registry (sy_world y)) name pid uid path"
  shows "\<exists>x z. (timed_step E)\<^sup>*\<^sup>* s x \<and> timed_step E x z \<and> registers E name pid uid path x z \<and> (timed_step E)\<^sup>*\<^sup>* z y"
  using assms(2,3)
proof (induction rule: rtranclp_induct)
  case base
  from assms(1) have "trusted_of (sy_world s) = []" using new_session_trusts_none by (auto simp: fresh_system_def)
  with base show ?case by (simp add: is_trusted_operation_def om_values_def)
next
  case (step y z)
  have "system_ok y" "system_ok z" "system_step E y z"
    using gate.reachable_inv [OF assms(1)] step.hyps rtranclp.rtrancl_into_rtrancl [of "timed_step E" s y z]
    by (auto simp: timed_step_def)
  from step_trusts [OF this(3,1,2) step.prems] show ?case
    using step by (meson rtranclp.rtrancl_into_rtrancl rtranclp.rtrancl_refl)
qed

lemma queue_never_applies: "queue_metadata_request E F identity path oper object unchanged p w \<noteq> (Inr (Applied a), w')"
  by (simp add: queue_metadata_request_def split_beta Let_def)

section \<open>A trusted command for evaluation\<close>

definition trust_env :: "unit env" where
  "trust_env = live_env\<lparr>env_os := (env_os live_env)\<lparr>os_canonicalize := (\<lambda>h p. Inr p), os_exists := (\<lambda>h p. True),
     os_spawn_mount := (\<lambda>h n m. (Inr (), h)), os_symlink_metadata := (\<lambda>_ _. Inr file_meta)\<rparr>\<rparr>"

definition trust_requests :: "request list" where
  "trust_requests = [Mount ''box'' ''/srv'' [''data''], Protect ''box'' Metadata (PolicyPattern ''/data'' False),
     BeginTrustedOperation ''box'' ''chmod'' ''/mnt'' [\<lparr>scope_path = [''data''], scope_recursive = False\<rparr>],
     RegisterTrustedPid ''box-3-0'' 42 7]"

definition trust_session :: "unit session option" where
  "trust_session =
     (case new_session trust_env demo_runtime ''box'' () of Inl _ \<Rightarrow> None | Inr S \<Rightarrow> serve_all trust_env trust_requests S)"

definition trust_change :: "unit world \<Rightarrow> (errno + metadata_outcome) \<times> unit world" where
  "trust_change = begin_metadata_request trust_env \<lparr>mt_sandbox_name = ''box'', mt_attach_id = None\<rparr>
     \<lparr>req_pid = 42, req_uid = 7, req_gid = 0\<rparr> [''data''] (Chmod [''data''] 384)"

lemma trust_evaluated:
  "case trust_session of None \<Rightarrow> False
   | Some S \<Rightarrow> (case fs_sandbox \<lparr>mt_sandbox_name = ''box'', mt_attach_id = None\<rparr> (ss_world S) of None \<Rightarrow> False
       | Some b \<Rightarrow> policy_asks trust_env (ss_world S) b [''data''] [KMode])
     \<and> (case trust_change (ss_world S) of (Inr (Applied _), _) \<Rightarrow> True | _ \<Rightarrow> False)"
  by code_simp

section \<open>Properties\<close>

text \<open>
  C3: Only registered processes change protected metadata without asking. Whenever, in a state
  the running system reaches, a metadata change that a rule protects and no bypass rule opens
  is answered at once as applied, then earlier a request registered the calling process, with its user, for a trusted operation of
  this sandbox that was begun with a scope covering the path.
\<close>

theorem unasked_change_was_registered:
  assumes "fresh_system E s" and "(timed_step E)\<^sup>*\<^sup>* s y" and "fs_sandbox F (sy_world y) = Some b"
    and "policy_asks E (sy_world y) b path (pending_kinds oper)"
    and "begin_metadata_request E F identity path oper (sy_world y) = (Inr (Applied attr), w')"
  shows "\<exists>x z. (timed_step E)\<^sup>*\<^sup>* s x \<and> timed_step E x z \<and> (timed_step E)\<^sup>*\<^sup>* z y
    \<and> registers E (mt_sandbox_name F) (req_pid identity) (req_uid identity) path x z"
proof -
  have "\<not> must_ask E F identity path oper (sy_world y)"
  proof
    assume "must_ask E F identity path oper (sy_world y)"
    from begin_metadata_asks [OF must_ask_code [OF this] assms(5)] show False by (metis Inl_Inr_False queue_never_applies)
  qed
  then have "is_trusted_operation (w_registry (sy_world y)) (mt_sandbox_name F) (req_pid identity) (req_uid identity) path"
    using assms(3,4) by (auto simp: must_ask_def)
  from trusted_was_registered [OF assms(1,2) this] show ?thesis by blast
qed

theorem unasked_change_was_registered_witness:
  "\<exists>S a w' x. trust_session = Some S \<and> trust_change (ss_world S) = (Inr (Applied a), w')
     \<and> (\<exists>z. registers trust_env ''box'' 42 7 [''data''] x z)"
proof -
  obtain S b a w' where S: "trust_session = Some S"
    and b: "fs_sandbox \<lparr>mt_sandbox_name = ''box'', mt_attach_id = None\<rparr> (ss_world S) = Some b"
      "policy_asks trust_env (ss_world S) b [''data''] [KMode]"
    and run: "trust_change (ss_world S) = (Inr (Applied a), w')"
    using trust_evaluated by (auto split: option.splits prod.splits sum.splits metadata_outcome.splits)
  obtain S0 where S0: "new_session trust_env demo_runtime ''box'' () = Inr S0" "serve_all trust_env trust_requests S0 = Some S"
    using S by (auto simp: trust_session_def split: sum.splits)
  have clock: "clock_ok (os_now (env_os trust_env) h)" for h using live_clock by (simp add: trust_env_def)
  have wf: "\<forall>q \<in> set trust_requests. wf_request q" by code_simp
  have fresh: "fresh_system trust_env \<lparr>sy_session = S0, sy_calls = []\<rparr>" using S0(1) by (auto simp: fresh_system_def)
  have kinds: "pending_kinds (Chmod [''data''] 384) = [KMode]" by simp
  let ?y = "\<lparr>sy_session = S, sy_calls = []\<rparr>" and ?F = "\<lparr>mt_sandbox_name = ''box'', mt_attach_id = None\<rparr>"
    and ?who = "\<lparr>req_pid = 42, req_uid = 7, req_gid = 0\<rparr>"
  have "begin_metadata_request trust_env ?F ?who [''data''] (Chmod [''data''] 384) (sy_world ?y) = (Inr (Applied a), w')"
    using run by (simp add: trust_change_def)
  from unasked_change_was_registered [OF fresh serve_all_reachable [OF S0(2) wf clock] _ _ this, of b] b S run kinds
  show ?thesis by auto
qed

end
