(* ===== verification/Cli.thy ===== *)
theory Cli
  imports Session
begin

text \<open>
  \<^verbatim>\<open>src/cli.rs\<close>: the command line client. A command either is one request whose response is
  printed, runs \<^verbatim>\<open>chmod\<close>, \<^verbatim>\<open>chown\<close> or \<^verbatim>\<open>chattr\<close> inside a temporary mount as a trusted operation,
  or follows the log. The parsing of the argument vector is the \<^verbatim>\<open>clap\<close> crate's; the model starts
  from the parsed command (\<^verbatim>\<open>SandboxCommand\<close>). What the client asks of the operating system and
  of the session's socket is a record of functions on a client state, a parameter.
\<close>

section \<open>Commands\<close>

datatype sandbox_command =
    CmdDestroy
  | CmdAttach string
  | CmdDetach string
  | CmdMount "string option" "string option"
  | CmdUmount string
  | CmdHide string
  | CmdProtectRead string
  | CmdProtectWrite string
  | CmdProtectMetadata string
  | CmdProtectXattr string
  | CmdUnprotectRead string
  | CmdUnprotectWrite string
  | CmdUnprotectMetadata string
  | CmdUnprotectXattr string
  | CmdBypassRead string
  | CmdBypassWrite string
  | CmdBypassMetadata string
  | CmdBypassXattr string
  | CmdUnbypassRead string
  | CmdUnbypassWrite string
  | CmdUnbypassMetadata string
  | CmdUnbypassXattr string
  | CmdListProtection bool bool bool bool
  | CmdListBypass bool bool bool bool
  | CmdChmod "string list"
  | CmdChown "string list"
  | CmdChattr "string list"
  | CmdAllow bool "string option" "string option" bool "nat option"
  | CmdDeny nat
  | CmdCancel nat
  | CmdCancelAll "string option"
  | CmdMonitor bool
  | CmdMetadata

section \<open>Durations\<close>

text \<open>\<^verbatim>\<open>str::trim\<close>: the code points with the property White\_Space, in UTF-8.\<close>

definition white_space :: "string list" where
  "white_space =
     map (\<lambda>c. [c]) [CHR 0x09, CHR 0x0A, CHR 0x0B, CHR 0x0C, CHR 0x0D, CHR 0x20]
     @ map (\<lambda>c. [CHR 0xC2, c]) [CHR 0x85, CHR 0xA0]
     @ [[CHR 0xE1, CHR 0x9A, CHR 0x80]]
     @ map (\<lambda>c. [CHR 0xE2, CHR 0x80, c])
         [CHR 0x80, CHR 0x81, CHR 0x82, CHR 0x83, CHR 0x84, CHR 0x85, CHR 0x86, CHR 0x87, CHR 0x88,
          CHR 0x89, CHR 0x8A, CHR 0xA8, CHR 0xA9, CHR 0xAF]
     @ [[CHR 0xE2, CHR 0x81, CHR 0x9F], [CHR 0xE3, CHR 0x80, CHR 0x80]]"

definition str_starts_with :: "string \<Rightarrow> string \<Rightarrow> bool" where
  "str_starts_with s p \<longleftrightarrow> take (length p) s = p"

lemma white_space_nonempty: "[] \<notin> set white_space"
  by (simp add: white_space_def)

lemma find_white_space:
  assumes "find (str_starts_with s) white_space = Some e"
  shows "0 < length e" and "length e \<le> length s"
proof -
  have e: "e \<in> set white_space" "str_starts_with s e" using assms by (auto simp: find_Some_iff)
  then show "0 < length e" using white_space_nonempty by auto
  from e(2) have "min (length e) (length s) = length e" by (metis length_take min.commute str_starts_with_def)
  then show "length e \<le> length s" by simp
qed

function trim_start :: "string \<Rightarrow> string" where
  "trim_start s =
     (case find (str_starts_with s) white_space of
        Some e \<Rightarrow> trim_start (drop (length e) s)
      | None \<Rightarrow> s)"
  by pat_completeness auto
termination
proof (relation "measure length")
  fix s e assume "find (str_starts_with s) white_space = Some e"
  from find_white_space [OF this] have "length s - length e < length s" by arith
  then show "(drop (length e) s, s) \<in> measure length" by (simp only: in_measure length_drop)
qed simp

declare trim_start.simps [simp del]

definition str_ends_with :: "string \<Rightarrow> string \<Rightarrow> bool" where
  "str_ends_with s p \<longleftrightarrow> str_starts_with (rev s) (rev p)"

lemma find_white_space_end:
  assumes "find (str_ends_with s) white_space = Some e"
  shows "0 < length e" and "length e \<le> length s"
proof -
  have e: "e \<in> set white_space" "str_starts_with (rev s) (rev e)"
    using assms by (auto simp: find_Some_iff str_ends_with_def)
  then show "0 < length e" using white_space_nonempty by auto
  from e(2) have "min (length e) (length s) = length e" by (metis length_rev length_take min.commute str_starts_with_def)
  then show "length e \<le> length s" by simp
qed

function trim_end :: "string \<Rightarrow> string" where
  "trim_end s =
     (case find (str_ends_with s) white_space of
        Some e \<Rightarrow> trim_end (take (length s - length e) s)
      | None \<Rightarrow> s)"
  by pat_completeness auto
termination
proof (relation "measure length")
  fix s e assume "find (str_ends_with s) white_space = Some e"
  from find_white_space_end [OF this] have "min (length s) (length s - length e) < length s" by arith
  then show "(take (length s - length e) s, s) \<in> measure length" by (simp only: in_measure length_take)
qed simp

declare trim_end.simps [simp del]

definition str_trim :: "string \<Rightarrow> string" where
  "str_trim s = trim_end (trim_start s)"

definition is_ascii_digit :: "char \<Rightarrow> bool" where
  "is_ascii_digit c \<longleftrightarrow> 48 \<le> byte c \<and> byte c \<le> 57"

definition is_ascii_alphabetic :: "char \<Rightarrow> bool" where
  "is_ascii_alphabetic c \<longleftrightarrow> (65 \<le> byte c \<and> byte c \<le> 90) \<or> (97 \<le> byte c \<and> byte c \<le> 122)"

text \<open>\<^verbatim>\<open>u64::MAX\<close>, \<^verbatim>\<open>checked_mul\<close> and \<^verbatim>\<open>str::parse::<u64>\<close> of a string of digits.\<close>

definition u64_max :: nat where
  "u64_max = 2 ^ 64 - 1"

definition checked_mul :: "nat \<Rightarrow> nat \<Rightarrow> nat option" where
  "checked_mul a b = (if a * b \<le> u64_max then Some (a * b) else None)"

definition parse_u64 :: "string \<Rightarrow> nat option" where
  "parse_u64 digits = (if read_nat digits \<le> u64_max then Some (read_nat digits) else None)"

definition invalid_duration :: "string \<Rightarrow> error" where
  "invalid_duration value = Message (''invalid duration: '' @ value)"

definition too_large :: "string \<Rightarrow> error" where
  "too_large value = Message (''duration is too large: '' @ value)"

definition parse_duration_seconds :: "string \<Rightarrow> nat res" where
  "parse_duration_seconds value =
     (let value = str_trim value in
      if value = [] then Inr default_read_write_grant_duration
      else
        let number = takeWhile is_ascii_digit value;
            unit = dropWhile is_ascii_digit value
        in if number = [] \<or> \<not> list_all is_ascii_alphabetic unit then Inl (invalid_duration value)
           else case parse_u64 number of
             None \<Rightarrow> Inl (invalid_duration value)
           | Some amount \<Rightarrow>
               if amount = 0 then Inl (Message ''duration must be greater than zero'')
               else if unit \<in> {[], ''s'', ''sec'', ''secs'', ''second'', ''seconds''} then Inr amount
               else if unit \<in> {''m'', ''min'', ''mins'', ''minute'', ''minutes''}
                 then ok_or (checked_mul amount 60) (too_large value)
               else if unit \<in> {''h'', ''hr'', ''hrs'', ''hour'', ''hours''}
                 then ok_or (checked_mul amount (60 * 60)) (too_large value)
               else Inl (Message (''invalid duration unit: '' @ unit)))"

definition parse_read_write_grant_options ::
  "string option \<Rightarrow> string option \<Rightarrow> bool \<Rightarrow> read_write_grant_options option res"
where
  "parse_read_write_grant_options path duration tree =
     (if path = None \<and> duration = None \<and> \<not> tree then Inr None
      else
        result_bind
          (case duration of
             Some value \<Rightarrow> result_bind (parse_duration_seconds value) (\<lambda>seconds. Inr (DurationRequest seconds))
           | None \<Rightarrow> Inr OneShotRequest) (\<lambda>lifetime.
        result_bind
          (case path of Some p \<Rightarrow> result_bind (new_path p) (\<lambda>p. Inr (Some p)) | None \<Rightarrow> Inr None) (\<lambda>path.
        Inr (Some \<lparr>opt_path = path, opt_lifetime = lifetime, opt_tree = tree\<rparr>))))"

section \<open>Printing responses\<close>

definition format_pending_items :: "pending_request list \<Rightarrow> string" where
  "format_pending_items items =
     intercalate_str newline
       (map (\<lambda>item. case pending_attach_id item of
                Some a \<Rightarrow> show_nat (pending_id item) @ '' attach='' @ show_nat a @ '' '' @ pending_description item
              | None \<Rightarrow> show_nat (pending_id item) @ '' '' @ pending_description item) items)"

definition format_protection_rules :: "protection_rule list \<Rightarrow> string" where
  "format_protection_rules items =
     intercalate_str newline
       (map (\<lambda>item. kind_log_name (prule_kind item) @ '' '' @ pattern_to_string (prule_pattern item)) items)"

definition format_bypass_rules :: "bypass_rule list \<Rightarrow> string" where
  "format_bypass_rules items =
     intercalate_str newline
       (map (\<lambda>item. kind_log_name (brule_kind item) @ '' '' @ pattern_to_string (brule_pattern item)) items)"

text \<open>What a command has written to its two streams, with its exit code or error.\<close>

record outcome =
  oc_stdout :: string
  oc_stderr :: string
  oc_result :: "nat res"

definition print_line :: "string \<Rightarrow> outcome" where
  "print_line t = \<lparr>oc_stdout = (if t = [] then [] else t @ newline), oc_stderr = [], oc_result = Inr 0\<rparr>"

definition failed_with :: "error \<Rightarrow> outcome" where
  "failed_with e = \<lparr>oc_stdout = [], oc_stderr = [], oc_result = Inl e\<rparr>"

fun print_response :: "response \<Rightarrow> outcome" where
  "print_response ResponseOk = print_line []"
| "print_response (ResponseText t) = print_line t"
| "print_response (ResponseWarning m) =
     \<lparr>oc_stdout = [], oc_stderr = (if m = [] then [] else ''warning: '' @ m @ newline), oc_result = Inr 0\<rparr>"
| "print_response (ResponsePending items) = print_line (format_pending_items items)"
| "print_response (ResponseProtectionRules items) = print_line (format_protection_rules items)"
| "print_response (ResponseBypassRules items) = print_line (format_bypass_rules items)"
| "print_response (ResponseTrusted token i mountpoint) = print_line []"
| "print_response (ResponseError m) = failed_with (Message m)"

end
