(* ===== verification/Cli_Args.thy ===== *)
theory Cli_Args
  imports Cli
begin

text \<open>
  \<^verbatim>\<open>src/cli.rs\<close>: the arguments of the trusted commands \<^verbatim>\<open>chmod\<close>, \<^verbatim>\<open>chown\<close> and \<^verbatim>\<open>chattr\<close>. Path
  operands are made relative to the mount the command runs in and recorded as the scopes the
  command is trusted for; options, modes, owners and flags stay as they are. Each loop of the
  source is a recursion over the arguments with its flag; an error in an operand ends it.
  The last section says which arguments are operands and what becomes of them.
\<close>

section \<open>Operands\<close>

record rewritten_command =
  rw_args :: "string list"
  rw_paths :: "trusted_path_scope list"

definition reject_parent_dir_operand :: "string \<Rightarrow> unit res" where
  "reject_parent_dir_operand item =
     (if ParentDir \<in> set (components item)
      then Inl (Message ''metadata command paths containing '..' are not supported by gatefs path rewriting'')
      else Inr ())"

definition rewrite_path_operand :: "string \<Rightarrow> bool \<Rightarrow> (string \<times> trusted_path_scope) res" where
  "rewrite_path_operand item recursive =
     result_bind (reject_parent_dir_operand item) (\<lambda>_.
     result_bind (new_path item) (\<lambda>path.
       Inr (rewrite_sandbox_path_arg item, \<lparr>scope_path = path, scope_recursive = recursive\<rparr>)))"

text \<open>Leaving an argument alone, and rewriting it, before the rest of the loop.\<close>

definition keep_arg :: "string \<Rightarrow> rewritten_command res \<Rightarrow> rewritten_command res" where
  "keep_arg item rest = result_bind rest (\<lambda>r. Inr (r\<lparr>rw_args := item # rw_args r\<rparr>))"

definition path_arg :: "string \<Rightarrow> bool \<Rightarrow> rewritten_command res \<Rightarrow> rewritten_command res" where
  "path_arg item recursive rest =
     result_bind (rewrite_path_operand item recursive) (\<lambda>(new, scope).
     result_bind rest (\<lambda>r. Inr (r\<lparr>rw_args := new # rw_args r, rw_paths := scope # rw_paths r\<rparr>)))"

definition no_args :: "rewritten_command res" where
  "no_args = Inr \<lparr>rw_args = [], rw_paths = []\<rparr>"

section \<open>The three commands\<close>

definition is_recursive_arg :: "string \<Rightarrow> bool" where
  "is_recursive_arg arg \<longleftrightarrow>
     arg = ''--recursive''
     \<or> (str_starts_with arg ''-'' \<and> \<not> str_starts_with arg ''--'' \<and> CHR ''R'' \<in> set arg)"

definition chmod_is_recursive :: "string list \<Rightarrow> bool" where
  "chmod_is_recursive args = list_ex is_recursive_arg args"

definition chown_is_recursive :: "string list \<Rightarrow> bool" where
  "chown_is_recursive args = chmod_is_recursive args"

definition chattr_is_recursive :: "string list \<Rightarrow> bool" where
  "chattr_is_recursive args = list_ex (\<lambda>arg. arg = ''-R'' \<or> is_recursive_arg arg) args"

fun chmod_items :: "bool \<Rightarrow> bool \<Rightarrow> string list \<Rightarrow> rewritten_command res" where
  "chmod_items recursive mode_seen [] = no_args"
| "chmod_items recursive mode_seen (item # items) =
     (if item = ''--'' then keep_arg item (chmod_items recursive mode_seen items)
      else if str_starts_with item ''--reference''
        then Inl (Message ''chmod --reference is not supported by gatefs path rewriting'')
      else if str_starts_with item ''-'' \<and> \<not> mode_seen
        then keep_arg item (chmod_items recursive mode_seen items)
      else if \<not> mode_seen then keep_arg item (chmod_items recursive True items)
      else path_arg item recursive (chmod_items recursive mode_seen items))"

definition rewrite_chmod_args :: "string list \<Rightarrow> rewritten_command res" where
  "rewrite_chmod_args args =
     (if length args < 2 then Inl (Message ''chmod requires mode and path'')
      else chmod_items (chmod_is_recursive args) False args)"

fun chown_items :: "bool \<Rightarrow> bool \<Rightarrow> string list \<Rightarrow> rewritten_command res" where
  "chown_items recursive owner_seen [] = no_args"
| "chown_items recursive owner_seen (item # items) =
     (if item = ''--'' then keep_arg item (chown_items recursive owner_seen items)
      else if str_starts_with item ''--reference'' \<or> str_starts_with item ''--from''
        then Inl (Message ''chown --reference/--from is not supported by gatefs path rewriting'')
      else if str_starts_with item ''-'' \<and> \<not> owner_seen
        then keep_arg item (chown_items recursive owner_seen items)
      else if \<not> owner_seen then keep_arg item (chown_items recursive True items)
      else path_arg item recursive (chown_items recursive owner_seen items))"

definition rewrite_chown_args :: "string list \<Rightarrow> rewritten_command res" where
  "rewrite_chown_args args =
     (if length args < 2 then Inl (Message ''chown requires owner and path'')
      else chown_items (chown_is_recursive args) False args)"

fun chattr_items :: "bool \<Rightarrow> bool \<Rightarrow> string list \<Rightarrow> rewritten_command res" where
  "chattr_items recursive flags_seen [] = no_args"
| "chattr_items recursive flags_seen (item # items) =
     (if item = ''--'' then keep_arg item (chattr_items recursive flags_seen items)
      else if str_starts_with item ''-'' \<and> \<not> str_starts_with item ''--'' \<and> \<not> flags_seen
        then keep_arg item (chattr_items recursive True items)
      else if str_starts_with item ''+'' \<or> str_starts_with item ''-'' \<or> str_starts_with item ''=''
        then keep_arg item (chattr_items recursive True items)
      else if \<not> flags_seen then keep_arg item (chattr_items recursive True items)
      else path_arg item recursive (chattr_items recursive flags_seen items))"

definition rewrite_chattr_args :: "string list \<Rightarrow> rewritten_command res" where
  "rewrite_chattr_args args =
     (if length args < 2 then Inl (Message ''chattr requires flags and path'')
      else chattr_items (chattr_is_recursive args) False args)"

fun all_items :: "string list \<Rightarrow> rewritten_command res" where
  "all_items [] = no_args"
| "all_items (item # items) = path_arg item False (all_items items)"

definition rewrite_all_args :: "string list \<Rightarrow> rewritten_command res" where
  "rewrite_all_args args = all_items args"

definition rewrite_command_path_args :: "string \<Rightarrow> string list \<Rightarrow> rewritten_command res" where
  "rewrite_command_path_args command args =
     (if command = ''chmod'' then rewrite_chmod_args args
      else if command = ''chown'' then rewrite_chown_args args
      else if command = ''chattr'' then rewrite_chattr_args args
      else rewrite_all_args args)"

section \<open>Which arguments are operands\<close>

text \<open>
  The command lines of the three commands: options, then the mode, the owner or the flags, then
  files. An option is a long one or made of the letters the command has; a mode of \<^verbatim>\<open>chmod\<close> that
  starts with a hyphen is neither an option nor a word the source takes for a mode.
\<close>

definition option_letters :: "string \<Rightarrow> string" where
  "option_letters command =
     (if command = ''chmod'' then ''Rcfv'' else if command = ''chown'' then ''RcfvhHLP'' else ''RVf'')"

definition option_word :: "string \<Rightarrow> string \<Rightarrow> bool" where
  "option_word command arg \<longleftrightarrow>
     str_starts_with arg ''--''
     \<or> (case arg of [] \<Rightarrow> False | c # letters \<Rightarrow> c = CHR ''-'' \<and> letters \<noteq> [] \<and> set letters \<subseteq> set (option_letters command))"

definition flag_word :: "string \<Rightarrow> bool" where
  "flag_word arg \<longleftrightarrow> str_starts_with arg ''+'' \<or> str_starts_with arg ''-'' \<or> str_starts_with arg ''=''"

definition mode_words :: "string \<Rightarrow> string list \<Rightarrow> bool" where
  "mode_words command modes \<longleftrightarrow>
     (if command = ''chattr'' then modes \<noteq> [] \<and> list_all (\<lambda>m. flag_word m \<and> m \<noteq> ''--'') modes
      else length modes = 1 \<and> list_all (\<lambda>m. \<not> str_starts_with m ''-'') modes)"

definition file_word :: "string \<Rightarrow> string \<Rightarrow> bool" where
  "file_word command arg \<longleftrightarrow> (command = ''chattr'' \<longrightarrow> arg = ''--'' \<or> \<not> flag_word arg)"

text \<open>
  The files are the operands, a separator apart: each is rewritten and gets a scope of its own
  with its path, in order, and none steps to a parent.
\<close>

definition operands_rewritten :: "bool \<Rightarrow> string list \<Rightarrow> rewritten_command \<Rightarrow> bool" where
  "operands_rewritten recursive files r \<longleftrightarrow>
     rw_args r = map (\<lambda>f. if f = ''--'' then f else rewrite_sandbox_path_arg f) files
     \<and> list_all2 (\<lambda>f sc. new_path f = Inr (scope_path sc) \<and> scope_recursive sc = recursive \<and> ParentDir \<notin> set (components f))
         (filter (\<lambda>f. f \<noteq> ''--'') files) (rw_paths r)"

lemma keep_arg_Inr: "keep_arg item rest = Inr r \<longleftrightarrow> (\<exists>r'. rest = Inr r' \<and> r = r'\<lparr>rw_args := item # rw_args r'\<rparr>)"
  by (auto simp: keep_arg_def result_bind_Inr_iff)

lemma path_arg_Inr:
  "path_arg item recursive rest = Inr r \<longleftrightarrow>
     (\<exists>r' path. rest = Inr r' \<and> ParentDir \<notin> set (components item) \<and> new_path item = Inr path
        \<and> r = r'\<lparr>rw_args := rewrite_sandbox_path_arg item # rw_args r',
                rw_paths := \<lparr>scope_path = path, scope_recursive = recursive\<rparr> # rw_paths r'\<rparr>)"
  by (auto simp: path_arg_def rewrite_path_operand_def reject_parent_dir_operand_def result_bind_Inr_iff split: if_splits)

lemma operands_rewritten_simps:
  "no_args = Inr r \<Longrightarrow> operands_rewritten recursive [] r"
  "keep_arg ''--'' rest = Inr r \<Longrightarrow> (\<And>r'. rest = Inr r' \<Longrightarrow> operands_rewritten recursive files r') \<Longrightarrow>
     operands_rewritten recursive (''--'' # files) r"
  "path_arg f recursive rest = Inr r \<Longrightarrow> f \<noteq> ''--'' \<Longrightarrow> (\<And>r'. rest = Inr r' \<Longrightarrow> operands_rewritten recursive files r') \<Longrightarrow>
     operands_rewritten recursive (f # files) r"
  by (auto simp: no_args_def operands_rewritten_def keep_arg_Inr path_arg_Inr)

lemma chmod_operands: "chmod_items recursive True files = Inr r \<Longrightarrow> operands_rewritten recursive files r"
  by (induction files arbitrary: r) (auto intro: operands_rewritten_simps split: if_splits)

lemma chown_operands: "chown_items recursive True files = Inr r \<Longrightarrow> operands_rewritten recursive files r"
  by (induction files arbitrary: r) (auto intro: operands_rewritten_simps split: if_splits)

lemma chattr_operands:
  "chattr_items recursive True files = Inr r \<Longrightarrow> \<forall>f \<in> set files. file_word ''chattr'' f \<Longrightarrow> operands_rewritten recursive files r"
  by (induction files arbitrary: r) (auto intro: operands_rewritten_simps simp: file_word_def flag_word_def split: if_splits)

text \<open>What comes before the files is kept.\<close>

definition kept_before :: "string list \<Rightarrow> rewritten_command res \<Rightarrow> rewritten_command \<Rightarrow> bool" where
  "kept_before words rest r \<longleftrightarrow> (\<exists>r'. rest = Inr r' \<and> r = r'\<lparr>rw_args := words @ rw_args r'\<rparr>)"

lemma kept_before_simps [simp]:
  "kept_before [] rest r \<longleftrightarrow> rest = Inr r"
  "kept_before (a # words) rest r \<longleftrightarrow> (\<exists>r'. kept_before words rest r' \<and> r = r'\<lparr>rw_args := a # rw_args r'\<rparr>)"
  by (auto simp: kept_before_def)

lemma option_word_hyphen: "option_word command arg \<Longrightarrow> str_starts_with arg ''-''"
  by (cases arg) (auto simp: option_word_def str_starts_with_def)

lemma chmod_before:
  "chmod_items recursive False (opts @ mode # files) = Inr r \<Longrightarrow> \<forall>a \<in> set opts. str_starts_with a ''-'' \<Longrightarrow>
   \<not> str_starts_with mode ''-'' \<Longrightarrow> kept_before (opts @ [mode]) (chmod_items recursive True files) r"
  by (induction opts arbitrary: r) (auto simp: keep_arg_Inr str_starts_with_def split: if_splits)

lemma chown_before:
  "chown_items recursive False (opts @ mode # files) = Inr r \<Longrightarrow> \<forall>a \<in> set opts. str_starts_with a ''-'' \<Longrightarrow>
   \<not> str_starts_with mode ''-'' \<Longrightarrow> kept_before (opts @ [mode]) (chown_items recursive True files) r"
  by (induction opts arbitrary: r) (auto simp: keep_arg_Inr str_starts_with_def split: if_splits)

lemma chattr_modes:
  "chattr_items recursive seen (modes @ files) = Inr r \<Longrightarrow> list_all (\<lambda>m. flag_word m \<and> m \<noteq> ''--'') modes \<Longrightarrow>
   kept_before modes (chattr_items recursive (seen \<or> modes \<noteq> []) files) r"
proof (induction modes arbitrary: seen r)
  case (Cons m modes)
  then obtain r' where "chattr_items recursive True (modes @ files) = Inr r'" "r = r'\<lparr>rw_args := m # rw_args r'\<rparr>"
    by (auto simp: keep_arg_Inr flag_word_def split: if_splits)
  with Cons.IH [of True r'] Cons.prems(2) show ?case by auto
qed simp

lemma chattr_before:
  "chattr_items recursive seen (opts @ modes @ files) = Inr r \<Longrightarrow> \<forall>a \<in> set opts. str_starts_with a ''-'' \<Longrightarrow>
   modes \<noteq> [] \<Longrightarrow> list_all (\<lambda>m. flag_word m \<and> m \<noteq> ''--'') modes \<Longrightarrow>
   kept_before (opts @ modes) (chattr_items recursive True files) r"
proof (induction opts arbitrary: seen r)
  case Nil
  with chattr_modes [of recursive seen modes files r] show ?case by simp
next
  case (Cons a opts)
  then obtain seen' r' where "chattr_items recursive seen' (opts @ modes @ files) = Inr r'" "r = r'\<lparr>rw_args := a # rw_args r'\<rparr>"
    by (auto simp: keep_arg_Inr split: if_splits)
  with Cons.IH [of seen' r'] Cons.prems(2-4) show ?case by auto
qed

lemma recursive_flag: "arg = ''-R'' \<or> is_recursive_arg arg \<longleftrightarrow> is_recursive_arg arg"
  by (auto simp: is_recursive_arg_def str_starts_with_def)

text \<open>The arguments and the scopes of a rewritten command, exactly.\<close>

lemma command_operands:
  assumes "command \<in> {''chmod'', ''chown'', ''chattr''}"
    and "\<forall>a \<in> set opts. option_word command a" and "mode_words command modes" and "\<forall>f \<in> set files. file_word command f"
    and "rewrite_command_path_args command (opts @ modes @ files) = Inr r"
  shows "\<exists>r'. operands_rewritten (list_ex is_recursive_arg (opts @ modes @ files)) files r'
    \<and> r = r'\<lparr>rw_args := opts @ modes @ rw_args r'\<rparr>"
proof -
  let ?R = "list_ex is_recursive_arg (opts @ modes @ files)"
  have R: "chmod_is_recursive args = list_ex is_recursive_arg args" "chown_is_recursive args = list_ex is_recursive_arg args"
    "chattr_is_recursive args = list_ex is_recursive_arg args" for args
    using recursive_flag by (simp_all add: chmod_is_recursive_def chown_is_recursive_def chattr_is_recursive_def)
  have opts: "\<forall>a \<in> set opts. str_starts_with a ''-''" using assms(2) option_word_hyphen by blast
  show ?thesis
  proof (cases "command = ''chattr''")
    case True
    then have m: "modes \<noteq> []" "list_all (\<lambda>m. flag_word m \<and> m \<noteq> ''--'') modes" using assms(3) by (simp_all add: mode_words_def)
    have "chattr_items ?R False (opts @ modes @ files) = Inr r"
      using assms(5) True by (simp add: rewrite_command_path_args_def rewrite_chattr_args_def R split: if_splits)
    from chattr_before [OF this opts m] chattr_operands [of ?R files] assms(4) True show ?thesis
      by (auto simp: kept_before_def)
  next
    case False
    then obtain mode where m: "modes = [mode]" "\<not> str_starts_with mode ''-''"
      using assms(3) by (auto simp: mode_words_def length_Suc_conv)
    show ?thesis
    proof (cases "command = ''chmod''")
      case True
      then have "chmod_items ?R False (opts @ mode # files) = Inr r"
        using assms(5) m by (simp add: rewrite_command_path_args_def rewrite_chmod_args_def R split: if_splits)
      from chmod_before [OF this opts m(2)] chmod_operands [of ?R files] m show ?thesis by (auto simp: kept_before_def)
    next
      case False
      with \<open>command \<noteq> ''chattr''\<close> assms(1) have "command = ''chown''" by simp
      then have "chown_items ?R False (opts @ mode # files) = Inr r"
        using assms(5) m by (simp add: rewrite_command_path_args_def rewrite_chown_args_def R split: if_splits)
      from chown_before [OF this opts m(2)] chown_operands [of ?R files] m show ?thesis by (auto simp: kept_before_def)
    qed
  qed
qed

end
