(* ===== verification/Client.thy ===== *)
theory Client
  imports Cli_Args
begin

text \<open>
  \<^verbatim>\<open>src/cli.rs\<close>, the commands: one request and its printed response, the trusted commands with
  their child process, and the log monitor. The operating system and the socket as the client
  sees them are a record of functions on a state of their own (\<^verbatim>\<open>'c\<close>). The argument vector is
  handed to the child as strings; \<^verbatim>\<open>waitpid\<close>'s status word is read by the \<^verbatim>\<open>libc\<close> crate, so the
  model has its three outcomes.
\<close>

section \<open>The client's surroundings\<close>

datatype wait_status = Exited nat | Signaled nat | OtherStatus

text \<open>The child between \<^verbatim>\<open>fork\<close> and \<^verbatim>\<open>execvp\<close>: what it was started with.\<close>

record trusted_child =
  ch_read_fd :: nat
  ch_write_fd :: nat
  ch_cwd :: string
  ch_argv :: "string list"

record 'c client =
  cl_send :: "'c \<Rightarrow> string \<Rightarrow> request \<Rightarrow> response res \<times> 'c"
  cl_io_text :: "io_error \<Rightarrow> string"
  cl_debug :: "response \<Rightarrow> string"
  cl_clock :: "'c \<Rightarrow> nat"
  cl_create_dir_all :: "'c \<Rightarrow> string \<Rightarrow> (io_error + unit) \<times> 'c"
  cl_remove_dir :: "'c \<Rightarrow> string \<Rightarrow> 'c"
  cl_pipe :: "'c \<Rightarrow> (nat \<times> nat) option \<times> 'c"
  cl_close :: "'c \<Rightarrow> nat \<Rightarrow> 'c"
  cl_fork :: "'c \<Rightarrow> trusted_child \<Rightarrow> u32 option \<times> 'c"
  cl_geteuid :: "'c \<Rightarrow> u32"
  cl_write_byte :: "'c \<Rightarrow> nat \<Rightarrow> bool \<times> 'c"
  cl_kill :: "'c \<Rightarrow> u32 \<Rightarrow> 'c"
  cl_waitpid :: "'c \<Rightarrow> u32 \<Rightarrow> wait_status option \<times> 'c"
  cl_last_os_error :: "'c \<Rightarrow> io_error"
  cl_read_to_string :: "'c \<Rightarrow> string \<Rightarrow> (io_error + string) \<times> 'c"
  cl_open_len :: "'c \<Rightarrow> string \<Rightarrow> (io_error + nat) \<times> 'c"
  cl_read_from :: "'c \<Rightarrow> string \<Rightarrow> nat \<Rightarrow> (io_error + string) \<times> 'c"

section \<open>Requests\<close>

text \<open>\<^verbatim>\<open>cli::send\<close>.\<close>

definition contact :: "'c client \<Rightarrow> runtime_paths \<Rightarrow> string \<Rightarrow> request \<Rightarrow> 'c \<Rightarrow> response res \<times> 'c" where
  "contact C rt name request c =
     (case cl_send C c (socket_path rt name) request of
        (Inr response, c) \<Rightarrow> (Inr response, c)
      | (Inl e, c) \<Rightarrow>
          (Inl (Message (''could not contact sandbox session '' @ name @ ''; is `gatefs run '' @ name
                  @ ''` running? ('' @ error_text (cl_io_text C) e @ '')'')), c))"

text \<open>\<^verbatim>\<open>print_response(send(\<dots>)?)\<close>.\<close>

definition send_and_print :: "'c client \<Rightarrow> runtime_paths \<Rightarrow> string \<Rightarrow> request \<Rightarrow> 'c \<Rightarrow> outcome \<times> 'c" where
  "send_and_print C rt name request c =
     (case contact C rt name request c of
        (Inl e, c) \<Rightarrow> (failed_with e, c)
      | (Inr response, c) \<Rightarrow> (print_response response, c))"

definition unexpected_response :: "'c client \<Rightarrow> response \<Rightarrow> error" where
  "unexpected_response C other = Message (''unexpected session response: '' @ cl_debug C other)"

definition unexpected_warning :: "string \<Rightarrow> string \<Rightarrow> error" where
  "unexpected_warning doing m = Message (''unexpected warning response while '' @ doing @ '': '' @ m)"

section \<open>Trusted commands\<close>

definition cleanup_trusted :: "'c client \<Rightarrow> runtime_paths \<Rightarrow> string \<Rightarrow> string \<Rightarrow> 'c \<Rightarrow> unit res \<times> 'c" where
  "cleanup_trusted C rt name token c =
     (case contact C rt name (EndTrustedOperation token) c of
        (Inl e, c) \<Rightarrow> (Inl e, c)
      | (Inr response, c) \<Rightarrow>
          ((case response of
              ResponseOk \<Rightarrow> Inr ()
            | ResponseError m \<Rightarrow> Inl (Message m)
            | ResponseWarning m \<Rightarrow> Inl (unexpected_warning ''ending trusted operation'' m)
            | other \<Rightarrow> Inl (unexpected_response C other)), c))"

definition cleanup_trusted_lossy :: "'c client \<Rightarrow> runtime_paths \<Rightarrow> string \<Rightarrow> string \<Rightarrow> 'c \<Rightarrow> 'c" where
  "cleanup_trusted_lossy C rt name token c = snd (cleanup_trusted C rt name token c)"

definition kill_release_wait :: "'c client \<Rightarrow> u32 \<Rightarrow> nat \<Rightarrow> 'c \<Rightarrow> 'c" where
  "kill_release_wait C pid write_fd c =
     (let c = cl_kill C c pid;
          c = snd (cl_write_byte C c write_fd);
          c = cl_close C c write_fd
      in snd (cl_waitpid C c pid))"

text \<open>Asking the session for the temporary mount; every failure removes the directory again.\<close>

definition begin_on_session ::
  "'c client \<Rightarrow> runtime_paths \<Rightarrow> string \<Rightarrow> string \<Rightarrow> string \<Rightarrow> trusted_path_scope list \<Rightarrow> 'c \<Rightarrow>
   (string \<times> string) res \<times> 'c"
where
  "begin_on_session C rt name command mountpoint paths c =
     (case contact C rt name (BeginTrustedOperation name command (to_string_lossy mountpoint) paths) c of
        (Inl e, c) \<Rightarrow> (Inl e, cl_remove_dir C c mountpoint)
      | (Inr response, c) \<Rightarrow>
          (case response of
             ResponseTrusted token i actual \<Rightarrow> (Inr (token, actual), c)
           | ResponseError m \<Rightarrow> (Inl (Message m), cl_remove_dir C c mountpoint)
           | ResponseWarning m \<Rightarrow>
               (Inl (unexpected_warning ''beginning trusted operation'' m), cl_remove_dir C c mountpoint)
           | other \<Rightarrow> (Inl (unexpected_response C other), cl_remove_dir C c mountpoint)))"

text \<open>Telling the session which process is trusted, before that process may go on.\<close>

definition register_child ::
  "'c client \<Rightarrow> runtime_paths \<Rightarrow> string \<Rightarrow> string \<Rightarrow> u32 \<Rightarrow> 'c \<Rightarrow> unit res \<times> 'c"
where
  "register_child C rt name token pid c =
     (case contact C rt name (RegisterTrustedPid token pid (cl_geteuid C c)) c of
        (Inl e, c) \<Rightarrow> (Inl e, c)
      | (Inr response, c) \<Rightarrow>
          ((case response of
              ResponseOk \<Rightarrow> Inr ()
            | ResponseError m \<Rightarrow> Inl (Message m)
            | ResponseWarning m \<Rightarrow> Inl (unexpected_warning ''registering trusted pid'' m)
            | other \<Rightarrow> Inl (unexpected_response C other)), c))"

fun exit_code :: "wait_status \<Rightarrow> nat" where
  "exit_code (Exited n) = n"
| "exit_code (Signaled n) = 128 + n"
| "exit_code OtherStatus = 1"

text \<open>Releasing the registered child and waiting for it.\<close>

definition release_and_wait ::
  "'c client \<Rightarrow> runtime_paths \<Rightarrow> string \<Rightarrow> string \<Rightarrow> u32 \<Rightarrow> nat \<Rightarrow> 'c \<Rightarrow> nat res \<times> 'c"
where
  "release_and_wait C rt name token pid write_fd c =
     (case cl_write_byte C c write_fd of
        (False, c) \<Rightarrow>
          let error = cl_last_os_error C c;
              c = cl_close C c write_fd;
              c = snd (cl_waitpid C c pid);
              c = cleanup_trusted_lossy C rt name token c
          in (Inl (Io error), c)
      | (True, c) \<Rightarrow>
          (case cl_waitpid C (cl_close C c write_fd) pid of
             (None, c) \<Rightarrow>
               let c = cleanup_trusted_lossy C rt name token c in (Inl (Io (cl_last_os_error C c)), c)
           | (Some status, c) \<Rightarrow>
               (case cleanup_trusted C rt name token c of
                  (Inl e, c) \<Rightarrow> (Inl e, c)
                | (Inr _, c) \<Rightarrow> (Inr (exit_code status), c))))"

text \<open>The child process of a trusted operation, from the pipe to its end.\<close>

definition run_trusted_child ::
  "'c client \<Rightarrow> runtime_paths \<Rightarrow> string \<Rightarrow> string list \<Rightarrow> string \<Rightarrow> string \<Rightarrow> 'c \<Rightarrow> nat res \<times> 'c"
where
  "run_trusted_child C rt name argv token actual c =
     (case cl_pipe C c of
        (None, c) \<Rightarrow>
          let c = cleanup_trusted_lossy C rt name token c in (Inl (Io (cl_last_os_error C c)), c)
      | (Some (read_fd, write_fd), c) \<Rightarrow>
          if CHR 0x00 \<in> set actual then
            let c = cl_close C c read_fd; c = cl_close C c write_fd;
                c = cleanup_trusted_lossy C rt name token c
            in (Inl (Message ''mountpoint contains NUL''), c)
          else
            (case cl_fork C c \<lparr>ch_read_fd = read_fd, ch_write_fd = write_fd, ch_cwd = actual, ch_argv = argv\<rparr> of
               (None, c) \<Rightarrow>
                 let c = cl_close C c read_fd; c = cl_close C c write_fd;
                     c = cleanup_trusted_lossy C rt name token c
                 in (Inl (Io (cl_last_os_error C c)), c)
             | (Some pid, c) \<Rightarrow>
                 (case register_child C rt name token pid (cl_close C c read_fd) of
                    (Inl e, c) \<Rightarrow>
                      (Inl e, cleanup_trusted_lossy C rt name token (kill_release_wait C pid write_fd c))
                  | (Inr _, c) \<Rightarrow> release_and_wait C rt name token pid write_fd c)))"

definition run_trusted_command ::
  "'c client \<Rightarrow> runtime_paths \<Rightarrow> string \<Rightarrow> string \<Rightarrow> string list \<Rightarrow> 'c \<Rightarrow> nat res \<times> 'c"
where
  "run_trusted_command C rt name command args c =
     (if args = [] then (Inl (Message (command @ '' requires arguments'')), c)
      else
        case rewrite_command_path_args command args of
          Inl e \<Rightarrow> (Inl e, c)
        | Inr rewritten \<Rightarrow>
            if CHR 0x00 \<in> set command then (Inl (Message ''command contains NUL''), c)
            else if list_ex (\<lambda>arg. CHR 0x00 \<in> set arg) (rw_args rewritten)
              then (Inl (Message ''argument contains NUL''), c)
            else
              let mountpoint = tmp_mount_dir rt name (cl_clock C c)
              in case cl_create_dir_all C c mountpoint of
                   (Inl e, c) \<Rightarrow> (Inl (Io e), c)
                 | (Inr _, c) \<Rightarrow>
                     (case begin_on_session C rt name command mountpoint (rw_paths rewritten) c of
                        (Inl e, c) \<Rightarrow> (Inl e, c)
                      | (Inr (token, actual), c) \<Rightarrow>
                          run_trusted_child C rt name (command # rw_args rewritten) token actual c))"

text \<open>
  The child itself, on what its calls return: \<^verbatim>\<open>read\<close> of the release byte, \<^verbatim>\<open>chdir\<close> and \<^verbatim>\<open>execvp\<close>
  (which returns only when it fails).
\<close>

datatype child_end = ChildExits nat | ChildRuns string "string list"

definition child_main :: "trusted_child \<Rightarrow> bool \<Rightarrow> bool \<Rightarrow> bool \<Rightarrow> child_end" where
  "child_main ch byte_read chdir_ok exec_ok =
     (if \<not> byte_read then ChildExits 126
      else if \<not> chdir_ok then ChildExits 125
      else if exec_ok then ChildRuns (ch_cwd ch) (ch_argv ch)
      else ChildExits 127)"

section \<open>Following the log\<close>

definition monitor_tail_lines :: nat where
  "monitor_tail_lines = 10"

text \<open>\<^verbatim>\<open>tail_lines\<close>: the loop over the bytes from the last one, with the number of newlines so far.\<close>

fun tail_loop :: "string \<Rightarrow> nat \<Rightarrow> nat \<Rightarrow> nat \<Rightarrow> string" where
  "tail_loop data line_count newlines 0 = data"
| "tail_loop data line_count newlines (Suc idx) =
     (if data ! idx = CHR 0x0A
      then if newlines + 1 > line_count then drop (idx + 1) data
           else tail_loop data line_count (newlines + 1) idx
      else tail_loop data line_count newlines idx)"

definition tail_lines :: "string \<Rightarrow> nat \<Rightarrow> string" where
  "tail_lines data line_count =
     (if line_count = 0 then [] else tail_loop data line_count 0 (length data))"

definition log_path_of_session :: "'c client \<Rightarrow> runtime_paths \<Rightarrow> string \<Rightarrow> 'c \<Rightarrow> string res \<times> 'c" where
  "log_path_of_session C rt name c =
     (case contact C rt name (LogPath name) c of
        (Inl e, c) \<Rightarrow> (Inl e, c)
      | (Inr response, c) \<Rightarrow>
          ((case response of
              ResponseText t \<Rightarrow> Inr t
            | ResponseError m \<Rightarrow> Inl (Message m)
            | ResponseWarning m \<Rightarrow> Inl (unexpected_warning ''resolving log path'' m)
            | other \<Rightarrow> Inl (unexpected_response C other)), c))"

text \<open>The endless loop of \<^verbatim>\<open>--follow\<close>, for a number of polls: what it has printed, the position it
  will read from and the error that ended it, if one did.\<close>

fun follow_log :: "'c client \<Rightarrow> string \<Rightarrow> nat \<Rightarrow> nat \<Rightarrow> 'c \<Rightarrow> string \<times> nat \<times> io_error option \<times> 'c" where
  "follow_log C path 0 pos c = ([], pos, None, c)"
| "follow_log C path (Suc polls) pos c =
     (case cl_read_from C c path pos of
        (Inl e, c) \<Rightarrow> ([], pos, Some e, c)
      | (Inr buf, c) \<Rightarrow>
          (case follow_log C path polls (pos + length buf) c of
             (printed, pos, failure, c) \<Rightarrow> (buf @ printed, pos, failure, c)))"

text \<open>The result is \<open>None\<close> while the monitor follows the log.\<close>

definition monitor ::
  "'c client \<Rightarrow> runtime_paths \<Rightarrow> string \<Rightarrow> bool \<Rightarrow> nat \<Rightarrow> 'c \<Rightarrow> string \<times> nat res option \<times> 'c"
where
  "monitor C rt name follow polls c =
     (case log_path_of_session C rt name c of
        (Inl e, c) \<Rightarrow> ([], Some (Inl e), c)
      | (Inr path, c) \<Rightarrow>
          (case cl_read_to_string C c path of
             (r, c) \<Rightarrow>
               (case (case r of Inl e \<Rightarrow> if e = Some 2 then Inr [] else Inl e | Inr data \<Rightarrow> Inr data) of
                  Inl e \<Rightarrow> ([], Some (Inl (Io e)), c)
                | Inr data \<Rightarrow>
                    let printed = tail_lines data monitor_tail_lines
                    in if \<not> follow then (printed, Some (Inr 0), c)
                       else
                         (case cl_open_len C c path of
                            (Inl e, c) \<Rightarrow> (printed, Some (Inl (Io e)), c)
                          | (Inr pos, c) \<Rightarrow>
                              (case follow_log C path polls pos c of
                                 (followed, _, failure, c) \<Rightarrow>
                                   (printed @ followed, map_option (\<lambda>e. Inl (Io e)) failure, c))))))"

section \<open>Commands\<close>

text \<open>What a parsed command does: one request, a trusted command, or the monitor.\<close>

datatype command_plan =
    PlanRequest request
  | PlanTrusted string "string list"
  | PlanMonitor bool

text \<open>The four functions that send a rule; the texts of patterns are parsed before.\<close>

definition protect_plan :: "string \<Rightarrow> protection_kind \<Rightarrow> policy_pattern \<Rightarrow> command_plan" where
  "protect_plan name kind pattern = PlanRequest (Protect name kind pattern)"

definition unprotect_plan :: "string \<Rightarrow> protection_kind \<Rightarrow> policy_pattern \<Rightarrow> command_plan" where
  "unprotect_plan name kind pattern = PlanRequest (Unprotect name kind pattern)"

definition bypass_plan :: "string \<Rightarrow> protection_kind \<Rightarrow> policy_pattern \<Rightarrow> command_plan" where
  "bypass_plan name kind pattern = PlanRequest (Bypass name kind pattern)"

definition unbypass_plan :: "string \<Rightarrow> protection_kind \<Rightarrow> policy_pattern \<Rightarrow> command_plan" where
  "unbypass_plan name kind pattern = PlanRequest (Unbypass name kind pattern)"

definition plan_pattern :: "(policy_pattern \<Rightarrow> command_plan) \<Rightarrow> glob_api \<Rightarrow> string \<Rightarrow> command_plan res" where
  "plan_pattern send_rule G pattern = result_bind (policy_pattern_new G pattern) (\<lambda>p. Inr (send_rule p))"

definition plan_path :: "(sandbox_path \<Rightarrow> request) \<Rightarrow> string \<Rightarrow> command_plan res" where
  "plan_path mk on_fs = result_bind (new_path on_fs) (\<lambda>p. Inr (PlanRequest (mk p)))"

fun plan_allow :: "string \<Rightarrow> bool \<Rightarrow> string option \<Rightarrow> string option \<Rightarrow> bool \<Rightarrow> nat option \<Rightarrow> command_plan res" where
  "plan_allow name do_nothing path duration tree None =
     (if do_nothing then Inl (Message ''allow --do-nothing requires an operation id'')
      else if path = None \<and> duration = None \<and> \<not> tree then Inr (PlanRequest (Pending name))
      else Inl (Message ''read/write grant options require an operation id''))"
| "plan_allow name do_nothing path duration tree (Some i) =
     result_bind (parse_read_write_grant_options path duration tree) (\<lambda>grant.
       if do_nothing \<and> grant \<noteq> None
       then Inl (Message ''allow --do-nothing cannot be combined with read/write grant options'')
       else Inr (PlanRequest (Allow name i do_nothing grant)))"

fun plan_command :: "glob_api \<Rightarrow> string \<Rightarrow> sandbox_command \<Rightarrow> command_plan res" where
  "plan_command G name CmdDestroy = Inr (PlanRequest (Shutdown name))"
| "plan_command G name (CmdAttach mountpoint) = Inr (PlanRequest (Attach name mountpoint False))"
| "plan_command G name (CmdDetach mountpoint) = Inr (PlanRequest (Detach name mountpoint))"
| "plan_command G name (CmdMount None None) = Inr (PlanRequest (ListMounts name))"
| "plan_command G name (CmdMount (Some local) (Some on_fs)) = plan_path (Mount name local) on_fs"
| "plan_command G name (CmdMount (Some local) None) =
     Inl (Message ''mount expects either no arguments or <local> <on_fs>'')"
| "plan_command G name (CmdMount None (Some on_fs)) =
     Inl (Message ''mount expects either no arguments or <local> <on_fs>'')"
| "plan_command G name (CmdUmount on_fs) = plan_path (Umount name) on_fs"
| "plan_command G name (CmdHide on_fs) = plan_path (Hide name) on_fs"
| "plan_command G name (CmdProtectRead p) = plan_pattern (protect_plan name Read) G p"
| "plan_command G name (CmdProtectWrite p) = plan_pattern (protect_plan name Write) G p"
| "plan_command G name (CmdProtectMetadata p) = plan_pattern (protect_plan name Metadata) G p"
| "plan_command G name (CmdProtectXattr p) = plan_pattern (protect_plan name Xattr) G p"
| "plan_command G name (CmdUnprotectRead p) = plan_pattern (unprotect_plan name Read) G p"
| "plan_command G name (CmdUnprotectWrite p) = plan_pattern (unprotect_plan name Write) G p"
| "plan_command G name (CmdUnprotectMetadata p) = plan_pattern (unprotect_plan name Metadata) G p"
| "plan_command G name (CmdUnprotectXattr p) = plan_pattern (unprotect_plan name Xattr) G p"
| "plan_command G name (CmdBypassRead p) = plan_pattern (bypass_plan name Read) G p"
| "plan_command G name (CmdBypassWrite p) = plan_pattern (bypass_plan name Write) G p"
| "plan_command G name (CmdBypassMetadata p) = plan_pattern (bypass_plan name Metadata) G p"
| "plan_command G name (CmdBypassXattr p) = plan_pattern (bypass_plan name Xattr) G p"
| "plan_command G name (CmdUnbypassRead p) = plan_pattern (unbypass_plan name Read) G p"
| "plan_command G name (CmdUnbypassWrite p) = plan_pattern (unbypass_plan name Write) G p"
| "plan_command G name (CmdUnbypassMetadata p) = plan_pattern (unbypass_plan name Metadata) G p"
| "plan_command G name (CmdUnbypassXattr p) = plan_pattern (unbypass_plan name Xattr) G p"
| "plan_command G name (CmdListProtection r w m x) = Inr (PlanRequest (ListProtection name r w m x))"
| "plan_command G name (CmdListBypass r w m x) = Inr (PlanRequest (ListBypass name r w m x))"
| "plan_command G name (CmdChmod args) = Inr (PlanTrusted ''chmod'' args)"
| "plan_command G name (CmdChown args) = Inr (PlanTrusted ''chown'' args)"
| "plan_command G name (CmdChattr args) = Inr (PlanTrusted ''chattr'' args)"
| "plan_command G name (CmdAllow do_nothing path duration tree i) = plan_allow name do_nothing path duration tree i"
| "plan_command G name (CmdDeny i) = Inr (PlanRequest (DenyRequest name i))"
| "plan_command G name (CmdCancel i) = Inr (PlanRequest (CancelRequest name i))"
| "plan_command G name (CmdCancelAll mountpoint) = Inr (PlanRequest (CancelAll name mountpoint))"
| "plan_command G name (CmdMonitor follow) = Inr (PlanMonitor follow)"
| "plan_command G name CmdMetadata = Inr (PlanRequest (MetadataList name))"

text \<open>\<^verbatim>\<open>run_sandbox\<close>, with the number of polls of a following monitor: the output on the two streams,
  the result (\<open>None\<close> while following) and the surroundings after.\<close>

definition run_sandbox ::
  "'c client \<Rightarrow> glob_api \<Rightarrow> runtime_paths \<Rightarrow> string \<Rightarrow> sandbox_command \<Rightarrow> nat \<Rightarrow> 'c \<Rightarrow>
   (string \<times> string \<times> nat res option) \<times> 'c"
where
  "run_sandbox C G rt name command polls c =
     (case plan_command G name command of
        Inl e \<Rightarrow> (([], [], Some (Inl e)), c)
      | Inr (PlanRequest request) \<Rightarrow>
          (case send_and_print C rt name request c of
             (out, c) \<Rightarrow> ((oc_stdout out, oc_stderr out, Some (oc_result out)), c))
      | Inr (PlanTrusted command args) \<Rightarrow>
          (case run_trusted_command C rt name command args c of (r, c) \<Rightarrow> (([], [], Some r), c))
      | Inr (PlanMonitor follow) \<Rightarrow>
          (case monitor C rt name follow polls c of (printed, r, c) \<Rightarrow> ((printed, [], r), c)))"

end
