(* ===== verification/Client_Safety.thy ===== *)
theory Client_Safety
  imports Client
begin

text \<open>
  Properties of the command line client of \<^verbatim>\<open>src/cli.rs\<close>: what a trusted command may touch, in
  which order it talks to the session and to its child, what durations mean, and what the
  monitor prints. Runs are recorded by a client whose state is a trace of events beside the
  state of any other client.
\<close>

section \<open>Recorded runs\<close>

datatype client_event =
    Sent request "response res"
  | MadeDir string
  | RemovedDir string
  | Forked u32 trusted_child
  | WroteByte nat
  | Killed u32
  | Waited u32

definition noting :: "('a \<times> 'c) \<Rightarrow> client_event list \<Rightarrow> 'a \<times> 'c \<times> client_event list" where
  "noting rc tr = (fst rc, snd rc, tr)"

definition recording :: "'c client \<Rightarrow> ('c \<times> client_event list) client" where
  "recording C =
     \<lparr>cl_send = (\<lambda>(c, tr) socket q. noting (cl_send C c socket q) (tr @ [Sent q (fst (cl_send C c socket q))])),
      cl_io_text = cl_io_text C,
      cl_debug = cl_debug C,
      cl_clock = (\<lambda>(c, tr). cl_clock C c),
      cl_create_dir_all = (\<lambda>(c, tr) dir. noting (cl_create_dir_all C c dir) (tr @ [MadeDir dir])),
      cl_remove_dir = (\<lambda>(c, tr) dir. (cl_remove_dir C c dir, tr @ [RemovedDir dir])),
      cl_pipe = (\<lambda>(c, tr). noting (cl_pipe C c) tr),
      cl_close = (\<lambda>(c, tr) fd. (cl_close C c fd, tr)),
      cl_fork = (\<lambda>(c, tr) child. noting (cl_fork C c child)
         (case fst (cl_fork C c child) of Some pid \<Rightarrow> tr @ [Forked pid child] | None \<Rightarrow> tr)),
      cl_geteuid = (\<lambda>(c, tr). cl_geteuid C c),
      cl_write_byte = (\<lambda>(c, tr) fd. noting (cl_write_byte C c fd) (tr @ [WroteByte fd])),
      cl_kill = (\<lambda>(c, tr) pid. (cl_kill C c pid, tr @ [Killed pid])),
      cl_waitpid = (\<lambda>(c, tr) pid. noting (cl_waitpid C c pid) (tr @ [Waited pid])),
      cl_last_os_error = (\<lambda>(c, tr). cl_last_os_error C c),
      cl_read_to_string = (\<lambda>(c, tr) path. noting (cl_read_to_string C c path) tr),
      cl_open_len = (\<lambda>(c, tr) path. noting (cl_open_len C c path) tr),
      cl_read_from = (\<lambda>(c, tr) path pos. noting (cl_read_from C c path pos) tr)\<rparr>"

lemma contact_trace:
  assumes "contact (recording C) rt name q (c, tr) = (r, d)"
  obtains (answered) c' x where "r = Inr x" and "d = (c', tr @ [Sent q (Inr x)])"
  | (unanswered) c' e e' where "r = Inl e" and "d = (c', tr @ [Sent q (Inl e')])"
  using assms by (cases "cl_send C c (socket_path rt name) q")
    (auto simp: contact_def recording_def noting_def split: sum.splits)

lemma cleanup_trace:
  assumes "cleanup_trusted (recording C) rt name token (c, tr) = (r, d)"
  obtains c' x where "d = (c', tr @ [Sent (EndTrustedOperation token) x])"
proof -
  obtain r1 d1 where k: "contact (recording C) rt name (EndTrustedOperation token) (c, tr) = (r1, d1)" by (rule prod.exhaust)
  then have "d = d1" using assms by (auto simp: cleanup_trusted_def split: sum.splits)
  with k show ?thesis by (cases rule: contact_trace) (auto intro: that)
qed

lemma cleanup_lossy_trace:
  "\<exists>c' x. cleanup_trusted_lossy (recording C) rt name token (c, tr) = (c', tr @ [Sent (EndTrustedOperation token) x])"
proof -
  obtain r d where k: "cleanup_trusted (recording C) rt name token (c, tr) = (r, d)" by (rule prod.exhaust)
  then obtain c' x where "d = (c', tr @ [Sent (EndTrustedOperation token) x])" by (rule cleanup_trace)
  with k show ?thesis by (auto simp: cleanup_trusted_lossy_def)
qed

text \<open>The events between the start of the child and the end of the operation.\<close>

inductive child_events :: "string \<Rightarrow> string \<Rightarrow> string list \<Rightarrow> client_event list \<Rightarrow> bool" for token actual argv where
  no_child: "child_events token actual argv []"
| released: "ch_cwd ch = actual \<Longrightarrow> ch_argv ch = argv \<Longrightarrow>
    child_events token actual argv
      [Forked pid ch, Sent (RegisterTrustedPid token pid uid) (Inr ResponseOk), WroteByte (ch_write_fd ch), Waited pid]"
| refused: "ch_cwd ch = actual \<Longrightarrow> ch_argv ch = argv \<Longrightarrow> y \<noteq> Inr ResponseOk \<Longrightarrow>
    child_events token actual argv
      [Forked pid ch, Sent (RegisterTrustedPid token pid uid) y, Killed pid, WroteByte (ch_write_fd ch), Waited pid]"

lemma register_trace:
  assumes "register_child (recording C) rt name token pid (c, tr) = (r, d)"
  obtains (registered) c' uid where "r = Inr ()" and "d = (c', tr @ [Sent (RegisterTrustedPid token pid uid) (Inr ResponseOk)])"
  | (unregistered) c' uid e y where "r = Inl e" and "y \<noteq> Inr ResponseOk"
      and "d = (c', tr @ [Sent (RegisterTrustedPid token pid uid) y])"
proof -
  define q where "q = RegisterTrustedPid token pid (cl_geteuid (recording C) (c, tr))"
  obtain r1 d1 where k: "contact (recording C) rt name q (c, tr) = (r1, d1)" by (rule prod.exhaust)
  from k show ?thesis
  proof (cases rule: contact_trace)
    case (answered c' x)
    with assms k show ?thesis
      by (cases x) (auto simp: register_child_def q_def intro: registered unregistered)
  next
    case (unanswered c' e e')
    with assms k show ?thesis by (auto simp: register_child_def q_def intro: unregistered)
  qed
qed

lemma kill_trace:
  "\<exists>c'. kill_release_wait (recording C) pid fd (c, tr) = (c', tr @ [Killed pid, WroteByte fd, Waited pid])"
  by (simp add: kill_release_wait_def recording_def noting_def Let_def)

lemma release_trace:
  assumes "release_and_wait (recording C) rt name token pid fd (c, tr) = (r, d)"
  obtains c' x where "d = (c', tr @ [WroteByte fd, Waited pid, Sent (EndTrustedOperation token) x])"
proof -
  let ?tr = "tr @ [WroteByte fd, Waited pid]"
  obtain b c1 where w: "cl_write_byte (recording C) (c, tr) fd = (b, c1, tr @ [WroteByte fd])"
    by (auto simp: recording_def noting_def)
  obtain st c2 where p: "cl_waitpid (recording C) (cl_close (recording C) (c1, tr @ [WroteByte fd]) fd) pid = (st, c2, ?tr)"
    by (auto simp: recording_def noting_def)
  obtain c3 x3 where l: "cleanup_trusted_lossy (recording C) rt name token (c2, ?tr) = (c3, ?tr @ [Sent (EndTrustedOperation token) x3])"
    using cleanup_lossy_trace [of C rt name token c2 ?tr] by (elim exE)
  obtain r4 d4 where u: "cleanup_trusted (recording C) rt name token (c2, ?tr) = (r4, d4)" by (rule prod.exhaust)
  then obtain c4 x4 where d4: "d4 = (c4, ?tr @ [Sent (EndTrustedOperation token) x4])" by (rule cleanup_trace)
  have "d = cleanup_trusted_lossy (recording C) rt name token (c2, ?tr) \<or> d = d4"
    using assms w p u by (cases b; cases st; cases r4) (simp_all add: release_and_wait_def Let_def)
  then show ?thesis using l d4 by (auto intro: that)
qed

lemma trusted_child_trace:
  assumes "run_trusted_child (recording C) rt name argv token actual (c, tr) = (r, d)"
  obtains c' mid x where "d = (c', tr @ mid @ [Sent (EndTrustedOperation token) x])" and "child_events token actual argv mid"
proof -
  let ?R = "recording C"
  have ended: "\<exists>c' x. cleanup_trusted_lossy ?R rt name token (c1, tr1) = (c', tr1 @ [Sent (EndTrustedOperation token) x])" for c1 tr1
    by (rule cleanup_lossy_trace)
  obtain fds c1 where pipe: "cl_pipe ?R (c, tr) = (fds, c1, tr)" by (auto simp: recording_def noting_def)
  have close: "cl_close ?R (c2, tr2) fd = (cl_close C c2 fd, tr2)" for c2 tr2 fd by (simp add: recording_def)
  consider (early) c2 where "d = cleanup_trusted_lossy ?R rt name token (c2, tr)"
    | (forked) wfd pid ch c2 where "ch_cwd ch = actual" "ch_argv ch = argv" "ch_write_fd ch = wfd"
        "(case register_child ?R rt name token pid (c2, tr @ [Forked pid ch]) of
            (Inl e, c) \<Rightarrow> (Inl e, cleanup_trusted_lossy ?R rt name token (kill_release_wait ?R pid wfd c))
          | (Inr _, c) \<Rightarrow> release_and_wait ?R rt name token pid wfd c) = (r, d)"
  proof (cases fds)
    case None
    with assms pipe early show ?thesis by (auto simp: run_trusted_child_def Let_def)
  next
    case (Some p)
    obtain rfd wfd where p: "p = (rfd, wfd)" by (rule prod.exhaust)
    let ?ch = "\<lparr>ch_read_fd = rfd, ch_write_fd = wfd, ch_cwd = actual, ch_argv = argv\<rparr>"
    show ?thesis
    proof (cases "CHR 0x00 \<in> set actual")
      case True
      with assms pipe Some p early show ?thesis by (auto simp: run_trusted_child_def close Let_def)
    next
      case False
      obtain pid c2 where k: "cl_fork C c1 ?ch = (pid, c2)" by (rule prod.exhaust)
      have fork: "cl_fork ?R (c1, tr) ?ch = (pid, c2, case pid of Some i \<Rightarrow> tr @ [Forked i ?ch] | None \<Rightarrow> tr)"
        using k by (simp add: recording_def noting_def)
      show ?thesis
      proof (cases pid)
        case None
        with assms pipe Some p False fork early show ?thesis by (auto simp: run_trusted_child_def close Let_def)
      next
        case (Some i)
        show ?thesis
          by (rule forked [of ?ch wfd i "cl_close C c2 rfd"])
             (use assms pipe \<open>fds = Some p\<close> p False fork Some in \<open>simp_all add: run_trusted_child_def close\<close>)
      qed
    qed
  qed
  then show ?thesis
  proof cases
    case early
    with ended [of c2 tr] show ?thesis using that [of _ "[]"] no_child by fastforce
  next
    case forked
    obtain r1 d1 where reg: "register_child ?R rt name token pid (c2, tr @ [Forked pid ch]) = (r1, d1)" by (rule prod.exhaust)
    from reg show ?thesis
    proof (cases rule: register_trace)
      case (registered c3 uid)
      with forked(4) reg have "release_and_wait ?R rt name token pid wfd d1 = (r, d)" by simp
      then obtain c4 x where d: "d = (c4, (tr @ [Forked pid ch, Sent (RegisterTrustedPid token pid uid) (Inr ResponseOk)])
          @ [WroteByte wfd, Waited pid, Sent (EndTrustedOperation token) x])"
        unfolding registered(2) by (rule release_trace) simp
      have "child_events token actual argv
          [Forked pid ch, Sent (RegisterTrustedPid token pid uid) (Inr ResponseOk), WroteByte wfd, Waited pid]"
        using released [OF forked(1,2)] forked(3) by simp
      then show ?thesis using d by (intro that) simp_all
    next
      case (unregistered c3 uid e y)
      obtain c4 where kill: "kill_release_wait ?R pid wfd d1 =
          (c4, (tr @ [Forked pid ch, Sent (RegisterTrustedPid token pid uid) y]) @ [Killed pid, WroteByte wfd, Waited pid])"
        using kill_trace [of C pid wfd c3 "tr @ [Forked pid ch, Sent (RegisterTrustedPid token pid uid) y]"] unregistered(3) by auto
      obtain c5 x where d: "d = (c5, ((tr @ [Forked pid ch, Sent (RegisterTrustedPid token pid uid) y])
          @ [Killed pid, WroteByte wfd, Waited pid]) @ [Sent (EndTrustedOperation token) x])"
        using ended [of c4 "(tr @ [Forked pid ch, Sent (RegisterTrustedPid token pid uid) y]) @ [Killed pid, WroteByte wfd, Waited pid]"]
          forked(4) reg unregistered(1) kill by auto
      have "child_events token actual argv
          [Forked pid ch, Sent (RegisterTrustedPid token pid uid) y, Killed pid, WroteByte wfd, Waited pid]"
        using refused [OF forked(1,2) unregistered(2)] forked(3) by simp
      then show ?thesis using d by (intro that) simp_all
    qed
  qed
qed

text \<open>Every run of a trusted command.\<close>

inductive trusted_events ::
  "runtime_paths \<Rightarrow> string \<Rightarrow> string \<Rightarrow> rewritten_command \<Rightarrow> client_event list \<Rightarrow> bool" for rt name command rw
where
  not_started: "trusted_events rt name command rw []"
| no_directory: "dir = tmp_mount_dir rt name i \<Longrightarrow> trusted_events rt name command rw [MadeDir dir]"
| not_begun: "dir = tmp_mount_dir rt name i \<Longrightarrow> (\<And>token j mp. y \<noteq> Inr (ResponseTrusted token j mp)) \<Longrightarrow>
    trusted_events rt name command rw
      [MadeDir dir, Sent (BeginTrustedOperation name command (to_string_lossy dir) (rw_paths rw)) y, RemovedDir dir]"
| begun: "dir = tmp_mount_dir rt name i \<Longrightarrow> child_events token mp (command # rw_args rw) mid \<Longrightarrow>
    trusted_events rt name command rw
      ([MadeDir dir, Sent (BeginTrustedOperation name command (to_string_lossy dir) (rw_paths rw))
          (Inr (ResponseTrusted token j mp))] @ mid @ [Sent (EndTrustedOperation token) x])"

lemma begin_trace:
  assumes "begin_on_session (recording C) rt name command dir paths (c, tr) = (r, d)"
  obtains (begun) c' token j mp where "r = Inr (token, mp)"
      "d = (c', tr @ [Sent (BeginTrustedOperation name command (to_string_lossy dir) paths) (Inr (ResponseTrusted token j mp))])"
  | (failed) c' e y where "r = Inl e" "\<And>token j mp. y \<noteq> Inr (ResponseTrusted token j mp)"
      "d = (c', tr @ [Sent (BeginTrustedOperation name command (to_string_lossy dir) paths) y, RemovedDir dir])"
proof -
  let ?q = "BeginTrustedOperation name command (to_string_lossy dir) paths"
  have remove: "cl_remove_dir (recording C) (c1, tr1) dir = (cl_remove_dir C c1 dir, tr1 @ [RemovedDir dir])" for c1 tr1
    by (simp add: recording_def)
  obtain r1 d1 where k: "contact (recording C) rt name ?q (c, tr) = (r1, d1)" by (rule prod.exhaust)
  from k show ?thesis
  proof (cases rule: contact_trace)
    case (answered c' x)
    show ?thesis
    proof (cases "\<exists>token j mp. x = ResponseTrusted token j mp")
      case True
      with assms k answered show ?thesis by (auto simp: begin_on_session_def intro: begun)
    next
      case False
      then have "(\<exists>e. r = Inl e) \<and> d = (cl_remove_dir C c' dir, tr @ [Sent ?q (Inr x), RemovedDir dir])"
        using assms k answered by (cases x) (auto simp: begin_on_session_def remove)
      then obtain e where "r = Inl e" "d = (cl_remove_dir C c' dir, tr @ [Sent ?q (Inr x), RemovedDir dir])" by blast
      with False show ?thesis by (intro failed [of e "Inr x"]) auto
    qed
  next
    case (unanswered c' e e')
    with assms k show ?thesis by (auto simp: begin_on_session_def remove intro: failed)
  qed
qed

lemma trusted_command_trace:
  assumes "run_trusted_command (recording C) rt name command args (c, []) = (r, c', tr)"
    and "rewrite_command_path_args command args = Inr rw"
  shows "trusted_events rt name command rw tr"
proof (cases "args = [] \<or> CHR 0x00 \<in> set command \<or> list_ex (\<lambda>arg. CHR 0x00 \<in> set arg) (rw_args rw)")
  case True
  with assms have "tr = []" by (auto simp: run_trusted_command_def split: if_splits)
  then show ?thesis by (simp add: not_started)
next
  case False
  define dir where "dir = tmp_mount_dir rt name (cl_clock (recording C) (c, []))"
  obtain md c1 where made: "cl_create_dir_all (recording C) (c, []) dir = (md, c1, [MadeDir dir])"
    by (auto simp: recording_def noting_def)
  obtain rb d2 where b: "begin_on_session (recording C) rt name command dir (rw_paths rw) (c1, [MadeDir dir]) = (rb, d2)"
    by (rule prod.exhaust)
  have run: "(case md of Inl e \<Rightarrow> (Inl (Io e), c1, [MadeDir dir])
      | Inr _ \<Rightarrow> (case rb of Inl e \<Rightarrow> (Inl e, d2)
          | Inr (token, mp) \<Rightarrow> run_trusted_child (recording C) rt name (command # rw_args rw) token mp d2)) = (r, c', tr)"
    using assms False made b by (cases md; cases rb) (auto simp: run_trusted_command_def dir_def [symmetric] Let_def)
  show ?thesis
  proof (cases md)
    case (Inl e)
    then have "tr = [MadeDir dir]" using run by auto
    then show ?thesis by (simp add: dir_def no_directory [OF refl])
  next
    case md: (Inr u)
    from b show ?thesis
    proof (cases rule: begin_trace)
      case (begun c2 token j mp)
      obtain c3 mid x where "(c', tr) = (c3, [MadeDir dir, Sent (BeginTrustedOperation name command (to_string_lossy dir)
            (rw_paths rw)) (Inr (ResponseTrusted token j mp))] @ mid @ [Sent (EndTrustedOperation token) x])"
          "child_events token mp (command # rw_args rw) mid"
        by (rule trusted_child_trace [of C rt name "command # rw_args rw" token mp c2]) (use run md begun in auto)
      then show ?thesis using trusted_events.begun [of dir rt name] by (simp add: dir_def)
    next
      case (failed c2 e y)
      with run md show ?thesis using not_begun [of dir rt name] by (auto simp: dir_def)
    qed
  qed
qed

section \<open>Operands\<close>

lemma map_filter_part_components: "ParentDir \<in> set (List.map_filter part_component ps) \<longleftrightarrow> ''..'' \<in> set ps"
  by (induction ps) (auto simp: List.map_filter_simps)

lemma rewritten_no_parent:
  assumes "ParentDir \<notin> set (components item)"
  shows "ParentDir \<notin> set (components (rewrite_sandbox_path_arg item))"
proof (cases item)
  case Nil
  then show ?thesis by (simp add: rewrite_sandbox_path_arg_def eval_simps)
next
  case (Cons ch rest)
  have dot: "split_slash (CHR ''.'' # slash # rest) = ''.'' # split_slash rest"
    using split_slash_append [of "''.''" rest] by simp
  show ?thesis
    using assms Cons
    by (auto simp: rewrite_sandbox_path_arg_def components_def map_filter_part_components dot is_absolute_def
        split: if_splits)
qed

text \<open>A mode that starts with a hyphen is taken for an option, so the first path is taken for the
  mode: it stays absolute and no scope is recorded for it.\<close>

lemma chmod_minus_mode:
  "rewrite_command_path_args ''chmod'' [''-x'', ''/etc/passwd''] =
     Inr \<lparr>rw_args = [''-x'', ''/etc/passwd''], rw_paths = []\<rparr>"
  by (simp add: rewrite_command_path_args_def rewrite_chmod_args_def str_starts_with_def keep_arg_def no_args_def)

section \<open>Durations\<close>

text \<open>The units and their lengths in seconds.\<close>

definition duration_units :: "(string \<times> nat) list" where
  "duration_units =
     map (\<lambda>u. (u, 1)) [[], ''s'', ''sec'', ''secs'', ''second'', ''seconds'']
     @ map (\<lambda>u. (u, 60)) [''m'', ''min'', ''mins'', ''minute'', ''minutes'']
     @ map (\<lambda>u. (u, 3600)) [''h'', ''hr'', ''hrs'', ''hour'', ''hours'']"

lemma duration_unit_alphabetic: "(unit, factor) \<in> set duration_units \<Longrightarrow> list_all is_ascii_alphabetic unit"
  by (auto simp: duration_units_def is_ascii_alphabetic_def byte_def)

lemma duration_factor:
  "map_of duration_units unit =
     (if unit \<in> {[], ''s'', ''sec'', ''secs'', ''second'', ''seconds''} then Some 1
      else if unit \<in> {''m'', ''min'', ''mins'', ''minute'', ''minutes''} then Some 60
      else if unit \<in> {''h'', ''hr'', ''hrs'', ''hour'', ''hours''} then Some 3600
      else None)"
  by (simp add: duration_units_def)

lemma duration_units_map: "(unit, factor) \<in> set duration_units \<longleftrightarrow> map_of duration_units unit = Some factor"
proof -
  have "distinct (map fst duration_units)" by (simp add: duration_units_def)
  then show ?thesis by simp
qed

lemma parse_duration_steps:
  "parse_duration_seconds value = Inr n \<longleftrightarrow>
     (let v = str_trim value; number = takeWhile is_ascii_digit v; unit = dropWhile is_ascii_digit v in
      (v = [] \<and> n = default_read_write_grant_duration)
      \<or> (number \<noteq> [] \<and> list_all is_ascii_alphabetic unit
         \<and> (\<exists>factor. map_of duration_units unit = Some factor \<and> 0 < read_nat number
              \<and> read_nat number \<le> u64_max \<and> read_nat number * factor \<le> u64_max \<and> n = read_nat number * factor)))"
proof -
  define S M H where "S = {[], ''s'', ''sec'', ''secs'', ''second'', ''seconds''}"
    and "M = {''m'', ''min'', ''mins'', ''minute'', ''minutes''}" and "H = {''h'', ''hr'', ''hrs'', ''hour'', ''hours''}"
  note units = S_def [symmetric] M_def [symmetric] H_def [symmetric]
  show ?thesis
    unfolding parse_duration_seconds_def Let_def duration_factor units
    by (auto simp: parse_u64_def checked_mul_def ok_or_def mult.commute)
qed

text \<open>What the code reads once the text is trimmed.\<close>

lemma parse_duration_cases:
  "parse_duration_seconds value = Inr n \<longleftrightarrow>
     (str_trim value = [] \<and> n = default_read_write_grant_duration)
     \<or> (\<exists>number unit factor. str_trim value = number @ unit \<and> number \<noteq> [] \<and> list_all is_ascii_digit number
          \<and> (unit, factor) \<in> set duration_units \<and> 0 < read_nat number
          \<and> read_nat number * factor \<le> u64_max \<and> n = read_nat number * factor)"
  (is "?l \<longleftrightarrow> ?r")
proof -
  let ?v = "str_trim value"
  let ?num = "takeWhile is_ascii_digit ?v" and ?unit = "dropWhile is_ascii_digit ?v"
  have split: "?num = number \<and> ?unit = unit"
    if "?v = number @ unit" "list_all is_ascii_digit number" "list_all is_ascii_alphabetic unit" for number unit
  proof -
    have hd: "unit = [] \<or> \<not> is_ascii_digit (hd unit)"
      using that(3) by (cases unit) (auto simp: is_ascii_digit_def is_ascii_alphabetic_def)
    moreover have "\<forall>x \<in> set number. is_ascii_digit x" using that(2) by (simp add: list_all_iff)
    ultimately show ?thesis
      unfolding that(1) by (cases unit) (auto simp: takeWhile_append2 dropWhile_append2)
  qed
  have digits: "list_all is_ascii_digit ?num" by (auto simp: list_all_iff dest: set_takeWhileD)
  have small: "a \<le> a * factor" if "(unit, factor) \<in> set duration_units" for a factor :: nat and unit
    using that by (auto simp: duration_units_def)
  have steps: "?l \<longleftrightarrow> (?v = [] \<and> n = default_read_write_grant_duration)
      \<or> (?num \<noteq> [] \<and> list_all is_ascii_alphabetic ?unit
         \<and> (\<exists>factor. (?unit, factor) \<in> set duration_units \<and> 0 < read_nat ?num
              \<and> read_nat ?num \<le> u64_max \<and> read_nat ?num * factor \<le> u64_max \<and> n = read_nat ?num * factor))"
    unfolding parse_duration_steps Let_def duration_units_map ..
  show ?thesis
  proof
    assume ?l
    then consider (default) "?v = []" "n = default_read_write_grant_duration"
      | (given) factor where "?num \<noteq> []" "(?unit, factor) \<in> set duration_units" "0 < read_nat ?num"
          "read_nat ?num * factor \<le> u64_max" "n = read_nat ?num * factor"
      unfolding steps by blast
    then show ?r
    proof cases
      case given
      have "?v = ?num @ ?unit" by simp
      with given digits show ?r by blast
    qed simp
  next
    assume ?r
    then consider (default) "?v = []" "n = default_read_write_grant_duration"
      | (given) number unit factor where "?v = number @ unit" "number \<noteq> []" "list_all is_ascii_digit number"
          "(unit, factor) \<in> set duration_units" "0 < read_nat number" "read_nat number * factor \<le> u64_max"
          "n = read_nat number * factor" by blast
    then show ?l
    proof cases
      case default
      then show ?l unfolding steps by blast
    next
      case given
      note unit = duration_unit_alphabetic [OF given(4)]
      note parts = split [OF given(1,3) unit]
      have "read_nat number \<le> u64_max" using small [OF given(4)] given(6) by (rule le_trans)
      then show ?l unfolding steps using given parts unit by metis
    qed
  qed
qed

section \<open>The tail of the log\<close>

lemma tail_loop_suffix:
  assumes "idx \<le> length data"
  shows "\<exists>k \<le> length data. tail_loop data line_count newlines idx = drop k data
    \<and> (k = 0 \<or> data ! (k - 1) = CHR 0x0A)"
  using assms
proof (induction data line_count newlines idx rule: tail_loop.induct)
  case (2 data line_count newlines idx)
  show ?case
  proof (cases "data ! idx = CHR 0x0A \<and> newlines + 1 > line_count")
    case True
    then show ?thesis using 2(3) by (intro exI [of _ "idx + 1"]) simp
  next
    case False
    then show ?thesis using 2 by auto
  qed
qed (auto intro: exI [of _ 0])

lemma tail_loop_count:
  assumes "idx \<le> length data" and "newlines \<le> line_count"
    and "length (filter (\<lambda>ch. ch = CHR 0x0A) (drop idx data)) = newlines"
  shows "length (filter (\<lambda>ch. ch = CHR 0x0A) (tail_loop data line_count newlines idx))
    = min line_count (length (filter (\<lambda>ch. ch = CHR 0x0A) data))"
  using assms
proof (induction data line_count newlines idx rule: tail_loop.induct)
  case (1 data line_count newlines)
  then show ?case by simp
next
  case (2 data line_count newlines idx)
  have d: "drop idx data = data ! idx # drop (Suc idx) data" using 2(3) by (simp add: Cons_nth_drop_Suc)
  have "length (filter P (take idx data)) + length (filter P (drop idx data)) = length (filter P data)" for P
    by (metis append_take_drop_id filter_append length_append)
  from this [of "\<lambda>ch. ch = CHR 0x0A"]
  have all: "length (filter (\<lambda>ch. ch = CHR 0x0A) (drop idx data)) \<le> length (filter (\<lambda>ch. ch = CHR 0x0A) data)"
    by linarith
  show ?case
  proof (cases "data ! idx = CHR 0x0A")
    case True
    show ?thesis
    proof (cases "newlines + 1 > line_count")
      case True
      with \<open>data ! idx = _\<close> 2(4,5) all show ?thesis by (simp add: d)
    next
      case False
      with \<open>data ! idx = _\<close> 2 show ?thesis by (simp add: d)
    qed
  next
    case False
    with 2 show ?thesis by (simp add: d)
  qed
qed

text \<open>The followed log, for a file that only grows: what is printed is what was appended.\<close>

definition appended :: "string \<Rightarrow> string \<Rightarrow> bool" where
  "appended old new \<longleftrightarrow> (\<exists>t. new = old @ t)"

lemma follow_log_contiguous:
  assumes "\<And>c buf c'. cl_read_from C c path = (\<lambda>pos. (Inr (drop pos (content c)), next c))"
    and "\<And>c. appended (content c) (content (next c))"
    and "pos \<le> length (content c)"
    and "follow_log C path polls pos c = (printed, pos', failure, c')"
  shows "failure = None \<and> pos' = pos + length printed \<and> appended (drop pos (content c)) (printed @ drop pos' (content c'))"
  using assms(3,4)
proof (induction polls arbitrary: pos c printed)
  case 0
  then show ?case by (simp add: appended_def)
next
  case (Suc polls)
  let ?buf = "drop pos (content c)"
  obtain t where t: "content (next c) = content c @ t" using assms(2) unfolding appended_def by blast
  obtain more where rest: "follow_log C path polls (pos + length ?buf) (next c) = (more, pos', failure, c')"
    and printed: "printed = ?buf @ more"
    using Suc.prems(2) by (auto simp: assms(1) split: prod.splits)
  have at: "pos + length ?buf = length (content c)" using Suc.prems(1) by simp
  have "pos + length ?buf \<le> length (content (next c))" using at t by simp
  from Suc.IH [OF this rest] show ?case using printed at by (auto simp: appended_def)
qed

section \<open>A small client for evaluation\<close>

text \<open>A session that grants every trusted operation, and a system that starts every child.\<close>

definition calm_client :: "'c client" where
  "calm_client =
     \<lparr>cl_send = (\<lambda>c socket q. (Inr (case q of BeginTrustedOperation n cmd mp paths \<Rightarrow> ResponseTrusted ''t'' 1 mp
        | _ \<Rightarrow> ResponseOk), c)),
      cl_io_text = (\<lambda>_. []), cl_debug = (\<lambda>_. []), cl_clock = (\<lambda>_. 0),
      cl_create_dir_all = (\<lambda>c _. (Inr (), c)), cl_remove_dir = (\<lambda>c _. c), cl_pipe = (\<lambda>c. (Some (3, 4), c)),
      cl_close = (\<lambda>c _. c), cl_fork = (\<lambda>c _. (Some 7, c)), cl_geteuid = (\<lambda>_. 0), cl_write_byte = (\<lambda>c _. (True, c)),
      cl_kill = (\<lambda>c _. c), cl_waitpid = (\<lambda>c _. (Some (Exited 0), c)), cl_last_os_error = (\<lambda>_. None),
      cl_read_to_string = (\<lambda>c _. (Inr [], c)), cl_open_len = (\<lambda>c _. (Inr 0, c)), cl_read_from = (\<lambda>c _ _. (Inr [], c))\<rparr>"

definition client_runtime :: runtime_paths where
  "client_runtime = \<lparr>rt_runtime_dir = ''/run'', rt_log_dir = ''/run'', rt_socket_override = None\<rparr>"

lemma calm_rewrite:
  "rewrite_command_path_args ''chmod'' [''644'', ''/f''] =
     Inr \<lparr>rw_args = [''644'', ''./f''], rw_paths = [\<lparr>scope_path = [''f''], scope_recursive = False\<rparr>]\<rparr>"
  by (simp add: rewrite_command_path_args_def rewrite_chmod_args_def str_starts_with_def keep_arg_def no_args_def
      path_arg_def rewrite_path_operand_def reject_parent_dir_operand_def rewrite_sandbox_path_arg_def
      chmod_is_recursive_def is_recursive_arg_def eval_simps)

lemma calm_mount: "tmp_mount_dir client_runtime ''box'' 0 = ''/run/tmp/box-0''"
  by (simp add: tmp_mount_dir_def client_runtime_def show_nat_def show_base.simps digit_char_def eval_simps)

lemma calm_run:
  "\<exists>tr. run_trusted_command (recording calm_client) client_runtime ''box'' ''chmod'' [''644'', ''/f''] ((), []) =
     (Inr 0, (), tr)"
  by (simp add: run_trusted_command_def calm_rewrite recording_def noting_def calm_client_def Let_def calm_mount
      begin_on_session_def contact_def run_trusted_child_def register_child_def release_and_wait_def cleanup_trusted_def
      to_string_lossy_valid eval_simps)

section \<open>Properties\<close>

text \<open>
  C13: The protocol of a trusted command. Whatever the session and the system answer, every
  child that is started runs the rewritten arguments in the mount the session granted for
  exactly their scopes, and is waited for; it is released only after the session has confirmed
  its registration or after it was killed; and an operation the session has begun is always
  ended, as the last thing the client does.
\<close>

theorem trusted_command_protocol:
  assumes "run_trusted_command (recording C) rt name command args (c, []) = (r, c', tr)"
  shows "(\<forall>pid ch. Forked pid ch \<in> set tr \<longrightarrow> Waited pid \<in> set tr
      \<and> (\<exists>rw dir token j. rewrite_command_path_args command args = Inr rw \<and> ch_argv ch = command # rw_args rw
           \<and> Sent (BeginTrustedOperation name command dir (rw_paths rw)) (Inr (ResponseTrusted token j (ch_cwd ch))) \<in> set tr))
    \<and> (\<forall>before fd after. tr = before @ WroteByte fd # after \<longrightarrow>
         (\<exists>pid ch. Forked pid ch \<in> set before \<and> ch_write_fd ch = fd
            \<and> (Killed pid \<in> set before
               \<or> (\<exists>token uid. Sent (RegisterTrustedPid token pid uid) (Inr ResponseOk) \<in> set before))))
    \<and> (\<forall>dir paths token j mp. Sent (BeginTrustedOperation name command dir paths) (Inr (ResponseTrusted token j mp)) \<in> set tr
         \<longrightarrow> (\<exists>x. last tr = Sent (EndTrustedOperation token) x))"
proof (cases "rewrite_command_path_args command args")
  case (Inl e)
  with assms have "tr = []" by (auto simp: run_trusted_command_def split: if_splits)
  then show ?thesis by simp
next
  case (Inr rw)
  from trusted_command_trace [OF assms Inr] show ?thesis
  proof cases
    case (begun dir i token mp mid j x)
    from begun(3) show ?thesis
    proof cases
      case no_child
      with begun(1) show ?thesis by (auto simp: Cons_eq_append_conv)
    next
      case released
      with begun(1) Inr show ?thesis by (fastforce simp: Cons_eq_append_conv)
    next
      case refused
      with begun(1) Inr show ?thesis by (fastforce simp: Cons_eq_append_conv)
    qed
  qed (auto simp: Cons_eq_append_conv)
qed

theorem trusted_command_protocol_witness:
  "\<exists>tr. run_trusted_command (recording calm_client) client_runtime ''box'' ''chmod'' [''644'', ''/f''] ((), []) = (Inr 0, (), tr)
     \<and> (\<forall>pid ch. Forked pid ch \<in> set tr \<longrightarrow> ch_argv ch = [''chmod'', ''644'', ''./f''])"
proof -
  obtain tr where run: "run_trusted_command (recording calm_client) client_runtime ''box'' ''chmod'' [''644'', ''/f''] ((), [])
      = (Inr 0, (), tr)" using calm_run by blast
  from trusted_command_protocol [OF run] show ?thesis using run by (auto simp: calm_rewrite)
qed

text \<open>
  C14: Operands of trusted commands. Where a \<^verbatim>\<open>chmod\<close>, \<^verbatim>\<open>chown\<close> or \<^verbatim>\<open>chattr\<close> command line consists of
  options, a mode, owner or flags, and files, the rewritten command keeps the options and the mode
  and rewrites every file but the separator, and nothing else. Each file is made relative, steps
  to no parent, denotes the path it denoted, and has exactly one scope, in order, with this path,
  recursive when the command is. (A \<^verbatim>\<open>chmod\<close> mode that starts with a hyphen, as in \<^verbatim>\<open>chmod -x file\<close>, is
  not such a command line: the source takes it for an option, see \<open>chmod_minus_mode\<close>.)
\<close>

theorem trusted_operands:
  assumes "command \<in> {''chmod'', ''chown'', ''chattr''}"
    and "\<forall>a \<in> set opts. option_word command a" and "mode_words command modes" and "\<forall>f \<in> set files. file_word command f"
    and "rewrite_command_path_args command (opts @ modes @ files) = Inr rw"
  shows "rw_args rw = opts @ modes @ map (\<lambda>f. if f = ''--'' then f else rewrite_sandbox_path_arg f) files
    \<and> list_all2 (\<lambda>f sc. new_path f = Inr (scope_path sc)
         \<and> scope_recursive sc = list_ex is_recursive_arg (opts @ modes @ files)
         \<and> \<not> is_absolute (rewrite_sandbox_path_arg f) \<and> new_path (rewrite_sandbox_path_arg f) = new_path f
         \<and> ParentDir \<notin> set (components (rewrite_sandbox_path_arg f)))
       (filter (\<lambda>f. f \<noteq> ''--'') files) (rw_paths rw)"
proof -
  obtain r' where r': "operands_rewritten (list_ex is_recursive_arg (opts @ modes @ files)) files r'"
    "rw = r'\<lparr>rw_args := opts @ modes @ rw_args r'\<rparr>" using command_operands [OF assms] by blast
  then have "list_all2 (\<lambda>f sc. new_path f = Inr (scope_path sc)
      \<and> scope_recursive sc = list_ex is_recursive_arg (opts @ modes @ files) \<and> ParentDir \<notin> set (components f))
    (filter (\<lambda>f. f \<noteq> ''--'') files) (rw_paths rw)" by (simp add: operands_rewritten_def)
  from list_all2_mono [OF this] rewrite_keeps_path rewritten_no_parent r' show ?thesis
    by (simp add: operands_rewritten_def)
qed

theorem trusted_operands_witness:
  "\<exists>rw. rewrite_command_path_args ''chmod'' [''-v'', ''644'', ''/f''] = Inr rw
     \<and> rw_args rw = [''-v'', ''644'', ''./f''] \<and> map scope_path (rw_paths rw) = [[''f'']]"
proof -
  obtain rw where rw: "rewrite_command_path_args ''chmod'' ([''-v''] @ [''644''] @ [''/f'']) = Inr rw"
    by (simp add: rewrite_command_path_args_def rewrite_chmod_args_def str_starts_with_def keep_arg_def no_args_def
        path_arg_def rewrite_path_operand_def reject_parent_dir_operand_def eval_simps)
  have "new_path ''/f'' = Inr [''f'']" "rewrite_sandbox_path_arg ''/f'' = ''./f''"
    by (simp_all add: rewrite_sandbox_path_arg_def eval_simps)
  with trusted_operands [OF _ _ _ _ rw] rw show ?thesis
    by (auto simp: option_word_def option_letters_def mode_words_def file_word_def str_starts_with_def list_all2_Cons1)
qed

text \<open>
  C35: Durations. A duration is accepted exactly when it is empty (thirty minutes) or digits
  followed by a known unit whose value in seconds is positive and fits in 64 bits, and then it
  means that value.
\<close>

theorem duration_meaning:
  "parse_duration_seconds value = Inr n \<longleftrightarrow>
     (str_trim value = [] \<and> n = 30 * 60)
     \<or> (\<exists>number unit factor. str_trim value = number @ unit \<and> number \<noteq> [] \<and> list_all is_ascii_digit number
          \<and> (unit, factor) \<in> set duration_units \<and> 0 < n \<and> n < 2 ^ 64 \<and> n = read_nat number * factor)"
proof -
  have pos: "0 < f" if "(u, f) \<in> set duration_units" for u and f :: nat using that by (auto simp: duration_units_def)
  have fits: "n \<le> u64_max \<longleftrightarrow> n < 2 ^ 64" for n :: nat
    using zero_less_power [of "2 :: nat" 64] unfolding u64_max_def by linarith
  show ?thesis
    unfolding parse_duration_cases fits default_read_write_grant_duration_def
    using pos by (intro disj_cong refl arg_cong [where f = Ex] ext) auto
qed

text \<open>
  The monitor. Without following it prints the end of the log from the start of a line on,
  with the last ten newlines of it (all of it when there are fewer).
\<close>

lemma tail_is_last_lines:
  "\<exists>k. tail_lines data n = drop k data \<and> (n = 0 \<or> k = 0 \<or> k \<le> length data \<and> data ! (k - 1) = CHR 0x0A)
    \<and> length (filter (\<lambda>ch. ch = CHR 0x0A) (tail_lines data n)) = min n (length (filter (\<lambda>ch. ch = CHR 0x0A) data))"
proof (cases "n = 0")
  case True
  then show ?thesis by (intro exI [of _ "length data"]) (simp add: tail_lines_def)
next
  case False
  obtain k where k: "k \<le> length data" "tail_loop data n 0 (length data) = drop k data"
    "k = 0 \<or> data ! (k - 1) = CHR 0x0A" using tail_loop_suffix [of "length data" data n 0] by auto
  with False tail_loop_count [of "length data" data 0 n] show ?thesis
    by (intro exI [of _ k]) (auto simp: tail_lines_def)
qed

end
