(* ===== verification/Tui.thy ===== *)
theory Tui
  imports Client
begin

text \<open>
  \<^verbatim>\<open>src/tui.rs\<close>: the terminal interface. One turn of its loop asks the session for the pending
  requests, draws them with one selected, and acts on at most one key. What is drawn is a value
  (the texts of the three panes and the selected row); painting it, raw mode and the errors of
  the terminal are left to the terminal crates. Editor, \<^verbatim>\<open>gatefs\<close> subprocesses, environment and
  shell words are a record of parameters beside the client's surroundings.
\<close>

section \<open>What is drawn\<close>

definition format_attach_suffix :: "nat option \<Rightarrow> string" where
  "format_attach_suffix attach_id = (case attach_id of Some i \<Rightarrow> '' attach='' @ show_nat i | None \<Rightarrow> [])"

fun format_pending_row :: "pending_request \<Rightarrow> string" where
  "format_pending_row (PendingMetadata r) =
     ''id='' @ show_nat (pm_id r) @ format_attach_suffix (pm_attach_id r) @ '' '' @ pm_description r"
| "format_pending_row (PendingReadWrite r) =
     ''id='' @ show_nat (prw_id r) @ format_attach_suffix (prw_attach_id r) @ '' '' @ kind_log_name (prw_kind r)
     @ '' path='' @ display_path (prw_path r) @ '' '' @ prw_description r
     @ '' pid='' @ show_nat (unat (prw_pid r)) @ '' uid='' @ show_nat (unat (prw_uid r))
     @ '' gid='' @ show_nat (unat (prw_gid r))"

fun format_selected_pending :: "pending_request \<Rightarrow> string" where
  "format_selected_pending (PendingMetadata r) =
     ''id='' @ show_nat (pm_id r) @ format_attach_suffix (pm_attach_id r) @ newline
     @ ''path='' @ display_path (metadata_path (pm_operation r)) @ newline @ pm_description r"
| "format_selected_pending (PendingReadWrite r) =
     ''id='' @ show_nat (prw_id r) @ format_attach_suffix (prw_attach_id r) @ newline
     @ ''kind='' @ kind_log_name (prw_kind r) @ newline
     @ ''path='' @ display_path (prw_path r) @ newline
     @ ''pid='' @ show_nat (unat (prw_pid r)) @ '' uid='' @ show_nat (unat (prw_uid r))
     @ '' gid='' @ show_nat (unat (prw_gid r)) @ newline @ prw_description r"

text \<open>\<^verbatim>\<open>Vec::get\<close>.\<close>

definition vec_get :: "'a list \<Rightarrow> nat \<Rightarrow> 'a option" where
  "vec_get xs i = (if i < length xs then Some (xs ! i) else None)"

record tui_frame =
  fr_operation :: string
  fr_rows :: "string list"
  fr_reversed :: "bool list"
  fr_controls :: string

definition controls_text :: "pending_request option \<Rightarrow> string" where
  "controls_text p =
     (case p of
        Some (PendingMetadata _) \<Rightarrow> ''a=allow d=deny n=do-nothing e=edit q=quit''
      | Some (PendingReadWrite _) \<Rightarrow> ''a=allow d=deny n=do-nothing q=quit''
      | None \<Rightarrow> ''q=quit'')"

definition draw_pending :: "pending_request list \<Rightarrow> nat \<Rightarrow> string \<Rightarrow> tui_frame" where
  "draw_pending pending selected message =
     \<lparr>fr_operation = (case vec_get pending selected of
         Some p \<Rightarrow> format_selected_pending p | None \<Rightarrow> ''no pending requests''),
      fr_rows = map format_pending_row pending,
      fr_reversed = map (\<lambda>i. i = selected) [0..<length pending],
      fr_controls = controls_text (vec_get pending selected) @ '' '' @ message\<rparr>"

section \<open>Decisions\<close>

datatype pending_action = ActAllow | ActDoNothing | ActDeny

fun action_request :: "string \<Rightarrow> nat \<Rightarrow> pending_action \<Rightarrow> request" where
  "action_request name i ActAllow = Allow name i False None"
| "action_request name i ActDoNothing = Allow name i True None"
| "action_request name i ActDeny = DenyRequest name i"

fun response_message :: "'c client \<Rightarrow> response \<Rightarrow> string" where
  "response_message C ResponseOk = ''ok''"
| "response_message C (ResponseWarning m) = ''warning: '' @ m"
| "response_message C (ResponseError m) = m"
| "response_message C other = cl_debug C other"

definition resolve_pending_action ::
  "'c client \<Rightarrow> runtime_paths \<Rightarrow> string \<Rightarrow> nat \<Rightarrow> pending_action \<Rightarrow> 'c \<Rightarrow> string res \<times> 'c"
where
  "resolve_pending_action C rt name i action c =
     (case contact C rt name (action_request name i action) c of
        (Inl e, c) \<Rightarrow> (Inl e, c)
      | (Inr response, c) \<Rightarrow> (Inr (response_message C response), c))"

section \<open>Editing the command of a request\<close>

record exit_status =
  es_success :: bool
  es_text :: string

record 'c tui_tools =
  tt_env :: "string \<Rightarrow> string option"
  tt_discover :: "'c \<Rightarrow> runtime_paths res \<times> 'c"
  tt_process_id :: nat
  tt_write_file :: "'c \<Rightarrow> string \<Rightarrow> string \<Rightarrow> (io_error + unit) \<times> 'c"
  tt_remove_file :: "'c \<Rightarrow> string \<Rightarrow> 'c"
  tt_status :: "'c \<Rightarrow> string \<Rightarrow> string list \<Rightarrow> (string \<times> string option) list \<Rightarrow> (io_error + exit_status) \<times> 'c"
  tt_shlex_split :: "string \<Rightarrow> string list option"
  tt_current_exe :: "string option"
  tt_exists :: "string \<Rightarrow> bool"

definition gatefs_command :: "'c tui_tools \<Rightarrow> string option \<Rightarrow> string" where
  "gatefs_command T explicit_bin =
     (case (case explicit_bin of Some b \<Rightarrow> Some b | None \<Rightarrow> tt_env T ''GATEFS_BIN'') of
        Some b \<Rightarrow> b
      | None \<Rightarrow>
          (case Option.bind (tt_current_exe T) path_parent of
             Some dir \<Rightarrow> if tt_exists T (path_join dir ''gatefs'') then path_join dir ''gatefs'' else ''gatefs''
           | None \<Rightarrow> ''gatefs''))"

text \<open>The changes of the environment: a value to set, or nothing for a variable to remove.\<close>

definition apply_runtime_env :: "runtime_paths option \<Rightarrow> (string \<times> string option) list" where
  "apply_runtime_env runtime =
     (case runtime of
        Some rt \<Rightarrow> [(''GATEFS_RUNTIME_DIR'', Some (rt_runtime_dir rt)), (''GATEFS_LOG_DIR'', Some (rt_log_dir rt)),
                    (''GATEFS_SOCKET'', None)]
      | None \<Rightarrow> [])"

definition edit_pending_command_with_options ::
  "'c tui_tools \<Rightarrow> string \<Rightarrow> nat \<Rightarrow> string \<Rightarrow> string option \<Rightarrow> runtime_paths option \<Rightarrow> 'c \<Rightarrow> string res \<times> 'c"
where
  "edit_pending_command_with_options T name i edited gatefs_bin runtime c =
     (case tt_shlex_split T edited of
        None \<Rightarrow> (Inl (Message ''could not parse edit command''), c)
      | Some [] \<Rightarrow> (Inl (Message ''edit command is empty''), c)
      | Some (command # argv) \<Rightarrow>
          if command \<notin> {''chmod'', ''chown'', ''chattr''}
          then (Inl (Message ''edit command must start with chmod, chown, or chattr''), c)
          else
            (case tt_status T c (gatefs_command T gatefs_bin) ([name, command] @ argv) (apply_runtime_env runtime) of
               (Inl e, c) \<Rightarrow> (Inl (Io e), c)
             | (Inr status, c) \<Rightarrow>
                 if \<not> es_success status then (Inr (''edited command failed with '' @ es_text status), c)
                 else
                   (case tt_status T c (gatefs_command T gatefs_bin) [name, ''allow'', ''--do-nothing'', show_nat i]
                           (apply_runtime_env runtime) of
                      (Inl e, c) \<Rightarrow> (Inl (Io e), c)
                    | (Inr status, c) \<Rightarrow>
                        (Inr (if es_success status then ''edited command applied''
                              else ''edited command applied, but original request was not released: '' @ es_text status),
                         c))))"

definition edit_with_external_editor :: "'c client \<Rightarrow> 'c tui_tools \<Rightarrow> string \<Rightarrow> 'c \<Rightarrow> string res \<times> 'c" where
  "edit_with_external_editor C T current c =
     (case (case tt_env T ''VISUAL'' of Some v \<Rightarrow> Some v | None \<Rightarrow> tt_env T ''EDITOR'') of
        None \<Rightarrow> (Inl (Message ''set GATEFS_EDIT_COMMAND or EDITOR to edit commands''), c)
      | Some editor \<Rightarrow>
          (case tt_discover T c of
             (Inl e, c) \<Rightarrow> (Inl e, c)
           | (Inr rt, c) \<Rightarrow>
               let path = path_join (path_join (rt_runtime_dir rt) ''tmp'')
                     (''edit-'' @ show_nat (tt_process_id T) @ ''-'' @ show_nat (cl_clock C c) @ ''.txt'')
               in case tt_write_file T c path (current @ newline) of
                    (Inl e, c) \<Rightarrow> (Inl (Io e), c)
                  | (Inr _, c) \<Rightarrow>
                      (case tt_status T c editor [path] [] of
                         (Inl e, c) \<Rightarrow> (Inl (Io e), c)
                       | (Inr status, c) \<Rightarrow>
                           if \<not> es_success status
                           then (Inl (Message (''editor exited with '' @ es_text status)), tt_remove_file T c path)
                           else
                             (case cl_read_to_string C c path of
                                (Inl e, c) \<Rightarrow> (Inl (Io e), c)
                              | (Inr edited, c) \<Rightarrow> (Inr (str_trim edited), tt_remove_file T c path)))))"

definition edit_pending_command ::
  "'c client \<Rightarrow> 'c tui_tools \<Rightarrow> string \<Rightarrow> nat \<Rightarrow> string \<Rightarrow> 'c \<Rightarrow> string res \<times> 'c"
where
  "edit_pending_command C T name i current c =
     (case tt_env T ''GATEFS_EDIT_COMMAND'' of
        Some edited \<Rightarrow> edit_pending_command_with_options T name i edited None None c
      | None \<Rightarrow>
          (case edit_with_external_editor C T current c of
             (Inr edited, c) \<Rightarrow> edit_pending_command_with_options T name i edited None None c
           | (Inl _, c) \<Rightarrow> (Inl (Message ''no edit command was provided''), c)))"

section \<open>The loop\<close>

datatype key_code = KeyChar char | KeyUp | KeyDown | KeyOther

record tui_state =
  ui_selected :: nat
  ui_message :: string

datatype tui_next = TuiQuit nat | TuiGoOn tui_state

definition clamp_selected :: "nat \<Rightarrow> pending_request list \<Rightarrow> nat" where
  "clamp_selected selected pending =
     (if length pending \<le> selected \<and> pending \<noteq> [] then length pending - 1 else selected)"

definition act_on ::
  "'c client \<Rightarrow> runtime_paths \<Rightarrow> string \<Rightarrow> pending_action \<Rightarrow> pending_request list \<Rightarrow> tui_state \<Rightarrow> 'c \<Rightarrow>
   tui_next res \<times> 'c"
where
  "act_on C rt name action pending st c =
     (case vec_get pending (ui_selected st) of
        None \<Rightarrow> (Inr (TuiGoOn st), c)
      | Some p \<Rightarrow>
          (case resolve_pending_action C rt name (pending_id p) action c of
             (Inl e, c) \<Rightarrow> (Inl e, c)
           | (Inr message, c) \<Rightarrow> (Inr (TuiGoOn (st\<lparr>ui_message := message\<rparr>)), c)))"

definition edit_on ::
  "'c client \<Rightarrow> 'c tui_tools \<Rightarrow> string \<Rightarrow> pending_request list \<Rightarrow> tui_state \<Rightarrow> 'c \<Rightarrow> tui_next res \<times> 'c"
where
  "edit_on C T name pending st c =
     (case vec_get pending (ui_selected st) of
        None \<Rightarrow> (Inr (TuiGoOn st), c)
      | Some p \<Rightarrow>
          (case metadata_shell_hint p of
             None \<Rightarrow> (Inr (TuiGoOn (st\<lparr>ui_message := ''edit is only available for metadata requests''\<rparr>)), c)
           | Some command \<Rightarrow>
               (case edit_pending_command C T name (pending_id p) command c of
                  (Inl e, c) \<Rightarrow> (Inl e, c)
                | (Inr message, c) \<Rightarrow> (Inr (TuiGoOn (st\<lparr>ui_message := message\<rparr>)), c))))"

fun handle_key ::
  "'c client \<Rightarrow> 'c tui_tools \<Rightarrow> runtime_paths \<Rightarrow> string \<Rightarrow> pending_request list \<Rightarrow> tui_state \<Rightarrow> key_code option \<Rightarrow> 'c \<Rightarrow>
   tui_next res \<times> 'c"
where
  "handle_key C T rt name pending st None c = (Inr (TuiGoOn st), c)"
| "handle_key C T rt name pending st (Some KeyDown) c =
     (Inr (TuiGoOn (st\<lparr>ui_selected := min (ui_selected st + 1) (length pending - 1)\<rparr>)), c)"
| "handle_key C T rt name pending st (Some KeyUp) c = (Inr (TuiGoOn (st\<lparr>ui_selected := ui_selected st - 1\<rparr>)), c)"
| "handle_key C T rt name pending st (Some KeyOther) c = (Inr (TuiGoOn st), c)"
| "handle_key C T rt name pending st (Some (KeyChar ch)) c =
     (if ch = CHR ''q'' then (Inr (TuiQuit 0), c)
      else if ch = CHR ''a'' then act_on C rt name ActAllow pending st c
      else if ch = CHR ''n'' then act_on C rt name ActDoNothing pending st c
      else if ch = CHR ''d'' then act_on C rt name ActDeny pending st c
      else if ch = CHR ''e'' then edit_on C T name pending st c
      else (Inr (TuiGoOn st), c))"

text \<open>Asking for the pending requests, as \<^verbatim>\<open>run\<close> does once and \<^verbatim>\<open>run_loop\<close> in every turn.\<close>

definition fetch_pending :: "'c client \<Rightarrow> runtime_paths \<Rightarrow> string \<Rightarrow> 'c \<Rightarrow> pending_request list res \<times> 'c" where
  "fetch_pending C rt name c =
     (case contact C rt name (Pending name) c of
        (Inl e, c) \<Rightarrow> (Inl e, c)
      | (Inr response, c) \<Rightarrow>
          ((case response of
              ResponsePending items \<Rightarrow> Inr items
            | ResponseError m \<Rightarrow> Inl (Message m)
            | ResponseWarning m \<Rightarrow> Inl (Message m)
            | other \<Rightarrow> Inl (unexpected_response C other)), c))"

text \<open>One turn, with the key that was pressed in it, if one was: the frame drawn, what comes next
  and the surroundings after.\<close>

definition tui_turn ::
  "'c client \<Rightarrow> 'c tui_tools \<Rightarrow> runtime_paths \<Rightarrow> string \<Rightarrow> tui_state \<Rightarrow> key_code option \<Rightarrow> 'c \<Rightarrow>
   tui_frame option \<times> tui_next res \<times> 'c"
where
  "tui_turn C T rt name st key c =
     (case fetch_pending C rt name c of
        (Inl e, c) \<Rightarrow> (None, Inl e, c)
      | (Inr pending, c) \<Rightarrow>
          let st = st\<lparr>ui_selected := clamp_selected (ui_selected st) pending\<rparr>
          in (Some (draw_pending pending (ui_selected st) (ui_message st)), handle_key C T rt name pending st key c))"

text \<open>\<^verbatim>\<open>run_loop\<close> on the keys pressed turn by turn; no result while it is running.\<close>

fun run_loop ::
  "'c client \<Rightarrow> 'c tui_tools \<Rightarrow> runtime_paths \<Rightarrow> string \<Rightarrow> key_code option list \<Rightarrow> tui_state \<Rightarrow> 'c \<Rightarrow>
   nat res option \<times> 'c"
where
  "run_loop C T rt name [] st c = (None, c)"
| "run_loop C T rt name (key # keys) st c =
     (case tui_turn C T rt name st key c of
        (_, Inl e, c) \<Rightarrow> (Some (Inl e), c)
      | (_, Inr (TuiQuit code), c) \<Rightarrow> (Some (Inr code), c)
      | (_, Inr (TuiGoOn st), c) \<Rightarrow> run_loop C T rt name keys st c)"

definition run_tui ::
  "'c client \<Rightarrow> 'c tui_tools \<Rightarrow> string \<Rightarrow> key_code option list \<Rightarrow> 'c \<Rightarrow> nat res option \<times> 'c"
where
  "run_tui C T name keys c =
     (case tt_discover T c of
        (Inl e, c) \<Rightarrow> (Some (Inl e), c)
      | (Inr rt, c) \<Rightarrow>
          (case fetch_pending C rt name c of
             (Inl e, c) \<Rightarrow> (Some (Inl e), c)
           | (Inr _, c) \<Rightarrow> run_loop C T rt name keys \<lparr>ui_selected = 0, ui_message = []\<rparr> c))"

end
