(* ===== verification/Serve.thy ===== *)
theory Serve
  imports Server Client_Safety Tui
begin

text \<open>
  \<^verbatim>\<open>serve_session\<close> of \<^verbatim>\<open>src/session.rs\<close> and the ways to it: the server from its socket to the final
  destroy, with its main thread and a thread for every connection, and a client whose socket is
  answered by a session, which puts the command line and the terminal interface together with the
  server. The socket calls, the signal handlers and the file systems are parameters.
\<close>

section \<open>The server\<close>

text \<open>
  The thread of a connection runs the sections of its request (\<open>Threads\<close>), or has an error to answer
  when no request could be read; then it writes the response. It knows whether the request is a
  shutdown.
\<close>

datatype 'h conn =
    Running bool "'h thread"
  | Finished bool "response res"

definition connection :: "'h env \<Rightarrow> request res \<Rightarrow> 'h conn" where
  "connection E request =
     (case request of
        Inl e \<Rightarrow> Running False (Answered (Inl e))
      | Inr q \<Rightarrow> Running (is_shutdown q) (request_thread E q))"

text \<open>
  The main thread is about to test the flag of the loop, in \<^verbatim>\<open>accept\<close>, in the destroy after the loop, or
  has returned.
\<close>

datatype 'h main_thread =
    Testing
  | Accepting
  | Finishing "'h thread"
  | Returned "unit res"

record 'h serving =
  sg_system :: "'h system"
  sg_conns :: "'h conn list"
  sg_stop :: bool
  sg_main :: "'h main_thread"

abbreviation sg_session :: "'h serving \<Rightarrow> 'h session" where
  "sg_session v \<equiv> sy_session (sg_system v)"

text \<open>
  What happens, in any order: \<^verbatim>\<open>accept\<close> gives a connection, with the request read from it or the error
  of reading it, or would block, or fails; the main thread or a connection takes its next step, a
  connection found by its place in the list, newest first; a mounted file system takes a step; a signal.
\<close>

datatype 'h serve_event =
    Accept "request res"
  | Idle
  | AcceptFailed io_error
  | MainTurn
  | Turn nat
  | Others "'h system \<Rightarrow> 'h system"
  | StopSignal

text \<open>A section of a thread on the session; none when it does not end.\<close>

definition take_section ::
  "('h session \<Rightarrow> ('h thread \<times> 'h session) option) \<Rightarrow> 'h serving \<Rightarrow> ('h thread \<times> 'h serving) option"
where
  "take_section f v =
     (case f (sg_session v) of
        None \<Rightarrow> None
      | Some (t, S) \<Rightarrow> Some (t, v\<lparr>sg_system := (sg_system v)\<lparr>sy_session := S\<rparr>\<rparr>))"

text \<open>The main thread: \<^verbatim>\<open>while !stop\<close>, then the destroy; an error of it with a message only is ignored,
  and unless there is another the socket is removed.\<close>

definition remove_socket :: "'h env \<Rightarrow> runtime_paths \<Rightarrow> string \<Rightarrow> 'h serving \<Rightarrow> 'h serving" where
  "remove_socket E rt name v =
     (let S = sg_session v;
          h = snd (os_remove_file (env_os E) (w_host (ss_world S)) (socket_path rt name))
      in v\<lparr>sg_system := (sg_system v)\<lparr>sy_session := S\<lparr>ss_world := (ss_world S)\<lparr>w_host := h\<rparr>\<rparr>\<rparr>\<rparr>)"

definition main_turn :: "'h env \<Rightarrow> runtime_paths \<Rightarrow> string \<Rightarrow> 'h serving \<Rightarrow> 'h serving option" where
  "main_turn E rt name v =
     (case sg_main v of
        Testing \<Rightarrow> Some (v\<lparr>sg_main := if sg_stop v then Finishing (destroy_thread E name) else Accepting\<rparr>)
      | Finishing (Section ws f) \<Rightarrow> map_option (\<lambda>(t, v). v\<lparr>sg_main := Finishing t\<rparr>) (take_section f v)
      | Finishing (Answered (Inr _)) \<Rightarrow> Some ((remove_socket E rt name v)\<lparr>sg_main := Returned (Inr ())\<rparr>)
      | Finishing (Answered (Inl (Message _))) \<Rightarrow> Some ((remove_socket E rt name v)\<lparr>sg_main := Returned (Inr ())\<rparr>)
      | Finishing (Answered (Inl e)) \<Rightarrow> Some (v\<lparr>sg_main := Returned (Inl e)\<rparr>)
      | _ \<Rightarrow> Some v)"

text \<open>A connection: a section of its request, or the response and, for a shutdown that is answered with
  \<^verbatim>\<open>Ok\<close>, the flag of the loop.\<close>

definition conn_turn :: "nat \<Rightarrow> 'h serving \<Rightarrow> 'h serving option" where
  "conn_turn i v =
     (if i < length (sg_conns v)
      then case sg_conns v ! i of
             Running shutdown (Section ws f) \<Rightarrow>
               map_option (\<lambda>(t, v). v\<lparr>sg_conns := (sg_conns v)[i := Running shutdown t]\<rparr>) (take_section f v)
           | Running shutdown (Answered r) \<Rightarrow>
               Some (v\<lparr>sg_conns := (sg_conns v)[i := Finished shutdown r],
                       sg_stop := sg_stop v \<or> (shutdown \<and> r = Inr ResponseOk)\<rparr>)
           | Finished shutdown r \<Rightarrow> Some v
      else Some v)"

text \<open>A step of the server. What cannot happen in a state changes nothing; once the main thread has
  returned the process is gone.\<close>

fun serve_step ::
  "'h env \<Rightarrow> runtime_paths \<Rightarrow> string \<Rightarrow> 'h serve_event \<Rightarrow> 'h serving \<Rightarrow> 'h serving option"
where
  "serve_step E rt name event v =
     (case sg_main v of
        Returned r \<Rightarrow> Some v
      | main \<Rightarrow>
          (case event of
             Accept request \<Rightarrow>
               (case main of
                  Accepting \<Rightarrow> Some (v\<lparr>sg_conns := connection E request # sg_conns v, sg_main := Testing\<rparr>)
                | _ \<Rightarrow> Some v)
           | Idle \<Rightarrow> (case main of Accepting \<Rightarrow> Some (v\<lparr>sg_main := Testing\<rparr>) | _ \<Rightarrow> Some v)
           | AcceptFailed e \<Rightarrow> (case main of Accepting \<Rightarrow> Some (v\<lparr>sg_main := Returned (Inl (Io e))\<rparr>) | _ \<Rightarrow> Some v)
           | MainTurn \<Rightarrow> main_turn E rt name v
           | Turn i \<Rightarrow> conn_turn i v
           | Others f \<Rightarrow> Some (v\<lparr>sg_system := f (sg_system v)\<rparr>)
           | StopSignal \<Rightarrow> Some (v\<lparr>sg_stop := True\<rparr>)))"

fun serve_events ::
  "'h env \<Rightarrow> runtime_paths \<Rightarrow> string \<Rightarrow> 'h serve_event list \<Rightarrow> 'h serving \<Rightarrow> 'h serving option"
where
  "serve_events E rt name [] v = Some v"
| "serve_events E rt name (e # es) v =
     (case serve_step E rt name e v of None \<Rightarrow> None | Some v \<Rightarrow> serve_events E rt name es v)"

text \<open>A connection whose thread runs alone: its response, whether it stops the loop, and the session after.\<close>

definition serve_connection ::
  "(io_error \<Rightarrow> string) \<Rightarrow> 'h env \<Rightarrow> request res \<Rightarrow> 'h session \<Rightarrow> (response \<times> bool \<times> 'h session) option"
where
  "serve_connection io_text E request S =
     (case request of
        Inl e \<Rightarrow> Some (ResponseError (error_text io_text e), False, S)
      | Inr q \<Rightarrow>
          (case handle io_text E q S of
             None \<Rightarrow> None
           | Some (response, S) \<Rightarrow> Some (response, is_shutdown q \<and> response = ResponseOk, S)))"

record 'h socket_api =
  so_ping :: "'h \<Rightarrow> string \<Rightarrow> response res"
  so_bind :: "'h \<Rightarrow> string \<Rightarrow> (io_error + unit) \<times> 'h"
  so_signals :: "'h \<Rightarrow> (io_error + unit) \<times> 'h"

definition prepare_socket_path :: "'h os \<Rightarrow> 'h socket_api \<Rightarrow> string \<Rightarrow> 'h \<Rightarrow> unit res \<times> 'h" where
  "prepare_socket_path S K socket h =
     (case so_ping K h socket of
        Inr _ \<Rightarrow> (Inl (Message (''sandbox session socket is already active: '' @ to_string_lossy socket)), h)
      | Inl _ \<Rightarrow>
          if os_exists S h socket
          then (case os_remove_file S h socket of
                  (Inr _, h) \<Rightarrow> (Inr (), h)
                | (Inl e, h) \<Rightarrow> (if e = Some 2 then Inr () else Inl (Io e), h))
          else (Inr (), h))"

text \<open>Everything before the loop: the session, or why there is none.\<close>

definition start_session ::
  "'h env \<Rightarrow> 'h socket_api \<Rightarrow> runtime_paths \<Rightarrow> string \<Rightarrow> 'h \<Rightarrow> 'h session res \<times> 'h"
where
  "start_session E K rt name h =
     (let socket = socket_path rt name in
      case (case path_parent socket of
              Some dir \<Rightarrow> (case os_create_dir_all (env_os E) h dir of (r, h) \<Rightarrow> (map_err Io r, h))
            | None \<Rightarrow> (Inr (), h)) of
        (Inl e, h) \<Rightarrow> (Inl e, h)
      | (Inr _, h) \<Rightarrow>
          (case prepare_socket_path (env_os E) K socket h of
             (Inl e, h) \<Rightarrow> (Inl e, h)
           | (Inr _, h) \<Rightarrow>
               (case so_bind K h socket of
                  (Inl e, h) \<Rightarrow> (Inl (Io e), h)
                | (Inr _, h) \<Rightarrow>
                    (case create_initial E name (new_state rt h) of
                       (Inl e, S) \<Rightarrow> (Inl e, snd (os_remove_file (env_os E) (w_host (ss_world S)) socket))
                     | (Inr _, S) \<Rightarrow>
                         (case so_signals K (w_host (ss_world S)) of
                            (Inl e, h) \<Rightarrow> (Inl (Io e), h)
                          | (Inr _, h) \<Rightarrow> (Inr (S\<lparr>ss_world := (ss_world S)\<lparr>w_host := h\<rparr>\<rparr>), h))))))"

definition begin_serving :: "'h session \<Rightarrow> 'h serving" where
  "begin_serving S =
     \<lparr>sg_system = \<lparr>sy_session = S, sy_calls = []\<rparr>, sg_conns = [], sg_stop = False, sg_main = Testing\<rparr>"

text \<open>\<^verbatim>\<open>serve_session\<close>: the error that there is no server, or the server after the events.\<close>

definition serve_session ::
  "'h env \<Rightarrow> 'h socket_api \<Rightarrow> runtime_paths \<Rightarrow> string \<Rightarrow> 'h serve_event list \<Rightarrow> 'h \<Rightarrow> (error + 'h serving) option"
where
  "serve_session E K rt name events h =
     (case start_session E K rt name h of
        (Inl e, _) \<Rightarrow> Some (Inl e)
      | (Inr S, _) \<Rightarrow> map_option Inr (serve_events E rt name events (begin_serving S)))"

definition serve_banner :: "runtime_paths \<Rightarrow> string \<Rightarrow> string list" where
  "serve_banner rt name =
     [''gatefs '' @ name @ '' running'',
      ''socket: '' @ to_string_lossy (socket_path rt name),
      ''log:    '' @ to_string_lossy (sandbox_log_path rt name),
      ''press Ctrl-C or run `gatefs '' @ name @ '' destroy` to stop'']"

section \<open>A client connected to a session\<close>

text \<open>
  \<^verbatim>\<open>ipc::send\<close> to a running session: the request is handled and its response returned. A
  response that never comes is an error here; only allowing with a grant can wait for ever.
\<close>

definition session_send ::
  "(io_error \<Rightarrow> string) \<Rightarrow> 'h env \<Rightarrow> 'h session \<Rightarrow> string \<Rightarrow> request \<Rightarrow> response res \<times> 'h session"
where
  "session_send io_text E S socket q =
     (case handle io_text E q S of
        Some (response, S) \<Rightarrow> (Inr response, S)
      | None \<Rightarrow> (Inl (Io None), S))"

definition connected :: "(io_error \<Rightarrow> string) \<Rightarrow> 'h env \<Rightarrow> 'h session client \<Rightarrow> bool" where
  "connected io_text E C \<longleftrightarrow> cl_send C = session_send io_text E"

lemma contact_connected:
  assumes "connected io_text E C" and "handle io_text E q S = Some (response, S')"
  shows "contact C rt name q S = (Inr response, S')"
  using assms by (simp add: contact_def connected_def session_send_def)

section \<open>A connection alone\<close>

text \<open>Run without interruption the thread of a connection is the handling of its request.\<close>

definition respond :: "(io_error \<Rightarrow> string) \<Rightarrow> response res \<Rightarrow> response" where
  "respond io_text r = (case r of Inl e \<Rightarrow> ResponseError (error_text io_text e) | Inr response \<Rightarrow> response)"

lemma serve_step_turn: "(\<And>r. sg_main v \<noteq> Returned r) \<Longrightarrow> serve_step E rt name (Turn i) v = conn_turn i v"
  by (simp split: main_thread.split)

lemma serve_step_main: "(\<And>r. sg_main v \<noteq> Returned r) \<Longrightarrow> serve_step E rt name MainTurn v = main_turn E rt name v"
  by (simp split: main_thread.split)

lemma conn_runs:
  assumes "run_thread t (sg_session v) = Some (r, S)" and "i < length (sg_conns v)" and "sg_conns v ! i = Running shutdown t"
    and "\<And>r. sg_main v \<noteq> Returned r"
  shows "\<exists>n. serve_events E rt name (replicate n (Turn i)) v =
    Some (v\<lparr>sg_system := (sg_system v)\<lparr>sy_session := S\<rparr>, sg_conns := (sg_conns v)[i := Finished shutdown r],
            sg_stop := sg_stop v \<or> (shutdown \<and> r = Inr ResponseOk)\<rparr>)"
  using assms
proof (induction t arbitrary: v)
  case (Answered r')
  then show ?case
    by (intro exI [of _ 1]) (simp add: serve_step_turn conn_turn_def del: serve_step.simps)
next
  case (Section ws f)
  then obtain t S1 where f: "f (sg_session v) = Some (t, S1)" and rest: "run_thread t S1 = Some (r, S)"
    by (auto split: option.splits)
  let ?v = "v\<lparr>sg_system := (sg_system v)\<lparr>sy_session := S1\<rparr>, sg_conns := (sg_conns v)[i := Running shutdown t]\<rparr>"
  have step: "serve_step E rt name (Turn i) v = Some ?v"
    using Section.prems(2-4) f by (simp add: serve_step_turn conn_turn_def take_section_def del: serve_step.simps)
  have "t \<in> Basic_BNFs.fsts (t, S1)" "(t, S1) \<in> Option.set_option (f (sg_session v))" by (simp_all add: f)
  from Section.IH [OF rangeI this(2,1), of ?v] rest Section.prems(2-4)
  obtain n where "serve_events E rt name (replicate n (Turn i)) ?v =
    Some (v\<lparr>sg_system := (sg_system v)\<lparr>sy_session := S\<rparr>, sg_conns := (sg_conns v)[i := Finished shutdown r],
            sg_stop := sg_stop v \<or> (shutdown \<and> r = Inr ResponseOk)\<rparr>)" by auto
  with step show ?case by (intro exI [of _ "Suc n"]) (simp del: serve_step.simps)
qed

lemma connection_alone:
  assumes "serve_connection io_text E request (sg_session v) = Some (response, stop, S)" and "sg_main v = Testing"
  shows "\<exists>n r. serve_events E rt name (replicate n (Turn 0)) (v\<lparr>sg_conns := connection E request # sg_conns v\<rparr>) =
      Some (v\<lparr>sg_system := (sg_system v)\<lparr>sy_session := S\<rparr>,
              sg_conns := Finished (\<exists>q. request = Inr q \<and> is_shutdown q) r # sg_conns v, sg_stop := sg_stop v \<or> stop\<rparr>)
    \<and> respond io_text r = response"
proof -
  let ?v = "v\<lparr>sg_conns := connection E request # sg_conns v\<rparr>" and ?s = "\<exists>q. request = Inr q \<and> is_shutdown q"
  obtain t r where t: "connection E request = Running ?s t" "run_thread t (sg_session v) = Some (r, S)"
      "respond io_text r = response" "stop = (?s \<and> r = Inr ResponseOk)"
  proof (cases request)
    case (Inl e)
    then show thesis using assms(1) by (intro that [of "Answered (Inl e)" "Inl e"])
      (simp_all add: connection_def serve_connection_def respond_def)
  next
    case (Inr q)
    then obtain r where r: "handle_result E q (sg_session v) = Some (r, S)" "response = respond io_text r"
        "stop = (is_shutdown q \<and> response = ResponseOk)"
      using assms(1) by (auto simp: serve_connection_def handle_def respond_def split: option.splits)
    have "response = ResponseOk \<longleftrightarrow> r = Inr ResponseOk" using r(2) by (auto simp: respond_def split: sum.splits)
    with r Inr sections_are_the_request [of E q "sg_session v"] show thesis
      by (intro that [of "request_thread E q" r]) (simp_all add: connection_def del: request_thread.simps)
  qed
  from conn_runs [of t ?v r S 0 ?s E rt name] t(1,2) assms(2) obtain n where
    "serve_events E rt name (replicate n (Turn 0)) ?v =
      Some (?v\<lparr>sg_system := (sg_system ?v)\<lparr>sy_session := S\<rparr>, sg_conns := (sg_conns ?v)[0 := Finished ?s r],
            sg_stop := sg_stop ?v \<or> (?s \<and> r = Inr ResponseOk)\<rparr>)" by auto
  with t(3,4) show ?thesis by (intro exI [of _ n] exI [of _ r]) simp
qed

section \<open>Decisions from the terminal interface\<close>

fun action_decision :: "pending_action \<Rightarrow> pending_decision" where
  "action_decision ActAllow = Apply"
| "action_decision ActDoNothing = DoNothing"
| "action_decision ActDeny = Deny"

definition key_action :: "char \<Rightarrow> pending_action option" where
  "key_action ch =
     (if ch = CHR ''a'' then Some ActAllow else if ch = CHR ''n'' then Some ActDoNothing
      else if ch = CHR ''d'' then Some ActDeny else None)"

lemma action_handled:
  "handle_result E (action_request name i action) S =
     Some (fst (session_decide E (action_decision action) name i (ss_world S)),
           S\<lparr>ss_world := snd (session_decide E (action_decision action) name i (ss_world S))\<rparr>)"
  by (cases action) (simp_all add: session_allow_def session_decide_def in_world_def split_beta)

lemma resolve_connected:
  assumes "connected io_text E C"
  shows "\<exists>m. resolve_pending_action C rt name i action S =
    (Inr m, S\<lparr>ss_world := snd (session_decide E (action_decision action) name i (ss_world S))\<rparr>)"
  using contact_connected [OF assms, of "action_request name i action" S]
  by (simp add: resolve_pending_action_def handle_def action_handled)

lemma fetch_connected:
  assumes "connected io_text E C" and "get_sandbox name (ss_world S) \<noteq> None"
  shows "fetch_pending C rt name S = (Inr (pending_requests_for_sandbox name (w_registry (ss_world S))), S)"
  using contact_connected [OF assms(1), of "Pending name" S] assms(2)
  by (simp add: fetch_pending_def handle_def in_world_def session_pending_def)

lemma handle_key_action:
  assumes "key_action ch = Some action"
  shows "handle_key C T rt name pending st (Some (KeyChar ch)) c = act_on C rt name action pending st c"
  using assms by (auto simp: key_action_def split: if_splits)

lemma clamp_selected_below: "pending \<noteq> [] \<Longrightarrow> clamp_selected k pending < length pending"
  by (cases pending) (auto simp: clamp_selected_def)

lemma drawn_row:
  assumes "k < length pending"
  shows "fr_rows (draw_pending pending k m) ! k = format_pending_row (pending ! k)"
    and "fr_operation (draw_pending pending k m) = format_selected_pending (pending ! k)"
    and "fr_reversed (draw_pending pending k m) = map (\<lambda>n. n = k) [0..<length (fr_rows (draw_pending pending k m))]"
  using assms by (simp_all add: draw_pending_def vec_get_def)

section \<open>The server is the machine of its threads\<close>

text \<open>The threads of the server that have sections left, and the machine of \<open>Server\<close> with the same ones.\<close>

fun going :: "'h thread \<Rightarrow> bool" where
  "going (Answered r) \<longleftrightarrow> False"
| "going (Section ws f) \<longleftrightarrow> True"

fun conn_thread :: "'h conn \<Rightarrow> 'h thread" where
  "conn_thread (Running shutdown t) = t"
| "conn_thread (Finished shutdown r) = Answered r"

fun main_part :: "'h main_thread \<Rightarrow> 'h thread list" where
  "main_part (Finishing t) = [t]"
| "main_part _ = []"

definition sg_threads :: "'h serving \<Rightarrow> 'h thread list" where
  "sg_threads v = main_part (sg_main v) @ map conn_thread (sg_conns v)"

definition mirrors :: "'h server \<Rightarrow> 'h serving \<Rightarrow> bool" where
  "mirrors u v \<longleftrightarrow> sv_system u = sg_system v \<and> filter going (sv_threads u) = filter going (sg_threads v)"

text \<open>
  The events of a run: requests are well-formed, and a file system takes its own steps or none, from
  the moment it is mounted until it is unmounted, so the list of mounts does not restrict it.
\<close>

fun event_ok :: "'h env \<Rightarrow> 'h serve_event \<Rightarrow> bool" where
  "event_ok E (Accept (Inr q)) \<longleftrightarrow> wf_request q"
| "event_ok E (Others f) \<longleftrightarrow>
     (\<forall>y. f y = y \<or> (\<exists>ms z. call_step E (with_mounts ms y) z \<and> f y = with_mounts (ss_mounts (sy_session y)) z))"
| "event_ok E _ \<longleftrightarrow> True"

lemma filter_split:
  assumes "filter P xs = us @ x # vs"
  shows "\<exists>as bs. xs = as @ x # bs \<and> filter P as = us \<and> filter P bs = vs"
  using assms
proof (induction xs arbitrary: us)
  case (Cons y xs)
  show ?case
  proof (cases "P y \<and> us = []")
    case True
    with Cons.prems show ?thesis by (intro exI [of _ "[]"] exI [of _ xs]) auto
  next
    case False
    then obtain us' where us': "filter P xs = us' @ x # vs" "us = (if P y then y # us' else us')"
      using Cons.prems by (cases "P y"; cases us) auto
    from Cons.IH [OF us'(1)] obtain as bs where "xs = as @ x # bs" "filter P as = us'" "filter P bs = vs" by blast
    with us'(2) show ?thesis by (intro exI [of _ "y # as"] exI [of _ bs]) simp
  qed
qed simp

lemma section_mirrored:
  assumes m: "mirrors u v" and ts: "sg_threads v = us @ Section ws f # vs" and f: "f (sg_session v) = Some (t, S)"
    and lives: "\<not> removes (ss_world (sg_session v)) (ss_world S)" and clock: "\<And>h. clock_ok (os_now (env_os E) h)"
    and v': "sg_system v' = (sg_system v)\<lparr>sy_session := S\<rparr>" "sg_threads v' = us @ t # vs"
  shows "\<exists>u'. (timed_server_step E)\<^sup>*\<^sup>* u u' \<and> mirrors u' v'"
proof -
  have "filter going (sv_threads u) = filter going us @ Section ws f # filter going vs" and sys: "sv_system u = sg_system v"
    using m by (simp_all add: mirrors_def ts)
  from filter_split [OF this(1)] obtain as bs where u: "sv_threads u = as @ Section ws f # bs" "filter going as = filter going us"
    "filter going bs = filter going vs" by blast
  let ?u = "\<lparr>sv_system = (sv_system u)\<lparr>sy_session := S\<rparr>, sv_threads = as @ t # bs\<rparr>"
  have "server_step E u ?u" using server_step.go_on [OF u(1)] f lives sys by simp
  then have "(timed_server_step E)\<^sup>*\<^sup>* u ?u" using clock by (auto simp: timed_server_step_def)
  moreover have "mirrors ?u v'" using u sys v' by (simp add: mirrors_def)
  ultimately show ?thesis by blast
qed

lemma arrival_mirrored:
  assumes m: "mirrors u v" and "wf_request q" and clock: "\<And>h. clock_ok (os_now (env_os E) h)"
    and v': "sg_system v' = sg_system v" "filter going (sg_threads v') = filter going (request_thread E q # sg_threads v)"
  shows "\<exists>u'. (timed_server_step E)\<^sup>*\<^sup>* u u' \<and> mirrors u' v'"
proof -
  let ?u = "u\<lparr>sv_threads := request_thread E q # sv_threads u\<rparr>"
  have "(timed_server_step E)\<^sup>*\<^sup>* u ?u"
    using server_step.arrive [OF assms(2), where E = E and v = u] clock by (auto simp: timed_server_step_def)
  moreover have "mirrors ?u v'" using m v' by (simp add: mirrors_def del: request_thread.simps)
  ultimately show ?thesis by blast
qed

lemma same_mirrored: "mirrors u v \<Longrightarrow> sg_system v' = sg_system v \<Longrightarrow> filter going (sg_threads v') = filter going (sg_threads v) \<Longrightarrow>
   \<exists>u'. (timed_server_step E)\<^sup>*\<^sup>* u u' \<and> mirrors u' v'"
  by (intro exI [of _ u]) (simp add: mirrors_def)

lemma main_turn_mirrored:
  assumes run: "main_turn E rt name v = Some v'" and m: "mirrors u v" and clock: "\<And>h. clock_ok (os_now (env_os E) h)"
    and lives: "\<not> removes (ss_world (sg_session v)) (ss_world (sg_session v'))" and on: "\<nexists>r. sg_main v' = Returned r"
  shows "\<exists>u'. (timed_server_step E)\<^sup>*\<^sup>* u u' \<and> mirrors u' v'"
proof (cases "sg_main v")
  case Testing
  show ?thesis
  proof (cases "sg_stop v")
    case True
    with run Testing have v': "v' = v\<lparr>sg_main := Finishing (destroy_thread E name)\<rparr>" by (simp add: main_turn_def)
    show ?thesis
      by (rule arrival_mirrored [OF m _ clock, of "Shutdown name"]) (simp_all add: v' Testing sg_threads_def)
  next
    case False
    with run Testing have v': "v' = v\<lparr>sg_main := Accepting\<rparr>" by (simp add: main_turn_def)
    show ?thesis by (rule same_mirrored [OF m]) (simp_all add: v' Testing sg_threads_def)
  qed
next
  case (Finishing t)
  show ?thesis
  proof (cases t)
    case (Answered r)
    with run Finishing on show ?thesis by (auto simp: main_turn_def split: sum.splits error.splits)
  next
    case (Section ws f)
    then obtain t' S where f: "f (sg_session v) = Some (t', S)"
      and v': "v' = v\<lparr>sg_system := (sg_system v)\<lparr>sy_session := S\<rparr>, sg_main := Finishing t'\<rparr>"
      using run Finishing by (auto simp: main_turn_def take_section_def split: option.splits prod.splits)
    show ?thesis
      by (rule section_mirrored [where us = "[]" and ws = ws and f = f and vs = "map conn_thread (sg_conns v)" and t = t' and S = S])
        (use m f clock lives in \<open>simp_all add: v' Finishing Section sg_threads_def\<close>)
  qed
qed (use run m in \<open>auto simp: main_turn_def intro: same_mirrored\<close>)

lemma map_list_update_split:
  "i < length xs \<Longrightarrow> map g xs = map g (take i xs) @ g (xs ! i) # map g (drop (Suc i) xs)
   \<and> map g (xs[i := x]) = map g (take i xs) @ g x # map g (drop (Suc i) xs)"
  by (simp add: upd_conv_take_nth_drop flip: map_append list.map(2) id_take_nth_drop)

lemma conn_turn_mirrored:
  assumes run: "conn_turn i v = Some v'" and m: "mirrors u v" and clock: "\<And>h. clock_ok (os_now (env_os E) h)"
    and lives: "\<not> removes (ss_world (sg_session v)) (ss_world (sg_session v'))"
  shows "\<exists>u'. (timed_server_step E)\<^sup>*\<^sup>* u u' \<and> mirrors u' v'"
proof (cases "i < length (sg_conns v)")
  case False
  with run m show ?thesis by (auto simp: conn_turn_def intro: same_mirrored)
next
  case i: True
  note parts = map_list_update_split [OF i, of conn_thread]
  show ?thesis
  proof (cases "sg_conns v ! i")
    case (Finished shutdown r)
    with run m i show ?thesis by (auto simp: conn_turn_def intro: same_mirrored)
  next
    case (Running shutdown t)
    show ?thesis
    proof (cases t)
      case (Answered r)
      with run Running i have v': "v' = v\<lparr>sg_conns := (sg_conns v)[i := Finished shutdown r],
          sg_stop := sg_stop v \<or> (shutdown \<and> r = Inr ResponseOk)\<rparr>" by (simp add: conn_turn_def)
      show ?thesis
        by (rule same_mirrored [OF m]) (use parts Running Answered in \<open>simp_all add: v' sg_threads_def\<close>)
    next
      case (Section ws f)
      then obtain t' S where f: "f (sg_session v) = Some (t', S)"
        and v': "v' = v\<lparr>sg_system := (sg_system v)\<lparr>sy_session := S\<rparr>, sg_conns := (sg_conns v)[i := Running shutdown t']\<rparr>"
        using run Running i by (auto simp: conn_turn_def take_section_def split: option.splits prod.splits)
      show ?thesis
        by (rule section_mirrored [where us = "main_part (sg_main v) @ map conn_thread (take i (sg_conns v))" and ws = ws
              and f = f and vs = "map conn_thread (drop (Suc i) (sg_conns v))" and t = t' and S = S])
          (use m f clock lives parts Running Section in \<open>simp_all add: v' sg_threads_def\<close>)
    qed
  qed
qed

lemma step_mirrored:
  assumes run: "serve_step E rt name e v = Some v'" and ok: "event_ok E e" and m: "mirrors u v"
    and clock: "\<And>h. clock_ok (os_now (env_os E) h)"
    and lives: "\<not> removes (ss_world (sg_session v)) (ss_world (sg_session v'))" and on: "\<nexists>r. sg_main v' = Returned r"
  shows "\<exists>u'. (timed_server_step E)\<^sup>*\<^sup>* u u' \<and> mirrors u' v'"
proof -
  have before: "sg_main v \<noteq> Returned r" for r using run on by auto
  show ?thesis
  proof (cases e)
    case (Accept request)
    show ?thesis
    proof (cases "sg_main v")
      case Accepting
      then have v': "v' = v\<lparr>sg_conns := connection E request # sg_conns v, sg_main := Testing\<rparr>" using run Accept by simp
      show ?thesis
      proof (cases request)
        case (Inl err)
        show ?thesis by (rule same_mirrored [OF m]) (simp_all add: v' Inl Accepting connection_def sg_threads_def)
      next
        case (Inr q)
        show ?thesis
          by (rule arrival_mirrored [OF m _ clock, of q])
            (use ok Accept Inr in \<open>simp_all add: v' Accepting connection_def sg_threads_def del: request_thread.simps\<close>)
      qed
    qed (use run Accept m before in \<open>auto intro: same_mirrored\<close>)
  next
    case Idle
    then have "sg_system v' = sg_system v" "sg_threads v' = sg_threads v"
      using run before by (auto simp: sg_threads_def split: main_thread.splits)
    then show ?thesis using same_mirrored [OF m] by simp
  next
    case (AcceptFailed err)
    then have "v' = v" using run before on by (auto split: main_thread.splits)
    then show ?thesis using same_mirrored [OF m] by simp
  next
    case MainTurn
    then show ?thesis using main_turn_mirrored [OF _ m clock lives on] run before by (simp add: serve_step_main del: serve_step.simps)
  next
    case (Turn i)
    then show ?thesis using conn_turn_mirrored [OF _ m clock lives] run before by (simp add: serve_step_turn del: serve_step.simps)
  next
    case (Others f)
    then have v': "v' = v\<lparr>sg_system := f (sg_system v)\<rparr>" using run before by (auto split: main_thread.splits)
    have "f (sg_system v) = sg_system v \<or> (\<exists>ms z. call_step E (with_mounts ms (sg_system v)) z
        \<and> f (sg_system v) = with_mounts (ss_mounts (sg_session v)) z)"
      using ok unfolding Others event_ok.simps by (rule spec)
    then consider "f (sg_system v) = sg_system v" | ms z where "call_step E (with_mounts ms (sg_system v)) z"
        "f (sg_system v) = with_mounts (ss_mounts (sg_session v)) z" by blast
    then show ?thesis
    proof cases
      case 1
      with v' show ?thesis by (intro same_mirrored [OF m]) (simp_all add: sg_threads_def)
    next
      case 2
      have sys: "sv_system u = sg_system v" using m by (simp add: mirrors_def)
      let ?u = "u\<lparr>sv_system := with_mounts (ss_mounts (sy_session (sv_system u))) z\<rparr>"
      have "server_step E u ?u" by (rule server_step.call [of _ ms]) (use 2 sys in simp)
      then have "(timed_server_step E)\<^sup>*\<^sup>* u ?u" using clock by (auto simp: timed_server_step_def)
      moreover have "mirrors ?u v'" using m 2 by (simp add: mirrors_def v' sg_threads_def)
      ultimately show ?thesis by blast
    qed
  next
    case StopSignal
    then have "sg_system v' = sg_system v" "sg_threads v' = sg_threads v"
      using run before by (auto simp: sg_threads_def split: main_thread.splits)
    then show ?thesis using same_mirrored [OF m] by simp
  qed
qed

text \<open>The step a server leaves the machine with: it removes the sandbox, or the main thread returns.\<close>

definition leaves :: "'h serving \<Rightarrow> 'h serving \<Rightarrow> bool" where
  "leaves v v' \<longleftrightarrow> removes (ss_world (sg_session v)) (ss_world (sg_session v')) \<or> (\<exists>r. sg_main v' = Returned r)"

lemma events_mirrored:
  assumes "serve_events E rt name es v = Some v'" and "\<forall>e \<in> set es. event_ok E e" and "mirrors u v"
    and clock: "\<And>h. clock_ok (os_now (env_os E) h)"
  shows "(\<exists>u'. (timed_server_step E)\<^sup>*\<^sup>* u u' \<and> mirrors u' v')
    \<or> (\<exists>es1 e es2 v1 v2 u'. es = es1 @ e # es2 \<and> serve_events E rt name es1 v = Some v1 \<and> serve_step E rt name e v1 = Some v2
         \<and> (timed_server_step E)\<^sup>*\<^sup>* u u' \<and> mirrors u' v1 \<and> leaves v1 v2)"
  using assms(1-3)
proof (induction es arbitrary: v u)
  case (Cons e es)
  obtain v1 where step: "serve_step E rt name e v = Some v1" and rest: "serve_events E rt name es v1 = Some v'"
    using Cons.prems(1) by (auto simp del: serve_step.simps split: option.splits)
  show ?case
  proof (cases "leaves v v1")
    case True
    then show ?thesis using step Cons.prems(3)
      by (intro disjI2 exI [of _ "[]"] exI [of _ e] exI [of _ es] exI [of _ v] exI [of _ v1] exI [of _ u])
        (simp del: serve_step.simps)
  next
    case False
    then obtain u1 where u1: "(timed_server_step E)\<^sup>*\<^sup>* u u1" "mirrors u1 v1"
      using step_mirrored [OF step _ Cons.prems(3) clock] Cons.prems(2) by (auto simp: leaves_def)
    have "\<forall>e \<in> set es. event_ok E e" using Cons.prems(2) by simp
    from Cons.IH [OF rest this u1(2)] show ?thesis
    proof (elim disjE exE conjE)
      fix es1 e' es2 v2 v3 u'
      assume "es = es1 @ e' # es2" "serve_events E rt name es1 v1 = Some v2" "serve_step E rt name e' v2 = Some v3"
        "(timed_server_step E)\<^sup>*\<^sup>* u1 u'" "mirrors u' v2" "leaves v2 v3"
      with step u1(1) show ?thesis
        by (intro disjI2 exI [of _ "e # es1"] exI [of _ e'] exI [of _ es2] exI [of _ v2] exI [of _ v3] exI [of _ u'])
          (auto simp del: serve_step.simps)
    qed (use u1(1) in \<open>auto intro: rtranclp_trans\<close>)
  qed
qed auto

text \<open>A started session is one step of the machine away from a fresh one: the signal handlers.\<close>

lemma start_session_reached:
  assumes "start_session E K rt name h = (Inr S, h')" and clock: "\<And>h. clock_ok (os_now (env_os E) h)"
  shows "\<exists>s u. fresh_server E s \<and> (timed_server_step E)\<^sup>*\<^sup>* s u \<and> mirrors u (begin_serving S)"
proof -
  obtain h0 S0 h1 where c: "create_initial E name (new_state rt h0) = (Inr (), S0)"
    and S: "S = S0\<lparr>ss_world := (ss_world S0)\<lparr>w_host := h1\<rparr>\<rparr>"
    using assms by (auto simp: start_session_def Let_def split: prod.splits sum.splits)
  from c have new: "new_session E rt name h0 = Inr S0" by (simp add: new_session_def)
  let ?s = "\<lparr>sv_system = \<lparr>sy_session = S0, sy_calls = []\<rparr>, sv_threads = []\<rparr>"
  let ?u = "?s\<lparr>sv_system := \<lparr>sy_session = S, sy_calls = []\<rparr>\<rparr>"
  have "own_step (ss_world S0) (ss_world S)" by (simp add: S own_step_def)
  then have "call_step E (sv_system ?s) (with_world (sv_system ?s) (ss_world S))" by (intro call_step.act) simp
  then have "call_step E (with_mounts (ss_mounts S0) (sv_system ?s)) \<lparr>sy_session = S, sy_calls = []\<rparr>"
    by (simp add: with_mounts_def with_world_def S)
  from server_step.call [OF this] have "server_step E ?s ?u" by (simp add: with_mounts_def S)
  then have "(timed_server_step E)\<^sup>*\<^sup>* ?s ?u" using clock by (auto simp: timed_server_step_def)
  moreover have "fresh_server E ?s" using new by (auto simp: fresh_server_def fresh_system_def)
  moreover have "mirrors ?u (begin_serving S)" by (simp add: mirrors_def begin_serving_def sg_threads_def)
  ultimately show ?thesis by blast
qed

section \<open>Why and how a server ends\<close>

text \<open>Why the main thread has left its loop, or is about to.\<close>

definition stop_reason :: "'h serve_event list \<Rightarrow> 'h serving \<Rightarrow> bool" where
  "stop_reason es v \<longleftrightarrow> StopSignal \<in> set es \<or> Finished True (Inr ResponseOk) \<in> set (sg_conns v)"

definition has_reason :: "'h serve_event list \<Rightarrow> 'h serving \<Rightarrow> bool" where
  "has_reason es v \<longleftrightarrow>
     (sg_stop v \<longrightarrow> stop_reason es v)
     \<and> (case sg_main v of
          Finishing t \<Rightarrow> stop_reason es v
        | Returned r \<Rightarrow> stop_reason es v \<or> (\<exists>e. AcceptFailed e \<in> set es \<and> r = Inl (Io e))
        | _ \<Rightarrow> True)"

lemma finished_stays:
  assumes "conn_turn i v = Some v'" and "Finished s r \<in> set (sg_conns v)"
  shows "Finished s r \<in> set (sg_conns v')"
proof -
  have keep: "Finished s r \<in> set ((sg_conns v)[i := c])" if "\<nexists>s' r'. sg_conns v ! i = Finished s' r'" for c
  proof -
    obtain j where "j < length (sg_conns v)" "sg_conns v ! j = Finished s r" using assms(2) by (auto simp: in_set_conv_nth)
    moreover then have "j \<noteq> i" using that by auto
    ultimately show ?thesis by (metis length_list_update nth_list_update_neq nth_mem)
  qed
  from assms show ?thesis
    by (auto simp: conn_turn_def take_section_def keep split: if_splits conn.splits thread.splits option.splits)
qed

lemma conn_turn_reason:
  assumes "conn_turn i v = Some v'" and "sg_stop v'" and "\<not> sg_stop v"
  shows "Finished True (Inr ResponseOk) \<in> set (sg_conns v')"
  using assms by (auto simp: conn_turn_def take_section_def set_update_memI split: if_splits conn.splits thread.splits option.splits)

lemma conn_turn_main: "conn_turn i v = Some v' \<Longrightarrow> sg_main v' = sg_main v"
  by (auto simp: conn_turn_def take_section_def split: if_splits conn.splits thread.splits option.splits)

lemma main_turn_reason:
  assumes "main_turn E rt name v = Some v'" and "has_reason es v"
  shows "has_reason es v'"
proof -
  have same: "sg_conns v' = sg_conns v" "sg_stop v' = sg_stop v"
    using assms(1) by (auto simp: main_turn_def take_section_def remove_socket_def Let_def
        split: main_thread.splits thread.splits sum.splits error.splits option.splits)
  then have "stop_reason es v' = stop_reason es v" by (simp add: stop_reason_def)
  with assms same show ?thesis
    by (auto simp: has_reason_def main_turn_def take_section_def
        split: main_thread.splits thread.splits sum.splits error.splits option.splits if_splits)
qed

lemma step_has_reason:
  assumes run: "serve_step E rt name e v = Some v'" and r: "has_reason es v"
  shows "has_reason (es @ [e]) v'"
proof (cases "\<exists>r. sg_main v = Returned r")
  case True
  then have "v' = v" using run by auto
  with r show ?thesis by (auto simp: has_reason_def stop_reason_def split: main_thread.splits)
next
  case False
  have more: "has_reason (es @ [e]) v" using r by (auto simp: has_reason_def stop_reason_def split: main_thread.splits)
  show ?thesis
  proof (cases e)
    case MainTurn
    with False run main_turn_reason [OF _ more] show ?thesis by (simp add: serve_step_main del: serve_step.simps)
  next
    case (Turn i)
    then have turn: "conn_turn i v = Some v'" using False run by (simp add: serve_step_turn del: serve_step.simps)
    have stays: "stop_reason (es @ [e]) v \<Longrightarrow> stop_reason (es @ [e]) v'"
      using finished_stays [OF turn] by (auto simp: stop_reason_def)
    have "stop_reason (es @ [e]) v'" if "sg_stop v'"
      using that more stays conn_turn_reason [OF turn] by (cases "sg_stop v") (auto simp: has_reason_def stop_reason_def)
    with more stays conn_turn_main [OF turn] show ?thesis by (auto simp: has_reason_def split: main_thread.splits)
  qed (use run more False in \<open>auto simp: has_reason_def stop_reason_def split: main_thread.splits\<close>)
qed

lemma events_have_reason:
  assumes "serve_events E rt name es v = Some v'" and "has_reason es0 v"
  shows "has_reason (es0 @ es) v'"
  using assms
proof (induction es arbitrary: es0 v)
  case (Cons e es)
  then obtain v1 where step: "serve_step E rt name e v = Some v1" and rest: "serve_events E rt name es v1 = Some v'"
    by (auto simp del: serve_step.simps split: option.splits)
  from Cons.IH [OF rest step_has_reason [OF step Cons.prems(2)]] show ?case by simp
qed simp

lemma no_sandbox_nothing_left:
  assumes "session_ok S" and "get_sandbox name (ss_world S) = None"
  shows "pending_of (ss_world S) i = Some q \<Longrightarrow> pending_sandbox q \<noteq> name"
    and "m \<in> set (ss_mounts S) \<Longrightarrow> ms_sandbox m \<noteq> name"
proof -
  show "pending_sandbox q \<noteq> name" if "pending_of (ss_world S) i = Some q"
    using assms that unfolding session_ok_def world_ok_def requests_homed_def by blast
  show "ms_sandbox m \<noteq> name" if "m \<in> set (ss_mounts S)"
    using assms that by (auto simp: session_ok_def mount_recorded_def attach_of_def)
qed

lemma destroy_removes:
  assumes "session_destroy E name S = (Inr resp, S')" and "session_ok S"
  shows "get_sandbox name (ss_world S') = None"
  using assms
proof (cases rule: destroy_cases)
  case (removed S1 s')
  have "om_wf (rg_sandboxes (w_registry (ss_world S1)))"
    using removed(1) by (simp add: safe_step_def session_ok_def world_ok_def wf_world_def wf_registry_def wf_maps_def)
  then show ?thesis using removed(5) by (simp add: get_sandbox_def)
qed simp

lemma session_ok_host:
  assumes "session_ok S"
  shows "session_ok (S\<lparr>ss_world := (ss_world S)\<lparr>w_host := h\<rparr>\<rparr>)"
  using safe_tame [OF tame_host assms] by (simp add: safe_step_def)

text \<open>The destroy of the main thread, when nothing comes in between.\<close>

lemma finishing_runs:
  assumes "run_thread t (sg_session v) = Some (r, S)" and "sg_main v = Finishing t"
  shows "\<exists>n. serve_events E rt name (replicate n MainTurn) v =
    Some (v\<lparr>sg_system := (sg_system v)\<lparr>sy_session := S\<rparr>, sg_main := Finishing (Answered r)\<rparr>)"
  using assms
proof (induction t arbitrary: v)
  case (Answered r')
  then show ?case by (intro exI [of _ 0]) simp
next
  case (Section ws f)
  then obtain t S1 where f: "f (sg_session v) = Some (t, S1)" and rest: "run_thread t S1 = Some (r, S)"
    by (auto split: option.splits)
  let ?v = "v\<lparr>sg_system := (sg_system v)\<lparr>sy_session := S1\<rparr>, sg_main := Finishing t\<rparr>"
  have step: "serve_step E rt name MainTurn v = Some ?v"
    using Section.prems(2) f by (simp add: main_turn_def take_section_def)
  have "t \<in> Basic_BNFs.fsts (t, S1)" "(t, S1) \<in> Option.set_option (f (sg_session v))" by (simp_all add: f)
  from Section.IH [OF rangeI this(2,1), of ?v] rest obtain n where
    "serve_events E rt name (replicate n MainTurn) ?v =
      Some (v\<lparr>sg_system := (sg_system v)\<lparr>sy_session := S\<rparr>, sg_main := Finishing (Answered r)\<rparr>)" by auto
  with step show ?case by (intro exI [of _ "Suc n"]) (simp del: serve_step.simps)
qed

definition socket_removed :: "'h env \<Rightarrow> runtime_paths \<Rightarrow> string \<Rightarrow> 'h session \<Rightarrow> bool" where
  "socket_removed E rt name S \<longleftrightarrow>
     (\<exists>h. w_host (ss_world S) = snd (os_remove_file (env_os E) h (socket_path rt name)))"

lemma serve_events_append:
  "serve_events E rt name (es @ es') v = Option.bind (serve_events E rt name es v) (serve_events E rt name es')"
  by (induction es arbitrary: v) (simp_all del: serve_step.simps split: option.split)

text \<open>What the main thread makes of the answer of its destroy.\<close>

fun finish_result :: "response res \<Rightarrow> unit res" where
  "finish_result (Inr response) = Inr ()"
| "finish_result (Inl (Message m)) = Inr ()"
| "finish_result (Inl e) = Inl e"

lemma final_turn:
  assumes "sg_main v = Finishing (Answered r)"
  shows "serve_step E rt name MainTurn v =
    Some ((if finish_result r = Inr () then remove_socket E rt name v else v)\<lparr>sg_main := Returned (finish_result r)\<rparr>)"
  using assms by (cases r rule: finish_result.cases) (simp_all add: main_turn_def)

lemma serve_events_snoc:
  assumes "serve_events E rt name es v = Some v1" and "serve_step E rt name e v1 = Some v2"
  shows "serve_events E rt name (es @ [e]) v = Some v2"
  using assms by (simp add: serve_events_append del: serve_step.simps)

lemma stopped_destroys:
  assumes "sg_stop v" and "sg_main v = Testing \<or> sg_main v = Accepting" and "session_destroy E name (sg_session v) = (r, S)"
  shows "\<exists>n. serve_events E rt name (Idle # replicate n MainTurn) v =
    Some ((if finish_result r = Inr () then remove_socket E rt name else id)
            (v\<lparr>sg_system := (sg_system v)\<lparr>sy_session := S\<rparr>\<rparr>)\<lparr>sg_main := Returned (finish_result r)\<rparr>)"
proof -
  let ?v = "v\<lparr>sg_main := Finishing (destroy_thread E name)\<rparr>"
  let ?v1 = "v\<lparr>sg_system := (sg_system v)\<lparr>sy_session := S\<rparr>, sg_main := Finishing (Answered r)\<rparr>"
  have "run_thread (destroy_thread E name) (sg_session v) = Some (r, S)" by (simp add: run_destroy_thread assms(3))
  then obtain n where n: "serve_events E rt name (replicate n MainTurn) ?v = Some ?v1"
    using finishing_runs [of "destroy_thread E name" ?v r S E rt name] by auto
  have "serve_events E rt name [Idle, MainTurn] v = Some ?v" using assms(1,2) by (auto simp: main_turn_def)
  with n have "serve_events E rt name ([Idle, MainTurn] @ replicate n MainTurn) v = Some ?v1"
    by (simp only: serve_events_append Option.bind.simps)
  note last = serve_events_snoc [OF this final_turn]
  have eq: "([Idle, MainTurn] @ replicate n MainTurn) @ [MainTurn] = Idle # replicate (Suc (Suc n)) MainTurn"
    by (simp add: replicate_append_same)
  have "serve_events E rt name (Idle # replicate (Suc (Suc n)) MainTurn) v =
      Some ((if finish_result r = Inr () then remove_socket E rt name ?v1 else ?v1)\<lparr>sg_main := Returned (finish_result r)\<rparr>)"
    unfolding eq [symmetric] by (rule last) simp
  then show ?thesis
    by (intro exI [of _ "Suc (Suc n)"]) (simp add: remove_socket_def Let_def del: serve_events.simps replicate.simps)
qed

section \<open>Properties\<close>

text \<open>
  C15: What the terminal interface shows is what it decides. In a turn of the interface in which
  one of the keys for allow, do nothing and deny is pressed while the sandbox has pending
  requests, exactly one drawn row is reversed; that row and the details above it are those of a
  pending request of the sandbox, and exactly this request is settled: its caller gets the
  decision of the key, and every other request and caller stays as it was.
\<close>

theorem tui_decision_reaches_caller:
  assumes "connected io_text E C" and "session_ok S" and "pending_of (ss_world S) j = Some q"
    and "key_action ch = Some action"
  shows "\<exists>f st' S' k p c. tui_turn C T rt (pending_sandbox q) st (Some (KeyChar ch)) S = (Some f, Inr (TuiGoOn st'), S')
    \<and> k < length (fr_rows f) \<and> fr_reversed f = map (\<lambda>n. n = k) [0..<length (fr_rows f)]
    \<and> fr_rows f ! k = format_pending_row p \<and> fr_operation f = format_selected_pending p
    \<and> pending_of (ss_world S) (pending_id p) = Some p \<and> pending_sandbox p = pending_sandbox q
    \<and> waiter_of (ss_world S) (pending_id p) = Some c \<and> w_cells (ss_world S') c = Some (action_decision action)
    \<and> settled {pending_id p} (action_decision action) (ss_world S) (ss_world S')"
proof -
  let ?w = "ss_world S" and ?name = "pending_sandbox q"
  let ?pending = "pending_requests_for_sandbox ?name (w_registry ?w)"
  have wf: "wf_world ?w" and wfr: "wf_registry (w_registry ?w)" and homed: "requests_homed ?w"
    using assms(2) by (simp_all add: session_ok_def world_ok_def wf_world_def)
  obtain s where s: "get_sandbox ?name ?w = Some s" using homed assms(3) unfolding requests_homed_def by blast
  note shown = pending_requests_set [OF wfr, of ?name]
  have "?pending \<noteq> []" using shown assms(3) by auto
  define k where "k = clamp_selected (ui_selected st) ?pending"
  have k: "k < length ?pending" unfolding k_def by (rule clamp_selected_below [OF \<open>?pending \<noteq> []\<close>])
  define p where "p = ?pending ! k"
  obtain i where i: "pending_of ?w i = Some p" and home: "pending_sandbox p = ?name"
    using shown nth_mem [OF k] unfolding p_def by auto
  have pi: "pending_id p = i" using get_any_pending_id [OF wfr i] .
  obtain c where c: "waiter_of ?w i = Some c"
    using wf i unfolding wf_world_def waiters_exact_def request_ids_get_any by blast
  let ?w' = "snd (session_decide E (action_decision action) ?name i ?w)"
  have st: "settled {i} (action_decision action) ?w ?w'"
    using decide_settled(1) [OF wf i, of s E "action_decision action"] s home by (simp add: prod_eq_iff)
  obtain m where m: "resolve_pending_action C rt ?name i action S = (Inr m, S\<lparr>ss_world := ?w'\<rparr>)"
    using resolve_connected [OF assms(1)] by blast
  have turn: "tui_turn C T rt ?name st (Some (KeyChar ch)) S =
      (Some (draw_pending ?pending k (ui_message st)),
       Inr (TuiGoOn (st\<lparr>ui_selected := k, ui_message := m\<rparr>)), S\<lparr>ss_world := ?w'\<rparr>)"
    using fetch_connected [OF assms(1), of ?name S rt] s k m
    by (simp add: tui_turn_def Let_def handle_key_action [OF assms(4)] act_on_def vec_get_def k_def [symmetric] p_def [symmetric] pi
        del: handle_key.simps)
  have "k < length (fr_rows (draw_pending ?pending k (ui_message st)))" using k by (simp add: draw_pending_def)
  moreover have "w_cells ?w' c = Some (action_decision action)" using st c by (simp add: settled_def)
  ultimately show ?thesis
    using turn drawn_row [OF k, of "ui_message st"] i home c st unfolding p_def [symmetric] pi
    by (intro exI [of _ "draw_pending ?pending k (ui_message st)"] exI [of _ "st\<lparr>ui_selected := k, ui_message := m\<rparr>"]
        exI [of _ "S\<lparr>ss_world := ?w'\<rparr>"] exI [of _ k] exI [of _ p] exI [of _ c] conjI) (simp_all add: pi)
qed

definition session_client :: "'h env \<Rightarrow> 'h session client" where
  "session_client E = calm_client\<lparr>cl_send := session_send (\<lambda>_. []) E\<rparr>"

lemma session_client_connected: "connected (\<lambda>_. []) E (session_client E)"
  by (simp add: connected_def session_client_def)

theorem tui_decision_reaches_caller_witness:
  "\<forall>T. \<exists>f st' S' k. tui_turn (session_client (demo_env Apply)) T client_runtime ''box'' \<lparr>ui_selected = 7, ui_message = []\<rparr>
        (Some (KeyChar CHR ''d'')) busy_session = (Some f, Inr (TuiGoOn st'), S')
     \<and> k < length (fr_rows f) \<and> (\<exists>c. w_cells (ss_world S') c = Some Deny)"
proof (rule allI)
  fix T
  have "pending_of (ss_world busy_session) 3 = Some (PendingReadWrite (waiting_write 3))"
    by (simp add: busy_session_def busy_world_simps)
  from tui_decision_reaches_caller [OF session_client_connected busy_session_ok this, where ch = "CHR ''d''" and action = ActDeny
      and rt = client_runtime and T = T and st = "\<lparr>ui_selected = 7, ui_message = []\<rparr>" and E = "demo_env Apply"]
  show "\<exists>f st' S' k. tui_turn (session_client (demo_env Apply)) T client_runtime ''box'' \<lparr>ui_selected = 7, ui_message = []\<rparr>
        (Some (KeyChar CHR ''d'')) busy_session = (Some f, Inr (TuiGoOn st'), S')
     \<and> k < length (fr_rows f) \<and> (\<exists>c. w_cells (ss_world S') c = Some Deny)"
    by (simp add: key_action_def) blast
qed


definition quiet_socket :: "'h socket_api" where
  "quiet_socket = \<lparr>so_ping = (\<lambda>_ _. Inl (Io None)), so_bind = (\<lambda>h _. (Inr (), h)), so_signals = (\<lambda>h. (Inr (), h))\<rparr>"

lemma live_start: "\<exists>S h. start_session live_env quiet_socket demo_runtime ''box'' () = (Inr S, h)"
  using live_session
  by (auto simp: start_session_def prepare_socket_path_def quiet_socket_def new_session_def live_env_def calm_env_def
      demo_env_def demo_host_def empty_host_def Let_def split: option.splits sum.splits prod.splits)




end
