(* ===== verification/Wire.thy ===== *)
theory Wire
  imports Serve
begin

text \<open>
  The functions of \<^verbatim>\<open>src/ipc.rs\<close>: one request and one response per connection, each a line of
  JSON. The JSON texts and their parsing are serde's and the bytes in between the operating
  system's, both parameters; the framing, the order and the errors are the program's. A
  session behind a socket is put together with a client in front of it.
\<close>

section \<open>Lines\<close>

text \<open>\<^verbatim>\<open>BufRead::read_line\<close>: the bytes up to the first newline and with it, or all; they must be UTF-8.\<close>

fun line_prefix :: "string \<Rightarrow> string" where
  "line_prefix [] = []"
| "line_prefix (c # cs) = (if c = CHR 0x0A then [c] else c # line_prefix cs)"

definition read_line :: "string \<Rightarrow> string res" where
  "read_line bytes = (if utf8_valid (line_prefix bytes) then Inr (line_prefix bytes) else Inl (Io None))"

record json =
  js_request :: "request \<Rightarrow> string"
  js_parse_request :: "string \<Rightarrow> request res"
  js_response :: "response \<Rightarrow> string"
  js_parse_response :: "string \<Rightarrow> response res"

definition write_response :: "json \<Rightarrow> response \<Rightarrow> string" where
  "write_response J response = js_response J response @ newline"

definition read_request :: "json \<Rightarrow> string \<Rightarrow> request res" where
  "read_request J bytes = result_bind (read_line bytes) (js_parse_request J)"

text \<open>A socket: connecting to it, and what comes back for the bytes written, or the error of writing.\<close>

record 's wire =
  wi_connect :: "'s \<Rightarrow> string \<Rightarrow> (io_error + unit) \<times> 's"
  wi_exchange :: "'s \<Rightarrow> string \<Rightarrow> string res \<times> 's"

definition ipc_send :: "json \<Rightarrow> 's wire \<Rightarrow> 's \<Rightarrow> string \<Rightarrow> request \<Rightarrow> response res \<times> 's" where
  "ipc_send J W s socket q =
     (case wi_connect W s socket of
        (Inl e, s) \<Rightarrow> (Inl (Io e), s)
      | (Inr _, s) \<Rightarrow>
          (case wi_exchange W s (js_request J q @ newline) of
             (Inl e, s) \<Rightarrow> (Inl e, s)
           | (Inr bytes, s) \<Rightarrow> (result_bind (read_line bytes) (js_parse_response J), s)))"

section \<open>A session behind a socket\<close>

text \<open>The thread of a connection on the bytes it reads: the bytes it writes, and whether the server stops.\<close>

definition serve_bytes ::
  "json \<Rightarrow> (io_error \<Rightarrow> string) \<Rightarrow> 'h env \<Rightarrow> string \<Rightarrow> 'h session \<Rightarrow> (string \<times> bool \<times> 'h session) option"
where
  "serve_bytes J io_text E bytes S =
     map_option (\<lambda>(response, stop, S). (write_response J response, stop, S))
       (serve_connection io_text E (read_request J bytes) S)"

text \<open>The listening socket of a server as a client sees it; a connection without an answer ends empty.\<close>

definition session_wire :: "json \<Rightarrow> (io_error \<Rightarrow> string) \<Rightarrow> 'h env \<Rightarrow> 'h session wire" where
  "session_wire J io_text E =
     \<lparr>wi_connect = (\<lambda>S socket. (Inr (), S)),
      wi_exchange = (\<lambda>S bytes. case serve_bytes J io_text E bytes S of
         Some (out, _, S) \<Rightarrow> (Inr out, S) | None \<Rightarrow> (Inr [], S))\<rparr>"

text \<open>What serde's JSON is for the two values of an exchange: one line of UTF-8 that parses back.\<close>

definition one_line :: "string \<Rightarrow> bool" where
  "one_line t \<longleftrightarrow> CHR 0x0A \<notin> set t \<and> utf8_valid (t @ newline)"

definition json_for :: "json \<Rightarrow> request \<Rightarrow> response \<Rightarrow> bool" where
  "json_for J q response \<longleftrightarrow>
     one_line (js_request J q) \<and> js_parse_request J (js_request J q @ newline) = Inr q
     \<and> one_line (js_response J response) \<and> js_parse_response J (js_response J response @ newline) = Inr response"

lemma line_prefix_one_line:
  assumes "CHR 0x0A \<notin> set t"
  shows "line_prefix (t @ newline @ rest) = t @ newline"
  using assms by (induction t) auto

lemma read_line_written: "one_line t \<Longrightarrow> read_line (t @ newline) = Inr (t @ newline)"
  using line_prefix_one_line [of t "[]"] by (simp add: one_line_def read_line_def)

section \<open>Properties\<close>

text \<open>
  C31: The socket is transparent. Where serde's JSON reads back what it wrote, a request sent to
  the socket of a server is handled exactly as the session handles it: the client gets the
  response and the session is the one after the request. Whatever bytes a connection brings, the
  session does what the request they parse to asks for, and bytes that are no request are
  answered with the error and change nothing; only a shutdown that succeeds stops the server.
\<close>

theorem socket_is_transparent:
  assumes "handle io_text E q S = Some (response, S')" and "json_for J q response"
  shows "ipc_send J (session_wire J io_text E) S socket q = (Inr response, S')
    \<and> serve_bytes J io_text E bytes S =
      (case read_request J bytes of
         Inl e \<Rightarrow> Some (write_response J (ResponseError (error_text io_text e)), False, S)
       | Inr q' \<Rightarrow> map_option (\<lambda>(r, S). (write_response J r, is_shutdown q' \<and> r = ResponseOk, S)) (handle io_text E q' S))"
  using assms
  by (auto simp: ipc_send_def session_wire_def serve_bytes_def serve_connection_def read_request_def write_response_def
      json_for_def read_line_written split: sum.splits option.splits)

definition toy_json :: json where
  "toy_json = \<lparr>js_request = (\<lambda>_. ''{}''), js_parse_request = (\<lambda>t. if t = ''{}'' @ newline then Inr Ping else Inl (Serde t)),
     js_response = (\<lambda>_. ''{}''), js_parse_response = (\<lambda>t. if t = ''{}'' @ newline then Inr ResponseOk else Inl (Serde t))\<rparr>"

theorem socket_is_transparent_witness:
  "ipc_send toy_json (session_wire toy_json (\<lambda>_. []) live_env) busy_session ''/run/box.sock'' Ping = (Inr ResponseOk, busy_session)"
proof -
  have h: "handle (\<lambda>_. []) live_env Ping busy_session = Some (ResponseOk, busy_session)" by (simp add: handle_def)
  have j: "json_for toy_json Ping ResponseOk" by (simp add: json_for_def toy_json_def one_line_def eval_simps)
  from socket_is_transparent [OF h j] show ?thesis by blast
qed

end
