(* ===== verification/Log_File.thy ===== *)
theory Log_File
  imports Log
begin

text \<open>
  The rest of \<^verbatim>\<open>src/log.rs\<close>: the life of a writer, from its thread's start to the join, the
  functions over the default writer, reading a log back, and what the log file holds after
  any sequence of commands, as an abstract file.
\<close>

section \<open>The life of a writer\<close>

text \<open>\<^verbatim>\<open>LogWriter\<close>: whether its thread takes commands, and whether the thread is still to be joined.\<close>

record log_writer =
  lw_running :: bool
  lw_join :: bool

definition writer_new :: log_writer where
  "writer_new = \<lparr>lw_running = True, lw_join = True\<rparr>"

definition writer_drop :: "'h os \<Rightarrow> log_writer \<Rightarrow> 'h \<Rightarrow> log_writer \<times> 'h" where
  "writer_drop S W h =
     (if \<not> lw_join W then (W, h)
      else case log_shutdown S (lw_running W) h of (_, running, h) \<Rightarrow> (\<lparr>lw_running = running, lw_join = False\<rparr>, h))"

text \<open>\<^verbatim>\<open>shutdown\<close> consumes the writer, which is dropped at its end.\<close>

definition writer_shutdown :: "'h os \<Rightarrow> log_writer \<Rightarrow> 'h \<Rightarrow> unit res \<times> log_writer \<times> 'h" where
  "writer_shutdown S W h =
     (case log_shutdown S (lw_running W) h of
        (Inl e, running, h) \<Rightarrow> (Inl e, writer_drop S (W\<lparr>lw_running := running\<rparr>) h)
      | (Inr _, running, h) \<Rightarrow> (Inr (), writer_drop S \<lparr>lw_running = running, lw_join = False\<rparr> h))"

text \<open>The process-wide writer, started on first use and never stopped.\<close>

definition default_writer :: "log_writer option \<Rightarrow> log_writer" where
  "default_writer w = (case w of Some W \<Rightarrow> W | None \<Rightarrow> writer_new)"

definition reset_log :: "'h os \<Rightarrow> log_writer option \<Rightarrow> string \<Rightarrow> 'h \<Rightarrow> unit res \<times> 'h" where
  "reset_log S w path h = log_reset S (lw_running (default_writer w)) path h"

definition remove_log :: "'h os \<Rightarrow> log_writer option \<Rightarrow> string \<Rightarrow> 'h \<Rightarrow> unit res \<times> 'h" where
  "remove_log S w path h = log_remove S (lw_running (default_writer w)) path h"

definition append_log :: "'h os \<Rightarrow> log_writer option \<Rightarrow> string \<Rightarrow> string \<Rightarrow> 'h \<Rightarrow> unit res \<times> 'h" where
  "append_log S w path line h = log_append S (lw_running (default_writer w)) path line h"

definition read_log :: "(string \<Rightarrow> io_error + string) \<Rightarrow> string \<Rightarrow> string res" where
  "read_log read_to_string path =
     (case read_to_string path of
        Inr data \<Rightarrow> Inr data
      | Inl e \<Rightarrow> if e = Some 2 then Inr [] else Inl (Io e))"

lemma writer_stopped: "\<not> lw_join (fst (writer_drop S W h))" "\<not> lw_join (fst (snd (writer_shutdown S W h)))"
proof -
  show dropped: "\<not> lw_join (fst (writer_drop S V k))" for V k by (simp add: writer_drop_def split_beta)
  show "\<not> lw_join (fst (snd (writer_shutdown S W h)))"
    using dropped by (simp add: writer_shutdown_def split_beta split: sum.splits)
qed

lemma shutdown_running:
  "lw_running W \<Longrightarrow> writer_shutdown S W h = (Inr (), \<lparr>lw_running = False, lw_join = False\<rparr>, h)"
  by (simp add: writer_shutdown_def log_shutdown_def log_request_def writer_drop_def)

section \<open>The log as a file\<close>

text \<open>The abstract log file: absent, or the lines it holds, each ended by a newline.\<close>

type_synonym log_text = "string list option"

fun log_effect :: "log_text \<Rightarrow> log_command \<Rightarrow> log_text" where
  "log_effect f (LogReset _) = Some []"
| "log_effect f (LogAppend _ line) = Some ((case f of None \<Rightarrow> [] | Some ls \<Rightarrow> ls) @ [line])"
| "log_effect f (LogRemove _) = None"
| "log_effect f LogShutdown = f"

definition lines_text :: "string list \<Rightarrow> string" where
  "lines_text ls = concat (map (\<lambda>l. l @ [CHR 0x0A]) ls)"

fun command_on :: "string \<Rightarrow> log_command \<Rightarrow> bool" where
  "command_on path (LogReset p) \<longleftrightarrow> p = path"
| "command_on path (LogAppend p _) \<longleftrightarrow> p = path"
| "command_on path (LogRemove p) \<longleftrightarrow> p = path"
| "command_on path LogShutdown \<longleftrightarrow> True"

text \<open>
  What the system's calls do to the file at \<open>path\<close>, whose bytes in the host \<open>h\<close> are \<open>bytes h\<close>:
  creating directories leaves it alone, opening with truncation empties it, opening for
  appending creates it and writes at its end, and removing removes it.
\<close>

definition file_calls :: "'h os \<Rightarrow> ('h \<Rightarrow> string option) \<Rightarrow> string \<Rightarrow> bool" where
  "file_calls S bytes path \<longleftrightarrow>
     (\<forall>h dir r h'. os_create_dir_all S h dir = (r, h') \<longrightarrow> bytes h' = bytes h)
     \<and> (\<forall>h h'. os_truncate_file S h path = (Inr (), h') \<longrightarrow> bytes h' = Some [])
     \<and> (\<forall>h h' t. os_append_line S h path t = (Inr (), h') \<longrightarrow>
          bytes h' = Some ((case bytes h of None \<Rightarrow> [] | Some old \<Rightarrow> old) @ t))
     \<and> (\<forall>h h'. os_remove_file S h path = (Inr (), h') \<longrightarrow> bytes h' = None)
     \<and> (\<forall>h h'. os_remove_file S h path = (Inl (Some 2), h') \<longrightarrow> bytes h' = None)"

lemma lines_text_simps [simp]:
  "lines_text [] = []" "lines_text (ls @ ms) = lines_text ls @ lines_text ms" "lines_text [l] = l @ [CHR 0x0A]"
  by (simp_all add: lines_text_def)

lemma file_callsD:
  assumes "file_calls S bytes path"
  shows "os_create_dir_all S h dir = (r, h') \<Longrightarrow> bytes h' = bytes h"
    and "os_truncate_file S h path = (Inr (), h') \<Longrightarrow> bytes h' = Some []"
    and "os_append_line S h path t = (Inr (), h') \<Longrightarrow>
      bytes h' = Some ((case bytes h of None \<Rightarrow> [] | Some old \<Rightarrow> old) @ t)"
    and "os_remove_file S h path = (Inr (), h') \<Longrightarrow> bytes h' = None"
    and "os_remove_file S h path = (Inl (Some 2), h') \<Longrightarrow> bytes h' = None"
  using assms unfolding file_calls_def by blast+

lemma create_parent_bytes:
  "file_calls S bytes path \<Longrightarrow> create_parent S h p = (r, h') \<Longrightarrow> bytes h' = bytes h"
  by (auto simp: create_parent_def dest: file_callsD(1) split: option.splits)

lemma log_command_effect:
  assumes f: "file_calls S bytes path" and "command_on path c" and "run_log_command S c h = (Inr (), h', go)"
    and "bytes h = map_option lines_text f"
  shows "bytes h' = map_option lines_text (log_effect f c)"
proof (cases c)
  case (LogReset p)
  then obtain h1 where "os_truncate_file S h1 path = (Inr (), h')"
    using assms(2,3) by (auto simp: reset_log_file_def map_err_def split: prod.splits sum.splits)
  from file_callsD(2) [OF f this] LogReset show ?thesis by simp
next
  case (LogAppend p line)
  then obtain h1 where "create_parent S h path = (Inr (), h1)" and a: "os_append_line S h1 path (line @ [CHR 0x0A]) = (Inr (), h')"
    using assms(2,3) by (auto simp: append_log_file_def map_err_def split: prod.splits sum.splits)
  then have "bytes h1 = map_option lines_text f" using create_parent_bytes [OF f] assms(4) by simp
  with file_callsD(3) [OF f a] LogAppend show ?thesis by (cases f) simp_all
next
  case (LogRemove p)
  then have "os_remove_file S h path = (Inr (), h') \<or> os_remove_file S h path = (Inl (Some 2), h')"
    using assms(2,3) by (auto simp: remove_log_file_def split: prod.splits sum.splits if_splits)
  then show ?thesis using file_callsD(4,5) [OF f] LogRemove by auto
qed (use assms in simp)

lemma log_requests_effect:
  assumes "file_calls S bytes path" and "\<forall>c \<in> set cs. command_on path c"
    and "log_requests S cs running h = (rs, running', h')" and "\<forall>r \<in> set rs. r = Inr ()"
    and "bytes h = map_option lines_text f"
  shows "bytes h' = map_option lines_text (foldl log_effect f cs)"
  using assms(2-)
proof (induction cs arbitrary: running h rs f)
  case (Cons c cs)
  obtain r running1 h1 where q: "log_request S c running h = (r, running1, h1)" by (metis prod_cases3)
  with Cons.prems(2,3) obtain rs1 where rest: "log_requests S cs running1 h1 = (rs1, running', h')"
    and rs: "rs = r # rs1" by (auto split: prod.splits)
  with Cons.prems(3) have "r = Inr ()" by simp
  with q obtain go where "run_log_command S c h = (Inr (), h1, go)"
    by (auto simp: log_request_def split: if_splits prod.splits)
  from log_command_effect [OF assms(1) _ this Cons.prems(4)] Cons.prems(1)
  have "bytes h1 = map_option lines_text (log_effect f c)" by simp
  from Cons.IH [OF _ rest _ this] Cons.prems(1,3) rs show ?case by simp
qed simp

section \<open>Properties\<close>

text \<open>
  C39: The log file refines a list of lines. After any commands on one log through the handle
  that are all answered without an error, the file holds exactly the lines of the abstract
  file, whole and in the order in which they were sent, since the last reset or removal, and
  reading the log back gives this text, or nothing for a log that is not there.
\<close>

theorem log_file_refines_lines:
  assumes "file_calls S bytes path" and "\<forall>c \<in> set cs. command_on path c"
    and "log_requests S cs running h = (rs, running', h')" and "\<forall>r \<in> set rs. r = Inr ()"
    and "bytes h = map_option lines_text f"
    and "\<And>k. reader k path = (case bytes k of None \<Rightarrow> Inl (Some 2) | Some t \<Rightarrow> Inr t)"
  shows "bytes h' = map_option lines_text (foldl log_effect f cs)
    \<and> read_log (reader h') path = Inr (case foldl log_effect f cs of None \<Rightarrow> [] | Some ls \<Rightarrow> lines_text ls)"
proof -
  from log_requests_effect [OF assms(1-5)] have b: "bytes h' = map_option lines_text (foldl log_effect f cs)" .
  then show ?thesis by (simp add: read_log_def assms(6) split: option.splits)
qed

text \<open>A host that is one file.\<close>

definition file_host :: "string option os" where
  "file_host = empty_host\<lparr>
     os_create_dir_all := (\<lambda>h _. (Inr (), h)),
     os_truncate_file := (\<lambda>_ _. (Inr (), Some [])),
     os_append_line := (\<lambda>h _ t. (Inr (), Some ((case h of None \<Rightarrow> [] | Some old \<Rightarrow> old) @ t))),
     os_remove_file := (\<lambda>h _. (case h of None \<Rightarrow> (Inl (Some 2), None) | Some _ \<Rightarrow> (Inr (), None)))\<rparr>"

theorem log_file_refines_lines_witness:
  "\<exists>rs running' h'. log_requests file_host [LogRemove ''l'', LogAppend ''l'' ''a'', LogAppend ''l'' ''b''] True None = (rs, running', h')
     \<and> h' = Some (lines_text [''a'', ''b''])"
proof -
  let ?cs = "[LogRemove ''l'', LogAppend ''l'' ''a'', LogAppend ''l'' ''b'']"
  have calls: "file_calls file_host id ''l''"
    by (auto simp: file_calls_def file_host_def split: option.splits)
  obtain rs running' h' where run: "log_requests file_host ?cs True None = (rs, running', h')" by (metis prod_cases3)
  have ok: "\<forall>r \<in> set rs. r = Inr ()"
    using run by (auto simp: log_request_def remove_log_file_def append_log_file_def create_parent_def file_host_def
        map_err_def split: option.splits)
  from log_file_refines_lines [OF calls _ run ok, of None "\<lambda>k _. case k of None \<Rightarrow> Inl (Some 2) | Some t \<Rightarrow> Inr t"] run
  show ?thesis by simp
qed

end
