(* ===== verification/Spec2Isabelle.thy ===== *)
theory Spec2Isabelle
  imports Server Refine Trust Fs_Safety Client_Safety Wire Log_File
begin

text \<open>
  Verification of gatefs, a FUSE file system that shows a sandbox assembled from layers of host
  directories and lets each protected read, write or metadata change of a process wait for a
  decision.

  \<^bold>\<open>The program.\<close> \<^verbatim>\<open>gatefs run NAME\<close> serves a session (\<^verbatim>\<open>src/session.rs\<close>): it owns the registry of the
  sandbox (\<^verbatim>\<open>src/state.rs\<close>), answers requests over a Unix socket (\<^verbatim>\<open>src/ipc.rs\<close>), mounts the sandbox
  (\<^verbatim>\<open>src/fs.rs\<close>, one FUSE file system per attach) and writes an operation log (\<^verbatim>\<open>src/log.rs\<close>). A FUSE
  handler resolves a sandbox path through the overlay of layers and hide rules, computes the
  effects of the operation and asks the gate: an effect that a protection rule covers, no bypass
  rule exempts and no grant covers becomes a pending request, and the handler's thread waits in a
  cell until the session puts a decision there. Metadata changes are overrides of the sandbox;
  the host file is never touched by them. \<^verbatim>\<open>gatefs NAME COMMAND\<close> (\<^verbatim>\<open>src/cli.rs\<close>) and
  \<^verbatim>\<open>gatefs-access-tui\<close> (\<^verbatim>\<open>src/tui.rs\<close>) are clients of the session.

  \<^bold>\<open>Theories, bottom up.\<close>
  \<^item> \<open>Prelude\<close>, \<open>Ordered_Map\<close>, \<open>Rust_Std\<close>: results, \<^verbatim>\<open>BTreeMap\<close>/\<^verbatim>\<open>HashMap\<close> as sorted association lists, id
    supplies, byte strings with UTF-8 and Unix paths.
  \<^item> \<open>Sandbox_Path\<close> (\<^verbatim>\<open>path.rs\<close>), \<open>Overlay\<close> (\<^verbatim>\<open>overlay.rs\<close>), \<open>Policy\<close>, \<open>Operations\<close>, \<open>Requests\<close>, \<open>Sandbox\<close>,
    \<open>Registry\<close>, \<open>Attr\<close> (\<^verbatim>\<open>state.rs\<close>): the data of a sandbox. \<open>Sandbox\<close> refines the overlay to a function
    from paths to what is seen there; \<open>Registry\<close> has the tables of requests, waiters, grants.
  \<^item> \<open>Hostfs\<close> (\<^verbatim>\<open>hostfs.rs\<close>), \<open>Process_Info\<close> (\<^verbatim>\<open>process_info.rs\<close>), \<open>Log\<close> and \<open>Log_File\<close> (\<^verbatim>\<open>log.rs\<close>): the
    operating system as the record \<open>os\<close> of functions on a host state, process trees, the writer
    thread and the file it writes, which refines a list of lines.
  \<^item> \<open>World\<close>: the state shared by all threads (\<open>world\<close>), cells, waiters and log lines. \<open>Fs\<close>, \<open>Fs_Handlers\<close>:
    the functions and the FUSE handlers of \<^verbatim>\<open>fs.rs\<close>, each a function from a request and a world to
    a reply and a world. \<open>Fs_Auth\<close>, \<open>Fs_Metadata\<close>, \<open>Fs_Safety\<close>: the gate for reads and writes, the one
    for metadata, and what holds of all handlers (\<open>kernel_call\<close>, \<open>kernel_handler\<close>). \<open>policy_asks\<close> is the
    documented condition for a metadata change to ask, \<open>code_asks\<close> that of the code, which does not
    look at bypass rules.
  \<^item> \<open>Ipc\<close> (\<^verbatim>\<open>ipc.rs\<close>, \<^verbatim>\<open>runtime.rs\<close>), \<open>Session\<close> (\<^verbatim>\<open>session.rs\<close>): the protocol and every operation of the
    session; \<open>Session_Decisions\<close>, \<open>Session_Grants\<close>, \<open>Session_Safety\<close>, \<open>Session_Attach\<close>: decisions reach
    exactly their callers, grants release exactly what they cover, the invariant \<open>session_ok\<close>, what
    detach and destroy remove, and the attach a failed unmount leaves behind for good (\<open>orphan\<close>).
  \<^item> \<open>System\<close>: the session and the waiting calls as a step relation, with the invariant of all reachable
    states, that no wakeup is lost and that decisions are final. \<open>Refine\<close>: every handler of \<open>Fs_Handlers\<close>
    is a sequence of these steps. \<open>Threads\<close>: every request as the sections of its thread, cut where the
    code gives a lock back or calls the operating system; run alone they are the request.
    \<open>Interleaving\<close>, \<open>Server\<close>: the sections of all threads in any order, each shown to keep a guarantee
    the others rely on. \<open>Trust\<close>: only registered processes change protected metadata unasked.
  \<^item> \<open>Cli\<close>, \<open>Cli_Args\<close>, \<open>Client\<close>, \<open>Client_Safety\<close> (\<^verbatim>\<open>cli.rs\<close>), \<open>Tui\<close> (\<^verbatim>\<open>tui.rs\<close>): the clients, over the record
    \<open>client\<close> of functions on their surroundings; the protocol of trusted commands.
  \<^item> \<open>Serve\<close> (\<^verbatim>\<open>serve_session\<close>), \<open>Wire\<close> (the lines of \<^verbatim>\<open>ipc.rs\<close>): a server from its socket to its end, with its
    main thread and a thread for each connection, which refines the machine of \<open>Server\<close> up to the
    removal of the sandbox and ends once it is told to stop; and clients put together with it.

  \<^bold>\<open>Correspondence.\<close> Structs are records and enums datatypes with the source's fields and variants; a
  function of the source has a definition of its name (with a prefix such as \<open>session_\<close>, \<open>fs_\<close>,
  \<open>log_\<close> or \<open>writer_\<close> where several components have one). \<^verbatim>\<open>Result\<close> is a sum with \<open>error\<close> or an errno
  on the left. Pids, user and group ids, modes, flags and sizes are words; ids drawn from counters,
  handles and inode numbers are natural numbers, since a counter of 64 bits is not exhausted.
  Strings are byte strings. A critical section under the registry's lock is one function on the
  world. A waiter is the address of its cell.

  \<^bold>\<open>Assumptions.\<close> What other threads do while a call waits is the parameter \<open>env_sched\<close>, the steps of
  \<open>system_step\<close> or the \<open>Others\<close> events of a server, never a fixed schedule; \<open>scheduler_follows\<close> says that
  the first does what the second allow. In \<open>system_step\<close> a request is one
  step, while calls of the file systems come between the parts of another call: its entry, each
  wait, its return and its action. In \<open>server_step\<close> requests are cut into the critical sections of
  their threads as well, and the mounts may be any, since a file system answers before its session is in
  the list of the server and after it has left it. That machine stops before the last section of
  \<^verbatim>\<open>destroy\<close>, since a request queued after it has cancelled the others is left without a sandbox; what
  a whole \<^verbatim>\<open>destroy\<close> leaves is stated for \<open>system_step\<close>. That every mounted file system is recorded is
  an invariant of whole requests only: lemma \<open>racing_attaches\<close> interleaves two attaches that leave one
  unrecorded. A run of log lines of one thread is one section.

  The glob, sysinfo, serde, clap, shlex and terminal crates and the operating system are
  parameters; the theorems that rely on what they do name it as a hypothesis
  (\<open>json_for\<close>, \<open>file_calls\<close>; \<open>clock_ok\<close>: the clock shows a time from 1970 on that fits in 63 bits of seconds).

  \<^bold>\<open>Loops.\<close> Every loop of the source that ends is a terminating function. The walk from a process to
  its ancestors has no bound in the source and is a \<open>partial_function\<close>: a value of \<open>None\<close> means that it
  runs for ever, and \<open>Process_Info\<close> shows where it does not. The loops that run until they are told to
  stop (\<open>serve_events\<close>, \<open>run_loop\<close>, \<open>follow_log\<close>) are functions of the list of their events, keys or
  polls, and say that they are still running when it is used up.

  \<^bold>\<open>Not modelled.\<close> Raw mode and painting of the terminal, delivery of signals, the clap argument parser
  and the two \<^verbatim>\<open>main\<close> functions, which print a result and exit; the \<^verbatim>\<open>sysinfo\<close> refresh calls; the text
  format of serde. These are calls of libraries without logic of the program's own.
\<close>

end
